(* ===== verification/Prelude.thy ===== *)
theory Prelude imports Complex_Main "HOL-Library.Word" "HOL-Library.Sublist" begin

text \<open>
  Shared ground of the development.

  Python values: bytes are lists of 8-bit words, text is \<open>string\<close> (the code's texts that the
  model looks into are ASCII), exceptions are the values of \<open>exc\<close> and a function that may raise
  returns \<open>exc + 'a\<close>.  A Python \<open>set\<close> whose members are enumerated is a list without duplicates
  (\<open>set_add\<close> keeps it so), a \<open>dict\<close> whose order is observable is an association list in
  insertion order (\<open>dict_put\<close> overwrites in place or appends, as CPython does).

  The lemmas are generic facts about these, declared to the simplifier or, for the invariants of
  methods that change a state, put in the collection \<open>keeping\<close>.
\<close>

named_theorems keeping \<open>actions that keep an invariant\<close>

section \<open>Exceptions\<close>

datatype exc =
    KeyError
  | IndexError
  | ValueError
  | TypeError
  | AttributeError
  | StopIteration
  | NameError
  | RuntimeError string

type_synonym 'a result = "exc + 'a"

definition rbind :: "'e + 'a \<Rightarrow> ('a \<Rightarrow> 'e + 'b) \<Rightarrow> 'e + 'b" where
  "rbind r k = (case r of Inl e \<Rightarrow> Inl e | Inr x \<Rightarrow> k x)"

lemma rbind_simps [simp]: "rbind (Inl e) k = Inl e" "rbind (Inr x) k = k x"
  by (simp_all add: rbind_def)

lemma rbind_cong [fundef_cong]:
  "r = r' \<Longrightarrow> (\<And>x. r' = Inr x \<Longrightarrow> k x = k' x) \<Longrightarrow> rbind r k = rbind r' k'"
  by (cases r') auto

lemma rbind_eq_Inr [simp]: "rbind r k = Inr y \<longleftrightarrow> (\<exists>x. r = Inr x \<and> k x = Inr y)"
  by (cases r) auto

lemma rbind_eq_Inl [simp]:
  "rbind r k = Inl e \<longleftrightarrow> r = Inl e \<or> (\<exists>x. r = Inr x \<and> k x = Inl e)"
  by (cases r) auto

lemma rbind_Inr [simp]: "rbind r Inr = r"
  by (cases r) auto

lemma rbind_assoc: "rbind (rbind r k) h = rbind r (\<lambda>x. rbind (k x) h)"
  by (cases r) auto

text \<open>A \<open>for\<close> loop whose body may raise: the first exception ends it.\<close>

fun rfold :: "('b \<Rightarrow> 'a \<Rightarrow> 'e + 'b) \<Rightarrow> 'b \<Rightarrow> 'a list \<Rightarrow> 'e + 'b" where
  "rfold f s [] = Inr s"
| "rfold f s (x # xs) = rbind (f s x) (\<lambda>s'. rfold f s' xs)"

lemma rfold_append: "rfold f s (xs @ ys) = rbind (rfold f s xs) (\<lambda>s'. rfold f s' ys)"
  by (induction xs arbitrary: s) (auto simp: rbind_assoc)

lemma rfold_invariant:
  assumes "rfold f s xs = Inr s'" and "I s"
    and "\<And>t x t'. x \<in> set xs \<Longrightarrow> I t \<Longrightarrow> f t x = Inr t' \<Longrightarrow> I t'"
  shows "I s'"
  using assms by (induction xs arbitrary: s) auto

text \<open>A comprehension whose element expression may raise.\<close>

fun rmap :: "('a \<Rightarrow> 'e + 'b) \<Rightarrow> 'a list \<Rightarrow> 'e + 'b list" where
  "rmap f [] = Inr []"
| "rmap f (x # xs) = rbind (f x) (\<lambda>y. rbind (rmap f xs) (\<lambda>ys. Inr (y # ys)))"

lemma rmap_Inr_map: "(\<And>x. x \<in> set xs \<Longrightarrow> f x = Inr (g x)) \<Longrightarrow> rmap f xs = Inr (map g xs)"
  by (induction xs) auto

lemma rmap_InrD: "rmap f xs = Inr ys \<Longrightarrow> length ys = length xs \<and> (\<forall>i < length xs. f (xs ! i) = Inr (ys ! i))"
proof (induction xs arbitrary: ys)
  case (Cons x xs)
  then obtain y zs where "ys = y # zs" "f x = Inr y" "rmap f xs = Inr zs" by auto
  with Cons.IH[of zs] show ?case by (auto simp: nth_Cons split: nat.splits)
qed simp

lemma rmap_eq_iff:
  "rmap f xs = Inr ys \<Longrightarrow> rmap g xs = Inr zs \<Longrightarrow>
     (ys = zs) = (\<forall>x \<in> set xs. f x = g x)"
proof (induction xs arbitrary: ys zs)
  case (Cons x xs)
  then obtain y ys' z zs' where
    "ys = y # ys'" "f x = Inr y" "rmap f xs = Inr ys'"
    "zs = z # zs'" "g x = Inr z" "rmap g xs = Inr zs'" by auto
  with Cons.IH[of ys' zs'] show ?case by auto
qed simp

text \<open>
  Methods that change the state and may raise: the state reached when an exception is raised is
  part of the result, because the code does not roll back.
\<close>

type_synonym ('e, 's, 'a) action = "'s \<Rightarrow> ('e + 'a) \<times> 's"

definition sret :: "'a \<Rightarrow> ('e, 's, 'a) action" where
  "sret x s = (Inr x, s)"

definition slift :: "'e + 'a \<Rightarrow> ('e, 's, 'a) action" where
  "slift r s = (r, s)"

definition sbind :: "('e, 's, 'a) action \<Rightarrow> ('a \<Rightarrow> ('e, 's, 'b) action) \<Rightarrow> ('e, 's, 'b) action" where
  "sbind m k s = (case m s of (Inl e, s') \<Rightarrow> (Inl e, s') | (Inr x, s') \<Rightarrow> k x s')"

definition sget :: "('s \<Rightarrow> 'a) \<Rightarrow> ('e, 's, 'a) action" where
  "sget f s = (Inr (f s), s)"

definition smodify :: "('s \<Rightarrow> 's) \<Rightarrow> ('e, 's, unit) action" where
  "smodify f s = (Inr (), f s)"

fun sfor :: "('a \<Rightarrow> ('e, 's, unit) action) \<Rightarrow> 'a list \<Rightarrow> ('e, 's, unit) action" where
  "sfor f [] s = (Inr (), s)"
| "sfor f (x # xs) s = sbind (f x) (\<lambda>_. sfor f xs) s"

lemmas action_defs = sret_def slift_def sbind_def sget_def smodify_def

text \<open>\<open>try\<close> with an \<open>except Exception\<close> that answers a constant.\<close>

definition sattempt :: "'a \<Rightarrow> ('e, 's, 'a) action \<Rightarrow> ('e, 's, 'a) action" where
  "sattempt d m s = (case m s of (Inl e, s') \<Rightarrow> (Inr d, s') | (Inr x, s') \<Rightarrow> (Inr x, s'))"

lemma sfor_append: "sfor f (xs @ ys) s = sbind (sfor f xs) (\<lambda>_. sfor f ys) s"
  by (induction xs arbitrary: s) (auto simp: sbind_def split: prod.splits sum.splits)

text \<open>A loop keeps what each round keeps, and does not raise if no round does.\<close>

lemma sfor_invariant:
  assumes "I s" and "\<And>x t. x \<in> set xs \<Longrightarrow> I t \<Longrightarrow> I (snd (f x t))"
  shows "I (snd (sfor f xs s))"
  using assms
proof (induction xs arbitrary: s)
  case (Cons x xs)
  then have "I (snd (f x s))" by simp
  with Cons show ?case by (cases "f x s") (auto simp: sbind_def split: sum.splits)
qed simp

lemma sfor_total:
  assumes "I 0 s"
    and "\<And>i t. i < length xs \<Longrightarrow> I i t \<Longrightarrow> \<exists>t'. f (xs ! i) t = (Inr (), t') \<and> I (Suc i) t'"
  shows "\<exists>t'. sfor f xs s = (Inr (), t') \<and> I (length xs) t'"
  using assms
proof (induction xs arbitrary: s I)
  case (Cons x xs)
  from Cons.prems(2)[of 0 s] Cons.prems(1) obtain t where t: "f x s = (Inr (), t)" "I (Suc 0) t"
    by auto
  have "\<exists>t'. sfor f xs t = (Inr (), t') \<and> I (Suc (length xs)) t'"
    using Cons.IH[of "\<lambda>i. I (Suc i)" t] t(2) Cons.prems(2)[of "Suc _"] by auto
  with t(1) show ?case by (auto simp: sbind_def)
qed simp

text \<open>What each round establishes and later rounds keep holds at the end for every element.\<close>

lemma sfor_collect:
  assumes "I s" and "\<And>t. R t t" and "\<And>t u v. R t u \<Longrightarrow> R u v \<Longrightarrow> R t v"
    and "\<And>x t t'. Q x t \<Longrightarrow> R t t' \<Longrightarrow> Q x t'"
    and "\<And>x t. x \<in> set xs \<Longrightarrow> I t \<Longrightarrow> \<exists>t'. f x t = (Inr (), t') \<and> I t' \<and> R t t' \<and> Q x t'"
  shows "\<exists>t'. sfor f xs s = (Inr (), t') \<and> I t' \<and> R s t' \<and> (\<forall>x \<in> set xs. Q x t')"
  using assms(1,5)
proof (induction xs arbitrary: s)
  case Nil
  then show ?case using assms(2) by simp
next
  case (Cons x xs)
  from Cons.prems(2)[of x s] Cons.prems(1) obtain t where
    t: "f x s = (Inr (), t)" "I t" "R s t" "Q x t" by auto
  have "\<exists>t'. sfor f xs t = (Inr (), t') \<and> I t' \<and> R t t' \<and> (\<forall>x \<in> set xs. Q x t')"
    by (rule Cons.IH[OF t(2)]) (use Cons.prems(2) in simp)
  then obtain t' where "sfor f xs t = (Inr (), t')" "I t'" "R t t'" "\<forall>x \<in> set xs. Q x t'" by auto
  with t assms(3)[OF t(3)] assms(4)[OF t(4)] show ?case by (simp add: sbind_def)
qed

section \<open>Invariants of actions\<close>

text \<open>
  \<open>yields I m Q\<close>: from a state in \<open>I\<close> the action ends in one, whether it raises or not, and what it
  returns satisfies \<open>Q\<close>; \<open>keeps I m\<close> says nothing of the returned value.
\<close>

definition yields :: "('s \<Rightarrow> bool) \<Rightarrow> ('e, 's, 'a) action \<Rightarrow> ('a \<Rightarrow> bool) \<Rightarrow> bool" where
  "yields I m Q \<longleftrightarrow> (\<forall>s. I s \<longrightarrow> I (snd (m s)) \<and> (case fst (m s) of Inl _ \<Rightarrow> True | Inr x \<Rightarrow> Q x))"

definition keeps :: "('s \<Rightarrow> bool) \<Rightarrow> ('e, 's, 'a) action \<Rightarrow> bool" where
  "keeps I m \<longleftrightarrow> (\<forall>s. I s \<longrightarrow> I (snd (m s)))"

lemma keeps_yields: "keeps I m \<longleftrightarrow> yields I m (\<lambda>_. True)"
  by (simp add: keeps_def yields_def split: sum.split)

lemma yields_keeps: "keeps I m \<Longrightarrow> (\<And>x. Q x) \<Longrightarrow> yields I m Q"
  by (simp add: keeps_def yields_def split: sum.split)

lemma yieldsD: "yields I m Q \<Longrightarrow> m s = (r, t) \<Longrightarrow> I s \<Longrightarrow> I t \<and> (case r of Inl _ \<Rightarrow> True | Inr x \<Rightarrow> Q x)"
  unfolding yields_def by (metis fst_conv snd_conv)

lemma keepsD: "keeps I m \<Longrightarrow> m s = (r, t) \<Longrightarrow> I s \<Longrightarrow> I t"
  by (metis keeps_def snd_conv)

lemma yields_weaken: "yields I m Q \<Longrightarrow> (\<And>x. Q x \<Longrightarrow> R x) \<Longrightarrow> yields I m R"
  by (auto simp: yields_def split: sum.splits)

lemma yieldsI:
  "(\<And>s r t. I s \<Longrightarrow> m s = (r, t) \<Longrightarrow> I t \<and> (case r of Inl _ \<Rightarrow> True | Inr x \<Rightarrow> Q x)) \<Longrightarrow> yields I m Q"
  unfolding yields_def by (metis prod.collapse)

lemma yields_sbind:
  assumes "yields I m Q" "\<And>x. Q x \<Longrightarrow> yields I (k x) R"
  shows "yields I (sbind m k) R"
proof (rule yieldsI)
  fix s r t assume "I s" and e: "sbind m k s = (r, t)"
  obtain r1 s1 where m: "m s = (r1, s1)" by force
  note D = yieldsD[OF assms(1) m \<open>I s\<close>]
  show "I t \<and> (case r of Inl _ \<Rightarrow> True | Inr x \<Rightarrow> R x)"
  proof (cases r1)
    case (Inl a)
    with e m D show ?thesis by (auto simp: sbind_def)
  next
    case (Inr x)
    with e m have "k x s1 = (r, t)" by (simp add: sbind_def)
    with yieldsD[OF assms(2) this] D Inr show ?thesis by simp
  qed
qed

lemma yields_then: "keeps I m \<Longrightarrow> (\<And>x. yields I (k x) R) \<Longrightarrow> yields I (sbind m k) R"
  unfolding keeps_yields by (rule yields_sbind)

lemma yields_sret: "Q x \<Longrightarrow> yields I (sret x) Q"
  by (simp add: yields_def sret_def)

lemma yields_slift: "(\<And>x. r = Inr x \<Longrightarrow> Q x) \<Longrightarrow> yields I (slift r) Q"
  by (simp add: yields_def slift_def split: sum.split)

lemma yields_sget: "(\<And>s. I s \<Longrightarrow> Q (f s)) \<Longrightarrow> yields I (sget f) Q"
  by (simp add: yields_def sget_def)

lemma yields_sattempt: "yields I m Q \<Longrightarrow> Q d \<Longrightarrow> yields I (sattempt d m) Q"
  by (auto simp: yields_def sattempt_def split: prod.split sum.split)

lemma yields_option:
  "(c = None \<Longrightarrow> yields I a Q) \<Longrightarrow> (\<And>x. c = Some x \<Longrightarrow> yields I (b x) Q) \<Longrightarrow>
     yields I (case c of None \<Rightarrow> a | Some x \<Rightarrow> b x) Q"
  by (simp split: option.split)

lemma yields_if: "(c \<Longrightarrow> yields I a Q) \<Longrightarrow> (\<not> c \<Longrightarrow> yields I b Q) \<Longrightarrow> yields I (if c then a else b) Q"
  by simp

lemma keeps_sbind [keeping]: "keeps I m \<Longrightarrow> (\<And>x. keeps I (k x)) \<Longrightarrow> keeps I (sbind m k)"
  by (auto simp: keeps_yields intro: yields_sbind)

lemma keeps_basic [keeping]: "keeps I (sret x)" "keeps I (slift r)" "keeps I (sget f)"
  by (simp_all add: keeps_def action_defs)

lemma keeps_smodify: "(\<And>s. I s \<Longrightarrow> I (f s)) \<Longrightarrow> keeps I (smodify f)"
  by (simp add: keeps_def action_defs)

lemma keeps_sattempt [keeping]: "keeps I m \<Longrightarrow> keeps I (sattempt d m)"
  by (auto simp: keeps_yields intro: yields_sattempt)

lemma keeps_if [keeping]: "keeps I a \<Longrightarrow> keeps I b \<Longrightarrow> keeps I (if c then a else b)"
  by simp

lemma keeps_option [keeping]:
  "keeps I a \<Longrightarrow> (\<And>x. keeps I (b x)) \<Longrightarrow> keeps I (case c of None \<Rightarrow> a | Some x \<Rightarrow> b x)"
  by (simp split: option.split)

lemma keeps_prod [keeping]: "(\<And>x y. keeps I (f x y)) \<Longrightarrow> keeps I (case c of (x, y) \<Rightarrow> f x y)"
  by (simp split: prod.split)

lemma keeps_prod3 [keeping]: "(\<And>x y z. keeps I (f x y z)) \<Longrightarrow> keeps I (case c of (x, y, z) \<Rightarrow> f x y z)"
  by (simp split: prod.split)

lemma sbind_InrE:
  assumes "sbind m k s = (Inr y, s')"
  obtains x t where "m s = (Inr x, t)" "k x t = (Inr y, s')"
  using assms by (auto simp: sbind_def split: prod.splits sum.splits)

text \<open>\<open>ends I m E Q\<close> also says what an exception of the action satisfies.\<close>

definition ends :: "('s \<Rightarrow> bool) \<Rightarrow> ('e, 's, 'a) action \<Rightarrow> ('e \<Rightarrow> bool) \<Rightarrow> ('a \<Rightarrow> bool) \<Rightarrow> bool" where
  "ends I m E Q \<longleftrightarrow> (\<forall>s. I s \<longrightarrow> I (snd (m s)) \<and> (case fst (m s) of Inl e \<Rightarrow> E e | Inr x \<Rightarrow> Q x))"

lemma endsD: "ends I m E Q \<Longrightarrow> m s = (r, t) \<Longrightarrow> I s \<Longrightarrow> I t \<and> (case r of Inl e \<Rightarrow> E e | Inr x \<Rightarrow> Q x)"
  unfolding ends_def by (metis fst_conv snd_conv)

lemma endsI:
  "(\<And>s r t. I s \<Longrightarrow> m s = (r, t) \<Longrightarrow> I t \<and> (case r of Inl e \<Rightarrow> E e | Inr x \<Rightarrow> Q x)) \<Longrightarrow> ends I m E Q"
  unfolding ends_def by (metis prod.collapse)

lemma ends_keeps: "ends I m E Q \<Longrightarrow> keeps I m"
  by (simp add: ends_def keeps_def)

lemma keeps_ends: "keeps I m \<Longrightarrow> ends I m (\<lambda>_. True) (\<lambda>_. True)"
  by (simp add: ends_def keeps_def split: sum.split)

lemma ends_weaken:
  "ends I m E Q \<Longrightarrow> (\<And>e. E e \<Longrightarrow> E' e) \<Longrightarrow> (\<And>x. Q x \<Longrightarrow> R x) \<Longrightarrow> ends I m E' R"
  by (auto simp: ends_def split: sum.splits)

lemma ends_sbind:
  assumes "ends I m E Q" "\<And>x. Q x \<Longrightarrow> ends I (k x) E R"
  shows "ends I (sbind m k) E R"
proof (rule endsI)
  fix s r t assume "I s" and e: "sbind m k s = (r, t)"
  obtain r1 s1 where m: "m s = (r1, s1)" by force
  note D = endsD[OF assms(1) m \<open>I s\<close>]
  show "I t \<and> (case r of Inl e \<Rightarrow> E e | Inr x \<Rightarrow> R x)"
  proof (cases r1)
    case (Inl a)
    with e m D show ?thesis by (auto simp: sbind_def)
  next
    case (Inr x)
    with e m have "k x s1 = (r, t)" by (simp add: sbind_def)
    with endsD[OF assms(2) this] D Inr show ?thesis by simp
  qed
qed

lemma ends_sret: "Q x \<Longrightarrow> ends I (sret x) E Q"
  by (simp add: ends_def sret_def)

lemma ends_slift: "(case r of Inl e \<Rightarrow> E e | Inr x \<Rightarrow> Q x) \<Longrightarrow> ends I (slift r) E Q"
  by (simp add: ends_def slift_def)

lemma ends_sget: "(\<And>s. I s \<Longrightarrow> Q (f s)) \<Longrightarrow> ends I (sget f) E Q"
  by (simp add: ends_def sget_def)

lemma ends_smodify: "(\<And>s. I s \<Longrightarrow> I (f s)) \<Longrightarrow> Q () \<Longrightarrow> ends I (smodify f) E Q"
  by (simp add: ends_def smodify_def)

lemma ends_sattempt: "ends I m (\<lambda>_. True) Q \<Longrightarrow> Q d \<Longrightarrow> ends I (sattempt d m) E Q"
  by (auto simp: ends_def sattempt_def split: prod.split sum.split)

lemma ends_if: "(c \<Longrightarrow> ends I a E Q) \<Longrightarrow> (\<not> c \<Longrightarrow> ends I b E Q) \<Longrightarrow> ends I (if c then a else b) E Q"
  by simp

lemma ends_option:
  "(c = None \<Longrightarrow> ends I a E Q) \<Longrightarrow> (\<And>x. c = Some x \<Longrightarrow> ends I (b x) E Q) \<Longrightarrow>
     ends I (case c of None \<Rightarrow> a | Some x \<Rightarrow> b x) E Q"
  by (simp split: option.split)

lemma ends_prod: "(\<And>x y. c = (x, y) \<Longrightarrow> ends I (f x y) E Q) \<Longrightarrow> ends I (case c of (x, y) \<Rightarrow> f x y) E Q"
  by (simp split: prod.split)

section \<open>Searching loops\<close>

text \<open>A loop that returns at the first element with an answer.\<close>

fun rfind :: "('a \<Rightarrow> 'e + 'b option) \<Rightarrow> 'a list \<Rightarrow> 'e + 'b option" where
  "rfind f [] = Inr None"
| "rfind f (x # xs) = rbind (f x) (\<lambda>r. case r of None \<Rightarrow> rfind f xs | Some y \<Rightarrow> Inr (Some y))"

lemma rfind_cong [fundef_cong]:
  "xs = ys \<Longrightarrow> (\<And>x. x \<in> set ys \<Longrightarrow> f x = g x) \<Longrightarrow> rfind f xs = rfind g ys"
proof -
  have "(\<And>x. x \<in> set ys \<Longrightarrow> f x = g x) \<Longrightarrow> rfind f ys = rfind g ys"
    by (induction ys) (auto intro: rbind_cong split: option.splits)
  then show "xs = ys \<Longrightarrow> (\<And>x. x \<in> set ys \<Longrightarrow> f x = g x) \<Longrightarrow> rfind f xs = rfind g ys" by simp
qed

lemma rfind_total:
  "(\<And>x. x \<in> set xs \<Longrightarrow> \<exists>r. f x = Inr r) \<Longrightarrow> \<exists>r. rfind f xs = Inr r"
proof (induction xs)
  case (Cons x xs)
  from Cons.prems[of x] obtain r where "f x = Inr r" by auto
  with Cons show ?case by (cases r) auto
qed simp

lemma rfind_Some: "rfind f xs = Inr (Some y) \<Longrightarrow> \<exists>x \<in> set xs. f x = Inr (Some y)"
  by (induction xs) (auto split: option.splits)

lemma rfind_None: "rfind f xs = Inr None \<longleftrightarrow> (\<forall>x \<in> set xs. f x = Inr None)"
  by (induction xs) (auto split: option.splits)

section \<open>Sets and dictionaries in insertion order\<close>

definition set_add :: "'a \<Rightarrow> 'a list \<Rightarrow> 'a list" where
  "set_add x xs = (if x \<in> set xs then xs else xs @ [x])"

lemma set_set_add [simp]: "set (set_add x xs) = insert x (set xs)"
  by (auto simp: set_add_def)

lemma distinct_set_add [simp]: "distinct (set_add x xs) = distinct xs"
  by (auto simp: set_add_def)

lemma set_add_nonempty [simp]: "set_add x xs \<noteq> []"
  by (auto simp: set_add_def)

lemma length_set_add: "length (set_add x xs) = (if x \<in> set xs then length xs else Suc (length xs))"
  by (simp add: set_add_def)

definition py_set :: "'a list \<Rightarrow> 'a list" where
  "py_set xs = foldl (\<lambda>s x. set_add x s) [] xs"

lemma foldl_set_add: "set (foldl (\<lambda>s x. set_add x s) s xs) = set s \<union> set xs"
  and foldl_set_add_distinct: "distinct s \<Longrightarrow> distinct (foldl (\<lambda>s x. set_add x s) s xs)"
  by (induction xs arbitrary: s) auto

lemma set_py_set [simp]: "set (py_set xs) = set xs"
  by (simp add: py_set_def foldl_set_add)

lemma distinct_py_set [simp]: "distinct (py_set xs)"
  by (simp add: py_set_def foldl_set_add_distinct)

lemma length_py_set: "length (py_set xs) = card (set xs)"
  by (metis distinct_card distinct_py_set set_py_set)

type_synonym ('k, 'v) dict = "('k \<times> 'v) list"

fun dict_put :: "'k \<Rightarrow> 'v \<Rightarrow> ('k, 'v) dict \<Rightarrow> ('k, 'v) dict" where
  "dict_put k v [] = [(k, v)]"
| "dict_put k v ((k', v') # d) = (if k = k' then (k, v) # d else (k', v') # dict_put k v d)"

definition dict_setdefault :: "'k \<Rightarrow> 'v \<Rightarrow> ('k, 'v) dict \<Rightarrow> ('k, 'v) dict" where
  "dict_setdefault k v d = (case map_of d k of None \<Rightarrow> d @ [(k, v)] | Some _ \<Rightarrow> d)"

definition dict_pop :: "'k \<Rightarrow> ('k, 'v) dict \<Rightarrow> ('k, 'v) dict" where
  "dict_pop k d = filter (\<lambda>p. fst p \<noteq> k) d"

definition dict_index :: "('k, 'v) dict \<Rightarrow> 'k \<Rightarrow> 'v result" where
  "dict_index d k = (case map_of d k of None \<Rightarrow> Inl KeyError | Some v \<Rightarrow> Inr v)"

lemma map_of_dict_put [simp]: "map_of (dict_put k v d) = (map_of d)(k \<mapsto> v)"
  by (induction k v d rule: dict_put.induct) (auto simp: fun_eq_iff)

lemma keys_dict_put: "map fst (dict_put k v d) = set_add k (map fst d)"
  by (induction k v d rule: dict_put.induct) (auto simp: set_add_def)

lemma distinct_dict_put [simp]: "distinct (map fst (dict_put k v d)) = distinct (map fst d)"
  by (simp add: keys_dict_put)

lemma set_keys_dict_put [simp]: "fst ` set (dict_put k v d) = insert k (fst ` set d)"
  using arg_cong[OF keys_dict_put, of set k v d] by simp

lemma map_of_dict_setdefault:
  "map_of (dict_setdefault k v d) =
     (if map_of d k = None then (map_of d)(k \<mapsto> v) else map_of d)"
  by (auto simp: dict_setdefault_def fun_eq_iff map_add_def split: option.splits)

lemma distinct_dict_setdefault [simp]:
  "distinct (map fst (dict_setdefault k v d)) = distinct (map fst d)"
  by (auto simp: dict_setdefault_def map_of_eq_None_iff split: option.splits)

lemma map_of_filter_key: "map_of (filter (\<lambda>p. fst p \<noteq> k) d) = (map_of d)(k := None)"
  by (induction d) (auto simp: fun_eq_iff)

lemma map_of_dict_pop [simp]: "map_of (dict_pop k d) = (map_of d)(k := None)"
  by (simp add: dict_pop_def map_of_filter_key)

lemma distinct_dict_pop: "distinct (map fst d) \<Longrightarrow> distinct (map fst (dict_pop k d))"
  by (auto simp: dict_pop_def distinct_map inj_on_def)

lemma dict_index_Inr [simp]: "dict_index d k = Inr v \<longleftrightarrow> map_of d k = Some v"
  by (auto simp: dict_index_def split: option.splits)

lemma dict_index_hit: "map_of d k = Some v \<Longrightarrow> dict_index d k = Inr v"
  by simp

lemma dict_index_Inl [simp]: "dict_index d k = Inl e \<longleftrightarrow> map_of d k = None \<and> e = KeyError"
  by (auto simp: dict_index_def split: option.splits)

text \<open>A counter: \<open>d[k] = d.get(k, 0) + 1\<close>, and what it reads for an absent key.\<close>

definition dict_count :: "('k, nat) dict \<Rightarrow> 'k \<Rightarrow> nat" where
  "dict_count d k = (case map_of d k of None \<Rightarrow> 0 | Some n \<Rightarrow> n)"

definition dict_bump :: "'k \<Rightarrow> ('k, nat) dict \<Rightarrow> ('k, nat) dict" where
  "dict_bump k d = dict_put k (dict_count d k + 1) d"

lemma dict_count_bump [simp]: "dict_count (dict_bump k d) j = dict_count d j + (if j = k then 1 else 0)"
  by (simp add: dict_count_def dict_bump_def)

lemma dict_count_Nil [simp]: "dict_count [] k = 0"
  by (simp add: dict_count_def)

lemma keys_dict_bump [simp]: "fst ` set (dict_bump k d) = insert k (fst ` set d)"
  "distinct (map fst (dict_bump k d)) = distinct (map fst d)"
  by (simp_all add: dict_bump_def)

lemma length_dict_bump: "length (dict_bump k d) = (if k \<in> fst ` set d then length d else Suc (length d))"
proof -
  have "length (dict_bump k d) = length (set_add k (map fst d))"
    by (metis dict_bump_def keys_dict_put length_map)
  then show ?thesis by (simp add: length_set_add)
qed

lemma sum_dict_bump: "sum_list (map snd (dict_bump k d)) = Suc (sum_list (map snd d))"
proof -
  have "sum_list (map snd (dict_put k v d)) + dict_count d k = sum_list (map snd d) + v" for v
    by (induction k v d rule: dict_put.induct) (auto simp: dict_count_def)
  from this[of "dict_count d k + 1"] show ?thesis by (simp add: dict_bump_def)
qed

section \<open>Sequences\<close>

text \<open>\<open>xs[a:b]\<close> with non-negative bounds, and \<open>xs[-n:]\<close> with \<open>n\<close> at least 1.\<close>

definition py_slice :: "'a list \<Rightarrow> nat \<Rightarrow> nat \<Rightarrow> 'a list" where
  "py_slice xs a b = take (b - a) (drop a xs)"

definition last_n :: "nat \<Rightarrow> 'a list \<Rightarrow> 'a list" where
  "last_n n xs = drop (length xs - n) xs"

definition py_index :: "'a list \<Rightarrow> nat \<Rightarrow> 'a result" where
  "py_index xs i = (if i < length xs then Inr (xs ! i) else Inl IndexError)"

lemma py_slice_full [simp]: "py_slice xs 0 (length xs) = xs"
  by (simp add: py_slice_def)

lemma py_slice_empty [simp]: "py_slice xs a a = []"
  by (simp add: py_slice_def)

lemma length_py_slice: "b \<le> length xs \<Longrightarrow> length (py_slice xs a b) = b - a"
  by (simp add: py_slice_def)

lemma py_slice_append: "a \<le> b \<Longrightarrow> b \<le> c \<Longrightarrow> py_slice xs a b @ py_slice xs b c = py_slice xs a c"
  using take_add[of "b - a" "c - b" "drop a xs"] by (simp add: py_slice_def)

lemma nth_py_slice: "a + i < b \<Longrightarrow> b \<le> length xs \<Longrightarrow> py_slice xs a b ! i = xs ! (a + i)"
  by (simp add: py_slice_def)

lemma last_n_nonempty: "xs \<noteq> [] \<Longrightarrow> 0 < n \<Longrightarrow> last_n n xs \<noteq> []"
  by (simp add: last_n_def not_le)

lemma length_last_n: "length (last_n n xs) = min n (length xs)"
  by (simp add: last_n_def)

lemma last_last_n: "xs \<noteq> [] \<Longrightarrow> 0 < n \<Longrightarrow> last (last_n n xs) = last xs"
  using last_n_nonempty[of xs n] by (simp add: last_n_def)

lemma last_n_append: "length ys = n \<Longrightarrow> last_n n (xs @ ys) = ys"
  by (simp add: last_n_def)

lemma find_Some_upt:
  "find P [a..<b] = Some i \<Longrightarrow> a \<le> i \<and> i < b \<and> P i \<and> (\<forall>j. a \<le> j \<and> j < i \<longrightarrow> \<not> P j)"
proof -
  assume "find P [a..<b] = Some i"
  then obtain k where k: "k < b - a" "P (a + k)" "i = a + k" "\<forall>j < k. \<not> P (a + j)"
    by (auto simp: find_Some_iff)
  have "\<not> P j" if "a \<le> j" "j < i" for j
    using k(3) k(4)[rule_format, of "j - a"] that by simp
  with k show ?thesis by auto
qed

lemma find_None_upt: "find P [a..<b] = None \<longleftrightarrow> (\<forall>j. a \<le> j \<and> j < b \<longrightarrow> \<not> P j)"
  by (auto simp: find_None_iff)

section \<open>Bytes\<close>

type_synonym byte = "8 word"
type_synonym bytes = "byte list"

definition ascii :: "string \<Rightarrow> bytes" where
  "ascii s = map of_char s"

text \<open>\<open>bytes.find\<close>: the first position at or after \<open>from\<close> where \<open>pat\<close> stands.\<close>

definition find_sub :: "bytes \<Rightarrow> bytes \<Rightarrow> nat \<Rightarrow> nat option" where
  "find_sub data pat from =
     find (\<lambda>i. take (length pat) (drop i data) = pat) [from..<Suc (length data)]"

lemma find_sub_Some:
  assumes "find_sub data pat from = Some i"
  shows "from \<le> i" "i + length pat \<le> length data" "take (length pat) (drop i data) = pat"
proof -
  from find_Some_upt[OF assms[unfolded find_sub_def]]
  have f: "from \<le> i" "i < Suc (length data)" "take (length pat) (drop i data) = pat" by auto
  from f(3) have "length pat = min (length pat) (length data - i)"
    by (metis length_take length_drop min.commute)
  with f show "from \<le> i" "i + length pat \<le> length data" "take (length pat) (drop i data) = pat"
    by auto
qed

lemma find_sub_bounds:
  "find_sub data pat from = Some i \<Longrightarrow> from \<le> i \<and> i + length pat \<le> length data"
  using find_sub_Some by blast

definition has_sub :: "bytes \<Rightarrow> bytes \<Rightarrow> bool" where
  "has_sub data pat = (find_sub data pat 0 \<noteq> None)"

definition is_digit_b :: "byte \<Rightarrow> bool" where
  "is_digit_b b \<longleftrightarrow> 48 \<le> b \<and> b \<le> 57"

text \<open>The bytes class of white space: space, tab, newline, carriage return, form feed, vertical tab.\<close>

definition is_space_b :: "byte \<Rightarrow> bool" where
  "is_space_b b \<longleftrightarrow> b = 32 \<or> (9 \<le> b \<and> b \<le> 13)"

definition lower_b :: "byte \<Rightarrow> byte" where
  "lower_b b = (if 65 \<le> b \<and> b \<le> 90 then b + 32 else b)"

definition is_alnum_b :: "byte \<Rightarrow> bool" where
  "is_alnum_b b \<longleftrightarrow> is_digit_b b \<or> (65 \<le> b \<and> b \<le> 90) \<or> (97 \<le> b \<and> b \<le> 122)"

text \<open>\<open>int.from_bytes(b, 'big')\<close> and \<open>n.to_bytes(w, 'big')\<close>.\<close>

definition from_bytes_big :: "bytes \<Rightarrow> nat" where
  "from_bytes_big bs = foldl (\<lambda>n b. n * 256 + unat b) 0 bs"

fun to_bytes_big :: "nat \<Rightarrow> nat \<Rightarrow> bytes" where
  "to_bytes_big 0 n = []"
| "to_bytes_big (Suc w) n = to_bytes_big w (n div 256) @ [of_nat (n mod 256)]"

lemma length_to_bytes_big [simp]: "length (to_bytes_big w n) = w"
  by (induction w arbitrary: n) auto

lemma from_bytes_big_snoc: "from_bytes_big (bs @ [b]) = from_bytes_big bs * 256 + unat b"
  by (simp add: from_bytes_big_def)

lemma from_to_bytes_big: "n < 256 ^ w \<Longrightarrow> from_bytes_big (to_bytes_big w n) = n"
proof (induction w arbitrary: n)
  case 0
  then show ?case by (simp add: from_bytes_big_def)
next
  case (Suc w)
  then have "n div 256 < 256 ^ w" by (simp add: less_mult_imp_div_less mult.commute)
  with Suc.IH have "from_bytes_big (to_bytes_big w (n div 256)) = n div 256" by blast
  then show ?case by (simp add: from_bytes_big_snoc unat_of_nat)
qed

section \<open>Text\<close>

definition code_of :: "char \<Rightarrow> nat" where
  "code_of c = of_char c"

definition lower_c :: "char \<Rightarrow> char" where
  "lower_c c = (if 65 \<le> code_of c \<and> code_of c \<le> 90 then char_of (code_of c + 32) else c)"

definition upper_c :: "char \<Rightarrow> char" where
  "upper_c c = (if 97 \<le> code_of c \<and> code_of c \<le> 122 then char_of (code_of c - 32) else c)"

definition py_lower :: "string \<Rightarrow> string" where
  "py_lower s = map lower_c s"

definition is_digit_c :: "char \<Rightarrow> bool" where
  "is_digit_c c \<longleftrightarrow> 48 \<le> code_of c \<and> code_of c \<le> 57"

text \<open>The ASCII word characters: letters, digits and the underscore.\<close>

definition is_word_c :: "char \<Rightarrow> bool" where
  "is_word_c c \<longleftrightarrow> is_digit_c c \<or> c = CHR ''_'' \<or> (97 \<le> code_of (lower_c c) \<and> code_of (lower_c c) \<le> 122)"

text \<open>ASCII white space of \<open>str.strip\<close> and of the white-space class: 9 to 13, 28 to 31 and 32.\<close>

definition is_space_c :: "char \<Rightarrow> bool" where
  "is_space_c c \<longleftrightarrow> (let n = code_of c in n = 32 \<or> (9 \<le> n \<and> n \<le> 13) \<or> (28 \<le> n \<and> n \<le> 31))"

definition py_strip :: "string \<Rightarrow> string" where
  "py_strip s = rev (dropWhile is_space_c (rev (dropWhile is_space_c s)))"


text \<open>Decimal digits of a number, and \<open>f"{n:02d}"\<close>.\<close>

definition digit_c :: "nat \<Rightarrow> char" where
  "digit_c n = char_of (48 + n)"

fun show_nat :: "nat \<Rightarrow> string" where
  "show_nat n = (if n < 10 then [digit_c n] else show_nat (n div 10) @ [digit_c (n mod 10)])"

declare show_nat.simps [simp del]

definition read_nat :: "string \<Rightarrow> nat" where
  "read_nat s = foldl (\<lambda>n c. n * 10 + (code_of c - 48)) 0 s"

lemma code_digit_c: "n < 10 \<Longrightarrow> code_of (digit_c n) = 48 + n"
  by (simp add: code_of_def digit_c_def)

lemma read_nat_snoc: "read_nat (s @ [c]) = read_nat s * 10 + (code_of c - 48)"
  by (simp add: read_nat_def)

lemma read_show_nat [simp]: "read_nat (show_nat n) = n"
proof (induction n rule: show_nat.induct)
  case (1 n)
  then show ?case
    by (subst show_nat.simps) (auto simp: read_nat_snoc code_digit_c read_nat_def)
qed

lemma show_nat_digits: "list_all is_digit_c (show_nat n)"
proof (induction n rule: show_nat.induct)
  case (1 n)
  have "is_digit_c (digit_c (n mod 10))" "n < 10 \<Longrightarrow> is_digit_c (digit_c n)"
    by (simp_all add: is_digit_c_def code_digit_c)
  with 1 show ?case by (subst show_nat.simps) auto
qed

definition pad2 :: "nat \<Rightarrow> string" where
  "pad2 n = (if n < 10 then ''0'' @ show_nat n else show_nat n)"

end
