(* ===== verification/Framing.thy ===== *)
theory Framing imports Prelude begin

text \<open>
  The response framing of \<open>voltron/executor/response_framing.py\<close>: one receive batch is split into
  the frames whose boundaries are explicit in the protocol (FTP/SMTP status lines with their
  multi-line replies, HTTP/SIP/RTSP header blocks with a content length, DAAP atoms), or kept whole.

  The regular expressions are written out as scanners over positions; each scanner's comment names
  the expression.  The locale \<open>frame_splitter\<close> is the contract of a splitter towards its callers
  (no byte of the batch is lost, repeated or reordered); every splitter of the module interprets it.
\<close>

section \<open>Frames\<close>

record response_frame =
  fr_data :: bytes
  offset_start :: nat
  offset_end :: nat
  framing_status :: string
  framing_error :: "string option"

text \<open>The constructor with the defaults of its last two fields.\<close>

definition mk_frame :: "bytes \<Rightarrow> nat \<Rightarrow> nat \<Rightarrow> response_frame" where
  "mk_frame d a b = \<lparr>fr_data = d, offset_start = a, offset_end = b,
     framing_status = ''framed'', framing_error = None\<rparr>"

lemma mk_frame_sel [simp]:
  "fr_data (mk_frame d a b) = d" "offset_start (mk_frame d a b) = a"
  "offset_end (mk_frame d a b) = b" "framing_status (mk_frame d a b) = ''framed''"
  "framing_error (mk_frame d a b) = None"
  by (simp_all add: mk_frame_def)

text \<open>
  The frames tile the batch from position \<open>a\<close> to position \<open>b\<close>; none is empty, unless the batch is.
\<close>

fun tiles :: "bytes \<Rightarrow> nat \<Rightarrow> response_frame list \<Rightarrow> nat \<Rightarrow> bool" where
  "tiles d a [] b \<longleftrightarrow> a = b"
| "tiles d a (f # fs) b \<longleftrightarrow>
     offset_start f = a \<and> a \<le> offset_end f \<and> (d = [] \<or> a < offset_end f) \<and> offset_end f \<le> length d \<and>
     fr_data f = py_slice d a (offset_end f) \<and> tiles d (offset_end f) fs b"

lemma tiles_append: "tiles d a (fs @ gs) c \<longleftrightarrow> (\<exists>b. tiles d a fs b \<and> tiles d b gs c)"
  by (induction fs arbitrary: a) auto

lemma tiles_snoc:
  "tiles d a fs b \<Longrightarrow> b < e \<Longrightarrow> e \<le> length d \<Longrightarrow> tiles d a (fs @ [mk_frame (py_slice d b e) b e]) e"
  by (auto simp: tiles_append)

lemma tiles_le: "tiles d a fs b \<Longrightarrow> a \<le> b"
  by (induction fs arbitrary: a) force+

lemma tiles_concat: "tiles d a fs b \<Longrightarrow> concat (map fr_data fs) = py_slice d a b"
proof (induction fs arbitrary: a)
  case (Cons f fs)
  then show ?case using tiles_le[of d "offset_end f" fs b] by (auto simp: py_slice_append)
qed simp

lemma tiles_whole: "tiles d 0 [mk_frame d 0 (length d)] (length d)"
  by simp

section \<open>FTP and SMTP replies\<close>

text \<open>The start of a line in a multi-line expression: the batch's start or after a newline.\<close>

definition line_start :: "bytes \<Rightarrow> nat \<Rightarrow> bool" where
  "line_start d p \<longleftrightarrow> p = 0 \<or> d ! (p - 1) = 10"

text \<open>\<open>_STATUS_LINE\<close>: three digits, then a space or a hyphen, at the start of a line.\<close>

definition status_at :: "bytes \<Rightarrow> nat \<Rightarrow> bool" where
  "status_at d p \<longleftrightarrow> p + 4 \<le> length d \<and> list_all is_digit_b (py_slice d p (p + 3)) \<and>
     (d ! (p + 3) = 32 \<or> d ! (p + 3) = 45)"

definition status_line_search :: "bytes \<Rightarrow> nat \<Rightarrow> nat option" where
  "status_line_search d from = find (\<lambda>p. line_start d p \<and> status_at d p) [from..<length d]"

text \<open>The terminator of a multi-line reply: the same code and a space at the start of a line.\<close>

definition terminator_at :: "bytes \<Rightarrow> bytes \<Rightarrow> nat \<Rightarrow> bool" where
  "terminator_at code d p \<longleftrightarrow> line_start d p \<and> take 4 (drop p d) = code @ [32]"

definition terminator_search :: "bytes \<Rightarrow> bytes \<Rightarrow> nat \<Rightarrow> nat option" where
  "terminator_search code d from = find (terminator_at code d) [from..<length d]"

text \<open>
  One round of the loop: the end of the reply that starts at the cursor, or \<open>None\<close> where the code
  leaves the loop.
\<close>

definition line_reply_end :: "bytes \<Rightarrow> nat \<Rightarrow> nat option" where
  "line_reply_end d cursor =
     (case status_line_search d cursor of
        None \<Rightarrow> None
      | Some m \<Rightarrow>
          if m > cursor then None
          else
            let code = py_slice d m (m + 3); delimiter = d ! (m + 3) in
            (case find_sub d [10] (m + 4) of
               None \<Rightarrow> None
             | Some line_end \<Rightarrow>
                 let end1 = line_end + 1 in
                 if delimiter = 45 then
                   (case terminator_search code d end1 of
                      None \<Rightarrow> None
                    | Some t \<Rightarrow>
                        (case find_sub d [10] (t + 4) of
                           None \<Rightarrow> None
                         | Some final_end \<Rightarrow> Some (final_end + 1)))
                 else Some end1))"

lemma line_reply_end_bounds:
  assumes "line_reply_end d c = Some e"
  shows "c + 4 < e" "e \<le> length d"
proof -
  from assms obtain m l where m: "status_line_search d c = Some m" "m \<le> c"
    and l: "find_sub d [10] (m + 4) = Some l"
    and e: "e = l + 1 \<or> (\<exists>t f. terminator_search (py_slice d m (m + 3)) d (l + 1) = Some t \<and>
              find_sub d [10] (t + 4) = Some f \<and> e = f + 1)"
    by (auto simp: line_reply_end_def Let_def split: option.splits if_splits)
  from m have cm: "c \<le> m" by (auto simp: status_line_search_def dest: find_Some_upt)
  note lb = find_sub_Some[OF l]
  have "c + 4 < e \<and> e \<le> length d"
  proof -
    from e show ?thesis
    proof
      assume "e = l + 1"
      with lb cm show ?thesis by auto
    next
      assume "\<exists>t f. terminator_search (py_slice d m (m + 3)) d (l + 1) = Some t \<and>
              find_sub d [10] (t + 4) = Some f \<and> e = f + 1"
      then obtain t f where t: "terminator_search (py_slice d m (m + 3)) d (l + 1) = Some t"
        and f: "find_sub d [10] (t + 4) = Some f" "e = f + 1" by auto
      from t have "l + 1 \<le> t" by (auto simp: terminator_search_def dest: find_Some_upt)
      with find_sub_Some[OF f(1)] f(2) lb cm show ?thesis by auto
    qed
  qed
  then show "c + 4 < e" "e \<le> length d" by auto
qed

function line_frames_loop :: "bytes \<Rightarrow> nat \<Rightarrow> response_frame list \<Rightarrow> nat \<times> response_frame list" where
  "line_frames_loop d cursor frames =
     (if cursor < length d then
        (case line_reply_end d cursor of
           None \<Rightarrow> (cursor, frames)
         | Some e \<Rightarrow> line_frames_loop d e (frames @ [mk_frame (py_slice d cursor e) cursor e]))
      else (cursor, frames))"
  by pat_completeness auto
termination
  by (relation "measure (\<lambda>(d, c, fs). length d - c)") (auto dest: line_reply_end_bounds)

declare line_frames_loop.simps [simp del]

definition line_protocol_frames :: "bytes \<Rightarrow> response_frame list" where
  "line_protocol_frames d =
     (let (cursor, frames) = line_frames_loop d 0 [] in
      if cursor < length d \<or> frames = [] then [mk_frame d 0 (length d)] else frames)"

section \<open>Header blocks with a content length\<close>

definition incomplete_content_length_frame :: "bytes \<Rightarrow> string \<Rightarrow> response_frame list" where
  "incomplete_content_length_frame d reason =
     [\<lparr>fr_data = d, offset_start = 0, offset_end = length d,
       framing_status = ''framing_incomplete'', framing_error = Some reason\<rparr>]"

text \<open>
  \<open>(?im)^content-length\s*:\s*(\d+)\s*$\<close> at one position.  White space and digits and the colon
  are disjoint classes, so each greedy run is the only way to match; the trailing run of white
  space may be cut short, so the line ends inside it (at a newline) or it reaches the end.
\<close>

definition content_length_at :: "bytes \<Rightarrow> nat \<Rightarrow> bytes option" where
  "content_length_at h p =
     (let name = ascii ''content-length''; r = drop p h in
      if line_start h p \<and> map lower_b (take (length name) r) = name then
        (case dropWhile is_space_b (drop (length name) r) of
           [] \<Rightarrow> None
         | c # r1 \<Rightarrow>
             if c \<noteq> 58 then None
             else
               let r2 = dropWhile is_space_b r1;
                   ds = takeWhile is_digit_b r2;
                   r3 = dropWhile is_digit_b r2;
                   ws = takeWhile is_space_b r3 in
               if ds \<noteq> [] \<and> (10 \<in> set ws \<or> ws = r3) then Some ds else None)
      else None)"

definition content_length_search :: "bytes \<Rightarrow> bytes option" where
  "content_length_search h =
     (case find (\<lambda>p. content_length_at h p \<noteq> None) [0..<Suc (length h)] of
        None \<Rightarrow> None
      | Some p \<Rightarrow> content_length_at h p)"

text \<open>\<open>int(...)\<close> of a run of digits: CPython refuses more than 4300 of them with a ValueError.\<close>

definition digits_val :: "bytes \<Rightarrow> nat" where
  "digits_val ds = foldl (\<lambda>n b. n * 10 + (unat b - 48)) 0 ds"

definition py_int_digits :: "bytes \<Rightarrow> nat result" where
  "py_int_digits ds = (if length ds > 4300 then Inl ValueError else Inr (digits_val ds))"

datatype cl_step = Cut nat | Incomplete string

text \<open>One round of the loop: the end of the message at the cursor, or the early return.\<close>

definition content_length_end :: "bytes \<Rightarrow> nat \<Rightarrow> cl_step result" where
  "content_length_end d cursor =
     (let found =
        (case find_sub d [13, 10, 13, 10] cursor of
           Some h \<Rightarrow> Some (h, 4)
         | None \<Rightarrow> (case find_sub d [10, 10] cursor of Some h \<Rightarrow> Some (h, 2) | None \<Rightarrow> None)) in
      case found of
        None \<Rightarrow> Inr (Incomplete ''missing_header_terminator'')
      | Some (header_end, separator_size) \<Rightarrow>
          (case content_length_search (py_slice d cursor header_end) of
             None \<Rightarrow> Inr (Cut (header_end + separator_size))
           | Some ds \<Rightarrow>
               rbind (py_int_digits ds) (\<lambda>n.
                 let e = header_end + separator_size + n in
                 if e > length d
                 then Inr (Incomplete ''declared_content_length_exceeds_receive_batch'')
                 else Inr (Cut e))))"

lemma content_length_end_bounds:
  assumes "content_length_end d c = Inr (Cut e)"
  shows "c < e" "e \<le> length d"
  using assms
  by (auto simp: content_length_end_def Let_def split: option.splits if_splits
      dest!: find_sub_bounds)

function content_length_loop ::
    "bytes \<Rightarrow> nat \<Rightarrow> response_frame list \<Rightarrow> response_frame list result" where
  "content_length_loop d cursor frames =
     (if cursor < length d then
        (case content_length_end d cursor of
           Inl x \<Rightarrow> Inl x
         | Inr (Incomplete reason) \<Rightarrow> Inr (incomplete_content_length_frame d reason)
         | Inr (Cut e) \<Rightarrow>
             content_length_loop d e (frames @ [mk_frame (py_slice d cursor e) cursor e]))
      else if cursor < length d \<or> frames = []
      then Inr (incomplete_content_length_frame d ''trailing_data_without_complete_frame'')
      else Inr frames)"
  by pat_completeness auto
termination
  by (relation "measure (\<lambda>(d, c, fs). length d - c)") (auto dest: content_length_end_bounds)

declare content_length_loop.simps [simp del]

definition content_length_frames :: "bytes \<Rightarrow> response_frame list result" where
  "content_length_frames d = content_length_loop d 0 []"

section \<open>DAAP atoms\<close>

function daap_loop :: "bytes \<Rightarrow> nat \<Rightarrow> response_frame list \<Rightarrow> nat \<times> response_frame list" where
  "daap_loop d cursor frames =
     (if cursor + 8 \<le> length d then
        let n = from_bytes_big (py_slice d (cursor + 4) (cursor + 8)); e = cursor + 8 + n in
        if e > length d then (cursor, frames)
        else daap_loop d e (frames @ [mk_frame (py_slice d cursor e) cursor e])
      else (cursor, frames))"
  by pat_completeness auto
termination
  by (relation "measure (\<lambda>(d, c, fs). length d - c)") auto

declare daap_loop.simps [simp del]

definition daap_frames :: "bytes \<Rightarrow> response_frame list" where
  "daap_frames d =
     (let (cursor, frames) = daap_loop d 0 [] in
      if cursor < length d \<or> frames = [] then [mk_frame d 0 (length d)] else frames)"

section \<open>The dispatcher\<close>

definition split_response_frames :: "string \<Rightarrow> bytes \<Rightarrow> response_frame list result" where
  "split_response_frames protocol d =
     (let p = py_lower protocol in
      if p \<in> {''ftp'', ''smtp''} then Inr (line_protocol_frames d)
      else if p \<in> {''http'', ''sip'', ''rtsp''} then content_length_frames d
      else if p = ''daap'' then Inr (daap_frames d)
      else Inr [mk_frame d 0 (length d)])"

section \<open>The contract of a splitter\<close>

text \<open>
  A splitter may raise; when it returns, its frames tile the whole batch and there is at least one.
\<close>

locale frame_splitter =
  fixes split :: "bytes \<Rightarrow> response_frame list result"
  assumes split_tiles: "split d = Inr fs \<Longrightarrow> tiles d 0 fs (length d)"
    and split_nonempty: "split d = Inr fs \<Longrightarrow> fs \<noteq> []"
begin

lemma split_concat: "split d = Inr fs \<Longrightarrow> concat (map fr_data fs) = d"
  by (drule split_tiles, drule tiles_concat) simp

lemma split_offsets:
  assumes "split d = Inr fs" "f \<in> set fs"
  shows "offset_start f \<le> offset_end f \<and> offset_end f \<le> length d \<and>
    fr_data f = py_slice d (offset_start f) (offset_end f)"
proof -
  obtain xs ys where "fs = xs @ f # ys" using assms(2) by (meson split_list)
  with split_tiles[OF assms(1)] show ?thesis by (auto simp: tiles_append)
qed

lemma split_frame_nonempty:
  assumes "split d = Inr fs" "f \<in> set fs" "d \<noteq> []"
  shows "fr_data f \<noteq> []"
proof -
  obtain xs ys where "fs = xs @ f # ys" using assms(2) by (meson split_list)
  with split_tiles[OF assms(1)] assms(3) have "offset_start f < offset_end f" "offset_end f \<le> length d"
    by (auto simp: tiles_append)
  with split_offsets[OF assms(1,2)] show ?thesis by (auto simp: py_slice_def)
qed

lemma split_first_last:
  assumes "split d = Inr fs"
  shows "offset_start (hd fs) = 0 \<and> offset_end (last fs) = length d"
proof -
  from split_nonempty[OF assms] obtain f gs where "fs = f # gs" by (cases fs) auto
  moreover from split_nonempty[OF assms] have "fs = butlast fs @ [last fs]" by simp
  ultimately show ?thesis
    using split_tiles[OF assms] by (metis tiles.simps tiles_append list.sel(1))
qed

end

lemma line_frames_loop_tiles:
  "line_frames_loop d c fs = (c', fs') \<Longrightarrow> tiles d 0 fs c \<Longrightarrow> c \<le> length d \<Longrightarrow>
     tiles d 0 fs' c' \<and> c' \<le> length d"
proof (induction d c fs rule: line_frames_loop.induct)
  case (1 d c fs)
  show ?case
  proof (cases "c < length d \<and> line_reply_end d c \<noteq> None")
    case False
    with 1 show ?thesis by (auto simp: line_frames_loop.simps [of d c fs] split: if_splits)
  next
    case True
    then obtain e where e: "line_reply_end d c = Some e" by auto
    note b = line_reply_end_bounds[OF e]
    have "tiles d 0 (fs @ [mk_frame (py_slice d c e) c e]) e"
      using "1.prems" b by (intro tiles_snoc) auto
    with "1.IH"[OF _ e] "1.prems" True b e show ?thesis
      by (simp add: line_frames_loop.simps [of d c fs])
  qed
qed

lemma content_length_loop_tiles:
  "content_length_loop d c fs = Inr fs' \<Longrightarrow> tiles d 0 fs c \<Longrightarrow> c \<le> length d \<Longrightarrow>
     tiles d 0 fs' (length d) \<and> fs' \<noteq> []"
proof (induction d c fs rule: content_length_loop.induct)
  case (1 d c fs)
  consider "\<not> c < length d" | x where "c < length d" "content_length_end d c = Inl x"
    | r where "c < length d" "content_length_end d c = Inr (Incomplete r)"
    | e where "c < length d" "content_length_end d c = Inr (Cut e)"
    by (cases "content_length_end d c") (auto, metis cl_step.exhaust)
  then show ?case
  proof cases
    case (4 e)
    note b = content_length_end_bounds[OF 4(2)]
    have "tiles d 0 (fs @ [mk_frame (py_slice d c e) c e]) e"
      using "1.prems" b by (intro tiles_snoc) auto
    with "1.IH"[OF 4] "1.prems" 4 b show ?thesis
      by (simp add: content_length_loop.simps [of d c fs])
  qed (use "1.prems" in \<open>auto simp: content_length_loop.simps [of d c fs]
        content_length_loop.simps [of d "length d" fs] incomplete_content_length_frame_def split: if_splits\<close>)
qed

lemma daap_loop_tiles:
  "daap_loop d c fs = (c', fs') \<Longrightarrow> tiles d 0 fs c \<Longrightarrow> c \<le> length d \<Longrightarrow>
     tiles d 0 fs' c' \<and> c' \<le> length d"
proof (induction d c fs rule: daap_loop.induct)
  case (1 d c fs)
  let ?e = "c + 8 + from_bytes_big (py_slice d (c + 4) (c + 8))"
  show ?case
  proof (cases "c + 8 \<le> length d \<and> ?e \<le> length d")
    case False
    with "1.prems" show ?thesis
      by (auto simp: daap_loop.simps [of d c fs] Let_def split: if_splits)
  next
    case True
    have "tiles d 0 (fs @ [mk_frame (py_slice d c ?e) c ?e]) ?e"
      using "1.prems" True by (intro tiles_snoc) auto
    with "1.IH" "1.prems" True show ?thesis
      by (simp add: daap_loop.simps [of d c fs] Let_def)
  qed
qed

interpretation line_sp: frame_splitter "\<lambda>d. Inr (line_protocol_frames d)"
proof
  fix d fs assume "Inr (line_protocol_frames d) = (Inr fs :: response_frame list result)"
  then have fs: "fs = line_protocol_frames d" by simp
  obtain c' fs' where l: "line_frames_loop d 0 [] = (c', fs')" by fastforce
  from line_frames_loop_tiles[OF l] show "tiles d 0 fs (length d)" "fs \<noteq> []"
    by (auto simp: fs line_protocol_frames_def l)
qed

interpretation header_sp: frame_splitter content_length_frames
  by unfold_locales (auto simp: content_length_frames_def dest: content_length_loop_tiles)

interpretation daap_sp: frame_splitter "\<lambda>d. Inr (daap_frames d)"
proof
  fix d fs assume "Inr (daap_frames d) = (Inr fs :: response_frame list result)"
  then have fs: "fs = daap_frames d" by simp
  obtain c' fs' where l: "daap_loop d 0 [] = (c', fs')" by fastforce
  from daap_loop_tiles[OF l] show "tiles d 0 fs (length d)" "fs \<noteq> []"
    by (auto simp: fs daap_frames_def l)
qed

interpretation any_sp: frame_splitter "split_response_frames p" for p
proof
  fix d fs assume "split_response_frames p d = Inr fs"
  then show "tiles d 0 fs (length d)" "fs \<noteq> []"
    using line_sp.split_tiles[of d fs] line_sp.split_nonempty[of d fs]
      header_sp.split_tiles[of d fs] header_sp.split_nonempty[of d fs]
      daap_sp.split_tiles[of d fs] daap_sp.split_nonempty[of d fs]
    by (auto simp: split_response_frames_def Let_def split: if_splits)
qed

section \<open>What a cut reply looks like\<close>

text \<open>
  A reply that the loop cut out starts with a status line and ends at a newline; a multi-line
  reply holds its terminating line, whose newline is the reply's last byte.
\<close>

definition complete_reply :: "bytes \<Rightarrow> bool" where
  "complete_reply r \<longleftrightarrow> status_at r 0 \<and> last r = 10 \<and>
     (r ! 3 = 45 \<longrightarrow> (\<exists>p. 0 < p \<and> p + 4 < length r \<and> terminator_at (take 3 r) r p \<and>
        10 \<notin> set (py_slice r (p + 4) (length r - 1))))"

lemma line_start_slice: "c < p \<Longrightarrow> p \<le> e \<Longrightarrow> e \<le> length d \<Longrightarrow> line_start (py_slice d c e) (p - c) = line_start d p"
  using nth_py_slice[of c "p - c - 1" e d] by (auto simp: line_start_def)

lemma take_drop_slice:
  "p + n \<le> e \<Longrightarrow> c \<le> p \<Longrightarrow> take n (drop (p - c) (py_slice d c e)) = take n (drop p d)"
  by (auto simp: py_slice_def drop_take min_def)

lemma slice_slice: "c \<le> a \<Longrightarrow> b \<le> e \<Longrightarrow> py_slice (py_slice d c e) (a - c) (b - c) = py_slice d a b"
  by (auto simp: py_slice_def drop_take min_def)

lemma status_at_slice:
  assumes "status_at d c" "c + 4 \<le> e" "e \<le> length d"
  shows "status_at (py_slice d c e) 0" "py_slice d c e ! 3 = d ! (c + 3)"
    "take 3 (py_slice d c e) = py_slice d c (c + 3)"
proof -
  show 3: "py_slice d c e ! 3 = d ! (c + 3)" using assms nth_py_slice[of c 3 e d] by simp
  show "take 3 (py_slice d c e) = py_slice d c (c + 3)"
    using assms by (simp add: py_slice_def min_def)
  with 3 assms show "status_at (py_slice d c e) 0"
    by (simp add: status_at_def length_py_slice) (simp add: py_slice_def)
qed

lemma find_sub_byte_gap:
  assumes "find_sub d [x] a = Some i"
  shows "d ! i = x" "x \<notin> set (py_slice d a i)"
proof -
  note f = find_Some_upt[OF assms[unfolded find_sub_def]]
  from find_sub_Some[OF assms] have i: "i < length d" "a \<le> i" by auto
  have one: "take 1 (drop j d) = [d ! j]" if "j < length d" for j
    using that by (metis One_nat_def take_Suc_conv_app_nth take0 append_Nil Cons_nth_drop_Suc
        take_Suc_Cons)
  from f i one[of i] show "d ! i = x" by simp
  show "x \<notin> set (py_slice d a i)"
  proof
    assume "x \<in> set (py_slice d a i)"
    then obtain k where k: "k < i - a" "d ! (a + k) = x"
      using i by (auto simp: in_set_conv_nth length_py_slice nth_py_slice)
    then have "a + k < i" "a + k < length d" using i by auto
    with f one[of "a + k"] k(2) show False by (metis One_nat_def le_add1 length_Cons list.size(3))
  qed
qed

lemma line_reply_end_complete:
  assumes "line_reply_end d c = Some e"
  shows "complete_reply (py_slice d c e)"
proof -
  note b = line_reply_end_bounds[OF assms]
  from assms obtain l where s: "status_line_search d c = Some c"
    and l: "find_sub d [10] (c + 4) = Some l"
    and e: "if d ! (c + 3) = 45 then \<exists>t f. terminator_search (py_slice d c (c + 3)) d (l + 1) = Some t \<and>
              find_sub d [10] (t + 4) = Some f \<and> e = f + 1 else e = l + 1"
    by (auto simp: line_reply_end_def Let_def status_line_search_def
        split: option.splits if_splits dest!: find_Some_upt)
  from find_Some_upt[OF s[unfolded status_line_search_def]] have st: "status_at d c" by simp
  note sl = status_at_slice[OF st _ b(2)]
  have newline: "last (py_slice d c e) = 10"
    if "find_sub d [10] k = Some f" "c \<le> k" "e = f + 1" for k f
  proof -
    from find_sub_byte_gap[OF that(1)] find_sub_Some[OF that(1)] have "d ! f = 10" "k \<le> f" by auto
    moreover from b have "py_slice d c e \<noteq> []" by (auto simp: py_slice_def)
    ultimately show ?thesis
      using that b nth_py_slice[of c "f - c" e d] by (simp add: last_conv_nth length_py_slice)
  qed
  show ?thesis
  proof (cases "d ! (c + 3) = 45")
    case False
    with e l newline[of "c + 4" l] sl b show ?thesis by (simp add: complete_reply_def)
  next
    case True
    with e obtain t f where t: "terminator_search (py_slice d c (c + 3)) d (l + 1) = Some t"
      and f: "find_sub d [10] (t + 4) = Some f" "e = f + 1" by auto
    from find_Some_upt[OF t[unfolded terminator_search_def]]
    have ta: "terminator_at (py_slice d c (c + 3)) d t" "l + 1 \<le> t" by auto
    from find_sub_Some(1)[OF l] ta(2) have ct: "c + 4 < t" by simp
    from find_sub_Some(1)[OF f(1)] f(2) have te: "t + 4 < e" by simp
    have "terminator_at (take 3 (py_slice d c e)) (py_slice d c e) (t - c)"
      using ta(1) ct te b sl(3) line_start_slice[of c t e d] take_drop_slice[of t 4 e c d]
      by (simp add: terminator_at_def)
    moreover have "10 \<notin> set (py_slice (py_slice d c e) (t - c + 4) (length (py_slice d c e) - 1))"
    proof -
      have "py_slice (py_slice d c e) (t - c + 4) (length (py_slice d c e) - 1) = py_slice d (t + 4) f"
        using slice_slice[of c "t + 4" f e d] ct f(2) b by (simp add: length_py_slice)
      with find_sub_byte_gap[OF f(1)] show ?thesis by simp
    qed
    ultimately show ?thesis
      using newline[OF f(1) _ f(2)] sl b ct te
      by (auto simp: complete_reply_def length_py_slice intro!: exI[of _ "t - c"])
  qed
qed

lemma line_frames_loop_complete:
  "line_frames_loop d c fs = (c', fs') \<Longrightarrow> \<forall>f \<in> set fs. complete_reply (fr_data f) \<Longrightarrow>
     \<forall>f \<in> set fs'. complete_reply (fr_data f)"
proof (induction d c fs rule: line_frames_loop.induct)
  case (1 d c fs)
  then show ?case
    by (auto simp: line_frames_loop.simps [of d c fs] line_reply_end_complete
        split: if_splits option.splits)
qed

text \<open>
  So the frames of a batch are all complete replies, unless the batch was kept whole.
\<close>

lemma line_protocol_frames_complete:
  "line_protocol_frames d = [mk_frame d 0 (length d)] \<or>
     (\<forall>f \<in> set (line_protocol_frames d). complete_reply (fr_data f))"
  using line_frames_loop_complete[of d 0 "[]"]
  by (cases "line_frames_loop d 0 []") (auto simp: line_protocol_frames_def)

end
