(* ===== verification/Plausibility.thy ===== *)
theory Plausibility imports Framing begin

text \<open>
  The wire-shape checks of \<open>voltron/executor/response_plausibility.py\<close>, and what they say about the
  frames that the splitters of theory \<open>Framing\<close> cut out.
\<close>

section \<open>Classification\<close>

record response_plausibility =
  pl_status :: string
  pl_reason :: string

abbreviation plausibility :: "string \<Rightarrow> string \<Rightarrow> response_plausibility" where
  "plausibility s r \<equiv> \<lparr>pl_status = s, pl_reason = r\<rparr>"

definition not_eol :: "byte \<Rightarrow> bool" where
  "not_eol b \<longleftrightarrow> b \<noteq> 13 \<and> b \<noteq> 10"

text \<open>\<open>[^\r\n]*\r?\n\<close>: what follows the match, if there is one.\<close>

definition line_rest :: "bytes \<Rightarrow> bytes option" where
  "line_rest r =
     (let q = dropWhile not_eol r in
      if take 1 q = [10] then Some (drop 1 q)
      else if take 2 q = [13, 10] then Some (drop 2 q)
      else None)"

text \<open>\<open>_LINE_REPLY\<close>: the status line that opens the response.\<close>

definition line_reply_match :: "bytes \<Rightarrow> bool" where
  "line_reply_match r \<longleftrightarrow> status_at r 0 \<and> line_rest (drop 4 r) \<noteq> None"

text \<open>The last line of a multi-line reply, up to an end of line (\<open>$\<close> of a multi-line expression).\<close>

definition terminal_at :: "bytes \<Rightarrow> bytes \<Rightarrow> nat \<Rightarrow> bool" where
  "terminal_at code r p \<longleftrightarrow> terminator_at code r p \<and>
     (case line_rest (drop (p + 4) r) of None \<Rightarrow> False | Some q \<Rightarrow> q = [] \<or> hd q = 10)"

definition line_reply_plausibility :: "bytes \<Rightarrow> response_plausibility" where
  "line_reply_plausibility r =
     (if \<not> line_reply_match r then plausibility ''invalid'' ''invalid_status_line''
      else if last r \<noteq> 10 then plausibility ''invalid'' ''unterminated_status_line''
      else if r ! 3 = 45 \<and> find (terminal_at (take 3 r) r) [0..<length r] = None
      then plausibility ''invalid'' ''unterminated_multiline_reply''
      else plausibility ''valid'' ''status_line'')"

text \<open>White space, a three-digit code, then white space or the end.\<close>

definition status_tail :: "bytes \<Rightarrow> bool" where
  "status_tail r =
     (let r1 = dropWhile is_space_b r in
      takeWhile is_space_b r \<noteq> [] \<and> length (take 3 r1) = 3 \<and> list_all is_digit_b (take 3 r1) \<and>
      (drop 3 r1 = [] \<or> is_space_b (hd (drop 3 r1))))"

text \<open>\<open>_HTTP_STATUS\<close> and \<open>_RTSP_STATUS\<close>: a name, \<open>\d+\.\d+\<close>, and the tail.\<close>

definition version_status :: "bytes \<Rightarrow> bytes \<Rightarrow> bool" where
  "version_status magic r =
     (let n = length magic; r0 = drop n r; r1 = dropWhile is_digit_b r0 in
      take n r = magic \<and> takeWhile is_digit_b r0 \<noteq> [] \<and> take 1 r1 = [46] \<and>
      takeWhile is_digit_b (drop 1 r1) \<noteq> [] \<and> status_tail (dropWhile is_digit_b (drop 1 r1)))"

definition http_status :: "bytes \<Rightarrow> bool" where
  "http_status r = version_status (ascii ''HTTP/'') r"

definition rtsp_status :: "bytes \<Rightarrow> bool" where
  "rtsp_status r = version_status (ascii ''RTSP/'') r"

definition sip_status :: "bytes \<Rightarrow> bool" where
  "sip_status r \<longleftrightarrow> take 7 r = ascii ''SIP/2.0'' \<and> status_tail (drop 7 r)"

definition text_status_plausibility :: "bytes \<Rightarrow> (bytes \<Rightarrow> bool) \<Rightarrow> string \<Rightarrow> response_plausibility" where
  "text_status_plausibility r expression protocol =
     (if \<not> expression r then plausibility ''invalid'' (''invalid_'' @ protocol @ ''_status_line'')
      else if \<not> has_sub r [13, 10, 13, 10] \<and> \<not> has_sub r [10, 10]
      then plausibility ''invalid'' ''missing_header_terminator''
      else plausibility ''valid'' ''status_line'')"

definition daap_tag :: "bytes \<Rightarrow> bool" where
  "daap_tag t \<longleftrightarrow> length t = 4 \<and> list_all is_alnum_b t"

definition daap_plausibility :: "bytes \<Rightarrow> response_plausibility" where
  "daap_plausibility r =
     (if length r < 8 then plausibility ''invalid'' ''truncated_daap_header''
      else if \<not> daap_tag (take 4 r) then plausibility ''invalid'' ''invalid_daap_tag''
      else if from_bytes_big (py_slice r 4 8) \<noteq> length r - 8
      then plausibility ''invalid'' ''daap_length_mismatch''
      else plausibility ''valid'' ''daap_atom'')"

definition classify_response_plausibility :: "string \<Rightarrow> bytes \<Rightarrow> response_plausibility" where
  "classify_response_plausibility protocol r =
     (if r = [] then plausibility ''invalid'' ''empty_response''
      else
        let p = py_lower protocol in
        if p \<in> {''ftp'', ''smtp''} then line_reply_plausibility r
        else if p = ''http'' then text_status_plausibility r http_status p
        else if p = ''sip'' then text_status_plausibility r sip_status p
        else if p = ''rtsp'' then text_status_plausibility r rtsp_status p
        else if p = ''daap'' then daap_plausibility r
        else plausibility ''unknown'' ''no_protocol_validator'')"

section \<open>Cut replies are plausible\<close>

text \<open>No carriage return stands alone: each is followed by a newline.\<close>

fun no_bare_cr :: "bytes \<Rightarrow> bool" where
  "no_bare_cr [] \<longleftrightarrow> True"
| "no_bare_cr (b # r) \<longleftrightarrow> (b = 13 \<longrightarrow> r \<noteq> [] \<and> hd r = 10) \<and> no_bare_cr r"

lemma no_bare_cr_drop: "no_bare_cr r \<Longrightarrow> no_bare_cr (drop n r)"
  by (induction r arbitrary: n) (auto simp: drop_Cons split: nat.splits)

lemma line_rest_newline:
  "no_bare_cr r \<Longrightarrow> 10 \<in> set r \<Longrightarrow> \<exists>q. line_rest r = Some q"
proof (induction r)
  case (Cons b r)
  show ?case
  proof (cases "not_eol b")
    case True
    with Cons show ?thesis by (auto simp: line_rest_def not_eol_def)
  next
    case False
    then consider "b = 10" | "b = 13" by (auto simp: not_eol_def)
    then show ?thesis
    proof cases
      case 2
      with Cons.prems(1) have "r \<noteq> [] \<and> hd r = 10" by simp
      with 2 show ?thesis by (cases r) (auto simp: line_rest_def not_eol_def)
    qed (auto simp: line_rest_def not_eol_def)
  qed
qed simp

lemma line_rest_last:
  "no_bare_cr (r @ [10]) \<Longrightarrow> 10 \<notin> set r \<Longrightarrow> line_rest (r @ [10]) = Some []"
proof (induction r)
  case Nil
  then show ?case by (simp add: line_rest_def not_eol_def)
next
  case (Cons b r)
  show ?case
  proof (cases "not_eol b")
    case True
    with Cons show ?thesis by (auto simp: line_rest_def not_eol_def)
  next
    case False
    with Cons.prems(2) have b: "b = 13" by (auto simp: not_eol_def)
    with Cons.prems(1) have "hd (r @ [10]) = 10" by simp
    with Cons.prems(2) have "r = []" by (cases r) auto
    with b show ?thesis by (simp add: line_rest_def not_eol_def)
  qed
qed

lemma complete_reply_plausible:
  assumes "complete_reply r" "no_bare_cr r"
  shows "line_reply_plausibility r = plausibility ''valid'' ''status_line''"
proof -
  from assms(1) have st: "status_at r 0" and last: "last r = 10" by (auto simp: complete_reply_def)
  then have len: "4 \<le> length r" by (simp add: status_at_def)
  have four: "r ! 3 \<noteq> 10" using st by (auto simp: status_at_def)
  have "last r = r ! 3" if "length r = 4"
    using that by (subst last_conv_nth) auto
  with last four have "length r \<noteq> 4" by auto
  with len have len5: "4 < length r" by simp
  then have "10 \<in> set (drop 4 r)" using last by (metis drop_eq_Nil last_drop last_in_set not_less)
  with line_rest_newline[OF no_bare_cr_drop[OF assms(2)]] st
  have m: "line_reply_match r" by (auto simp: line_reply_match_def)
  have "find (terminal_at (take 3 r) r) [0..<length r] \<noteq> None" if "r ! 3 = 45"
  proof -
    from that assms(1) obtain p where p: "p + 4 < length r" "terminator_at (take 3 r) r p"
      "10 \<notin> set (py_slice r (p + 4) (length r - 1))" by (auto simp: complete_reply_def)
    have "drop (p + 4) r = py_slice r (p + 4) (length r - 1) @ [10]"
    proof -
      have r: "take (length r - 1) r @ [10] = r"
        using last len5 by (metis append_butlast_last_id butlast_conv_take list.size(3) not_less0)
      have "drop (p + 4) (take (length r - 1) r @ [10]) = py_slice r (p + 4) (length r - 1) @ [10]"
        using p(1) by (simp add: py_slice_def drop_take)
      then show ?thesis by (simp only: r)
    qed
    with line_rest_last[of "py_slice r (p + 4) (length r - 1)"] p(3)
      no_bare_cr_drop[OF assms(2), of "p + 4"]
    have "line_rest (drop (p + 4) r) = Some []" by simp
    with p(1,2) have "terminal_at (take 3 r) r p" "p < length r" by (auto simp: terminal_at_def)
    then show ?thesis by (auto simp: find_None_iff)
  qed
  with m last show ?thesis by (auto simp: line_reply_plausibility_def)
qed

section \<open>DAAP atoms\<close>

definition daap_atom :: "bytes \<times> bytes \<Rightarrow> bytes" where
  "daap_atom a = fst a @ to_bytes_big 4 (length (snd a)) @ snd a"

definition atom_ok :: "bytes \<times> bytes \<Rightarrow> bool" where
  "atom_ok a \<longleftrightarrow> length (fst a) = 4 \<and> length (snd a) < 2 ^ 32"

lemma length_daap_atom: "atom_ok a \<Longrightarrow> length (daap_atom a) = 8 + length (snd a)"
  by (simp add: daap_atom_def atom_ok_def)

lemma daap_atom_length_field:
  assumes "atom_ok a"
  shows "from_bytes_big (py_slice (pre @ daap_atom a @ post) (length pre + 4) (length pre + 8)) =
    length (snd a)"
proof -
  have "py_slice (pre @ daap_atom a @ post) (length pre + 4) (length pre + 8) =
      to_bytes_big 4 (length (snd a))"
    using assms by (simp add: py_slice_def daap_atom_def atom_ok_def)
  with assms show ?thesis by (simp add: from_to_bytes_big atom_ok_def)
qed

lemma daap_loop_atoms:
  "list_all atom_ok as \<Longrightarrow>
     \<exists>fs'. daap_loop (pre @ concat (map daap_atom as)) (length pre) fs =
         (length (pre @ concat (map daap_atom as)), fs @ fs') \<and> map fr_data fs' = map daap_atom as"
proof (induction as arbitrary: pre fs)
  case Nil
  then show ?case by (simp add: daap_loop.simps)
next
  case (Cons a as)
  let ?d = "pre @ daap_atom a @ concat (map daap_atom as)"
  let ?e = "length pre + 8 + length (snd a)"
  from Cons.prems have a: "atom_ok a" and as: "list_all atom_ok as" by auto
  have len: "length (pre @ daap_atom a) = ?e" using length_daap_atom[OF a] by simp
  have cut: "py_slice ?d (length pre) ?e = daap_atom a"
    using length_daap_atom[OF a] by (simp add: py_slice_def)
  have "daap_loop ?d (length pre) fs =
      daap_loop ?d ?e (fs @ [mk_frame (daap_atom a) (length pre) ?e])"
    using daap_atom_length_field[OF a, of pre "concat (map daap_atom as)"] length_daap_atom[OF a] cut
    by (subst daap_loop.simps) (simp add: Let_def add.assoc)
  moreover obtain fs' where "daap_loop ((pre @ daap_atom a) @ concat (map daap_atom as))
      (length (pre @ daap_atom a)) (fs @ [mk_frame (daap_atom a) (length pre) ?e]) =
      (length ((pre @ daap_atom a) @ concat (map daap_atom as)),
       (fs @ [mk_frame (daap_atom a) (length pre) ?e]) @ fs')" "map fr_data fs' = map daap_atom as"
    using Cons.IH[OF as] by blast
  ultimately show ?case
    by (intro exI[of _ "mk_frame (daap_atom a) (length pre) ?e # fs'"]) (simp add: len[symmetric])
qed

lemma daap_frames_atoms:
  assumes "as \<noteq> []" "list_all atom_ok as"
  shows "map fr_data (daap_frames (concat (map daap_atom as))) = map daap_atom as"
proof -
  from daap_loop_atoms[OF assms(2), of "[]" "[]"] obtain fs' where
    "daap_loop (concat (map daap_atom as)) 0 [] = (length (concat (map daap_atom as)), fs')"
    "map fr_data fs' = map daap_atom as" by auto
  moreover from this assms have "fs' \<noteq> []" by auto
  ultimately show ?thesis by (simp add: daap_frames_def)
qed

lemma daap_atom_plausible:
  assumes "atom_ok a" "list_all is_alnum_b (fst a)"
  shows "daap_plausibility (daap_atom a) = plausibility ''valid'' ''daap_atom''"
  using assms daap_atom_length_field[OF assms(1), of "[]" "[]"] length_daap_atom[OF assms(1)]
  by (simp add: daap_plausibility_def daap_tag_def atom_ok_def) (simp add: daap_atom_def)

section \<open>Errors\<close>

lemma content_length_loop_error:
  "content_length_loop d c fs = Inl e \<Longrightarrow> e = ValueError"
proof (induction d c fs rule: content_length_loop.induct)
  case (1 d c fs)
  then show ?case
    by (auto simp: content_length_loop.simps [of d c fs] content_length_end_def Let_def
        py_int_digits_def split: if_splits sum.splits cl_step.splits option.splits)
qed

lemma split_response_frames_error:
  "split_response_frames p d = Inl e \<Longrightarrow> e = ValueError"
  by (auto simp: split_response_frames_def Let_def content_length_frames_def
      dest: content_length_loop_error split: if_splits)

section \<open>Properties\<close>


text \<open>
  FTP and SMTP: when the batch is not kept whole, every frame is a complete reply (status line
  first, the terminating line of a multi-line reply last), and a frame without a lone carriage
  return passes the plausibility check.
\<close>

theorem line_frames_complete_and_plausible:
  assumes "py_lower protocol \<in> {''ftp'', ''smtp''}"
    and "split_response_frames protocol d = Inr fs" and "1 < length fs" and "f \<in> set fs"
  shows "complete_reply (fr_data f) \<and>
    (no_bare_cr (fr_data f) \<longrightarrow>
       classify_response_plausibility protocol (fr_data f) = plausibility ''valid'' ''status_line'')"
proof -
  from assms have "fs = line_protocol_frames d"
    by (auto simp: split_response_frames_def Let_def split: if_splits)
  with assms line_protocol_frames_complete[of d] have c: "complete_reply (fr_data f)" by auto
  then have "fr_data f \<noteq> []" by (auto simp: complete_reply_def status_at_def)
  with c complete_reply_plausible assms(1) show ?thesis
    by (auto simp: classify_response_plausibility_def Let_def)
qed

theorem line_frames_complete_and_plausible_witness:
  "let d = ascii ''220-a'' @ [13, 10] @ ascii ''220 b'' @ [13, 10] @ ascii ''331 c'' @ [13, 10] in
   complete_reply (py_slice d 0 14) \<and>
   (no_bare_cr (py_slice d 0 14) \<longrightarrow>
      classify_response_plausibility ''FTP'' (py_slice d 0 14) = plausibility ''valid'' ''status_line'')"
proof -
  let ?d = "ascii ''220-a'' @ [13, 10] @ ascii ''220 b'' @ [13, 10] @ ascii ''331 c'' @ [13, 10]"
  let ?f = "mk_frame (py_slice ?d 0 14) 0 14" and ?g = "mk_frame (py_slice ?d 14 21) 14 21"
  have s: "split_response_frames ''FTP'' ?d = Inr [?f, ?g]" by code_simp
  have p: "py_lower ''FTP'' \<in> {''ftp'', ''smtp''}" by code_simp
  show ?thesis
    using line_frames_complete_and_plausible[OF p s, of ?f] by (simp only: Let_def) simp
qed

text \<open>
  C24. DAAP framing inverts encoding: the frames of a batch of encoded atoms are these atoms, in
  order, and each atom with an alphanumeric tag is classified as plausible.
\<close>

theorem daap_frames_roundtrip:
  assumes "as \<noteq> []" and "list_all atom_ok as"
  shows "\<exists>fs. split_response_frames ''daap'' (concat (map daap_atom as)) = Inr fs \<and>
      map fr_data fs = map daap_atom as \<and>
      list_all (\<lambda>a. list_all is_alnum_b (fst a) \<longrightarrow>
         classify_response_plausibility ''daap'' (daap_atom a) = plausibility ''valid'' ''daap_atom'') as"
proof -
  have l: "py_lower ''daap'' = ''daap''" by code_simp
  have "daap_atom a \<noteq> []" if "atom_ok a" for a
    using length_daap_atom[OF that] by auto
  with assms daap_frames_atoms[OF assms] daap_atom_plausible show ?thesis
    by (auto simp: split_response_frames_def classify_response_plausibility_def l list_all_iff)
qed

theorem daap_frames_roundtrip_witness:
  "\<exists>fs. split_response_frames ''daap''
       (concat (map daap_atom [(ascii ''mstt'', [0, 0, 0, 200]), (ascii ''mlog'', [])])) = Inr fs \<and>
     map fr_data fs = map daap_atom [(ascii ''mstt'', [0, 0, 0, 200]), (ascii ''mlog'', [])]"
proof -
  have "list_all atom_ok [(ascii ''mstt'', [0, 0, 0, 200]), (ascii ''mlog'', [])]"
    by (simp add: atom_ok_def ascii_def)
  from daap_frames_roundtrip[OF _ this] show ?thesis by blast
qed

end
