(* ===== verification/Recorder.thy ===== *)
theory Recorder imports Prelude begin

text \<open>
  The contract shared by the components that remember what they have seen (seed retention, the
  partial-trace recorder, the request/response pair recorder): one observation adds to the
  recorded set exactly what the observed item offers, whatever was recorded before.  From this law
  alone follow that nothing is lost, that a second observation of the same item adds nothing, and
  that the recorded set does not depend on the order of the observations.
\<close>

locale recorder =
  fixes observe :: "'s \<Rightarrow> 'x \<Rightarrow> 's"
    and seen :: "'s \<Rightarrow> 'r set"
    and offers :: "'x \<Rightarrow> 'r set"
  assumes seen_observe: "seen (observe s x) = seen s \<union> offers x"
begin

lemma seen_grows: "seen s \<subseteq> seen (observe s x)"
  by (simp add: seen_observe)

lemma seen_again: "seen (observe (observe s x) y) = seen (observe s x) \<longleftrightarrow> offers y \<subseteq> seen s \<union> offers x"
  by (auto simp: seen_observe)

lemma seen_run: "seen (foldl observe s xs) = seen s \<union> \<Union> (offers ` set xs)"
  by (induction xs arbitrary: s) (auto simp: seen_observe)

lemma seen_run_grows: "seen s \<subseteq> seen (foldl observe s xs)"
  by (simp add: seen_run)

lemma seen_run_order: "set xs = set ys \<Longrightarrow> seen (foldl observe s xs) = seen (foldl observe s ys)"
  by (simp add: seen_run)

lemma novel_iff: "seen (observe s x) \<noteq> seen s \<longleftrightarrow> \<not> offers x \<subseteq> seen s"
  by (auto simp: seen_observe)

end

end
