(* ===== verification/Conversation.thy ===== *)
theory Conversation imports Framing begin

text \<open>
  The conversation record of \<open>voltron/executor/conversation.py\<close>: raw exchanges, the request and
  response symbols, and the frames of each response.  A request and its response are appended by
  two calls, so the three sequences may have different lengths; the recorders that read a
  conversation guard every index.  A frame's dictionary is an association list of its printed
  entries.
\<close>

type_synonym frame_info = "(string \<times> string) list"

record conversation =
  content :: "(bytes \<times> bytes) list"
  req_seq :: "string list"
  res_seq :: "string list"
  response_frames :: "frame_info list list"

definition new_conversation :: conversation where
  "new_conversation = \<lparr>content = [], req_seq = [], res_seq = [], response_frames = []\<rparr>"

definition add_data :: "conversation \<Rightarrow> bytes \<Rightarrow> bytes \<Rightarrow> frame_info list option \<Rightarrow> conversation" where
  "add_data c request response frames =
     c\<lparr>content := content c @ [(request, response)],
       response_frames := response_frames c @ [case frames of None \<Rightarrow> [] | Some fs \<Rightarrow> fs]\<rparr>"

definition add_state :: "conversation \<Rightarrow> string \<Rightarrow> string \<Rightarrow> conversation" where
  "add_state c req_code res_code =
     c\<lparr>req_seq := req_seq c @ [req_code], res_seq := res_seq c @ [res_code]\<rparr>"

text \<open>\<open>res_seq[-1]\<close> of an empty sequence raises.\<close>

definition merge_extra_state :: "conversation \<Rightarrow> string \<Rightarrow> conversation result" where
  "merge_extra_state c extra =
     (if res_seq c = [] then Inl IndexError
      else Inr (c\<lparr>res_seq := butlast (res_seq c) @ [last (res_seq c) @ ''/'' @ extra]\<rparr>))"

text \<open>The special symbols of an abnormal exchange, shared by the recorders.\<close>

definition abnormal_responses :: "string list" where
  "abnormal_responses = [''TIMEOUT'', ''CRASH'', ''CLOSED'', ''POLLERR'']"

definition adjacent_pairs :: "'a list \<Rightarrow> ('a \<times> 'a) list" where
  "adjacent_pairs xs = zip xs (drop 1 xs)"

end
