(* ===== verification/Python_Text.thy ===== *)
theory Python_Text imports Prelude begin

text \<open>
  The parts of \<open>str\<close> and of \<open>re\<close> that the program uses on ASCII text: line splitting with and
  without the line ends, splitting at white space, and a backtracking matcher for its multi-line
  patterns.
\<close>

section \<open>Lines\<close>

definition is_break_c :: "char \<Rightarrow> bool" where
  "is_break_c c \<longleftrightarrow> code_of c \<in> set [10, 11, 12, 13, 28, 29, 30]"

text \<open>\<open>str.splitlines\<close> without the line ends; a carriage return and line feed are one end.\<close>

fun splitlines_from :: "string \<Rightarrow> string \<Rightarrow> string list" where
  "splitlines_from line [] = (if line = [] then [] else [line])"
| "splitlines_from line [c] = (if is_break_c c then [line] else [line @ [c]])"
| "splitlines_from line (c # d # cs) =
     (if code_of c = 13 \<and> code_of d = 10 then line # splitlines_from [] cs
      else if is_break_c c then line # splitlines_from [] (d # cs)
      else splitlines_from (line @ [c]) (d # cs))"

definition py_splitlines :: "string \<Rightarrow> string list" where
  "py_splitlines s = splitlines_from [] s"

text \<open>\<open>splitlines(keepends=True)\<close>\<close>

fun keepends_from :: "string \<Rightarrow> string \<Rightarrow> string list" where
  "keepends_from line [] = (if line = [] then [] else [line])"
| "keepends_from line [c] = [line @ [c]]"
| "keepends_from line (c # d # cs) =
     (if code_of c = 13 \<and> code_of d = 10 then (line @ [c, d]) # keepends_from [] cs
      else if is_break_c c then (line @ [c]) # keepends_from [] (d # cs)
      else keepends_from (line @ [c]) (d # cs))"

definition py_splitlines_keep :: "string \<Rightarrow> string list" where
  "py_splitlines_keep s = keepends_from [] s"

lemma concat_keepends_from: "concat (keepends_from line s) = line @ s"
  by (induction line s rule: keepends_from.induct) auto

lemma concat_splitlines_keep [simp]: "concat (py_splitlines_keep s) = s"
  by (simp add: py_splitlines_keep_def concat_keepends_from)

lemma keepends_from_nonempty: "l \<in> set (keepends_from line s) \<Longrightarrow> l \<noteq> []"
  by (induction line s rule: keepends_from.induct) (auto split: if_splits)

lemma splitlines_keep_nonempty: "l \<in> set (py_splitlines_keep s) \<Longrightarrow> l \<noteq> []"
  by (auto simp: py_splitlines_keep_def dest: keepends_from_nonempty)

section \<open>White space\<close>

text \<open>\<open>str.join\<close> and \<open>str.split()\<close>.\<close>

fun py_join :: "string \<Rightarrow> string list \<Rightarrow> string" where
  "py_join sep [] = []"
| "py_join sep [x] = x"
| "py_join sep (x # y # xs) = x @ sep @ py_join sep (y # xs)"

fun split_from :: "string \<Rightarrow> string \<Rightarrow> string list" where
  "split_from w [] = (if w = [] then [] else [w])"
| "split_from w (c # cs) =
     (if is_space_c c then (if w = [] then split_from [] cs else w # split_from [] cs)
      else split_from (w @ [c]) cs)"

definition py_split :: "string \<Rightarrow> string list" where
  "py_split s = split_from [] s"

text \<open>\<open>str.split(None, n)\<close>: after \<open>n\<close> words the rest is one piece.\<close>

primrec py_split_max :: "nat \<Rightarrow> string \<Rightarrow> string list" where
  "py_split_max 0 s = (let r = dropWhile is_space_c s in if r = [] then [] else [r])"
| "py_split_max (Suc n) s =
     (let r = dropWhile is_space_c s
      in if r = [] then []
         else takeWhile (\<lambda>c. \<not> is_space_c c) r
              # py_split_max n (dropWhile (\<lambda>c. \<not> is_space_c c) r))"

lemma py_strip_decomp:
  "\<exists>p q. s = p @ py_strip s @ q \<and> list_all is_space_c p \<and> list_all is_space_c q"
proof -
  let ?t = "dropWhile is_space_c s"
  have "s = takeWhile is_space_c s @ ?t" by simp
  moreover have "?t = py_strip s @ rev (takeWhile is_space_c (rev ?t))"
    by (metis py_strip_def rev_append rev_rev_ident takeWhile_dropWhile_id)
  ultimately have "s = takeWhile is_space_c s @ py_strip s @ rev (takeWhile is_space_c (rev ?t))"
    by simp
  moreover have "list_all is_space_c (takeWhile is_space_c s)"
    "list_all is_space_c (rev (takeWhile is_space_c (rev ?t)))"
    by (auto simp: list_all_iff dest: set_takeWhileD)
  ultimately show ?thesis by blast
qed

lemma py_strip_hd: "py_strip s = c # cs \<Longrightarrow> \<not> is_space_c c"
proof
  assume eq: "py_strip s = c # cs" and sp: "is_space_c c"
  let ?t = "dropWhile is_space_c s"
  have "?t = py_strip s @ rev (takeWhile is_space_c (rev ?t))"
    by (metis py_strip_def rev_append rev_rev_ident takeWhile_dropWhile_id)
  then have t: "?t = c # cs @ rev (takeWhile is_space_c (rev ?t))" using eq by simp
  then have "?t \<noteq> []" "hd ?t = c" by (metis list.distinct(1), metis list.sel(1))
  with sp show False using hd_dropWhile[of is_space_c s] by metis
qed

lemma py_strip_last: "py_strip s \<noteq> [] \<Longrightarrow> \<not> is_space_c (last (py_strip s))"
  using hd_dropWhile[of is_space_c "rev (dropWhile is_space_c s)"]
  by (auto simp: py_strip_def last_rev)

section \<open>Patterns\<close>

text \<open>
  The pattern constructs the program's multi-line patterns use: one character of a class, a greedy
  run of a class, sequence, option, the anchors of \<open>re.MULTILINE\<close> and look-ahead.  \<open>re_ends r s i\<close>
  lists where a match that starts at \<open>i\<close> can end, in the order in which backtracking tries them.
\<close>

datatype regex =
    One "char \<Rightarrow> bool"
  | Run "char \<Rightarrow> bool"
  | Cat regex regex
  | Eps
  | Opt regex
  | Bol
  | Eol
  | Ahead regex

definition is_newline_c :: "char \<Rightarrow> bool" where
  "is_newline_c c \<longleftrightarrow> code_of c = 10"

primrec re_ends :: "regex \<Rightarrow> string \<Rightarrow> nat \<Rightarrow> nat list" where
  "re_ends (One p) s i = (if i < length s \<and> p (s ! i) then [Suc i] else [])"
| "re_ends (Run p) s i = rev [i..<Suc (i + length (takeWhile p (drop i s)))]"
| "re_ends (Cat a b) s i = concat (map (re_ends b s) (re_ends a s i))"
| "re_ends Eps s i = [i]"
| "re_ends (Opt a) s i = re_ends a s i @ [i]"
| "re_ends Bol s i = (if i = 0 \<or> is_newline_c (s ! (i - 1)) then [i] else [])"
| "re_ends Eol s i = (if length s \<le> i \<or> is_newline_c (s ! i) then [i] else [])"
| "re_ends (Ahead a) s i = (if re_ends a s i = [] then [] else [i])"

text \<open>The fewest characters a match takes.\<close>

primrec re_width :: "regex \<Rightarrow> nat" where
  "re_width (One p) = 1"
| "re_width (Run p) = 0"
| "re_width (Cat a b) = re_width a + re_width b"
| "re_width Eps = 0"
| "re_width (Opt a) = 0"
| "re_width Bol = 0"
| "re_width Eol = 0"
| "re_width (Ahead a) = 0"

lemma re_ends_bounds: "j \<in> set (re_ends r s i) \<Longrightarrow> i \<le> length s \<Longrightarrow> i + re_width r \<le> j \<and> j \<le> length s"
proof (induction r arbitrary: i j)
  case (Run p)
  have "length (takeWhile p (drop i s)) \<le> length (drop i s)" by (rule length_takeWhile_le)
  with Run show ?case by auto
next
  case (Cat a b)
  then obtain k where k: "k \<in> set (re_ends a s i)" "j \<in> set (re_ends b s k)" by auto
  from Cat.IH(1)[OF k(1) Cat.prems(2)] Cat.IH(2)[OF k(2)] show ?case by auto
next
  case (Opt r)
  from Opt.prems Opt.IH[of j i] show ?case by auto
qed (auto split: if_splits)

text \<open>\<open>re.search\<close>: the leftmost start with a match, and the first end backtracking finds.\<close>

definition re_search :: "regex \<Rightarrow> string \<Rightarrow> nat \<Rightarrow> (nat \<times> nat) option" where
  "re_search r s from =
     (case find (\<lambda>i. re_ends r s i \<noteq> []) [from..<Suc (length s)] of
        None \<Rightarrow> None
      | Some i \<Rightarrow> Some (i, hd (re_ends r s i)))"

lemma re_search_bounds:
  assumes "re_search r s from = Some (i, j)"
  shows "from \<le> i" "i + re_width r \<le> j" "j \<le> length s"
proof -
  from assms have f: "find (\<lambda>i. re_ends r s i \<noteq> []) [from..<Suc (length s)] = Some i"
    and j: "j = hd (re_ends r s i)" by (auto simp: re_search_def simp del: upt_Suc split: option.splits)
  have "i \<in> set [from..<Suc (length s)] \<and> re_ends r s i \<noteq> []"
    using f by (metis (mono_tags, lifting) find_Some_iff nth_mem)
  then have i: "from \<le> i" "i \<le> length s" "re_ends r s i \<noteq> []" by (auto simp del: upt_Suc)
  then show "from \<le> i" by simp
  from i(3) j have "j \<in> set (re_ends r s i)" by simp
  from re_ends_bounds[OF this i(2)] show "i + re_width r \<le> j" "j \<le> length s" by auto
qed

text \<open>
  \<open>re.finditer\<close> for patterns that match no empty text: the next search starts where the last match
  ended.
\<close>

function re_finditer :: "regex \<Rightarrow> string \<Rightarrow> nat \<Rightarrow> (nat \<times> nat) list" where
  "re_finditer r s from =
     (case re_search r s from of
        None \<Rightarrow> []
      | Some (i, j) \<Rightarrow> if j \<le> from then [] else (i, j) # re_finditer r s j)"
  by auto
termination
  by (relation "measure (\<lambda>(r, s, from). length s - from)")
     (auto dest: re_search_bounds(3))

declare re_finditer.simps [simp del]

lemma re_finditer_bounds:
  assumes "0 < re_width r"
  shows "re_finditer r s from =
           (case re_search r s from of None \<Rightarrow> [] | Some (i, j) \<Rightarrow> (i, j) # re_finditer r s j)"
  using re_search_bounds[of r s "from"] assms
  by (subst re_finditer.simps) (fastforce split: option.splits)

text \<open>Matches follow each other without overlap, inside the text.\<close>

lemma re_finditer_ordered:
  "(i, j) \<in> set (re_finditer r s from) \<Longrightarrow> from \<le> i \<and> i + re_width r \<le> j \<and> j \<le> length s"
proof (induction r s "from" arbitrary: i j rule: re_finditer.induct)
  case (1 r s "from")
  from 1(2) have "re_search r s from \<noteq> None"
    unfolding re_finditer.simps[of r s "from"] by (cases "re_search r s from") simp_all
  then obtain a b where s: "re_search r s from = Some (a, b)"
    by (cases "re_search r s from") auto
  with 1(2) have ab: "\<not> b \<le> from" "(i, j) = (a, b) \<or> (i, j) \<in> set (re_finditer r s b)"
    unfolding re_finditer.simps[of r s "from"] by (auto split: if_splits)
  from 1(1)[OF s refl ab(1), of i j] re_search_bounds[OF s] ab show ?case by auto
qed

lemma re_finditer_sorted: "sorted (map fst (re_finditer r s from))"
proof (induction r s "from" rule: re_finditer.induct)
  case (1 r s "from")
  show ?case
  proof (cases "re_search r s from")
    case (Some p)
    obtain a b where p: "p = (a, b)" by (cases p)
    note b = re_search_bounds[OF Some[unfolded p]]
    show ?thesis
      using 1 Some b re_finditer_ordered[of _ _ r s b]
      by (subst re_finditer.simps) (force simp: p)
  qed (subst re_finditer.simps, simp)
qed

text \<open>Patterns built from texts and counts.\<close>

definition re_seq :: "regex list \<Rightarrow> regex" where
  "re_seq rs = foldr Cat rs Eps"

lemma re_width_seq [simp]: "re_width (re_seq rs) = sum_list (map re_width rs)"
  by (induction rs) (auto simp: re_seq_def)

definition re_word :: "string \<Rightarrow> regex" where
  "re_word w = re_seq (map (\<lambda>c. One (\<lambda>d. lower_c d = lower_c c)) w)"

lemma re_width_word [simp]: "re_width (re_word w) = length w"
  by (induction w) (auto simp: re_word_def re_seq_def)

end
