(* ===== verification/Automata.thy ===== *)
theory Automata imports Python_Text begin

text \<open>
  The Mealy machine of \<open>voltron/learner/automata.py\<close> and the comparison of two machines of
  \<open>voltron/learner/equ_oracle.py\<close>.  The transition and output functions are dictionaries, so a
  missing entry raises a KeyError.  The drawing of a machine is not modelled.
\<close>

section \<open>Machines\<close>

type_synonym 'v edge_dict = "(nat \<times> string, 'v) dict"

record 'tab mealy =
  mm_id :: string
  mm_states :: "nat list"
  mm_alphabet :: "string list"
  mm_delta :: "nat edge_dict"
  mm_output :: "string edge_dict"
  mm_start :: nat
  mm_map :: "(string, (string, bytes) dict) dict"
  mm_res_types :: "(string, nat) dict"
  mm_res_trans_types :: "(string, nat) dict"
  mm_table :: 'tab

definition new_mealy ::
    "string \<Rightarrow> nat list \<Rightarrow> string list \<Rightarrow> nat edge_dict \<Rightarrow> string edge_dict \<Rightarrow> nat \<Rightarrow> 'tab \<Rightarrow> 'tab mealy" where
  "new_mealy i states alphabet delta out start table =
     \<lparr>mm_id = i, mm_states = states, mm_alphabet = alphabet, mm_delta = delta, mm_output = out,
      mm_start = start, mm_map = [], mm_res_types = [], mm_res_trans_types = [],
      mm_table = table\<rparr>"

fun mealy_run_from :: "'tab mealy \<Rightarrow> nat \<Rightarrow> string list \<Rightarrow> string list result" where
  "mealy_run_from m state [] = Inr []"
| "mealy_run_from m state (a # w) =
     rbind (dict_index (mm_output m) (state, a)) (\<lambda>out.
     rbind (dict_index (mm_delta m) (state, a)) (\<lambda>state'.
     rbind (mealy_run_from m state' w) (\<lambda>outs. Inr (out # outs))))"

definition mealy_run :: "'tab mealy \<Rightarrow> string list \<Rightarrow> string list result" where
  "mealy_run m word = mealy_run_from m (mm_start m) word"

text \<open>The code joins a set, whose order is not specified.\<close>

definition relation_line :: "'tab mealy \<Rightarrow> string \<Rightarrow> string \<Rightarrow> nat \<Rightarrow> string result" where
  "relation_line m last_request current_request s1 =
     rbind (dict_index (mm_delta m) (s1, last_request)) (\<lambda>s2.
     rbind (dict_index (mm_output m) (s1, last_request)) (\<lambda>out1.
     rbind (dict_index (mm_output m) (s2, current_request)) (\<lambda>out2.
       Inr (''( '' @ last_request @ '' / '' @ out1 @ '' )->( '' @ current_request @ '' / '' @ out2 @ '' )''))))"

definition get_relation :: "'tab mealy \<Rightarrow> string \<Rightarrow> string \<Rightarrow> string result" where
  "get_relation m last_request current_request =
     rbind (rfold (\<lambda>ans s1. rbind (relation_line m last_request current_request s1)
                            (\<lambda>l. Inr (set_add l ans))) [] (mm_states m))
       (\<lambda>ans. Inr (py_join [CHR 0x0A] ans))"

section \<open>Comparing two machines\<close>

type_synonym cmp_entry = "nat \<times> nat \<times> string list"

datatype cmp_round = Distinguished "string list" | Enqueued "cmp_entry list"

text \<open>The inner loop: the inputs of one state pair, in order; the first difference returns.\<close>

fun compare_inputs :: "'t mealy \<Rightarrow> 'u mealy \<Rightarrow> nat \<Rightarrow> nat \<Rightarrow> string list \<Rightarrow> string list \<Rightarrow>
    cmp_entry list \<Rightarrow> cmp_round result" where
  "compare_inputs m1 m2 s1 s2 sq [] q = Inr (Enqueued q)"
| "compare_inputs m1 m2 s1 s2 sq (a # as) q =
     rbind (dict_index (mm_delta m1) (s1, a)) (\<lambda>n1.
     rbind (dict_index (mm_output m1) (s1, a)) (\<lambda>o1.
     rbind (dict_index (mm_delta m2) (s2, a)) (\<lambda>n2.
     rbind (dict_index (mm_output m2) (s2, a)) (\<lambda>o2.
       if o1 \<noteq> o2 then Inr (Distinguished (sq @ [a]))
       else compare_inputs m1 m2 s1 s2 sq as (q @ [(n1, n2, sq @ [a])])))))"

definition pair_universe :: "'t mealy \<Rightarrow> 'u mealy \<Rightarrow> (nat \<times> nat) set" where
  "pair_universe m1 m2 = (snd ` set (mm_delta m1)) \<times> (snd ` set (mm_delta m2))"

definition queue_pairs :: "cmp_entry list \<Rightarrow> (nat \<times> nat) set" where
  "queue_pairs q = (\<lambda>(s1, s2, _). (s1, s2)) ` set q"

lemma finite_pair_universe [simp]: "finite (pair_universe m1 m2)" "finite (queue_pairs q)"
  by (simp_all add: pair_universe_def queue_pairs_def)

lemma queue_pairs_simps [simp]:
  "queue_pairs [] = {}" "queue_pairs ((s1, s2, w) # q) = insert (s1, s2) (queue_pairs q)"
  "queue_pairs (q @ r) = queue_pairs q \<union> queue_pairs r"
  by (simp_all add: queue_pairs_def image_Un)

lemma compare_inputs_queue:
  "compare_inputs m1 m2 s1 s2 sq as q = Inr (Enqueued q') \<Longrightarrow>
     queue_pairs q' \<subseteq> queue_pairs q \<union> pair_universe m1 m2"
proof (induction m1 m2 s1 s2 sq as q rule: compare_inputs.induct)
  case (2 m1 m2 s1 s2 sq a as q)
  then obtain n1 n2 where n: "map_of (mm_delta m1) (s1, a) = Some n1"
    "map_of (mm_delta m2) (s2, a) = Some n2"
    "queue_pairs q' \<subseteq> queue_pairs (q @ [(n1, n2, sq @ [a])]) \<union> pair_universe m1 m2"
    by (auto split: if_splits)
  then have "(n1, n2) \<in> pair_universe m1 m2"
    by (force simp: pair_universe_def dest!: map_of_SomeD)
  with n(3) show ?case by auto
qed simp

text \<open>
  The breadth-first loop.  It stops because every round either shortens the queue or marks one more
  of the finitely many state pairs as visited.
\<close>

function compare_loop :: "'t mealy \<Rightarrow> 'u mealy \<Rightarrow> (nat \<times> nat) list \<Rightarrow> cmp_entry list \<Rightarrow>
    string list option result" where
  "compare_loop m1 m2 visited [] = Inr None"
| "compare_loop m1 m2 visited ((s1, s2, sq) # q) =
     (if (s1, s2) \<in> set visited then compare_loop m1 m2 visited q
      else
        (case compare_inputs m1 m2 s1 s2 sq (mm_alphabet m1) q of
           Inl e \<Rightarrow> Inl e
         | Inr (Distinguished w) \<Rightarrow> Inr (Some w)
         | Inr (Enqueued q') \<Rightarrow> compare_loop m1 m2 (visited @ [(s1, s2)]) q'))"
  by pat_completeness auto
termination
proof (relation "measures [\<lambda>(m1, m2, v, q). card ((pair_universe m1 m2 \<union> queue_pairs q) - set v),
                           \<lambda>(m1, m2, v, q). length q]", goal_cases)
  case (2 m1 m2 visited s1 s2 sq q)
  then have "pair_universe m1 m2 \<union> queue_pairs ((s1, s2, sq) # q) - set visited =
      pair_universe m1 m2 \<union> queue_pairs q - set visited" by auto
  then show ?case by (simp only: in_measures case_prod_conv) simp
next
  case (3 m1 m2 visited s1 s2 sq q x2 q')
  let ?A = "pair_universe m1 m2 \<union> queue_pairs q' - set (visited @ [(s1, s2)])"
  let ?B = "pair_universe m1 m2 \<union> queue_pairs ((s1, s2, sq) # q) - set visited"
  from compare_inputs_queue[of m1 m2 s1 s2 sq "mm_alphabet m1" q q'] 3
  have "?A \<subset> ?B" by auto
  then have "card ?A < card ?B" by (intro psubset_card_mono) auto
  then show ?case by simp
qed simp

definition compare_mealy :: "'t mealy \<Rightarrow> 'u mealy \<Rightarrow> string list option result" where
  "compare_mealy m1 m2 = compare_loop m1 m2 [] [(mm_start m1, mm_start m2, [])]"


section \<open>Complete machines\<close>

text \<open>Every state has an edge for every input of the alphabet, and the edges stay inside.\<close>

definition complete_over :: "string set \<Rightarrow> 'tab mealy \<Rightarrow> bool" where
  "complete_over as m \<longleftrightarrow> mm_start m \<in> set (mm_states m) \<and>
     (\<forall>s \<in> set (mm_states m). \<forall>a \<in> as.
        map_of (mm_output m) (s, a) \<noteq> None \<and>
        (\<exists>s' \<in> set (mm_states m). map_of (mm_delta m) (s, a) = Some s'))"

text \<open>The state reached along a word, \<open>None\<close> where an edge is missing.\<close>

fun mealy_reach :: "'tab mealy \<Rightarrow> nat \<Rightarrow> string list \<Rightarrow> nat option" where
  "mealy_reach m s [] = Some s"
| "mealy_reach m s (a # w) =
     (case map_of (mm_delta m) (s, a) of None \<Rightarrow> None | Some s' \<Rightarrow> mealy_reach m s' w)"

lemma mealy_reach_append:
  "mealy_reach m s (v @ w) =
     (case mealy_reach m s v of None \<Rightarrow> None | Some s' \<Rightarrow> mealy_reach m s' w)"
  by (induction v arbitrary: s) (auto split: option.splits)

lemma mealy_run_append:
  "mealy_run_from m s v = Inr os \<Longrightarrow> mealy_reach m s v = Some s' \<Longrightarrow>
     mealy_run_from m s (v @ w) = rbind (mealy_run_from m s' w) (\<lambda>ps. Inr (os @ ps))"
  by (induction v arbitrary: s os) (auto simp: rbind_assoc dict_index_hit split: option.splits)

lemma mealy_run_length: "mealy_run_from m s w = Inr os \<Longrightarrow> length os = length w"
  by (induction w arbitrary: s os) auto

lemma mealy_run_reach: "mealy_run_from m s w = Inr os \<Longrightarrow> \<exists>s'. mealy_reach m s w = Some s'"
  by (induction w arbitrary: s os) auto

lemma mealy_run_prefix: "mealy_run m w = Inr os \<Longrightarrow> mealy_run m (butlast w) = Inr (butlast os)"
proof -
  have "mealy_run_from m s w = Inr os \<Longrightarrow> mealy_run_from m s (butlast w) = Inr (butlast os)" for s
  proof (induction w arbitrary: s os)
    case (Cons a w)
    then obtain out s' os' where "map_of (mm_output m) (s, a) = Some out"
      "map_of (mm_delta m) (s, a) = Some s'" "mealy_run_from m s' w = Inr os'" "os = out # os'" by auto
    with Cons.IH[of s' os'] mealy_run_length[of m s' w os'] show ?case by auto
  qed simp
  then show "mealy_run m w = Inr os \<Longrightarrow> mealy_run m (butlast w) = Inr (butlast os)"
    by (simp add: mealy_run_def)
qed

lemma complete_run:
  assumes "complete_over as m" "s \<in> set (mm_states m)" "set w \<subseteq> as"
  shows "\<exists>os s'. mealy_run_from m s w = Inr os \<and> mealy_reach m s w = Some s' \<and>
    s' \<in> set (mm_states m)"
  using assms(2,3)
proof (induction w arbitrary: s)
  case (Cons a w)
  with assms(1) obtain out s1 where "map_of (mm_output m) (s, a) = Some out"
    "map_of (mm_delta m) (s, a) = Some s1" "s1 \<in> set (mm_states m)"
    by (force simp: complete_over_def)
  with Cons show ?case by fastforce
qed simp

section \<open>Correctness of the comparison\<close>

text \<open>A queue entry is a word along which both machines gave the same outputs.\<close>

definition entry_ok :: "'t mealy \<Rightarrow> 'u mealy \<Rightarrow> cmp_entry \<Rightarrow> bool" where
  "entry_ok m1 m2 = (\<lambda>(s1, s2, w). set w \<subseteq> set (mm_alphabet m1) \<and>
     mealy_reach m1 (mm_start m1) w = Some s1 \<and> mealy_reach m2 (mm_start m2) w = Some s2 \<and>
     (\<exists>os. mealy_run m1 w = Inr os \<and> mealy_run m2 w = Inr os))"

text \<open>The pair agrees on an input and its successor is already visited or queued.\<close>

definition step_agrees :: "'t mealy \<Rightarrow> 'u mealy \<Rightarrow> (nat \<times> nat) set \<Rightarrow> nat \<times> nat \<Rightarrow> string \<Rightarrow> bool" where
  "step_agrees m1 m2 R p a \<longleftrightarrow>
     (\<exists>n1 n2 out. map_of (mm_delta m1) (fst p, a) = Some n1 \<and> map_of (mm_delta m2) (snd p, a) = Some n2 \<and>
        map_of (mm_output m1) (fst p, a) = Some out \<and> map_of (mm_output m2) (snd p, a) = Some out \<and>
        (n1, n2) \<in> R)"

definition bisim_upto :: "'t mealy \<Rightarrow> 'u mealy \<Rightarrow> (nat \<times> nat) set \<Rightarrow> (nat \<times> nat) set \<Rightarrow> bool" where
  "bisim_upto m1 m2 V R \<longleftrightarrow> (\<forall>p \<in> V. \<forall>a \<in> set (mm_alphabet m1). step_agrees m1 m2 R p a)"

lemma step_agrees_mono: "step_agrees m1 m2 R p a \<Longrightarrow> R \<subseteq> R' \<Longrightarrow> step_agrees m1 m2 R' p a"
  unfolding step_agrees_def by blast

lemma bisim_upto_mono: "bisim_upto m1 m2 V R \<Longrightarrow> R \<subseteq> R' \<Longrightarrow> bisim_upto m1 m2 V R'"
  unfolding bisim_upto_def using step_agrees_mono by blast

lemma entry_ok_snoc:
  assumes "entry_ok m1 m2 (s1, s2, w)" "a \<in> set (mm_alphabet m1)"
    "map_of (mm_delta m1) (s1, a) = Some n1" "map_of (mm_delta m2) (s2, a) = Some n2"
    "map_of (mm_output m1) (s1, a) = Some out" "map_of (mm_output m2) (s2, a) = Some out"
  shows "entry_ok m1 m2 (n1, n2, w @ [a])"
  using assms by (auto simp: entry_ok_def mealy_reach_append mealy_run_def mealy_run_append)

lemma entry_ok_differs:
  assumes "entry_ok m1 m2 (s1, s2, w)"
    "map_of (mm_delta m1) (s1, a) = Some n1" "map_of (mm_delta m2) (s2, a) = Some n2"
    "map_of (mm_output m1) (s1, a) = Some o1" "map_of (mm_output m2) (s2, a) = Some o2" "o1 \<noteq> o2"
  shows "\<exists>os ps. mealy_run m1 (w @ [a]) = Inr os \<and> mealy_run m2 (w @ [a]) = Inr ps \<and> os \<noteq> ps \<and>
    butlast os = butlast ps"
  using assms by (auto simp: entry_ok_def mealy_run_def mealy_run_append)

lemma compare_inputs_correct:
  "compare_inputs m1 m2 s1 s2 w as q = Inr r \<Longrightarrow> entry_ok m1 m2 (s1, s2, w) \<Longrightarrow>
     set as \<subseteq> set (mm_alphabet m1) \<Longrightarrow> list_all (entry_ok m1 m2) q \<Longrightarrow>
     (case r of
        Distinguished v \<Rightarrow> set v \<subseteq> set (mm_alphabet m1) \<and>
          (\<exists>os ps. mealy_run m1 v = Inr os \<and> mealy_run m2 v = Inr ps \<and> os \<noteq> ps \<and> butlast os = butlast ps)
      | Enqueued q' \<Rightarrow> list_all (entry_ok m1 m2) q' \<and> queue_pairs q \<subseteq> queue_pairs q' \<and>
          (\<forall>a \<in> set as. step_agrees m1 m2 (queue_pairs q') (s1, s2) a))"
proof (induction m1 m2 s1 s2 w as q rule: compare_inputs.induct)
  case (2 m1 m2 s1 s2 w a as q)
  from "2.prems"(1) obtain n1 o1 n2 o2 where edges:
    "map_of (mm_delta m1) (s1, a) = Some n1" "map_of (mm_output m1) (s1, a) = Some o1"
    "map_of (mm_delta m2) (s2, a) = Some n2" "map_of (mm_output m2) (s2, a) = Some o2" by auto
  show ?case
  proof (cases "o1 = o2")
    case False
    with edges "2.prems" entry_ok_differs[OF "2.prems"(2) edges(1,3,2,4)] show ?thesis
      by (auto simp: entry_ok_def)
  next
    case True
    let ?q = "q @ [(n1, n2, w @ [a])]"
    have ok: "entry_ok m1 m2 (n1, n2, w @ [a])"
      using entry_ok_snoc[OF "2.prems"(2) _ edges(1,3)] edges True "2.prems"(3) by auto
    have run: "compare_inputs m1 m2 s1 s2 w as ?q = Inr r"
      using "2.prems"(1) edges True by simp
    have IH: "case r of
        Distinguished v \<Rightarrow> set v \<subseteq> set (mm_alphabet m1) \<and>
          (\<exists>os ps. mealy_run m1 v = Inr os \<and> mealy_run m2 v = Inr ps \<and> os \<noteq> ps \<and> butlast os = butlast ps)
      | Enqueued q' \<Rightarrow> list_all (entry_ok m1 m2) q' \<and> queue_pairs ?q \<subseteq> queue_pairs q' \<and>
          (\<forall>a \<in> set as. step_agrees m1 m2 (queue_pairs q') (s1, s2) a)"
      by (rule "2.IH"[OF edges[THEN dict_index_hit] _ run])
        (use "2.prems" True ok in auto)
    then show ?thesis using edges True by (auto simp: step_agrees_def split: cmp_round.splits)
  qed
qed auto

lemma compare_loop_correct:
  "compare_loop m1 m2 visited q = Inr r \<Longrightarrow> list_all (entry_ok m1 m2) q \<Longrightarrow>
     bisim_upto m1 m2 (set visited) (set visited \<union> queue_pairs q) \<Longrightarrow>
     (case r of
        Some v \<Rightarrow> set v \<subseteq> set (mm_alphabet m1) \<and>
          (\<exists>os ps. mealy_run m1 v = Inr os \<and> mealy_run m2 v = Inr ps \<and> os \<noteq> ps \<and> butlast os = butlast ps)
      | None \<Rightarrow> \<exists>V. set visited \<union> queue_pairs q \<subseteq> V \<and> bisim_upto m1 m2 V V)"
proof (induction m1 m2 visited q rule: compare_loop.induct)
  case (2 m1 m2 visited s1 s2 w q)
  show ?case
  proof (cases "(s1, s2) \<in> set visited")
    case True
    then have "set visited \<union> queue_pairs ((s1, s2, w) # q) = set visited \<union> queue_pairs q" by auto
    with "2.IH"(1)[OF True] "2.prems" True show ?thesis by (simp only: compare_loop.simps if_True) auto
  next
    case False
    let ?c = "compare_inputs m1 m2 s1 s2 w (mm_alphabet m1) q"
    from "2.prems"(1) False obtain cr where cr: "?c = Inr cr" by (cases ?c) auto
    from "2.prems"(2) have ok: "entry_ok m1 m2 (s1, s2, w)" "list_all (entry_ok m1 m2) q" by auto
    note C = compare_inputs_correct[OF cr ok(1) order_refl ok(2)]
    show ?thesis
    proof (cases cr)
      case (Distinguished v)
      with C cr "2.prems"(1) False show ?thesis by auto
    next
      case (Enqueued q')
      let ?v = "visited @ [(s1, s2)]"
      have run: "compare_loop m1 m2 ?v q' = Inr r" using "2.prems"(1) False cr Enqueued by simp
      have "bisim_upto m1 m2 (set visited) (set ?v \<union> queue_pairs q')"
        using "2.prems"(3) by (rule bisim_upto_mono) (use C Enqueued in auto)
      moreover have "\<forall>a \<in> set (mm_alphabet m1). step_agrees m1 m2 (set ?v \<union> queue_pairs q') (s1, s2) a"
      proof
        fix a assume "a \<in> set (mm_alphabet m1)"
        with C Enqueued have "step_agrees m1 m2 (queue_pairs q') (s1, s2) a" by auto
        then show "step_agrees m1 m2 (set ?v \<union> queue_pairs q') (s1, s2) a"
          by (rule step_agrees_mono) blast
      qed
      ultimately have "bisim_upto m1 m2 (set ?v) (set ?v \<union> queue_pairs q')"
        by (auto simp: bisim_upto_def)
      moreover have "list_all (entry_ok m1 m2) q'" "set visited \<union> queue_pairs ((s1, s2, w) # q)
          \<subseteq> set ?v \<union> queue_pairs q'" using C Enqueued by auto
      ultimately show ?thesis using "2.IH"(2)[OF False cr Enqueued run]
        by (cases r) (simp_all del: compare_loop.simps, blast)
    qed
  qed
qed auto

lemma bisim_run:
  assumes "bisim_upto m1 m2 V V" "(s1, s2) \<in> V" "set w \<subseteq> set (mm_alphabet m1)"
  shows "\<exists>os. mealy_run_from m1 s1 w = Inr os \<and> mealy_run_from m2 s2 w = Inr os"
  using assms(2,3)
proof (induction w arbitrary: s1 s2)
  case (Cons a w)
  from assms(1) Cons.prems obtain n1 n2 out where
    "map_of (mm_delta m1) (s1, a) = Some n1" "map_of (mm_delta m2) (s2, a) = Some n2"
    "map_of (mm_output m1) (s1, a) = Some out" "map_of (mm_output m2) (s2, a) = Some out"
    "(n1, n2) \<in> V" by (fastforce simp: bisim_upto_def step_agrees_def)
  with Cons show ?case by fastforce
qed simp

section \<open>Totality of the comparison\<close>

lemma compare_inputs_total:
  assumes "complete_over (set (mm_alphabet m1)) m1" "complete_over (set (mm_alphabet m1)) m2"
    "s1 \<in> set (mm_states m1)" "s2 \<in> set (mm_states m2)" "set as \<subseteq> set (mm_alphabet m1)"
    "queue_pairs q \<subseteq> set (mm_states m1) \<times> set (mm_states m2)"
  shows "\<exists>r. compare_inputs m1 m2 s1 s2 w as q = Inr r \<and>
    (case r of Distinguished v \<Rightarrow> True
     | Enqueued q' \<Rightarrow> queue_pairs q' \<subseteq> set (mm_states m1) \<times> set (mm_states m2))"
  using assms(5,6)
proof (induction as arbitrary: q)
  case (Cons a as)
  from assms(1,3) Cons.prems(1) obtain n1 o1 where e1:
    "map_of (mm_delta m1) (s1, a) = Some n1" "map_of (mm_output m1) (s1, a) = Some o1"
    "n1 \<in> set (mm_states m1)" by (fastforce simp: complete_over_def)
  from assms(2,4) Cons.prems(1) obtain n2 o2 where e2:
    "map_of (mm_delta m2) (s2, a) = Some n2" "map_of (mm_output m2) (s2, a) = Some o2"
    "n2 \<in> set (mm_states m2)" by (fastforce simp: complete_over_def)
  have idx: "dict_index (mm_delta m1) (s1, a) = Inr n1" "dict_index (mm_output m1) (s1, a) = Inr o1"
    "dict_index (mm_delta m2) (s2, a) = Inr n2" "dict_index (mm_output m2) (s2, a) = Inr o2"
    using e1 e2 by auto
  show ?case
  proof (cases "o1 = o2")
    case True
    with Cons.IH[of "q @ [(n1, n2, w @ [a])]"] Cons.prems e1 e2 show ?thesis by (simp add: idx)
  qed (simp add: idx)
qed simp

lemma compare_loop_total:
  assumes "complete_over (set (mm_alphabet m1)) m1" "complete_over (set (mm_alphabet m1)) m2"
    "queue_pairs q \<subseteq> set (mm_states m1) \<times> set (mm_states m2)"
  shows "\<exists>r. compare_loop m1 m2 visited q = Inr r"
  using assms
proof (induction m1 m2 visited q rule: compare_loop.induct)
  case (2 m1 m2 visited s1 s2 w q)
  obtain r where r: "compare_inputs m1 m2 s1 s2 w (mm_alphabet m1) q = Inr r"
    "case r of Distinguished v \<Rightarrow> True
     | Enqueued q' \<Rightarrow> queue_pairs q' \<subseteq> set (mm_states m1) \<times> set (mm_states m2)"
    using compare_inputs_total[OF "2.prems"(1,2), of s1 s2 "mm_alphabet m1" q w] "2.prems"(3) by auto
  show ?case
  proof (cases r)
    case (Enqueued q')
    with 2 r show ?thesis by (cases "(s1, s2) \<in> set visited") auto
  qed (use 2 r in \<open>cases "(s1, s2) \<in> set visited"; auto\<close>)
qed simp

section \<open>Properties\<close>

text \<open>
  C3. On machines that are complete over the first machine's alphabet the comparison always returns,
  and it decides equivalence: it returns no word exactly when both machines give the same outputs
  on every word of the alphabet, and a returned word distinguishes them, at its last input.
\<close>

theorem compare_mealy_decides:
  assumes "complete_over (set (mm_alphabet m1)) m1" and "complete_over (set (mm_alphabet m1)) m2"
  shows "\<exists>r. compare_mealy m1 m2 = Inr r \<and>
    (r = None) = (\<forall>w. set w \<subseteq> set (mm_alphabet m1) \<longrightarrow> mealy_run m1 w = mealy_run m2 w) \<and>
    (case r of None \<Rightarrow> True
     | Some w \<Rightarrow> set w \<subseteq> set (mm_alphabet m1) \<and> mealy_run m1 w \<noteq> mealy_run m2 w \<and>
         mealy_run m1 (butlast w) = mealy_run m2 (butlast w))"
proof -
  let ?q = "[(mm_start m1, mm_start m2, [])]"
  have "queue_pairs ?q \<subseteq> set (mm_states m1) \<times> set (mm_states m2)"
    using assms by (auto simp: complete_over_def)
  from compare_loop_total[OF assms this] obtain r where r: "compare_mealy m1 m2 = Inr r"
    unfolding compare_mealy_def by blast
  have C: "case r of
      Some v \<Rightarrow> set v \<subseteq> set (mm_alphabet m1) \<and>
        (\<exists>os ps. mealy_run m1 v = Inr os \<and> mealy_run m2 v = Inr ps \<and> os \<noteq> ps \<and> butlast os = butlast ps)
    | None \<Rightarrow> \<exists>V. set [] \<union> queue_pairs ?q \<subseteq> V \<and> bisim_upto m1 m2 V V"
    using compare_loop_correct[of m1 m2 "[]" ?q r] r
    by (simp add: compare_mealy_def entry_ok_def mealy_run_def bisim_upto_def)
  show ?thesis
  proof (cases r)
    case None
    with C obtain V where V: "(mm_start m1, mm_start m2) \<in> V" "bisim_upto m1 m2 V V" by auto
    have "mealy_run m1 w = mealy_run m2 w" if "set w \<subseteq> set (mm_alphabet m1)" for w
      using bisim_run[OF V(2,1) that] by (auto simp: mealy_run_def)
    with None r show ?thesis by auto
  next
    case (Some v)
    with C obtain os ps where v: "set v \<subseteq> set (mm_alphabet m1)" "mealy_run m1 v = Inr os"
      "mealy_run m2 v = Inr ps" "os \<noteq> ps" "butlast os = butlast ps" by auto
    from mealy_run_prefix[of m1 v os] mealy_run_prefix[of m2 v ps] v
    have "mealy_run m1 (butlast v) = mealy_run m2 (butlast v)" by simp
    with v Some r show ?thesis by auto
  qed
qed

theorem compare_mealy_decides_witness:
  "let m1 = new_mealy ''a'' [1] [''x''] [((1, ''x''), 1)] [((1, ''x''), ''0'')] 1 ();
       m2 = new_mealy ''b'' [1, 2] [''x''] [((1, ''x''), 2), ((2, ''x''), 2)]
              [((1, ''x''), ''0''), ((2, ''x''), ''1'')] 1 () in
   compare_mealy m1 m2 = Inr (Some [''x'', ''x'']) \<and>
   mealy_run m1 [''x'', ''x''] \<noteq> mealy_run m2 [''x'', ''x'']"
proof -
  let ?m1 = "new_mealy ''a'' [1] [''x''] [((1, ''x''), 1)] [((1, ''x''), ''0'')] 1 ()"
  let ?m2 = "new_mealy ''b'' [1, 2] [''x''] [((1, ''x''), 2), ((2, ''x''), 2)]
              [((1, ''x''), ''0''), ((2, ''x''), ''1'')] 1 ()"
  have c: "complete_over (set (mm_alphabet ?m1)) ?m1" "complete_over (set (mm_alphabet ?m1)) ?m2"
    by (auto simp: complete_over_def new_mealy_def)
  have r: "compare_mealy ?m1 ?m2 = Inr (Some [''x'', ''x''])" by code_simp
  from compare_mealy_decides[OF c] r show ?thesis by (auto simp: Let_def)
qed

end
