(* ===== verification/Obs_Table.thy ===== *)
theory Obs_Table imports Automata begin

text \<open>
  The observation table of \<open>voltron/learner/mlstar.py\<close> and the learner that drives it.

  The learner talks to the target through the membership oracle and shares a stop event, a stop
  reason and counters with the rest of the run.  These outer parts are the record \<open>ports\<close>: the
  answer to a query, \<open>should_stop\<close> of the run controller (absent when none is configured), the
  clock test used without a controller, the short wait on the stop event, and the flag of the
  no-growth threshold.  A port sees and may change the whole shared environment, which is how
  another thread's setting of the stop event is seen.  The progress display is not modelled.
  Python sets are enumerated in insertion order; the facts proved hold of every order, because they
  are about arbitrary starting lists.
\<close>

section \<open>State\<close>

type_synonym word = "string list"
type_synonym cell = "string list"
type_synonym observations = "word \<Rightarrow> (word \<Rightarrow> cell option) option"

record 'w env =
  env_stop :: bool
  env_reason :: "string option"
  env_states :: nat
  env_world :: 'w

record 'w ports =
  pt_query :: "word \<Rightarrow> 'w env \<Rightarrow> string list option \<times> 'w env"
  pt_should_stop :: "('w env \<Rightarrow> bool \<times> 'w env) option"
  pt_time_over :: "'w env \<Rightarrow> bool \<times> 'w env"
  pt_wait :: "'w env \<Rightarrow> bool \<times> 'w env"
  pt_threshold :: "'w env \<Rightarrow> bool"
  pt_retries :: int

record 'w ob_table =
  ot_alphabet :: "string list"
  ot_S :: "word list"
  ot_E :: "word list"
  ot_T :: observations
  ot_env :: "'w env"

datatype learn_error =
    LearningStopped string
  | ThresholdReached
  | PyExc exc
  | OutOfFuel

type_synonym ('w, 'a) learn = "(learn_error, 'w ob_table, 'a) action"

definition abnormal_symbols :: "string list" where
  "abnormal_symbols = [''CRASH'', ''TIMEOUT'', ''CLOSED'', ''POLLERR'']"

text \<open>\<open>ObTable.__init__\<close>\<close>

definition new_table :: "string list \<Rightarrow> 'w env \<Rightarrow> 'w ob_table" where
  "new_table alphabet env =
     \<lparr>ot_alphabet = alphabet, ot_S = [[''-'']], ot_E = py_set (map (\<lambda>a. [a]) alphabet),
      ot_T = (\<lambda>_. None), ot_env = env\<rparr>"

section \<open>Access to the entries\<close>

definition ob_cell :: "observations \<Rightarrow> word \<Rightarrow> word \<Rightarrow> cell option" where
  "ob_cell T s e = (case T s of None \<Rightarrow> None | Some r \<Rightarrow> r e)"

definition get_cell :: "observations \<Rightarrow> word \<Rightarrow> word \<Rightarrow> learn_error + cell" where
  "get_cell T s e = (case ob_cell T s e of None \<Rightarrow> Inl (PyExc KeyError) | Some c \<Rightarrow> Inr c)"

text \<open>\<open>if s not in T: T[s] = {}\<close>, and \<open>T[s][e] = c\<close>, which needs the row.\<close>

definition ensure_row :: "word \<Rightarrow> observations \<Rightarrow> observations" where
  "ensure_row s T = (case T s of None \<Rightarrow> T(s \<mapsto> (\<lambda>_. None)) | Some _ \<Rightarrow> T)"

definition set_cell :: "word \<Rightarrow> word \<Rightarrow> cell \<Rightarrow> observations \<Rightarrow> learn_error + observations" where
  "set_cell s e c T =
     (case T s of None \<Rightarrow> Inl (PyExc KeyError) | Some r \<Rightarrow> Inr (T(s \<mapsto> r(e \<mapsto> c))))"

definition put_cell :: "word \<Rightarrow> word \<Rightarrow> cell \<Rightarrow> ('w, unit) learn" where
  "put_cell s e c = sbind (sget ot_T) (\<lambda>T. sbind (slift (set_cell s e c T))
     (\<lambda>T'. smodify (\<lambda>st. st\<lparr>ot_T := T'\<rparr>)))"

text \<open>\<open>out[-len(e):]\<close>, which is all of \<open>out\<close> for an empty \<open>e\<close>.\<close>

definition tail_for :: "word \<Rightarrow> string list \<Rightarrow> cell" where
  "tail_for e out = (if e = [] then out else last_n (length e) out)"

section \<open>Stopping\<close>

definition at_env :: "('w env \<Rightarrow> 'a \<times> 'w env) \<Rightarrow> ('w, 'a) learn" where
  "at_env f st = (case f (ot_env st) of (x, env) \<Rightarrow> (Inr x, st\<lparr>ot_env := env\<rparr>))"

text \<open>\<open>Analyzer.request_stop\<close> with the learner's event: the first reason stays.\<close>

definition analyzer_request_stop :: "string \<Rightarrow> 'w env \<Rightarrow> 'w env" where
  "analyzer_request_stop reason env =
     (let env' = (case env_reason env of None \<Rightarrow> env\<lparr>env_reason := Some reason\<rparr> | Some _ \<Rightarrow> env)
      in env'\<lparr>env_stop := True\<rparr>)"

definition stop_learning :: "string \<Rightarrow> ('w, 'a) learn" where
  "stop_learning reason st =
     (Inl (LearningStopped reason),
      st\<lparr>ot_env := (case env_reason (ot_env st) of
          None \<Rightarrow> analyzer_request_stop ''model_learning_failure'' (ot_env st)
        | Some _ \<Rightarrow> (ot_env st)\<lparr>env_stop := True\<rparr>)\<rparr>)"

definition deadline_reached :: "'w ports \<Rightarrow> ('w, bool) learn" where
  "deadline_reached p =
     (case pt_should_stop p of
        Some f \<Rightarrow> at_env f
      | None \<Rightarrow> at_env (\<lambda>env.
          case pt_time_over p env of (over, env') \<Rightarrow>
            if over then (True, analyzer_request_stop ''deadline'' env') else (False, env')))"

text \<open>
  \<open>_query_with_empty_retry\<close>: attempt number \<open>attempts - n\<close> of \<open>attempts\<close>, with \<open>n\<close> left after it.
  The result is None also when every answer was empty.
\<close>

primrec query_attempts :: "'w ports \<Rightarrow> word \<Rightarrow> nat \<Rightarrow> ('w, string list option) learn" where
  "query_attempts p w 0 = sret None"
| "query_attempts p w (Suc n) =
     sbind (sget (\<lambda>st. env_stop (ot_env st))) (\<lambda>stopped.
       if stopped then sret None
       else sbind (at_env (pt_query p w)) (\<lambda>output.
         case output of
           Some (x # xs) \<Rightarrow> sret (Some (x # xs))
         | _ \<Rightarrow>
             (if 0 < n
              then sbind (at_env (pt_wait p)) (\<lambda>waited.
                     if waited then sret None else query_attempts p w n)
              else sret None)))"

definition query_with_empty_retry :: "'w ports \<Rightarrow> word \<Rightarrow> ('w, string list option) learn" where
  "query_with_empty_retry p w = query_attempts p w (nat (max 1 (pt_retries p)))"

section \<open>Filling the table\<close>

definition is_abnormal :: "cell \<Rightarrow> bool" where
  "is_abnormal c \<longleftrightarrow> c \<in> set [[''CLOSED''], [''CRASH''], [''TIMEOUT''], [''POLLERR'']]"

definition short_timeout :: "word \<Rightarrow> string list \<Rightarrow> bool" where
  "short_timeout s out \<longleftrightarrow> 0 < length s \<and> last out = ''TIMEOUT'' \<and> length out < length s"

definition stop_if_set :: "('w, unit) learn" where
  "stop_if_set = sbind (sget (\<lambda>st. env_stop (ot_env st)))
     (\<lambda>stopped. if stopped then stop_learning ''model learning stopped'' else sret ())"

definition query_s_cell :: "'w ports \<Rightarrow> word \<Rightarrow> word \<Rightarrow> ('w, unit) learn" where
  "query_s_cell p s e =
     sbind (query_with_empty_retry p (s @ e)) (\<lambda>output.
       case output of
         None \<Rightarrow> stop_learning ''model learning received no output''
       | Some out \<Rightarrow> if short_timeout s out then sret () else put_cell s e (tail_for e out))"

text \<open>The body of the first loop, for one prefix \<open>s\<close> and one suffix \<open>e\<close>.\<close>

definition fill_s_cell :: "'w ports \<Rightarrow> word \<Rightarrow> word \<Rightarrow> ('w, unit) learn" where
  "fill_s_cell p s e =
     sbind (smodify (\<lambda>st. st\<lparr>ot_T := ensure_row s (ot_T st)\<rparr>)) (\<lambda>_.
     sbind (sget (\<lambda>st. ob_cell (ot_T st) s e)) (\<lambda>known.
       if known \<noteq> None then sret ()
       else
         sbind (deadline_reached p) (\<lambda>_.
         sbind stop_if_set (\<lambda>_.
           if length s = 1 then query_s_cell p s e
           else sbind (sget ot_T) (\<lambda>T. sbind (slift (get_cell T (butlast s) (last_n 1 s))) (\<lambda>c.
             if is_abnormal c then put_cell s e c else query_s_cell p s e))))))"

text \<open>
  The query loop of the second part: \<open>on_short\<close> is what follows an answer that timed out before
  the prefix was through; after three of them the entry of the cut prefix is overwritten.
\<close>

definition query_si_round ::
    "'w ports \<Rightarrow> word \<Rightarrow> word \<Rightarrow> (string list \<Rightarrow> ('w, unit) learn) \<Rightarrow> ('w, unit) learn" where
  "query_si_round p si e on_short =
     sbind (query_with_empty_retry p (si @ e)) (\<lambda>output.
       case output of
         None \<Rightarrow> stop_learning ''model learning received no output''
       | Some out \<Rightarrow> if short_timeout si out then on_short out else put_cell si e (tail_for e out))"

definition give_up_si :: "word \<Rightarrow> word \<Rightarrow> string list \<Rightarrow> ('w, unit) learn" where
  "give_up_si si e out =
     sbind (put_cell (take (length out - 1) si) (last_n 1 si) [''TIMEOUT''])
       (\<lambda>_. put_cell si e (tail_for e out))"

primrec query_si_cell :: "'w ports \<Rightarrow> word \<Rightarrow> word \<Rightarrow> nat \<Rightarrow> ('w, unit) learn" where
  "query_si_cell p si e 0 = query_si_round p si e (give_up_si si e)"
| "query_si_cell p si e (Suc tries) = query_si_round p si e (\<lambda>_. query_si_cell p si e tries)"

definition fill_si_cell :: "'w ports \<Rightarrow> word \<Rightarrow> string \<Rightarrow> word \<Rightarrow> ('w, unit) learn" where
  "fill_si_cell p s a e =
     sbind (deadline_reached p) (\<lambda>_.
     sbind stop_if_set (\<lambda>_.
     sbind (sget (\<lambda>st. ob_cell (ot_T st) (s @ [a]) e)) (\<lambda>known.
       if known \<noteq> None then sret ()
       else sbind (sget ot_T) (\<lambda>T. sbind (slift (get_cell T s [a])) (\<lambda>c.
         if is_abnormal c then put_cell (s @ [a]) e c
         else query_si_cell p (s @ [a]) e 2)))))"

definition fill_si_row :: "'w ports \<Rightarrow> word list \<Rightarrow> word \<Rightarrow> string \<Rightarrow> ('w, unit) learn" where
  "fill_si_row p E s a =
     sbind (smodify (\<lambda>st. st\<lparr>ot_T := ensure_row (s @ [a]) (ot_T st)\<rparr>))
       (\<lambda>_. sfor (fill_si_cell p s a) E)"

definition fill_table :: "'w ports \<Rightarrow> ('w, unit) learn" where
  "fill_table p =
     sbind (sget (\<lambda>st. (ot_S st, ot_E st, ot_alphabet st))) (\<lambda>(S, E, alphabet).
     sbind (sfor (\<lambda>s. sfor (fill_s_cell p s) E) S) (\<lambda>_.
       sfor (\<lambda>s. sfor (fill_si_row p E s) alphabet) S))"

section \<open>Rows, closedness and consistency\<close>

definition row :: "'w ob_table \<Rightarrow> word \<Rightarrow> learn_error + cell list" where
  "row st s = rmap (get_cell (ot_T st) s) (ot_E st)"

text \<open>None stands for the closed answer, a pair for the first prefix and input that break it.\<close>

definition is_closed :: "'w ob_table \<Rightarrow> learn_error + (word \<times> string) option" where
  "is_closed st =
     rbind (rmap (row st) (ot_S st)) (\<lambda>rows.
       rfind (\<lambda>s. rfind (\<lambda>a. rbind (row st (s @ [a])) (\<lambda>r.
         Inr (if r \<in> set rows then None else Some (s, a)))) (ot_alphabet st)) (ot_S st))"

text \<open>
  The guard of \<open>make_close\<close> looks for a cell, which is a tuple, in a list of strings.  A tuple is
  equal to no string, so the test is False for every cell.
\<close>

definition cell_in_strings :: "cell \<Rightarrow> string list \<Rightarrow> bool" where
  "cell_in_strings c names = False"

definition close_guard :: "'w ob_table \<Rightarrow> word \<Rightarrow> learn_error + bool" where
  "close_guard st s =
     (if 1 < length s
      then rbind (get_cell (ot_T st) (butlast s) (last_n 1 s))
             (\<lambda>c. Inr (cell_in_strings c abnormal_symbols))
      else Inr False)"

definition add_prefix :: "word \<Rightarrow> ('w, unit) learn" where
  "add_prefix sa = smodify (\<lambda>st. st\<lparr>ot_S := set_add sa (ot_S st),
     ot_env := (ot_env st)\<lparr>env_states := env_states (ot_env st) + 1\<rparr>\<rparr>)"

definition threshold_reached :: "'w ports \<Rightarrow> ('w, bool) learn" where
  "threshold_reached p = sget (\<lambda>st. pt_threshold p (ot_env st))"

primrec make_close :: "'w ports \<Rightarrow> nat \<Rightarrow> ('w, unit) learn" where
  "make_close p 0 = slift (Inl OutOfFuel)"
| "make_close p (Suc fuel) =
     sbind (sget (\<lambda>st. env_stop (ot_env st))) (\<lambda>stopped.
     if stopped then sret ()
     else sbind (threshold_reached p) (\<lambda>reached.
     if reached then sret ()
     else sbind (sget is_closed) (\<lambda>res. sbind (slift res) (\<lambda>open_at.
     case open_at of
       None \<Rightarrow> sret ()
     | Some (s, a) \<Rightarrow>
         if s = [] \<or> a = [] then sret ()
         else sbind (sget (\<lambda>st. close_guard st s)) (\<lambda>g. sbind (slift g) (\<lambda>guarded.
           if guarded then sret ()
           else
             sbind (add_prefix (s @ [a])) (\<lambda>_.
             sbind (fill_table p) (\<lambda>_.
             sbind (threshold_reached p) (\<lambda>reached'.
               if reached' then sret () else make_close p fuel)))))))))"

definition is_consistent ::
    "'w ob_table \<Rightarrow> learn_error + (word \<times> word \<times> string \<times> word) option" where
  "is_consistent st =
     rfind (\<lambda>s1. rfind (\<lambda>s2.
       rbind (row st s1) (\<lambda>r1. rbind (row st s2) (\<lambda>r2.
       if r1 = r2
       then rfind (\<lambda>a. rfind (\<lambda>e.
              rbind (get_cell (ot_T st) (s1 @ [a]) e) (\<lambda>c1.
              rbind (get_cell (ot_T st) (s2 @ [a]) e) (\<lambda>c2.
                Inr (if c1 \<noteq> c2 then Some (s1, s2, a, e) else None)))) (ot_E st)) (ot_alphabet st)
       else Inr None))) (ot_S st)) (ot_S st)"

primrec make_consistent :: "'w ports \<Rightarrow> nat \<Rightarrow> ('w, unit) learn" where
  "make_consistent p 0 = slift (Inl OutOfFuel)"
| "make_consistent p (Suc fuel) =
     sbind stop_if_set (\<lambda>_.
     sbind (threshold_reached p) (\<lambda>reached.
     if reached then sret ()
     else sbind (sget is_consistent) (\<lambda>res. sbind (slift res) (\<lambda>witness.
     case witness of
       None \<Rightarrow> sret ()
     | Some (s1, s2, a, e) \<Rightarrow>
         sbind (smodify (\<lambda>st. st\<lparr>ot_E := set_add (a # e) (ot_E st)\<rparr>)) (\<lambda>_.
         sbind (fill_table p) (\<lambda>_. make_consistent p fuel))))))"

section \<open>The hypothesis\<close>

type_synonym row_ids = "(cell list, nat) dict"
type_synonym learned = "(word list \<times> word list \<times> observations) mealy"

text \<open>The first loop: a number for every distinct row, from 1.\<close>

definition number_row :: "'w ob_table \<Rightarrow> row_ids \<times> nat \<Rightarrow> word \<Rightarrow> learn_error + row_ids \<times> nat" where
  "number_row st acc s =
     rbind (row st s) (\<lambda>r. case acc of (states, sid) \<Rightarrow>
       Inr (if r \<in> fst ` set states then (states, sid) else (states @ [(r, sid)], sid + 1)))"

definition number_rows :: "'w ob_table \<Rightarrow> learn_error + row_ids" where
  "number_rows st = rbind (rfold (number_row st) ([], 1) (ot_S st)) (\<lambda>acc. Inr (fst acc))"

text \<open>\<open>next(x for x in S if row(x) == r)\<close>\<close>

definition representative :: "'w ob_table \<Rightarrow> cell list \<Rightarrow> learn_error + word" where
  "representative st r =
     rbind (rfind (\<lambda>x. rbind (row st x) (\<lambda>r'. Inr (if r' = r then Some x else None))) (ot_S st))
       (\<lambda>x. case x of None \<Rightarrow> Inl (PyExc StopIteration) | Some x \<Rightarrow> Inr x)"

definition state_of :: "row_ids \<Rightarrow> cell list \<Rightarrow> learn_error + nat" where
  "state_of states r = (case map_of states r of None \<Rightarrow> Inl (PyExc KeyError) | Some i \<Rightarrow> Inr i)"

definition add_edge :: "'w ob_table \<Rightarrow> row_ids \<Rightarrow> nat \<Rightarrow> word \<Rightarrow>
    nat edge_dict \<times> string edge_dict \<Rightarrow> string \<Rightarrow> learn_error + nat edge_dict \<times> string edge_dict" where
  "add_edge st states state_id s acc a =
     (case acc of (delta, output) \<Rightarrow>
       rbind (row st (s @ [a])) (\<lambda>r2.
       rbind (state_of states r2) (\<lambda>target.
       rbind (get_cell (ot_T st) s [a]) (\<lambda>c.
         Inr (dict_put (state_id, a) target delta, dict_put (state_id, a) (concat c) output)))))"

definition add_state_edges :: "'w ob_table \<Rightarrow> row_ids \<Rightarrow>
    nat edge_dict \<times> string edge_dict \<Rightarrow> cell list \<times> nat \<Rightarrow>
    learn_error + nat edge_dict \<times> string edge_dict" where
  "add_state_edges st states acc entry =
     (case entry of (r, state_id) \<Rightarrow>
       rbind (representative st r) (\<lambda>s.
         rfold (add_edge st states state_id s) acc (ot_alphabet st)))"

definition build_hypothesis :: "'w ob_table \<Rightarrow> string \<Rightarrow> learn_error + learned" where
  "build_hypothesis st i =
     rbind (number_rows st) (\<lambda>states.
     rbind (rfold (add_state_edges st states) ([], []) states) (\<lambda>(delta, output).
     rbind (row st [''-'']) (\<lambda>r0.
     rbind (state_of states r0) (\<lambda>start.
       Inr (new_mealy i (py_set (map snd states)) (py_set (ot_alphabet st)) delta output start
              (ot_S st, ot_E st, ot_T st))))))"

section \<open>The learner\<close>

text \<open>\<open>MealyLstar.__init__\<close>: a fresh table is filled at once, an existing one is taken over.\<close>

definition lstar_init :: "'w ports \<Rightarrow> string list \<Rightarrow> (word list \<times> word list \<times> observations) option \<Rightarrow>
    'w env \<Rightarrow> (learn_error + unit) \<times> 'w ob_table" where
  "lstar_init p alphabet table env =
     (case table of
        None \<Rightarrow> fill_table p (new_table alphabet env)
      | Some (S, E, T) \<Rightarrow>
          (Inr (), (new_table alphabet env)\<lparr>ot_S := S, ot_E := E, ot_T := T\<rparr>))"

definition check_threshold :: "'w ports \<Rightarrow> ('w, unit) learn" where
  "check_threshold p = sbind (threshold_reached p)
     (\<lambda>reached. if reached then slift (Inl ThresholdReached) else sret ())"

definition lstar_run :: "'w ports \<Rightarrow> nat \<Rightarrow> string \<Rightarrow> ('w, learned) learn" where
  "lstar_run p fuel i =
     sbind (check_threshold p) (\<lambda>_.
     sbind (make_close p fuel) (\<lambda>_.
     sbind (check_threshold p) (\<lambda>_.
     sbind (make_consistent p fuel) (\<lambda>_.
     sbind (check_threshold p) (\<lambda>_.
     sbind (sget (\<lambda>st. build_hypothesis st i)) slift)))))"

definition lstar_berserker_run :: "'w ports \<Rightarrow> nat \<Rightarrow> string \<Rightarrow> ('w, learned) learn" where
  "lstar_berserker_run p fuel i =
     sbind (sget (\<lambda>st. map (\<lambda>a. a @ ''[m]'') (ot_alphabet st))) (\<lambda>additional.
     sbind (smodify (\<lambda>st. st\<lparr>ot_alphabet := ot_alphabet st @ additional,
              ot_E := foldl (\<lambda>E a. set_add [a] E) (ot_E st) additional\<rparr>)) (\<lambda>_.
     sbind (fill_table p) (\<lambda>_.
     sbind (make_close p fuel) (\<lambda>_.
     sbind (make_consistent p fuel) (\<lambda>_.
     sbind (sget (\<lambda>st. build_hypothesis st i)) slift)))))"

end
