(* ===== verification/Table_Learning.thy ===== *)
theory Table_Learning imports Obs_Table begin

text \<open>
  Correctness of the observation table and of the learner of \<open>Obs_Table\<close>.

  The locale \<open>teacher\<close> states what learning relies on when the target is deterministic; inside it
  every filled entry is shown to be the expected one, the table stays well shaped, and the rows of
  the prefixes stay distinct.  The locale \<open>finite_teacher\<close> adds that the target has finitely many
  behaviours, which bounds the number of prefixes and hence the rounds of \<open>make_close\<close>.  Both are
  interpreted on the targets that behave like a Mealy machine of \<open>Automata\<close>.  The last section is
  about runs that are stopped, for arbitrary ports.
\<close>

section \<open>What the entries mean\<close>

text \<open>
  A query word starts with the symbol of the initial connection, followed by inputs.  An entry is
  meant to hold the outputs of its suffix; once a request of the prefix got an abnormal answer the
  conversation is over, and that answer stands for every later one.
\<close>

definition access_word :: "string set \<Rightarrow> word \<Rightarrow> bool" where
  "access_word A w \<longleftrightarrow> w \<noteq> [] \<and> hd w = ''-'' \<and> set (tl w) \<subseteq> A"

definition first_abnormal :: "string list \<Rightarrow> string option" where
  "first_abnormal outs = find (\<lambda>x. x \<in> set abnormal_symbols) (tl outs)"

definition expected :: "(word \<Rightarrow> string list) \<Rightarrow> word \<Rightarrow> word \<Rightarrow> cell" where
  "expected ans s e =
     (case first_abnormal (ans s) of Some x \<Rightarrow> [x] | None \<Rightarrow> tail_for e (ans (s @ e)))"

definition expected_row :: "(word \<Rightarrow> string list) \<Rightarrow> word list \<Rightarrow> word \<Rightarrow> cell list" where
  "expected_row ans E s = map (expected ans s) E"

lemma access_word_append [simp]:
  "access_word A s \<Longrightarrow> set e \<subseteq> A \<Longrightarrow> access_word A (s @ e)"
  by (auto simp: access_word_def)

lemma access_word_start [simp]: "access_word A [''-'']"
  by (simp add: access_word_def)

lemma access_word_nonempty: "access_word A s \<Longrightarrow> s \<noteq> []"
  by (simp add: access_word_def)

lemma is_abnormal_single: "is_abnormal [x] \<longleftrightarrow> x \<in> set abnormal_symbols"
  by (auto simp: is_abnormal_def abnormal_symbols_def)

lemma find_append: "find P (xs @ ys) = (case find P xs of None \<Rightarrow> find P ys | Some x \<Rightarrow> Some x)"
  by (induction xs) auto

lemma first_abnormal_snoc:
  "xs \<noteq> [] \<Longrightarrow> first_abnormal (xs @ [x]) =
     (case first_abnormal xs of
        Some y \<Rightarrow> Some y
      | None \<Rightarrow> if x \<in> set abnormal_symbols then Some x else None)"
  by (auto simp: first_abnormal_def find_append split: option.splits)

lemma first_abnormal_SomeD: "first_abnormal xs = Some x \<Longrightarrow> x \<in> set abnormal_symbols"
  by (auto simp: first_abnormal_def find_Some_iff)

lemma tail_for_single: "xs \<noteq> [] \<Longrightarrow> tail_for [a] xs = [last xs]"
  by (induction xs rule: rev_induct) (auto simp: tail_for_def last_n_def)

lemma tail_for_drop:
  "length out = length (s @ e) \<Longrightarrow> e \<noteq> [] \<Longrightarrow> tail_for e out = drop (length s) out"
  by (auto simp: tail_for_def last_n_def)

text \<open>Updates of the table, seen through \<open>ob_cell\<close>.\<close>

lemma ob_cell_ensure_row [simp]: "ob_cell (ensure_row s T) = ob_cell T"
  by (auto simp: ob_cell_def ensure_row_def fun_eq_iff split: option.splits)

lemma ensure_row_dom [simp]: "ensure_row s T s \<noteq> None"
  by (auto simp: ensure_row_def split: option.splits)

lemma put_cell_present:
  assumes "ot_T st s \<noteq> None"
  shows "\<exists>T'. put_cell s e c st = (Inr (), st\<lparr>ot_T := T'\<rparr>) \<and>
     (\<forall>u v. ob_cell T' u v = (if u = s \<and> v = e then Some c else ob_cell (ot_T st) u v)) \<and>
     (\<forall>u. ot_T st u \<noteq> None \<longrightarrow> T' u \<noteq> None)"
proof -
  from assms obtain r where r: "ot_T st s = Some r" by auto
  have "ob_cell ((ot_T st)(s \<mapsto> r(e \<mapsto> c))) u v = (if u = s \<and> v = e then Some c else ob_cell (ot_T st) u v)"
    for u v using r by (simp add: ob_cell_def)
  moreover have "put_cell s e c st = (Inr (), st\<lparr>ot_T := (ot_T st)(s \<mapsto> r(e \<mapsto> c))\<rparr>)"
    using r by (simp add: put_cell_def action_defs set_cell_def)
  ultimately show ?thesis by auto
qed

section \<open>Learning from a deterministic target\<close>

text \<open>
  What the learner relies on when the target is deterministic and the run is not stopped: queries
  about access words are answered by a fixed function with one output per request, extending a word
  keeps the outputs of its beginning, and neither the deadline nor the threshold intervenes.
\<close>

locale teacher =
  fixes p :: "'w ports" and A :: "string set" and ans :: "word \<Rightarrow> string list"
    and ok :: "'w env \<Rightarrow> bool"
  assumes query: "ok env \<Longrightarrow> access_word A w \<Longrightarrow>
      \<exists>env'. pt_query p w env = (Some (ans w), env') \<and> ok env'"
    and running: "ok env \<Longrightarrow> \<not> env_stop env \<and> \<not> pt_threshold p env"
    and in_time: "ok env \<Longrightarrow> \<exists>env'. (case pt_should_stop p of Some f \<Rightarrow> f env
      | None \<Rightarrow> pt_time_over p env) = (False, env') \<and> ok env'"
    and count_ok: "ok env \<Longrightarrow> ok (env\<lparr>env_states := n\<rparr>)"
    and length_ans: "length (ans w) = length w"
    and prefix_ans: "take (length u) (ans (u @ v)) = ans u"
begin

lemma ans_nonempty: "w \<noteq> [] \<Longrightarrow> ans w \<noteq> []"
  using length_ans[of w] by auto

lemma ans_snoc: "ans (w @ [a]) = ans w @ [last (ans (w @ [a]))]"
proof -
  have "ans (w @ [a]) = butlast (ans (w @ [a])) @ [last (ans (w @ [a]))]"
    using ans_nonempty[of "w @ [a]"] by simp
  moreover have "butlast (ans (w @ [a])) = ans w"
    using prefix_ans[of w "[a]"] length_ans[of "w @ [a]"] by (simp add: butlast_conv_take)
  ultimately show ?thesis by simp
qed

lemma first_abnormal_ans_snoc:
  "s \<noteq> [] \<Longrightarrow> first_abnormal (ans (s @ [a])) =
     (if is_abnormal (expected ans s [a]) then Some (hd (expected ans s [a])) else None)"
  by (subst ans_snoc) (auto simp: first_abnormal_snoc ans_nonempty expected_def is_abnormal_single
      tail_for_single dest: first_abnormal_SomeD split: option.splits)

lemma expected_abnormal:
  "s \<noteq> [] \<Longrightarrow> is_abnormal (expected ans s [a]) \<Longrightarrow> expected ans (s @ [a]) e = expected ans s [a]"
  by (auto simp: expected_def[of _ "s @ [a]"] first_abnormal_ans_snoc is_abnormal_def)

lemma expected_normal:
  "s \<noteq> [] \<Longrightarrow> \<not> is_abnormal (expected ans s [a]) \<Longrightarrow>
     expected ans (s @ [a]) e = tail_for e (ans (s @ [a] @ e))"
  by (simp add: expected_def[of _ "s @ [a]"] first_abnormal_ans_snoc)

lemma expected_start: "expected ans [''-''] e = tail_for e (ans (''-'' # e))"
proof -
  have "length (ans [''-'']) = 1" using length_ans[of "[''-'']"] by simp
  then have "tl (ans [''-'']) = []" by (cases "ans [''-'']") auto
  then show ?thesis by (simp add: expected_def first_abnormal_def)
qed

text \<open>The state invariant: the environment is well, and every entry is what it is meant to be.\<close>

definition table_ok :: "'w ob_table \<Rightarrow> bool" where
  "table_ok st \<longleftrightarrow> ok (ot_env st) \<and>
     (\<forall>s e c. ob_cell (ot_T st) s e = Some c \<longrightarrow> c = expected ans s e)"

definition grown :: "'w ob_table \<Rightarrow> 'w ob_table \<Rightarrow> bool" where
  "grown st st' \<longleftrightarrow> ot_S st' = ot_S st \<and> ot_E st' = ot_E st \<and> ot_alphabet st' = ot_alphabet st \<and>
     (\<forall>s e. ob_cell (ot_T st) s e \<noteq> None \<longrightarrow> ob_cell (ot_T st') s e \<noteq> None) \<and>
     (\<forall>s. ot_T st s \<noteq> None \<longrightarrow> ot_T st' s \<noteq> None)"

lemma grown_refl [simp]: "grown st st"
  by (simp add: grown_def)

lemma grown_trans: "grown st st' \<Longrightarrow> grown st' st'' \<Longrightarrow> grown st st''"
  by (simp add: grown_def)

lemma deadline_ok:
  assumes "table_ok st"
  shows "\<exists>env. deadline_reached p st = (Inr False, st\<lparr>ot_env := env\<rparr>) \<and> ok env"
  using in_time[of "ot_env st"] assms
  by (auto simp: table_ok_def deadline_reached_def at_env_def split: option.splits prod.splits)

lemma stop_if_set_ok: "table_ok st \<Longrightarrow> stop_if_set st = (Inr (), st)"
  using running[of "ot_env st"] by (simp add: table_ok_def stop_if_set_def action_defs)

lemma query_ok:
  assumes "table_ok st" "access_word A w"
  shows "\<exists>env. query_with_empty_retry p w st = (Inr (Some (ans w)), st\<lparr>ot_env := env\<rparr>) \<and> ok env"
proof -
  obtain n where n: "nat (max 1 (pt_retries p)) = Suc n" by (metis Suc_pred max.bounded_iff order_refl zero_less_nat_eq zero_less_one int_one_le_iff_zero_less)
  from ans_nonempty[OF access_word_nonempty[OF assms(2)]] obtain x xs where a: "ans w = x # xs"
    by (cases "ans w") auto
  show ?thesis using query[OF _ assms(2), of "ot_env st"] running[of "ot_env st"] assms(1) a
    by (auto simp: query_with_empty_retry_def n table_ok_def action_defs at_env_def)
qed

lemma env_ok: "table_ok st \<Longrightarrow> ok env \<Longrightarrow> table_ok (st\<lparr>ot_env := env\<rparr>)"
  by (simp add: table_ok_def)

lemma put_ok:
  assumes "table_ok st" "ot_T st s \<noteq> None" "c = expected ans s e"
  shows "\<exists>st'. put_cell s e c st = (Inr (), st') \<and> table_ok st' \<and> grown st st' \<and>
    ob_cell (ot_T st') s e \<noteq> None"
proof -
  from put_cell_present[OF assms(2), of e c] obtain T' where
    T': "put_cell s e c st = (Inr (), st\<lparr>ot_T := T'\<rparr>)"
    "\<forall>u v. ob_cell T' u v = (if u = s \<and> v = e then Some c else ob_cell (ot_T st) u v)"
    "\<forall>u. ot_T st u \<noteq> None \<longrightarrow> T' u \<noteq> None" by auto
  have "table_ok (st\<lparr>ot_T := T'\<rparr>)" using assms(1) T'(2) by (auto simp: table_ok_def assms(3))
  moreover have "grown st (st\<lparr>ot_T := T'\<rparr>)" using T'(2,3) by (simp add: grown_def)
  ultimately show ?thesis using T' by auto
qed

lemma row_started: "table_ok st \<Longrightarrow> table_ok (st\<lparr>ot_T := ensure_row s (ot_T st)\<rparr>) \<and>
    grown st (st\<lparr>ot_T := ensure_row s (ot_T st)\<rparr>)"
  by (simp add: table_ok_def grown_def) (simp add: ensure_row_def split: option.split)

lemma grown_env [simp]: "grown st (st\<lparr>ot_env := env\<rparr>)"
  by (simp add: grown_def)

lemma not_short: "length out = length (s @ e) \<Longrightarrow> \<not> short_timeout s out"
  by (simp add: short_timeout_def)

text \<open>Both query bodies record the answered cell.\<close>

lemma query_cell_ok:
  assumes "table_ok st" "access_word A s" "set e \<subseteq> A" "ot_T st s \<noteq> None"
    "expected ans s e = tail_for e (ans (s @ e))"
  shows "\<exists>st'. query_s_cell p s e st = (Inr (), st') \<and> query_si_cell p s e 2 st = (Inr (), st') \<and>
    table_ok st' \<and> grown st st' \<and> ob_cell (ot_T st') s e \<noteq> None"
proof -
  from query_ok[OF assms(1) access_word_append[OF assms(2,3)]] obtain env where
    q: "query_with_empty_retry p (s @ e) st = (Inr (Some (ans (s @ e))), st\<lparr>ot_env := env\<rparr>)" "ok env"
    by blast
  have t: "table_ok (st\<lparr>ot_env := env\<rparr>)" using assms(1) q(2) by (rule env_ok)
  obtain st' where st': "put_cell s e (expected ans s e) (st\<lparr>ot_env := env\<rparr>) = (Inr (), st')"
    "table_ok st'" "grown (st\<lparr>ot_env := env\<rparr>) st'" "ob_cell (ot_T st') s e \<noteq> None"
    using put_ok[OF t, of s "expected ans s e" e] assms(4) by auto
  have "grown st st'" using grown_trans[OF grown_env st'(3)] .
  with st' q not_short[OF length_ans, of s e] assms(5) show ?thesis
    by (simp add: query_s_cell_def query_si_round_def sbind_def numeral_2_eq_2)
qed

lemma last_n_1: "xs \<noteq> [] \<Longrightarrow> last_n 1 xs = [last xs]"
  by (cases xs rule: rev_cases) (auto simp: last_n_def)

lemma get_cell_ok:
  "table_ok st \<Longrightarrow> ob_cell (ot_T st) s e \<noteq> None \<Longrightarrow> get_cell (ot_T st) s e = Inr (expected ans s e)"
  by (auto simp: table_ok_def get_cell_def)

lemma fill_s_cell_ok:
  assumes "table_ok st" "access_word A s" "set e \<subseteq> A"
    "1 < length s \<longrightarrow> ob_cell (ot_T st) (butlast s) [last s] \<noteq> None"
  shows "\<exists>st'. fill_s_cell p s e st = (Inr (), st') \<and> table_ok st' \<and> grown st st' \<and>
    ob_cell (ot_T st') s e \<noteq> None"
proof -
  let ?st = "st\<lparr>ot_T := ensure_row s (ot_T st)\<rparr>"
  have t: "table_ok ?st" "grown st ?st" using row_started[OF assms(1)] by auto
  have ne: "s \<noteq> []" using assms(2) by (rule access_word_nonempty)
  show ?thesis
  proof (cases "ob_cell (ot_T st) s e")
    case (Some c)
    then show ?thesis using t by (simp add: fill_s_cell_def action_defs)
  next
    case None
    from deadline_ok[OF t(1)] obtain env where
      d: "deadline_reached p ?st = (Inr False, ?st\<lparr>ot_env := env\<rparr>)" "ok env" by blast
    let ?st1 = "?st\<lparr>ot_env := env\<rparr>"
    have t1: "table_ok ?st1" using t(1) d(2) by (rule env_ok)
    have g1: "grown st ?st1" using grown_trans[OF t(2) grown_env] .
    have r1: "ot_T ?st1 s \<noteq> None" by simp
    show ?thesis
    proof (cases "length s = 1")
      case True
      then have "s = [''-'']" using assms(2) by (cases s) (auto simp: access_word_def)
      then have "expected ans s e = tail_for e (ans (s @ e))" using expected_start by simp
      from query_cell_ok[OF t1 assms(2,3) r1 this] obtain st' where st':
        "query_s_cell p s e ?st1 = (Inr (), st')" "table_ok st'" "grown ?st1 st'"
        "ob_cell (ot_T st') s e \<noteq> None" by blast
      moreover have "fill_s_cell p s e st = query_s_cell p s e ?st1"
        using None True d(1) stop_if_set_ok[OF t1] by (simp add: fill_s_cell_def action_defs)
      ultimately show ?thesis using grown_trans[OF g1] by auto
    next
      case False
      with ne have len: "1 < length s" by (cases s) auto
      define u a where "u = butlast s" and "a = last s"
      with ne have s: "s = u @ [a]" by simp
      have u: "u \<noteq> []" using len s by auto
      have prev: "get_cell (ot_T ?st1) u [a] = Inr (expected ans u [a])"
        using get_cell_ok[OF t1, of u "[a]"] assms(4) len by (simp add: u_def a_def)
      show ?thesis
      proof (cases "is_abnormal (expected ans u [a])")
        case True
        from put_ok[OF t1 r1, of "expected ans u [a]" e] expected_abnormal[OF u True] s
        obtain st' where st': "put_cell s e (expected ans u [a]) ?st1 = (Inr (), st')"
          "table_ok st'" "grown ?st1 st'" "ob_cell (ot_T st') s e \<noteq> None" by auto
        moreover have "fill_s_cell p s e st = put_cell s e (expected ans u [a]) ?st1"
          using None False True d(1) stop_if_set_ok[OF t1] prev s last_n_1[of s]
          by (simp add: fill_s_cell_def action_defs)
        ultimately show ?thesis using grown_trans[OF g1] by auto
      next
        case norm: False
        from expected_normal[OF u norm, of e] s have "expected ans s e = tail_for e (ans (s @ e))" by simp
        from query_cell_ok[OF t1 assms(2,3) r1 this] obtain st' where st':
          "query_s_cell p s e ?st1 = (Inr (), st')" "table_ok st'" "grown ?st1 st'"
          "ob_cell (ot_T st') s e \<noteq> None" by blast
        moreover have "fill_s_cell p s e st = query_s_cell p s e ?st1"
          using None False norm d(1) stop_if_set_ok[OF t1] prev s last_n_1[of s]
          by (simp add: fill_s_cell_def action_defs)
        ultimately show ?thesis using grown_trans[OF g1] by auto
      qed
    qed
  qed
qed

end

context teacher begin

lemma fill_si_cell_ok:
  assumes "table_ok st" "access_word A s" "a \<in> A" "set e \<subseteq> A"
    "ob_cell (ot_T st) s [a] \<noteq> None" "ot_T st (s @ [a]) \<noteq> None"
  shows "\<exists>st'. fill_si_cell p s a e st = (Inr (), st') \<and> table_ok st' \<and> grown st st' \<and>
    ob_cell (ot_T st') (s @ [a]) e \<noteq> None"
proof -
  from deadline_ok[OF assms(1)] obtain env where
    d: "deadline_reached p st = (Inr False, st\<lparr>ot_env := env\<rparr>)" "ok env" by blast
  let ?st1 = "st\<lparr>ot_env := env\<rparr>"
  have t1: "table_ok ?st1" using assms(1) d(2) by (rule env_ok)
  have s: "s \<noteq> []" "access_word A (s @ [a])"
    using assms(2,3) by (auto simp: access_word_nonempty)
  have r1: "ot_T ?st1 (s @ [a]) \<noteq> None" using assms(6) by simp
  have prev: "get_cell (ot_T ?st1) s [a] = Inr (expected ans s [a])"
    by (rule get_cell_ok[OF t1]) (use assms(5) in simp)
  show ?thesis
  proof (cases "ob_cell (ot_T st) (s @ [a]) e")
    case (Some c)
    then show ?thesis using t1 d(1) stop_if_set_ok[OF t1] by (simp add: fill_si_cell_def action_defs)
  next
    case None
    show ?thesis
    proof (cases "is_abnormal (expected ans s [a])")
      case True
      from put_ok[OF t1 r1, of "expected ans s [a]" e] expected_abnormal[OF s(1) True]
      obtain st' where "put_cell (s @ [a]) e (expected ans s [a]) ?st1 = (Inr (), st')"
        "table_ok st'" "grown ?st1 st'" "ob_cell (ot_T st') (s @ [a]) e \<noteq> None" by auto
      then show ?thesis
        using None True d(1) stop_if_set_ok[OF t1] prev grown_trans[OF grown_env[of st env]]
        by (auto simp: fill_si_cell_def action_defs)
    next
      case False
      from expected_normal[OF s(1) False, of e]
      have "expected ans (s @ [a]) e = tail_for e (ans ((s @ [a]) @ e))" by simp
      from query_cell_ok[OF t1 s(2) assms(4) r1 this] obtain st' where
        "query_si_cell p (s @ [a]) e 2 ?st1 = (Inr (), st')"
        "table_ok st'" "grown ?st1 st'" "ob_cell (ot_T st') (s @ [a]) e \<noteq> None" by blast
      then show ?thesis
        using None False d(1) stop_if_set_ok[OF t1] prev grown_trans[OF grown_env[of st env]]
        by (auto simp: fill_si_cell_def action_defs)
    qed
  qed
qed

text \<open>The shape of a table the learner works on, and the tables without a missing entry.\<close>

definition shaped :: "'w ob_table \<Rightarrow> bool" where
  "shaped st \<longleftrightarrow> (\<forall>s \<in> set (ot_S st). access_word A s) \<and> (\<forall>e \<in> set (ot_E st). set e \<subseteq> A \<and> e \<noteq> []) \<and>
     set (ot_alphabet st) \<subseteq> A \<and> (\<forall>a \<in> set (ot_alphabet st). [a] \<in> set (ot_E st)) \<and>
     (\<forall>s \<in> set (ot_S st). 1 < length s \<longrightarrow> ob_cell (ot_T st) (butlast s) [last s] \<noteq> None)"

definition full :: "'w ob_table \<Rightarrow> bool" where
  "full st \<longleftrightarrow> (\<forall>s \<in> set (ot_S st). \<forall>e \<in> set (ot_E st). ob_cell (ot_T st) s e \<noteq> None \<and>
     (\<forall>a \<in> set (ot_alphabet st). ob_cell (ot_T st) (s @ [a]) e \<noteq> None))"

lemma shaped_grown: "shaped st \<Longrightarrow> grown st st' \<Longrightarrow> shaped st'"
  by (simp add: shaped_def grown_def)

lemma fill_rows_ok:
  assumes "table_ok st" "shaped st"
  shows "\<exists>st'. sfor (\<lambda>s. sfor (fill_s_cell p s) (ot_E st)) (ot_S st) st = (Inr (), st') \<and>
    (table_ok st' \<and> shaped st') \<and> grown st st' \<and>
    (\<forall>s \<in> set (ot_S st). \<forall>e \<in> set (ot_E st). ob_cell (ot_T st') s e \<noteq> None)"
proof -
  have "\<exists>st'. sfor (\<lambda>s. sfor (fill_s_cell p s) (ot_E st)) (ot_S st) st = (Inr (), st') \<and>
    (table_ok st' \<and> shaped st' \<and> grown st st') \<and> grown st st' \<and>
    (\<forall>s \<in> set (ot_S st). \<forall>e \<in> set (ot_E st). ob_cell (ot_T st') s e \<noteq> None)"
  proof (rule sfor_collect)
    fix s t assume s: "s \<in> set (ot_S st)" and t: "table_ok t \<and> shaped t \<and> grown st t"
    show "\<exists>t'. sfor (fill_s_cell p s) (ot_E st) t = (Inr (), t') \<and>
      (table_ok t' \<and> shaped t' \<and> grown st t') \<and> grown t t' \<and>
      (\<forall>e \<in> set (ot_E st). ob_cell (ot_T t') s e \<noteq> None)"
    proof (rule sfor_collect)
      fix e u assume e: "e \<in> set (ot_E st)" and u: "table_ok u \<and> shaped u \<and> grown st u"
      then have "s \<in> set (ot_S u)" "e \<in> set (ot_E u)" using s by (auto simp: grown_def)
      with u have "access_word A s" "set e \<subseteq> A"
        "1 < length s \<longrightarrow> ob_cell (ot_T u) (butlast s) [last s] \<noteq> None" by (auto simp: shaped_def)
      with fill_s_cell_ok[of u s e] u show "\<exists>u'. fill_s_cell p s e u = (Inr (), u') \<and>
        (table_ok u' \<and> shaped u' \<and> grown st u') \<and> grown u u' \<and> ob_cell (ot_T u') s e \<noteq> None"
        using shaped_grown grown_trans by blast
    qed (use t grown_trans in \<open>auto simp: grown_def\<close>)
  qed (use assms grown_trans in \<open>auto simp: grown_def\<close>)
  then show ?thesis by blast
qed

lemma fill_si_row_ok:
  assumes "table_ok st" "shaped st" "s \<in> set (ot_S st)" "a \<in> set (ot_alphabet st)"
    "ob_cell (ot_T st) s [a] \<noteq> None"
  shows "\<exists>st'. fill_si_row p (ot_E st) s a st = (Inr (), st') \<and> (table_ok st' \<and> shaped st') \<and>
    grown st st' \<and> (\<forall>e \<in> set (ot_E st). ob_cell (ot_T st') (s @ [a]) e \<noteq> None)"
proof -
  let ?st = "st\<lparr>ot_T := ensure_row (s @ [a]) (ot_T st)\<rparr>"
  have t: "table_ok ?st" "grown st ?st" using row_started[OF assms(1)] by auto
  have sh: "shaped ?st" using assms(2) t(2) by (rule shaped_grown)
  have "\<exists>st'. sfor (fill_si_cell p s a) (ot_E st) ?st = (Inr (), st') \<and>
    (table_ok st' \<and> shaped st' \<and> grown ?st st') \<and> grown ?st st' \<and>
    (\<forall>e \<in> set (ot_E st). ob_cell (ot_T st') (s @ [a]) e \<noteq> None)"
  proof (rule sfor_collect)
    fix e u assume e: "e \<in> set (ot_E st)" and u: "table_ok u \<and> shaped u \<and> grown ?st u"
    then have g: "grown st u" using t(2) grown_trans by blast
    then have "e \<in> set (ot_E u)" "s \<in> set (ot_S u)" "a \<in> set (ot_alphabet u)"
      using e assms(3,4) by (auto simp: grown_def)
    with u have "access_word A s" "set e \<subseteq> A" "a \<in> A" by (auto simp: shaped_def)
    moreover have "ob_cell (ot_T u) s [a] \<noteq> None" using g assms(5) by (simp add: grown_def)
    moreover have "ot_T u (s @ [a]) \<noteq> None"
      using u ensure_row_dom[of "s @ [a]" "ot_T st"] unfolding grown_def by (metis (no_types, lifting)
        ob_table.select_convs(4) ob_table.simps(4) ob_table.surjective ob_table.update_convs(4))
    ultimately show "\<exists>u'. fill_si_cell p s a e u = (Inr (), u') \<and>
      (table_ok u' \<and> shaped u' \<and> grown ?st u') \<and> grown u u' \<and> ob_cell (ot_T u') (s @ [a]) e \<noteq> None"
      using fill_si_cell_ok[of u s a e] u shaped_grown grown_trans by blast
  qed (use t sh grown_trans in \<open>auto simp: grown_def\<close>)
  then obtain st' where st': "sfor (fill_si_cell p s a) (ot_E st) ?st = (Inr (), st')"
    "table_ok st'" "shaped st'" "grown ?st st'"
    "\<forall>e \<in> set (ot_E st). ob_cell (ot_T st') (s @ [a]) e \<noteq> None" by blast
  with grown_trans[OF t(2) st'(4)] show ?thesis by (auto simp: fill_si_row_def action_defs)
qed

lemma fill_table_ok:
  assumes "table_ok st" "shaped st"
  shows "\<exists>st'. fill_table p st = (Inr (), st') \<and> table_ok st' \<and> shaped st' \<and> grown st st' \<and> full st'"
proof -
  from fill_rows_ok[OF assms] obtain st1 where
    1: "sfor (\<lambda>s. sfor (fill_s_cell p s) (ot_E st)) (ot_S st) st = (Inr (), st1)"
    "table_ok st1" "shaped st1" "grown st st1"
    "\<forall>s \<in> set (ot_S st). \<forall>e \<in> set (ot_E st). ob_cell (ot_T st1) s e \<noteq> None" by blast
  have cols: "ob_cell (ot_T st1) s [a] \<noteq> None"
    if "s \<in> set (ot_S st)" "a \<in> set (ot_alphabet st)" for s a
    using 1(5) assms(2) that by (auto simp: shaped_def)
  let ?Q = "\<lambda>s a t. \<forall>e \<in> set (ot_E st). ob_cell (ot_T t) (s @ [a]) e \<noteq> None"
  have "\<exists>st2. sfor (\<lambda>s. sfor (fill_si_row p (ot_E st) s) (ot_alphabet st)) (ot_S st) st1 = (Inr (), st2) \<and>
    (table_ok st2 \<and> shaped st2 \<and> grown st1 st2) \<and> grown st1 st2 \<and>
    (\<forall>s \<in> set (ot_S st). \<forall>a \<in> set (ot_alphabet st). ?Q s a st2)"
  proof (rule sfor_collect)
    fix s t assume s: "s \<in> set (ot_S st)" and t: "table_ok t \<and> shaped t \<and> grown st1 t"
    show "\<exists>t'. sfor (fill_si_row p (ot_E st) s) (ot_alphabet st) t = (Inr (), t') \<and>
      (table_ok t' \<and> shaped t' \<and> grown st1 t') \<and> grown t t' \<and> (\<forall>a \<in> set (ot_alphabet st). ?Q s a t')"
    proof (rule sfor_collect)
      fix a u assume a: "a \<in> set (ot_alphabet st)" and u: "table_ok u \<and> shaped u \<and> grown st1 u"
      then have g: "grown st u" using 1(4) grown_trans by blast
      then have e: "ot_E u = ot_E st" "s \<in> set (ot_S u)" "a \<in> set (ot_alphabet u)"
        using s a by (auto simp: grown_def)
      have "ob_cell (ot_T u) s [a] \<noteq> None" using cols[OF s a] u by (simp add: grown_def)
      with fill_si_row_ok[of u s a] u e show "\<exists>u'. fill_si_row p (ot_E st) s a u = (Inr (), u') \<and>
        (table_ok u' \<and> shaped u' \<and> grown st1 u') \<and> grown u u' \<and> ?Q s a u'"
        using grown_trans by metis
    qed (use t grown_trans in \<open>auto simp: grown_def\<close>)
  qed (use 1 grown_trans in \<open>auto simp: grown_def\<close>)
  then obtain st2 where 2:
    "sfor (\<lambda>s. sfor (fill_si_row p (ot_E st) s) (ot_alphabet st)) (ot_S st) st1 = (Inr (), st2)"
    "table_ok st2" "shaped st2" "grown st1 st2"
    "\<forall>s \<in> set (ot_S st). \<forall>a \<in> set (ot_alphabet st). ?Q s a st2" by blast
  have g: "grown st st2" using 1(4) 2(4) by (rule grown_trans)
  moreover have "full st2" using 1(5) 2(4,5) g by (auto simp: full_def grown_def)
  ultimately show ?thesis using 1(1) 2 by (auto simp: fill_table_def action_defs)
qed

end

section \<open>Rows of a full table\<close>

context teacher begin

abbreviation rows_of :: "'w ob_table \<Rightarrow> word \<Rightarrow> cell list" where
  "rows_of st \<equiv> expected_row ans (ot_E st)"

lemma row_ok:
  assumes "table_ok st" "\<And>e. e \<in> set (ot_E st) \<Longrightarrow> ob_cell (ot_T st) s e \<noteq> None"
  shows "row st s = Inr (rows_of st s)"
  unfolding row_def expected_row_def
  by (rule rmap_Inr_map) (rule get_cell_ok[OF assms(1) assms(2)])

lemma full_row:
  "table_ok st \<Longrightarrow> full st \<Longrightarrow> s \<in> set (ot_S st) \<Longrightarrow> row st s = Inr (rows_of st s)"
  by (rule row_ok) (auto simp: full_def)

lemma full_row_step:
  "table_ok st \<Longrightarrow> full st \<Longrightarrow> s \<in> set (ot_S st) \<Longrightarrow> a \<in> set (ot_alphabet st) \<Longrightarrow>
     row st (s @ [a]) = Inr (rows_of st (s @ [a]))"
  by (rule row_ok) (auto simp: full_def)

lemma is_closed_ok:
  assumes "table_ok st" "full st"
  shows "\<exists>r. is_closed st = Inr r \<and> (case r of
      None \<Rightarrow> \<forall>s \<in> set (ot_S st). \<forall>a \<in> set (ot_alphabet st).
        rows_of st (s @ [a]) \<in> rows_of st ` set (ot_S st)
    | Some (s, a) \<Rightarrow> s \<in> set (ot_S st) \<and> a \<in> set (ot_alphabet st) \<and>
        rows_of st (s @ [a]) \<notin> rows_of st ` set (ot_S st))"
proof -
  let ?test = "\<lambda>s a. Inr (if rows_of st (s @ [a]) \<in> rows_of st ` set (ot_S st) then None else Some (s, a))
    :: learn_error + (word \<times> string) option"
  have rows: "rmap (row st) (ot_S st) = Inr (map (rows_of st) (ot_S st))"
    by (rule rmap_Inr_map) (rule full_row[OF assms])
  have "is_closed st = rfind (\<lambda>s. rfind (?test s) (ot_alphabet st)) (ot_S st)"
    unfolding is_closed_def rows rbind_simps
    by (intro rfind_cong refl) (simp add: full_row_step[OF assms])
  moreover obtain r where r: "rfind (\<lambda>s. rfind (?test s) (ot_alphabet st)) (ot_S st) = Inr r"
    using rfind_total[of "ot_S st" "\<lambda>s. rfind (?test s) (ot_alphabet st)"]
      rfind_total[of "ot_alphabet st" "?test _"] by blast
  ultimately have eq: "is_closed st = Inr r" by simp
  show ?thesis
  proof (cases r)
    case None
    with r have "\<forall>s \<in> set (ot_S st). \<forall>a \<in> set (ot_alphabet st). ?test s a = Inr None"
      by (simp add: rfind_None)
    with eq None show ?thesis by (auto split: if_splits)
  next
    case (Some y)
    with r obtain s where s: "s \<in> set (ot_S st)" "rfind (?test s) (ot_alphabet st) = Inr (Some y)"
      by (auto dest: rfind_Some)
    from rfind_Some[OF s(2)] obtain a where "a \<in> set (ot_alphabet st)" "?test s a = Inr (Some y)" by auto
    with s(1) eq Some show ?thesis by (auto split: if_splits)
  qed
qed

text \<open>Distinct prefixes have distinct rows, and every prefix is reached from the initial one.\<close>

definition separated :: "'w ob_table \<Rightarrow> bool" where
  "separated st \<longleftrightarrow> distinct (map (rows_of st) (ot_S st))"

definition rooted :: "'w ob_table \<Rightarrow> bool" where
  "rooted st \<longleftrightarrow> [''-''] \<in> set (ot_S st) \<and>
     (\<forall>s \<in> set (ot_S st). s \<noteq> [''-''] \<longrightarrow> butlast s \<in> set (ot_S st) \<and> last s \<in> set (ot_alphabet st))"

definition good :: "'w ob_table \<Rightarrow> bool" where
  "good st \<longleftrightarrow> table_ok st \<and> shaped st \<and> full st \<and> separated st \<and> rooted st"

lemma separated_inj: "separated st \<Longrightarrow> inj_on (rows_of st) (set (ot_S st))"
  by (simp add: separated_def distinct_map)

lemma is_consistent_ok: "good st \<Longrightarrow> is_consistent st = Inr None"
proof -
  assume g: "good st"
  have cell: "get_cell (ot_T st) (s @ [a]) e = Inr (expected ans (s @ [a]) e)"
    if "s \<in> set (ot_S st)" "a \<in> set (ot_alphabet st)" "e \<in> set (ot_E st)" for s a e
    using g that by (auto simp: good_def full_def intro!: get_cell_ok)
  have same: "s1 = s2" if "s1 \<in> set (ot_S st)" "s2 \<in> set (ot_S st)" "rows_of st s1 = rows_of st s2" for s1 s2
    using separated_inj[of st] g that by (auto simp: good_def inj_on_def)
  show ?thesis unfolding is_consistent_def rfind_None
    using g by (auto simp: good_def full_row rfind_None cell dest: same)
qed

lemma add_prefix_ok:
  assumes "good st" "s \<in> set (ot_S st)" "a \<in> set (ot_alphabet st)"
    "rows_of st (s @ [a]) \<notin> rows_of st ` set (ot_S st)"
  shows "\<exists>st1 st2. add_prefix (s @ [a]) st = (Inr (), st1) \<and> fill_table p st1 = (Inr (), st2) \<and>
    good st2 \<and> length (ot_S st2) = Suc (length (ot_S st)) \<and> ot_E st2 = ot_E st \<and>
    ot_alphabet st2 = ot_alphabet st \<and> set (ot_S st) \<subseteq> set (ot_S st2)"
proof -
  let ?st1 = "st\<lparr>ot_S := set_add (s @ [a]) (ot_S st),
    ot_env := (ot_env st)\<lparr>env_states := env_states (ot_env st) + 1\<rparr>\<rparr>"
  have S1: "ot_S ?st1 = ot_S st @ [s @ [a]]" using assms(4) by (auto simp: set_add_def)
  from assms(1) have st: "table_ok st" "shaped st" "full st" "separated st" "rooted st"
    by (auto simp: good_def)
  have "table_ok ?st1" using st(1) count_ok by (auto simp: table_ok_def)
  moreover have "shaped ?st1"
    using st(2,3) assms(2,3) unfolding shaped_def S1 by (auto simp: full_def)
  ultimately obtain st2 where st2: "fill_table p ?st1 = (Inr (), st2)" "table_ok st2" "shaped st2"
    "grown ?st1 st2" "full st2" using fill_table_ok by blast
  from st2(4) S1 have same: "ot_S st2 = ot_S st @ [s @ [a]]" "ot_E st2 = ot_E st"
    "ot_alphabet st2 = ot_alphabet st" by (auto simp: grown_def)
  have "separated st2" using st(4) assms(4) by (auto simp: separated_def same)
  moreover have "rooted st2" using st(5) assms(2,3) by (auto simp: rooted_def same)
  ultimately show ?thesis using st2 same by (auto simp: good_def add_prefix_def action_defs)
qed

lemma close_guard_ok:
  assumes "good st" "s \<in> set (ot_S st)"
  shows "close_guard st s = Inr False"
proof -
  have "s \<noteq> []" using assms by (auto simp: good_def shaped_def access_word_def)
  with assms get_cell_ok[of st "butlast s" "[last s]"] last_n_1[of s] show ?thesis
    by (auto simp: close_guard_def cell_in_strings_def good_def shaped_def)
qed

lemma running_ok:
  "table_ok st \<Longrightarrow> \<not> env_stop (ot_env st) \<and> threshold_reached p st = (Inr False, st)"
  using running[of "ot_env st"] by (simp add: table_ok_def threshold_reached_def action_defs)

end

section \<open>Termination on a target with finitely many states\<close>

locale finite_teacher = teacher p A ans ok
  for p :: "'w ports" and A and ans and ok +
  fixes beh :: "word \<Rightarrow> 'q" and Q :: "'q set"
  assumes finite_Q: "finite Q"
    and beh_in: "beh w \<in> Q"
    and same_beh: "beh u = beh v \<Longrightarrow> drop (length u) (ans (u @ x)) = drop (length v) (ans (v @ x))"
begin

definition row_code :: "word \<Rightarrow> string + 'q" where
  "row_code s = (case first_abnormal (ans s) of Some x \<Rightarrow> Inl x | None \<Rightarrow> Inr (beh s))"

lemma row_code_row:
  "\<forall>e \<in> set E. e \<noteq> [] \<Longrightarrow> row_code u = row_code v \<Longrightarrow> expected_row ans E u = expected_row ans E v"
  using same_beh[of u v]
  by (auto simp: row_code_def expected_row_def expected_def tail_for_drop length_ans split: option.splits)

lemma row_code_in: "row_code s \<in> set (map Inl abnormal_symbols) \<union> Inr ` Q"
  using first_abnormal_SomeD[of "ans s"] beh_in[of s]
  by (cases "first_abnormal (ans s)") (force simp: row_code_def)+

lemma card_codes:
  "finite (set (map Inl abnormal_symbols) \<union> Inr ` Q) \<and>
   card (set (map Inl abnormal_symbols) \<union> Inr ` Q :: (string + 'q) set) \<le> 4 + card Q"
proof -
  have "card (set (map Inl abnormal_symbols) :: (string + 'q) set) \<le> 4"
    using card_length[of "map Inl abnormal_symbols :: (string + 'q) list"] by (simp add: abnormal_symbols_def)
  moreover have "card (Inr ` Q :: (string + 'q) set) = card Q" by (simp add: card_image)
  ultimately show ?thesis using finite_Q card_Un_le[of "set (map Inl abnormal_symbols)" "Inr ` Q"]
    by (simp del: set_map)
qed

lemma separated_bound:
  assumes "separated st" "shaped st"
  shows "length (ot_S st) \<le> 4 + card Q"
proof -
  have E: "\<forall>e \<in> set (ot_E st). e \<noteq> []" using assms(2) by (simp add: shaped_def)
  have "inj_on row_code (set (ot_S st))"
  proof (rule inj_onI)
    fix u v assume "u \<in> set (ot_S st)" "v \<in> set (ot_S st)" "row_code u = row_code v"
    with row_code_row[OF E this(3)] separated_inj[OF assms(1)] show "u = v"
      by (meson inj_onD)
  qed
  moreover have "distinct (ot_S st)" using assms(1) by (auto simp: separated_def distinct_map)
  ultimately have "length (ot_S st) = card (row_code ` set (ot_S st))"
    by (simp add: card_image distinct_card)
  also have "\<dots> \<le> card (set (map Inl abnormal_symbols) \<union> Inr ` Q)"
    by (rule card_mono) (use card_codes row_code_in in auto)
  finally show ?thesis using card_codes by linarith
qed

definition closed_table :: "'w ob_table \<Rightarrow> bool" where
  "closed_table st \<longleftrightarrow> (\<forall>s \<in> set (ot_S st). \<forall>a \<in> set (ot_alphabet st).
     rows_of st (s @ [a]) \<in> rows_of st ` set (ot_S st))"

lemma make_close_ok:
  "good st \<Longrightarrow> [] \<notin> set (ot_alphabet st) \<Longrightarrow> 4 + card Q < fuel + length (ot_S st) \<Longrightarrow>
     \<exists>st'. make_close p fuel st = (Inr (), st') \<and> good st' \<and> closed_table st' \<and>
       ot_E st' = ot_E st \<and> ot_alphabet st' = ot_alphabet st \<and> set (ot_S st) \<subseteq> set (ot_S st')"
proof (induction fuel arbitrary: st)
  case 0
  then show ?case using separated_bound[of st] by (simp add: good_def)
next
  case (Suc fuel)
  from Suc.prems(1) have st: "table_ok st" "shaped st" "full st" by (auto simp: good_def)
  note run = running_ok[OF st(1)]
  from is_closed_ok[OF st(1,3)] obtain r where r: "is_closed st = Inr r" "case r of
      None \<Rightarrow> closed_table st
    | Some (s, a) \<Rightarrow> s \<in> set (ot_S st) \<and> a \<in> set (ot_alphabet st) \<and>
        rows_of st (s @ [a]) \<notin> rows_of st ` set (ot_S st)"
    unfolding closed_table_def by (elim exE conjE)
  show ?case
  proof (cases r)
    case None
    then show ?thesis using Suc.prems r run by (auto simp: action_defs)
  next
    case (Some sa)
    obtain s a where sa: "sa = (s, a)" by (cases sa)
    with r Some have in_S: "s \<in> set (ot_S st)" "a \<in> set (ot_alphabet st)"
      "rows_of st (s @ [a]) \<notin> rows_of st ` set (ot_S st)" by auto
    have ne: "s \<noteq> []" "a \<noteq> []" using in_S st Suc.prems(2) by (auto simp: shaped_def access_word_def)
    from add_prefix_ok[OF Suc.prems(1) in_S] obtain st1 st2 where
      2: "add_prefix (s @ [a]) st = (Inr (), st1)" "fill_table p st1 = (Inr (), st2)" "good st2"
      "length (ot_S st2) = Suc (length (ot_S st))" "ot_E st2 = ot_E st"
      "ot_alphabet st2 = ot_alphabet st" "set (ot_S st) \<subseteq> set (ot_S st2)" by blast
    have run2: "threshold_reached p st2 = (Inr False, st2)"
      using running_ok[of st2] 2(3) by (simp add: good_def)
    have "make_close p (Suc fuel) st = make_close p fuel st2"
      using run r(1) close_guard_ok[OF Suc.prems(1) in_S(1)] 2(1,2) run2
      by (simp add: sbind_def sget_def slift_def Some sa ne)
    moreover obtain st' where "make_close p fuel st2 = (Inr (), st')" "good st'" "closed_table st'"
       "ot_E st' = ot_E st2" "ot_alphabet st' = ot_alphabet st2" "set (ot_S st2) \<subseteq> set (ot_S st')"
      using Suc.IH[OF 2(3)] Suc.prems(2,3) 2 by auto
    ultimately show ?thesis using 2 by auto
  qed
qed

end

section \<open>The hypothesis of a closed table\<close>

definition numbered :: "'a list \<Rightarrow> ('a \<times> nat) list" where
  "numbered xs = zip xs (map Suc [0..<length xs])"

lemma numbered_snoc: "numbered (xs @ [x]) = numbered xs @ [(x, Suc (length xs))]"
  by (simp add: numbered_def)

lemma keys_numbered: "map fst (numbered xs) = xs" "distinct (map snd (numbered xs))"
  by (simp_all add: numbered_def distinct_map)

context teacher begin

definition ids :: "'w ob_table \<Rightarrow> row_ids" where
  "ids st = numbered (map (rows_of st) (ot_S st))"

lemma number_rows_ok:
  assumes "good st"
  shows "number_rows st = Inr (ids st)"
proof -
  let ?R = "rows_of st"
  have rows: "row st s = Inr (?R s)" if "s \<in> set (ot_S st)" for s
    using assms that by (auto simp: good_def full_row)
  have "rfold (number_row st) (numbered (map ?R us), Suc (length us)) vs =
      Inr (numbered (map ?R (us @ vs)), Suc (length (us @ vs)))"
    if "us @ vs = ot_S st" for us vs
    using that
  proof (induction vs arbitrary: us)
    case (Cons v vs)
    have "distinct (map ?R (us @ v # vs))" using assms Cons.prems by (simp add: good_def separated_def)
    moreover have "v \<in> set (ot_S st)" using Cons.prems[symmetric] by simp
    ultimately have "number_row st (numbered (map ?R us), Suc (length us)) v =
        Inr (numbered (map ?R (us @ [v])), Suc (length (us @ [v])))"
      using rows[of v] numbered_snoc[of "map ?R us" "?R v"] keys_numbered(1)[of "map ?R us"]
      by (auto simp: number_row_def simp flip: set_map)
    with Cons.IH[of "us @ [v]"] Cons.prems show ?case by (simp only: rfold.simps rbind_simps) simp
  qed simp
  from this[of "[]" "ot_S st"] show ?thesis by (simp add: number_rows_def ids_def numbered_def)
qed

lemma ids_keys: "map fst (ids st) = map (rows_of st) (ot_S st)" "distinct (map snd (ids st))"
  by (simp_all add: ids_def keys_numbered)

lemma ids_lookup:
  assumes "good st" "s \<in> set (ot_S st)"
  shows "\<exists>i. map_of (ids st) (rows_of st s) = Some i \<and> (rows_of st s, i) \<in> set (ids st)"
proof -
  have "rows_of st s \<in> fst ` set (ids st)"
    using assms(2) arg_cong[OF ids_keys(1), of set st] by auto
  then obtain i where "map_of (ids st) (rows_of st s) = Some i" by (metis domD dom_map_of_conv_image_fst)
  then show ?thesis by (auto dest: map_of_SomeD)
qed

lemma ids_entry:
  "good st \<Longrightarrow> (r, i) \<in> set (ids st) \<Longrightarrow> \<exists>s \<in> set (ot_S st). r = rows_of st s \<and> map_of (ids st) r = Some i"
proof -
  assume a: "good st" "(r, i) \<in> set (ids st)"
  then have "distinct (map fst (ids st))" by (simp add: ids_keys good_def separated_def)
  with a(2) have "map_of (ids st) r = Some i" by simp
  moreover have "r \<in> set (map (rows_of st) (ot_S st))" using a(2) ids_keys(1)[of st] by (metis fst_conv image_eqI set_map)
  ultimately show ?thesis by auto
qed

lemma representative_ok:
  assumes "good st" "s \<in> set (ot_S st)"
  shows "representative st (rows_of st s) = Inr s"
proof -
  let ?f = "\<lambda>x. Inr (if rows_of st x = rows_of st s then Some x else None) :: learn_error + word option"
  have "rfind (\<lambda>x. rbind (row st x) (\<lambda>r'. Inr (if r' = rows_of st s then Some x else None))) (ot_S st) =
      rfind ?f (ot_S st)"
    using assms(1) by (intro rfind_cong) (auto simp: good_def full_row)
  moreover obtain y where y: "rfind ?f (ot_S st) = Inr y" using rfind_total[of "ot_S st" ?f] by auto
  moreover have "y = Some s"
  proof (cases y)
    case None
    with y assms(2) show ?thesis by (auto simp: rfind_None split: if_splits)
  next
    case (Some x)
    with y have "x \<in> set (ot_S st)" "rows_of st x = rows_of st s" by (auto dest!: rfind_Some split: if_splits)
    with assms separated_inj[of st] Some show ?thesis by (auto simp: good_def inj_on_def)
  qed
  ultimately show ?thesis by (simp add: representative_def)
qed

definition edge_ok :: "'w ob_table \<Rightarrow> nat edge_dict \<times> string edge_dict \<Rightarrow> nat \<Rightarrow> word \<Rightarrow> string \<Rightarrow> bool" where
  "edge_ok st acc i s a \<longleftrightarrow>
     map_of (fst acc) (i, a) \<noteq> None \<and> map_of (fst acc) (i, a) = map_of (ids st) (rows_of st (s @ [a])) \<and>
     map_of (snd acc) (i, a) = Some (concat (expected ans s [a]))"

lemma add_edges_ok:
  assumes "good st" "s \<in> set (ot_S st)" "set as \<subseteq> set (ot_alphabet st)"
    "\<forall>a \<in> set (ot_alphabet st). rows_of st (s @ [a]) \<in> rows_of st ` set (ot_S st)"
  shows "\<exists>acc'. rfold (add_edge st (ids st) i s) acc as = Inr acc' \<and>
    (\<forall>a \<in> set as. edge_ok st acc' i s a) \<and>
    (\<forall>j b. j \<noteq> i \<or> b \<notin> set as \<longrightarrow> map_of (fst acc') (j, b) = map_of (fst acc) (j, b) \<and>
       map_of (snd acc') (j, b) = map_of (snd acc) (j, b))"
  using assms(3)
proof (induction as arbitrary: acc)
  case (Cons a as)
  obtain d out where acc: "acc = (d, out)" by (cases acc)
  have st: "table_ok st" "shaped st" "full st" using assms(1) by (auto simp: good_def)
  have a: "a \<in> set (ot_alphabet st)" using Cons.prems by simp
  from full_row_step[OF st(1,3) assms(2) a] have r: "row st (s @ [a]) = Inr (rows_of st (s @ [a]))" .
  from assms(4) a obtain s' where s': "s' \<in> set (ot_S st)" "rows_of st (s @ [a]) = rows_of st s'" by auto
  from ids_lookup[OF assms(1) s'(1)] s'(2) obtain t where
    t: "map_of (ids st) (rows_of st (s @ [a])) = Some t" by auto
  have c: "get_cell (ot_T st) s [a] = Inr (expected ans s [a])"
    using st a assms(2) by (intro get_cell_ok) (auto simp: full_def shaped_def)
  let ?acc = "(dict_put (i, a) t d, dict_put (i, a) (concat (expected ans s [a])) out)"
  have step: "add_edge st (ids st) i s acc a = Inr ?acc"
    by (simp add: add_edge_def acc r state_of_def t c)
  from Cons.IH[of ?acc] Cons.prems obtain acc' where
    acc': "rfold (add_edge st (ids st) i s) ?acc as = Inr acc'"
    "\<forall>a \<in> set as. edge_ok st acc' i s a"
    "\<forall>j b. j \<noteq> i \<or> b \<notin> set as \<longrightarrow> map_of (fst acc') (j, b) = map_of (fst ?acc) (j, b) \<and>
       map_of (snd acc') (j, b) = map_of (snd ?acc) (j, b)" by auto
  have "edge_ok st acc' i s a"
    using acc'(2) acc'(3)[rule_format, of i a] by (cases "a \<in> set as") (auto simp: edge_ok_def t)
  moreover have "map_of (fst acc') (j, b) = map_of (fst acc) (j, b) \<and>
       map_of (snd acc') (j, b) = map_of (snd acc) (j, b)" if "j \<noteq> i \<or> b \<notin> set (a # as)" for j b
    using acc'(3)[rule_format, of j b] that by (auto simp: acc)
  ultimately show ?case using acc'(1,2) step by auto
qed simp

lemma add_states_ok:
  assumes "good st"
    "\<forall>s \<in> set (ot_S st). \<forall>a \<in> set (ot_alphabet st). rows_of st (s @ [a]) \<in> rows_of st ` set (ot_S st)"
    "set ents \<subseteq> set (ids st)" "distinct (map snd ents)"
  shows "\<exists>acc'. rfold (add_state_edges st (ids st)) acc ents = Inr acc' \<and>
    (\<forall>s i. (rows_of st s, i) \<in> set ents \<longrightarrow> s \<in> set (ot_S st) \<longrightarrow>
       (\<forall>a \<in> set (ot_alphabet st). edge_ok st acc' i s a)) \<and>
    (\<forall>j b. j \<notin> set (map snd ents) \<longrightarrow> map_of (fst acc') (j, b) = map_of (fst acc) (j, b) \<and>
       map_of (snd acc') (j, b) = map_of (snd acc) (j, b))"
  using assms(3,4)
proof (induction ents arbitrary: acc)
  case (Cons en ents)
  obtain r i where en: "en = (r, i)" by (cases en)
  from ids_entry[OF assms(1), of r i] Cons.prems en obtain s where
    s: "s \<in> set (ot_S st)" "r = rows_of st s" by auto
  from add_edges_ok[OF assms(1) s(1) order_refl, of i acc] assms(2) s(1) obtain acc1 where
    1: "rfold (add_edge st (ids st) i s) acc (ot_alphabet st) = Inr acc1"
    "\<forall>a \<in> set (ot_alphabet st). edge_ok st acc1 i s a"
    "\<forall>j b. j \<noteq> i \<or> b \<notin> set (ot_alphabet st) \<longrightarrow> map_of (fst acc1) (j, b) = map_of (fst acc) (j, b) \<and>
       map_of (snd acc1) (j, b) = map_of (snd acc) (j, b)" by auto
  have step: "add_state_edges st (ids st) acc en = Inr acc1"
    using representative_ok[OF assms(1) s(1)] 1(1) s(2) by (simp add: add_state_edges_def en)
  from Cons.IH[of acc1] Cons.prems obtain acc' where
    2: "rfold (add_state_edges st (ids st)) acc1 ents = Inr acc'"
    "\<forall>s i. (rows_of st s, i) \<in> set ents \<longrightarrow> s \<in> set (ot_S st) \<longrightarrow>
       (\<forall>a \<in> set (ot_alphabet st). edge_ok st acc' i s a)"
    "\<forall>j b. j \<notin> set (map snd ents) \<longrightarrow> map_of (fst acc') (j, b) = map_of (fst acc1) (j, b) \<and>
       map_of (snd acc') (j, b) = map_of (snd acc1) (j, b)" by auto
  have i: "i \<notin> set (map snd ents)" using Cons.prems(2) en by simp
  have mine: "edge_ok st acc' i s a" if "a \<in> set (ot_alphabet st)" for a
    using 1(2) 2(3)[rule_format, OF i, of a] that unfolding edge_ok_def by metis
  have "edge_ok st acc' j u a"
    if "(rows_of st u, j) \<in> set (en # ents)" "u \<in> set (ot_S st)" "a \<in> set (ot_alphabet st)" for u j a
  proof (cases "(rows_of st u, j) = en")
    case True
    then have "rows_of st u = rows_of st s" "j = i" using en s(2) by auto
    moreover from this(1) have "u = s"
      using separated_inj[of st] assms(1) that(2) s(1) by (auto simp: good_def inj_on_def)
    ultimately show ?thesis using mine that(3) by simp
  qed (use that 2(2) in auto)
  moreover have "map_of (fst acc') (j, b) = map_of (fst acc) (j, b) \<and>
       map_of (snd acc') (j, b) = map_of (snd acc) (j, b)" if "j \<notin> set (map snd (en # ents))" for j b
    using 2(3)[rule_format, of j b] 1(3)[rule_format, of j b] that en by auto
  ultimately show ?case using 2(1) step by auto
qed simp

end

section \<open>Running the hypothesis\<close>

text \<open>The outputs of a conversation with everything after the first abnormal answer repeating it.\<close>

fun settle :: "string list \<Rightarrow> string list" where
  "settle [] = []"
| "settle (x # xs) = (if x \<in> set abnormal_symbols then replicate (Suc (length xs)) x else x # settle xs)"

lemma settle_snoc:
  "settle (xs @ [x]) = settle xs @ [case find (\<lambda>y. y \<in> set abnormal_symbols) xs of Some y \<Rightarrow> y | None \<Rightarrow> x]"
  by (induction xs) (auto simp: replicate_append_same)

lemma settle_normal: "set xs \<inter> set abnormal_symbols = {} \<Longrightarrow> settle xs = xs"
  by (induction xs) auto

context teacher begin

lemma settle_ans_snoc:
  assumes "s \<noteq> []"
  shows "settle (tl (ans (s @ [a]))) = settle (tl (ans s)) @ [concat (expected ans s [a])]"
proof -
  have "tl (ans (s @ [a])) = tl (ans s) @ [last (ans (s @ [a]))]"
    by (subst ans_snoc) (use ans_nonempty[OF assms] in simp)
  then show ?thesis using ans_nonempty[of "s @ [a]"]
    by (simp add: settle_snoc expected_def first_abnormal_def tail_for_single split: option.splits)
qed

definition hyp_edge :: "'w ob_table \<Rightarrow> 'x mealy \<Rightarrow> word \<Rightarrow> string \<Rightarrow> bool" where
  "hyp_edge st h s a \<longleftrightarrow> (\<exists>i j. \<exists>s' \<in> set (ot_S st).
     map_of (ids st) (rows_of st s) = Some i \<and> map_of (ids st) (rows_of st s') = Some j \<and>
     rows_of st s' = rows_of st (s @ [a]) \<and>
     map_of (mm_delta h) (i, a) = Some j \<and>
     map_of (mm_output h) (i, a) = Some (concat (expected ans s [a])))"

definition hyp_ok :: "'w ob_table \<Rightarrow> 'x mealy \<Rightarrow> bool" where
  "hyp_ok st h \<longleftrightarrow> map_of (ids st) (rows_of st [''-'']) = Some (mm_start h) \<and>
     (\<forall>s \<in> set (ot_S st). \<forall>a \<in> set (ot_alphabet st). hyp_edge st h s a)"

lemma build_hypothesis_ok:
  assumes "good st"
    "\<forall>s \<in> set (ot_S st). \<forall>a \<in> set (ot_alphabet st). rows_of st (s @ [a]) \<in> rows_of st ` set (ot_S st)"
  shows "\<exists>h. build_hypothesis st i = Inr h \<and> hyp_ok st h \<and>
    mm_alphabet h = py_set (ot_alphabet st) \<and> length (mm_states h) = length (ot_S st)"
proof -
  from add_states_ok[OF assms order_refl ids_keys(2), of "([], [])"] obtain acc where
    acc: "rfold (add_state_edges st (ids st)) ([], []) (ids st) = Inr acc"
    "\<forall>s i. (rows_of st s, i) \<in> set (ids st) \<longrightarrow> s \<in> set (ot_S st) \<longrightarrow>
       (\<forall>a \<in> set (ot_alphabet st). edge_ok st acc i s a)" by auto
  have root: "[''-''] \<in> set (ot_S st)" using assms(1) by (simp add: good_def rooted_def)
  from ids_lookup[OF assms(1) root] obtain i0 where
    i0: "map_of (ids st) (rows_of st [''-'']) = Some i0" by auto
  let ?h = "new_mealy i (py_set (map snd (ids st))) (py_set (ot_alphabet st)) (fst acc) (snd acc) i0
      (ot_S st, ot_E st, ot_T st)"
  have "build_hypothesis st i = Inr ?h"
    using number_rows_ok[OF assms(1)] acc(1) full_row[of st "[''-'']"] root assms(1) i0
    by (cases acc) (auto simp: build_hypothesis_def good_def state_of_def)
  moreover have "hyp_edge st ?h s a" if sa: "s \<in> set (ot_S st)" "a \<in> set (ot_alphabet st)" for s a
  proof -
    from ids_lookup[OF assms(1) sa(1)] obtain k where k: "map_of (ids st) (rows_of st s) = Some k"
      "(rows_of st s, k) \<in> set (ids st)" by auto
    with acc(2) sa have e: "edge_ok st acc k s a" by auto
    from assms(2) sa obtain s' where s': "s' \<in> set (ot_S st)" "rows_of st (s @ [a]) = rows_of st s'" by auto
    from ids_lookup[OF assms(1) s'(1)] obtain j where "map_of (ids st) (rows_of st s') = Some j" by auto
    with e k s' show ?thesis unfolding hyp_edge_def edge_ok_def by (auto simp: new_mealy_def)
  qed
  moreover have "length (py_set (map snd (ids st))) = length (ot_S st)"
    using distinct_card[OF ids_keys(2), of st] length_map[of fst "ids st"]
    by (simp add: length_py_set ids_keys(1) flip: set_map)
  ultimately show ?thesis using i0 by (auto simp: hyp_ok_def new_mealy_def)
qed

text \<open>Along an access word the hypothesis passes the state of every prefix.\<close>

lemma hyp_access:
  assumes "hyp_ok st h" "good st" "s \<in> set (ot_S st)"
  shows "\<exists>i. map_of (ids st) (rows_of st s) = Some i \<and>
    (\<forall>w. mealy_run_from h (mm_start h) (tl s @ w) =
       rbind (mealy_run_from h i w) (\<lambda>os. Inr (settle (tl (ans s)) @ os)))"
  using assms(3)
proof (induction s rule: rev_induct)
  case Nil
  with assms(2) show ?case by (auto simp: good_def shaped_def access_word_def)
next
  case (snoc a s)
  have acc: "access_word A (s @ [a])" using snoc.prems assms(2) by (simp add: good_def shaped_def)
  show ?case
  proof (cases "s = []")
    case True
    with acc have start: "s @ [a] = [''-'']" by (simp add: access_word_def)
    have "tl (ans [''-'']) = []" using length_ans[of "[''-'']"] by (cases "ans [''-'']") auto
    with assms(1) show ?thesis unfolding start by (simp add: hyp_ok_def)
  next
    case False
    from assms(2) snoc.prems False have s: "s \<in> set (ot_S st)" "a \<in> set (ot_alphabet st)"
      by (fastforce simp: good_def rooted_def)+
    from snoc.IH[OF s(1)] obtain i where i: "map_of (ids st) (rows_of st s) = Some i"
      "\<And>w. mealy_run_from h (mm_start h) (tl s @ w) =
         rbind (mealy_run_from h i w) (\<lambda>os. Inr (settle (tl (ans s)) @ os))" by blast
    from assms(1) s i(1) obtain j where j: "map_of (ids st) (rows_of st (s @ [a])) = Some j"
      "map_of (mm_delta h) (i, a) = Some j"
      "map_of (mm_output h) (i, a) = Some (concat (expected ans s [a]))"
      by (fastforce simp: hyp_ok_def hyp_edge_def)
    have "mealy_run_from h (mm_start h) (tl (s @ [a]) @ w) =
       rbind (mealy_run_from h j w) (\<lambda>os. Inr (settle (tl (ans (s @ [a]))) @ os))" for w
      using False i(2)[of "a # w"] j(2,3)[THEN dict_index_hit]
      by (simp add: settle_ans_snoc rbind_assoc)
    with j(1) show ?thesis by blast
  qed
qed

lemma hyp_access_step:
  assumes "hyp_ok st h" "good st" "s \<in> set (ot_S st)" "a \<in> set (ot_alphabet st)"
  shows "mealy_run h (tl s @ [a]) = Inr (settle (tl (ans (s @ [a]))))"
proof -
  have ne: "s \<noteq> []" using assms(2,3) by (auto simp: good_def shaped_def access_word_def)
  from hyp_access[OF assms(1-3)] obtain i where i: "map_of (ids st) (rows_of st s) = Some i"
    "\<forall>w. mealy_run_from h (mm_start h) (tl s @ w) =
       rbind (mealy_run_from h i w) (\<lambda>os. Inr (settle (tl (ans s)) @ os))" by blast
  from assms(1,3,4) i(1) obtain j where
    "map_of (mm_delta h) (i, a) = Some j"
    "map_of (mm_output h) (i, a) = Some (concat (expected ans s [a]))"
    by (fastforce simp: hyp_ok_def hyp_edge_def)
  then show ?thesis using i(2)[rule_format, of "[a]"] settle_ans_snoc[OF ne]
    by (simp add: mealy_run_def dict_index_hit)
qed

text \<open>Two words have the same future if every continuation gets the same settled answers.\<close>

definition same_future :: "word \<Rightarrow> word \<Rightarrow> bool" where
  "same_future u v \<longleftrightarrow> (\<forall>w a. set w \<subseteq> A \<longrightarrow> a \<in> A \<longrightarrow> expected ans (u @ w) [a] = expected ans (v @ w) [a])"

lemma same_future_step: "same_future u v \<Longrightarrow> a \<in> A \<Longrightarrow> same_future (u @ [a]) (v @ [a])"
  unfolding same_future_def using append_assoc by (metis append_Cons append_Nil insert_subset list.simps(15))

lemma hyp_exact_from:
  assumes "hyp_ok st h" "good st"
    "\<forall>u v. access_word A u \<longrightarrow> access_word A v \<longrightarrow> rows_of st u = rows_of st v \<longrightarrow> same_future u v"
  shows "s \<in> set (ot_S st) \<Longrightarrow> map_of (ids st) (rows_of st s) = Some i \<Longrightarrow> same_future s u \<Longrightarrow> u \<noteq> [] \<Longrightarrow>
    set w \<subseteq> set (ot_alphabet st) \<Longrightarrow>
    \<exists>os. mealy_run_from h i w = Inr os \<and> settle (tl (ans (u @ w))) = settle (tl (ans u)) @ os"
proof (induction w arbitrary: s i u)
  case (Cons a w)
  have sub: "set (ot_alphabet st) \<subseteq> A" using assms(2) by (simp add: good_def shaped_def)
  from assms(1) Cons.prems obtain s' j where s': "s' \<in> set (ot_S st)"
    "map_of (ids st) (rows_of st s') = Some j" "rows_of st s' = rows_of st (s @ [a])"
    "map_of (mm_delta h) (i, a) = Some j"
    "map_of (mm_output h) (i, a) = Some (concat (expected ans s [a]))"
    by (fastforce simp: hyp_ok_def hyp_edge_def)
  have acc: "access_word A s'" "access_word A (s @ [a])"
    using s'(1) Cons.prems sub assms(2) by (auto simp: good_def shaped_def)
  have a: "a \<in> A" using Cons.prems(5) sub by auto
  have eq: "expected ans s [a] = expected ans u [a]"
    using Cons.prems(3) a unfolding same_future_def by (metis append_Nil2 empty_subsetI list.set(1))
  have "same_future s' (s @ [a])" using assms(3) acc s'(3) by blast
  moreover have "same_future (s @ [a]) (u @ [a])" using Cons.prems(3) a by (rule same_future_step)
  ultimately have "same_future s' (u @ [a])" by (simp add: same_future_def)
  from Cons.IH[OF s'(1,2) this] Cons.prems(5) obtain os where
    "mealy_run_from h j w = Inr os"
    "settle (tl (ans ((u @ [a]) @ w))) = settle (tl (ans (u @ [a]))) @ os" by auto
  with s'(4,5)[THEN dict_index_hit] Cons.prems(4) eq show ?case by (simp add: settle_ans_snoc)
qed simp

end

context finite_teacher begin

lemma first_abnormal_append:
  assumes "u \<noteq> []"
  shows "first_abnormal (ans (u @ w)) =
    (case first_abnormal (ans u) of Some x \<Rightarrow> Some x
     | None \<Rightarrow> find (\<lambda>y. y \<in> set abnormal_symbols) (drop (length u) (ans (u @ w))))"
proof -
  have "ans (u @ w) = ans u @ drop (length u) (ans (u @ w))"
    using prefix_ans[of u w] by (metis append_take_drop_id)
  then have "tl (ans (u @ w)) = tl (ans u) @ drop (length u) (ans (u @ w))"
    using ans_nonempty[OF assms] by (metis tl_append2)
  then show ?thesis by (simp add: first_abnormal_def find_append)
qed

lemma dead_future:
  "u \<noteq> [] \<Longrightarrow> first_abnormal (ans u) = Some x \<Longrightarrow> expected ans (u @ w) [a] = [x]"
  using first_abnormal_append[of u w] by (simp add: expected_def[of _ "u @ w"])

lemma dying_future:
  assumes "u \<noteq> []" "\<forall>a \<in> A. expected ans u [a] = [x]" "x \<in> set abnormal_symbols" "set w \<subseteq> A" "a \<in> A"
  shows "expected ans (u @ w) [a] = [x]"
proof (cases w)
  case (Cons b w')
  with assms have "first_abnormal (ans (u @ [b])) = Some x"
    using first_abnormal_ans_snoc[OF assms(1), of b] by (auto simp: is_abnormal_single)
  with dead_future[of "u @ [b]" x w' a] Cons show ?thesis by simp
qed (use assms in simp)

lemma live_future:
  assumes "u \<noteq> []" "v \<noteq> []" "beh u = beh v" "first_abnormal (ans u) = None" "first_abnormal (ans v) = None"
  shows "expected ans (u @ w) [a] = expected ans (v @ w) [a]"
proof -
  have "first_abnormal (ans (u @ w)) = first_abnormal (ans (v @ w))"
    using first_abnormal_append[OF assms(1), of w] first_abnormal_append[OF assms(2), of w]
      same_beh[OF assms(3), of w] assms(4,5) by simp
  moreover have "last (ans (u @ w @ [a])) = last (ans (v @ w @ [a]))"
    using same_beh[OF assms(3), of "w @ [a]"] length_ans[of "u @ w @ [a]"] length_ans[of "v @ w @ [a]"]
    by (metis (no_types, lifting) last_drop length_append length_append_singleton less_add_Suc1 add_Suc_right)
  ultimately show ?thesis using ans_nonempty[of "u @ w @ [a]"] ans_nonempty[of "v @ w @ [a]"]
    by (simp add: expected_def tail_for_single split: option.split)
qed

lemma rows_future:
  assumes "u \<noteq> []" "v \<noteq> []" "\<forall>a \<in> A. expected ans u [a] = expected ans v [a]"
    "first_abnormal (ans u) = None \<Longrightarrow> first_abnormal (ans v) = None \<Longrightarrow> beh u = beh v"
  shows "same_future u v"
  unfolding same_future_def
proof (intro allI impI)
  fix w a assume w: "set w \<subseteq> A" and a: "a \<in> A"
  have now: "expected ans u' [b] = [x]" if "u' \<noteq> []" "first_abnormal (ans u') = Some x" for u' x b
    using dead_future[OF that, of "[]" b] by simp
  show "expected ans (u @ w) [a] = expected ans (v @ w) [a]"
  proof (cases "first_abnormal (ans u)")
    case (Some x)
    then have "\<forall>a \<in> A. expected ans v [a] = [x]" using now[OF assms(1) Some] assms(3) by auto
    with dying_future[OF assms(2) this first_abnormal_SomeD[OF Some] w a] dead_future[OF assms(1) Some]
    show ?thesis by simp
  next
    case None
    show ?thesis
    proof (cases "first_abnormal (ans v)")
      case (Some x)
      then have "\<forall>a \<in> A. expected ans u [a] = [x]" using now[OF assms(2) Some] assms(3) by auto
      with dying_future[OF assms(1) this first_abnormal_SomeD[OF Some] w a] dead_future[OF assms(2) Some]
      show ?thesis by simp
    qed (use live_future[OF assms(1,2) assms(4)] None in simp)
  qed
qed

lemma new_table_ok:
  assumes "ok env" "set alphabet \<subseteq> A"
  shows "\<exists>st. lstar_init p alphabet None env = (Inr (), st) \<and> good st \<and>
    ot_alphabet st = alphabet \<and> ot_E st = py_set (map (\<lambda>a. [a]) alphabet)"
proof -
  let ?st = "new_table alphabet env"
  have "table_ok ?st" using assms(1) by (simp add: table_ok_def new_table_def ob_cell_def)
  moreover have "shaped ?st" using assms(2) by (auto simp: shaped_def new_table_def)
  ultimately obtain st where st: "fill_table p ?st = (Inr (), st)" "table_ok st" "shaped st"
    "grown ?st st" "full st" using fill_table_ok by blast
  moreover have "separated st" "rooted st" using st(4)
    by (auto simp: separated_def rooted_def grown_def new_table_def)
  ultimately show ?thesis by (auto simp: lstar_init_def good_def grown_def new_table_def)
qed

lemma make_consistent_ok:
  "good st \<Longrightarrow> 0 < fuel \<Longrightarrow> make_consistent p fuel st = (Inr (), st)"
  using running_ok[of st] stop_if_set_ok[of st] is_consistent_ok[of st]
  by (cases fuel) (auto simp: good_def action_defs)

lemma lstar_run_ok:
  assumes "good st" "[] \<notin> set (ot_alphabet st)" "4 + card Q < fuel"
  shows "\<exists>h st'. lstar_run p fuel i st = (Inr h, st') \<and> good st' \<and> closed_table st' \<and> hyp_ok st' h \<and>
    ot_E st' = ot_E st \<and> ot_alphabet st' = ot_alphabet st \<and> set (ot_S st) \<subseteq> set (ot_S st') \<and>
    mm_alphabet h = py_set (ot_alphabet st) \<and> length (mm_states h) = length (ot_S st')"
proof -
  have chk: "check_threshold p t = (Inr (), t)" if "good t" for t
    using running_ok[of t] that by (simp add: good_def check_threshold_def action_defs)
  from make_close_ok[OF assms(1,2), of fuel] assms(3) obtain st' where
    1: "make_close p fuel st = (Inr (), st')" "good st'" "closed_table st'" "ot_E st' = ot_E st"
    "ot_alphabet st' = ot_alphabet st" "set (ot_S st) \<subseteq> set (ot_S st')" by auto
  from build_hypothesis_ok[OF 1(2) 1(3)[unfolded closed_table_def], of i] obtain h where
    2: "build_hypothesis st' i = Inr h" "hyp_ok st' h" "mm_alphabet h = py_set (ot_alphabet st')"
    "length (mm_states h) = length (ot_S st')" by auto
  have "lstar_run p fuel i st = (Inr h, st')"
    using chk[OF assms(1)] chk[OF 1(2)] 1(1) make_consistent_ok[OF 1(2), of fuel] assms(3) 2(1)
    by (simp add: lstar_run_def sbind_def sget_def slift_def)
  with 1 2 show ?thesis by auto
qed

end

section \<open>Targets given by a machine\<close>

text \<open>
  A target with the behaviour of a machine: it answers one output per request, and closes the
  connection for good at a request the machine has no entry for.
\<close>

fun target_run :: "'t mealy \<Rightarrow> nat option \<Rightarrow> word \<Rightarrow> string list" where
  "target_run m q [] = []"
| "target_run m None (a # w) = ''CLOSED'' # target_run m None w"
| "target_run m (Some q) (a # w) =
     (case (map_of (mm_output m) (q, a), map_of (mm_delta m) (q, a)) of
        (Some out, Some q') \<Rightarrow> out # target_run m (Some q') w
      | _ \<Rightarrow> ''CLOSED'' # target_run m None w)"

fun target_state :: "'t mealy \<Rightarrow> nat option \<Rightarrow> word \<Rightarrow> nat option" where
  "target_state m q [] = q"
| "target_state m None (a # w) = None"
| "target_state m (Some q) (a # w) =
     (case (map_of (mm_output m) (q, a), map_of (mm_delta m) (q, a)) of
        (Some out, Some q') \<Rightarrow> target_state m (Some q') w
      | _ \<Rightarrow> None)"

definition machine_ports :: "'t mealy \<Rightarrow> 'w ports" where
  "machine_ports m =
     \<lparr>pt_query = (\<lambda>w env. (Some (target_run m (Some (mm_start m)) w), env)),
      pt_should_stop = Some (\<lambda>env. (False, env)),
      pt_time_over = (\<lambda>env. (False, env)),
      pt_wait = (\<lambda>env. (env_stop env, env)),
      pt_threshold = (\<lambda>env. False),
      pt_retries = 3\<rparr>"

definition target_states :: "'t mealy \<Rightarrow> nat option set" where
  "target_states m = set (None # Some (mm_start m) # map (\<lambda>e. Some (snd e)) (mm_delta m))"

lemma target_run_None: "target_run m None w = replicate (length w) ''CLOSED''"
  by (induction w) auto

lemma length_target_run [simp]: "length (target_run m q w) = length w"
  by (induction m q w rule: target_run.induct) (auto split: option.splits)

lemma target_state_None [simp]: "target_state m None w = None"
  by (cases w) auto

lemma target_run_append:
  "target_run m q (u @ v) = target_run m q u @ target_run m (target_state m q u) v"
  by (induction m q u rule: target_run.induct) (auto split: option.splits)

lemma target_state_in: "q \<in> target_states m \<Longrightarrow> target_state m q w \<in> target_states m"
proof (induction m q w rule: target_state.induct)
  case (3 m q a w)
  have "Some q' \<in> target_states m" if "map_of (mm_delta m) (q, a) = Some q'" for q'
    using map_of_SomeD[OF that] by (force simp: target_states_def)
  with 3 show ?case by (auto simp: target_states_def split: option.splits)
qed (auto simp: target_states_def)

lemma target_run_mealy:
  "complete_over (set w) m \<Longrightarrow> q \<in> set (mm_states m) \<Longrightarrow> mealy_run_from m q w = Inr (target_run m (Some q) w)"
proof (induction w arbitrary: q)
  case (Cons a w)
  from Cons.prems obtain q' out where e: "map_of (mm_delta m) (q, a) = Some q'"
    "map_of (mm_output m) (q, a) = Some out" "q' \<in> set (mm_states m)"
    by (fastforce simp: complete_over_def)
  from Cons.prems have "complete_over (set w) m" by (auto simp: complete_over_def)
  with Cons.IH e show ?case by (simp add: dict_index_hit)
qed simp

interpretation machine: finite_teacher "machine_ports m" A "target_run m (Some (mm_start m))"
    "\<lambda>env. \<not> env_stop env" "target_state m (Some (mm_start m))" "target_states m"
  for m :: "'t mealy" and A
proof unfold_locales
  show "target_state m (Some (mm_start m)) w \<in> target_states m" for w
    by (rule target_state_in) (simp add: target_states_def)
qed (auto simp: machine_ports_def target_run_append target_states_def)

lemma card_target_states: "card (target_states m) \<le> length (mm_delta m) + 2"
  using card_length[of "None # Some (mm_start m) # map (\<lambda>e. Some (snd e)) (mm_delta m)"]
  by (simp add: target_states_def del: set_simps)

text \<open>\<open>MealyLstar(...)\<close> followed by \<open>run\<close>, as the fuzzing loop uses them.\<close>

definition learn :: "'w ports \<Rightarrow> nat \<Rightarrow> string list \<Rightarrow> string \<Rightarrow> 'w env \<Rightarrow>
    (learn_error + learned) \<times> 'w ob_table" where
  "learn p fuel alphabet i env =
     (case lstar_init p alphabet None env of
        (Inl e, st) \<Rightarrow> (Inl e, st)
      | (Inr _, st) \<Rightarrow> lstar_run p fuel i st)"


abbreviation target_good :: "'t mealy \<Rightarrow> string set \<Rightarrow> 'w ob_table \<Rightarrow> bool" where
  "target_good m A \<equiv> teacher.good A (target_run m (Some (mm_start m))) (\<lambda>env. \<not> env_stop env)"

abbreviation target_hyp_ok :: "'t mealy \<Rightarrow> 'w ob_table \<Rightarrow> 'x mealy \<Rightarrow> bool" where
  "target_hyp_ok m \<equiv> teacher.hyp_ok (target_run m (Some (mm_start m)))"

lemma learn_machine:
  fixes m :: "'t mealy" and env :: "'w env"
  assumes "\<not> env_stop env" "[] \<notin> set alphabet" "length (mm_delta m) + 7 \<le> fuel"
  shows "\<exists>h st. learn (machine_ports m) fuel alphabet i env = (Inr h, st) \<and>
    target_good m (set alphabet) st \<and> target_hyp_ok m st h \<and> ot_alphabet st = alphabet \<and>
    ot_E st = py_set (map (\<lambda>a. [a]) alphabet) \<and> mm_alphabet h = py_set alphabet \<and>
    length (mm_states h) = length (ot_S st)"
proof -
  from machine.new_table_ok[of env alphabet "set alphabet" m] assms(1) obtain st where
    1: "lstar_init (machine_ports m) alphabet None env = (Inr (), st)" "target_good m (set alphabet) st"
      "ot_alphabet st = alphabet" "ot_E st = py_set (map (\<lambda>a. [a]) alphabet)" by auto
  have "4 + card (target_states m) < fuel" using card_target_states[of m] assms(3) by linarith
  from machine.lstar_run_ok[OF 1(2) _ this, of i] 1(3) assms(2) obtain h st' where
    "lstar_run (machine_ports m) fuel i st = (Inr h, st')" "target_good m (set alphabet) st'"
    "target_hyp_ok m st' h" "ot_E st' = ot_E st" "ot_alphabet st' = ot_alphabet st"
    "mm_alphabet h = py_set (ot_alphabet st)" "length (mm_states h) = length (ot_S st')" by auto
  with 1 have "learn (machine_ports m) fuel alphabet i env = (Inr h, st')" by (simp add: learn_def)
  with \<open>target_good m (set alphabet) st'\<close> \<open>target_hyp_ok m st' h\<close> 1(3,4)
    \<open>ot_E st' = ot_E st\<close> \<open>ot_alphabet st' = ot_alphabet st\<close>
    \<open>mm_alphabet h = py_set (ot_alphabet st)\<close> \<open>length (mm_states h) = length (ot_S st')\<close>
  show ?thesis by metis
qed

section \<open>Properties\<close>

text \<open>The answers of a complete machine are those of its run.\<close>

lemma target_run_complete:
  "complete_over (insert ''-'' A) m \<Longrightarrow> access_word A w \<Longrightarrow>
     mealy_run m w = Inr (target_run m (Some (mm_start m)) w)"
proof -
  assume c: "complete_over (insert ''-'' A) m" and w: "access_word A w"
  then have "set w \<subseteq> insert ''-'' A" by (cases w) (auto simp: access_word_def)
  with c have "complete_over (set w) m" "mm_start m \<in> set (mm_states m)"
    unfolding complete_over_def by blast+
  then show ?thesis by (simp add: mealy_run_def target_run_mealy)
qed

text \<open>
  C2. Against a deterministic target whose behaviour is a complete finite machine, learning ends
  within the fuel and returns a hypothesis over the given alphabet, one state per access word of
  the table, which answers every access word and every one-input extension exactly as the target
  does (answers after an abnormal one repeat it).
\<close>

theorem learn_agrees_on_access_words:
  assumes "\<not> env_stop env" and "[] \<notin> set alphabet"
    and "complete_over (insert ''-'' (set alphabet)) m" and "length (mm_delta m) + 7 \<le> fuel"
  shows "\<exists>h st. learn (machine_ports m) fuel alphabet i env = (Inr h, st) \<and>
    set (mm_alphabet h) = set alphabet \<and> length (mm_states h) = length (ot_S st) \<and>
    [''-''] \<in> set (ot_S st) \<and>
    (\<forall>s \<in> set (ot_S st). \<forall>a \<in> set alphabet. \<exists>os. mealy_run m (s @ [a]) = Inr os \<and>
       mealy_run h (tl s @ [a]) = Inr (settle (tl os)))"
proof -
  from learn_machine[OF assms(1,2,4), of i] obtain h st where
    l: "learn (machine_ports m) fuel alphabet i env = (Inr h, st)"
    "target_good m (set alphabet) st" "target_hyp_ok m st h" "ot_alphabet st = alphabet"
    "mm_alphabet h = py_set alphabet" "length (mm_states h) = length (ot_S st)" by blast
  have S: "access_word (set alphabet) s" if "s \<in> set (ot_S st)" for s
    using l(2) that by (simp add: machine.good_def machine.shaped_def)
  have "\<exists>os. mealy_run m (s @ [a]) = Inr os \<and> mealy_run h (tl s @ [a]) = Inr (settle (tl os))"
    if "s \<in> set (ot_S st)" "a \<in> set alphabet" for s a
    using machine.hyp_access_step[OF l(3,2) that(1)] that(2) l(4)
      target_run_complete[OF assms(3), of "s @ [a]"] S[OF that(1)] by simp
  moreover have "[''-''] \<in> set (ot_S st)" using l(2) by (simp add: machine.good_def machine.rooted_def)
  ultimately show ?thesis using l by auto
qed

definition two_state_target :: "unit mealy" where
  "two_state_target = new_mealy ''t'' [1, 2] [''-'', ''U'']
     [((1, ''-''), 1), ((1, ''U''), 2), ((2, ''-''), 1), ((2, ''U''), 2)]
     [((1, ''-''), ''220''), ((1, ''U''), ''331''), ((2, ''-''), ''220''), ((2, ''U''), ''503'')] 1 ()"

lemma two_state_target_complete: "complete_over (insert ''-'' (set [''U''])) two_state_target"
  by (simp add: two_state_target_def complete_over_def new_mealy_def)

theorem learn_agrees_on_access_words_witness:
  "\<exists>h st. learn (machine_ports two_state_target) 11 [''U''] ''h'' \<lparr>env_stop = False, env_reason = None,
      env_states = 0, env_world = ()\<rparr> = (Inr h, st) \<and>
    set (mm_alphabet h) = set [''U''] \<and> length (mm_states h) = length (ot_S st) \<and>
    [''-''] \<in> set (ot_S st) \<and>
    (\<forall>s \<in> set (ot_S st). \<forall>a \<in> set [''U'']. \<exists>os. mealy_run two_state_target (s @ [a]) = Inr os \<and>
       mealy_run h (tl s @ [a]) = Inr (settle (tl os)))"
  by (rule learn_agrees_on_access_words[OF _ _ two_state_target_complete])
    (simp_all add: two_state_target_def new_mealy_def)

definition told_apart :: "string list \<Rightarrow> 't mealy \<Rightarrow> bool" where
  "told_apart alphabet m \<longleftrightarrow> (\<forall>q1 \<in> set (mm_states m). \<forall>q2 \<in> set (mm_states m).
     (\<forall>a \<in> set alphabet. map_of (mm_output m) (q1, a) = map_of (mm_output m) (q2, a)) \<longrightarrow> q1 = q2)"

lemma target_state_live:
  "complete_over (set w) m \<Longrightarrow> q \<in> set (mm_states m) \<Longrightarrow>
     \<exists>q' \<in> set (mm_states m). target_state m (Some q) w = Some q'"
proof (induction w arbitrary: q)
  case (Cons a w)
  from Cons.prems obtain q' out where e: "map_of (mm_delta m) (q, a) = Some q'"
    "map_of (mm_output m) (q, a) = Some out" "q' \<in> set (mm_states m)"
    by (fastforce simp: complete_over_def)
  from Cons.prems have "complete_over (set w) m" by (auto simp: complete_over_def)
  with Cons.IH e show ?case by simp
qed simp



section \<open>Stopped runs\<close>

text \<open>An action that raises \<open>ModelLearningStopped\<close> leaves the event set and a reason recorded.\<close>

definition stops_cleanly :: "('w, 'a) learn \<Rightarrow> bool" where
  "stops_cleanly m \<longleftrightarrow> (\<forall>st r st'. m st = (Inl (LearningStopped r), st') \<longrightarrow>
     env_stop (ot_env st') \<and> env_reason (ot_env st') \<noteq> None)"

named_theorems stopping \<open>actions that stop cleanly\<close>

lemma stops_stop_learning [stopping]: "stops_cleanly (stop_learning r)"
  by (auto simp: stops_cleanly_def stop_learning_def analyzer_request_stop_def Let_def split: option.splits)

lemma stops_basic [stopping]:
  "stops_cleanly (sret x)" "stops_cleanly (sget f)" "stops_cleanly (smodify g)" "stops_cleanly (at_env h)"
  by (auto simp: stops_cleanly_def action_defs at_env_def split: prod.splits)

lemma stops_sbind [stopping]:
  "stops_cleanly m \<Longrightarrow> (\<And>x. stops_cleanly (k x)) \<Longrightarrow> stops_cleanly (sbind m k)"
  unfolding stops_cleanly_def sbind_def by (auto split: prod.splits sum.splits)

lemma stops_sfor [stopping]: "(\<And>x. stops_cleanly (f x)) \<Longrightarrow> stops_cleanly (sfor f xs)"
proof (induction xs)
  case (Cons x xs)
  then have "stops_cleanly (sbind (f x) (\<lambda>_. sfor f xs))" by (intro stops_sbind) auto
  then show ?case by (simp add: stops_cleanly_def)
qed (simp add: stops_cleanly_def)

lemma stops_slift: "(\<And>r. x \<noteq> Inl (LearningStopped r)) \<Longrightarrow> stops_cleanly (slift x)"
  by (auto simp: stops_cleanly_def slift_def)

text \<open>The pure parts only raise Python exceptions.\<close>

definition pure_exc :: "learn_error + 'a \<Rightarrow> bool" where
  "pure_exc x \<longleftrightarrow> (case x of Inl (PyExc e) \<Rightarrow> True | Inl _ \<Rightarrow> False | Inr y \<Rightarrow> True)"

named_theorems pure_exc_rules \<open>computations that raise Python exceptions only\<close>

lemma stops_pure [stopping]: "pure_exc x \<Longrightarrow> stops_cleanly (slift x)"
  by (rule stops_slift) (auto simp: pure_exc_def)

lemma pure_rbind [pure_exc_rules]:
  "pure_exc x \<Longrightarrow> (\<And>y. x = Inr y \<Longrightarrow> pure_exc (k y)) \<Longrightarrow> pure_exc (rbind x k)"
  by (cases x) (auto simp: pure_exc_def)

lemma pure_basic [pure_exc_rules]: "pure_exc (Inr y)" "pure_exc (Inl (PyExc e))"
  by (simp_all add: pure_exc_def)

lemma pure_rmap [pure_exc_rules]: "(\<And>x. pure_exc (f x)) \<Longrightarrow> pure_exc (rmap f xs)"
  by (induction xs) (auto intro!: pure_exc_rules)

lemma pure_rfind [pure_exc_rules]: "(\<And>x. pure_exc (f x)) \<Longrightarrow> pure_exc (rfind f xs)"
  by (induction xs) (auto intro!: pure_exc_rules split: option.split)

lemma pure_rfold [pure_exc_rules]: "(\<And>s x. pure_exc (f s x)) \<Longrightarrow> pure_exc (rfold f s xs)"
  by (induction xs arbitrary: s) (auto intro!: pure_exc_rules)

lemma pure_get_cell [pure_exc_rules]: "pure_exc (get_cell T s e)"
  by (auto simp: get_cell_def intro: pure_exc_rules split: option.split)

lemma pure_set_cell [pure_exc_rules]: "pure_exc (set_cell s e c T)"
  by (auto simp: set_cell_def intro: pure_exc_rules split: option.split)

lemma pure_row [pure_exc_rules]: "pure_exc (row st s)"
  by (auto simp: row_def intro!: pure_exc_rules)

lemma pure_queries [pure_exc_rules]:
  "pure_exc (is_closed st)" "pure_exc (is_consistent st)" "pure_exc (close_guard st s)"
  by (auto simp: is_closed_def is_consistent_def close_guard_def intro!: pure_exc_rules)

lemma pure_build [pure_exc_rules]: "pure_exc (build_hypothesis st i)"
  unfolding build_hypothesis_def number_rows_def number_row_def add_state_edges_def add_edge_def
    representative_def state_of_def
  by (auto intro!: pure_exc_rules split: option.split prod.split)

lemma stops_put_cell [stopping]: "stops_cleanly (put_cell s e c)"
  unfolding put_cell_def by (intro stopping pure_exc_rules)

lemma stops_stop_if_set [stopping]: "stops_cleanly stop_if_set"
  unfolding stop_if_set_def by (auto intro!: stopping)

lemma stops_deadline [stopping]: "stops_cleanly (deadline_reached p)"
  by (auto simp: deadline_reached_def intro: stopping split: option.split)

lemma stops_query [stopping]: "stops_cleanly (query_with_empty_retry p w)"
proof -
  have "stops_cleanly (query_attempts p w n)" for n
    by (induction n) (auto intro!: stopping split: option.split list.split)
  then show ?thesis by (simp add: query_with_empty_retry_def)
qed

lemma stops_query_cells [stopping]:
  "stops_cleanly (query_s_cell p s e)" "stops_cleanly (query_si_cell p s e n)"
proof -
  show "stops_cleanly (query_s_cell p s e)"
    unfolding query_s_cell_def by (auto intro!: stopping split: option.split)
  have round: "stops_cleanly (query_si_round p s e k)" if "\<And>out. stops_cleanly (k out)" for k
    unfolding query_si_round_def using that by (auto intro!: stopping split: option.split)
  have "stops_cleanly (give_up_si s e out)" for out
    unfolding give_up_si_def by (intro stopping)
  then show "stops_cleanly (query_si_cell p s e n)"
    by (induction n) (auto intro!: round)
qed

lemma stops_fill_cells [stopping]:
  "stops_cleanly (fill_s_cell p s e)" "stops_cleanly (fill_si_cell p s a e)"
  unfolding fill_s_cell_def fill_si_cell_def by (auto intro!: stopping pure_exc_rules)

lemma stops_fill_table [stopping]: "stops_cleanly (fill_table p)"
  unfolding fill_table_def fill_si_row_def by (auto intro!: stopping)

lemma stops_threshold [stopping]:
  "stops_cleanly (threshold_reached p)" "stops_cleanly (check_threshold p)"
proof -
  show t: "stops_cleanly (threshold_reached p)" unfolding threshold_reached_def by (intro stopping)
  show "stops_cleanly (check_threshold p)"
    unfolding check_threshold_def by (auto intro!: stopping t stops_slift)
qed

text \<open>A pure computation on the current state, lifted.\<close>

lemma stops_get_slift:
  assumes "\<And>st. pure_exc (f st)" "\<And>x. stops_cleanly (k x)"
  shows "stops_cleanly (sbind (sget f) (\<lambda>res. sbind (slift res) k))"
proof -
  have "sbind (sget f) (\<lambda>res. sbind (slift res) k) = (\<lambda>st. sbind (slift (f st)) k st)"
    by (simp add: fun_eq_iff action_defs)
  moreover have "stops_cleanly (sbind (slift (f st)) k)" for st
    by (intro stopping assms)
  ultimately show ?thesis by (simp add: stops_cleanly_def)
qed

lemma stops_if: "stops_cleanly x \<Longrightarrow> stops_cleanly y \<Longrightarrow> stops_cleanly (if b then x else y)"
  by simp

lemma stops_make_close [stopping]: "stops_cleanly (make_close p fuel)"
proof (induction fuel)
  case (Suc fuel)
  have "stops_cleanly (case x of None \<Rightarrow> sret () | Some (s, a) \<Rightarrow> k s a)"
    if "\<And>s a. stops_cleanly (k s a)" for x :: "(word \<times> string) option" and k :: "_ \<Rightarrow> _ \<Rightarrow> ('a, unit) learn"
    using that by (auto intro: stopping split: option.split)
  note cases = this
  show ?case unfolding make_close.simps add_prefix_def
    by (rule stops_get_slift stops_if cases Suc stopping pure_exc_rules)+
qed (auto intro: stops_slift)

lemma stops_make_consistent [stopping]: "stops_cleanly (make_consistent p fuel)"
proof (induction fuel)
  case (Suc fuel)
  have "stops_cleanly (case x of None \<Rightarrow> sret () | Some (s1, s2, a, e) \<Rightarrow> k s1 s2 a e)"
    if "\<And>s1 s2 a e. stops_cleanly (k s1 s2 a e)"
    for x :: "(word \<times> word \<times> string \<times> word) option" and k :: "_ \<Rightarrow> _ \<Rightarrow> _ \<Rightarrow> _ \<Rightarrow> ('a, unit) learn"
    using that by (auto intro: stopping split: option.split)
  note cases = this
  show ?case unfolding make_consistent.simps
    by (rule stops_get_slift stops_if cases Suc stopping pure_exc_rules)+
qed (auto intro: stops_slift)

lemma stops_run [stopping]: "stops_cleanly (lstar_run p fuel i)"
proof -
  have "build_hypothesis st i \<noteq> Inl (LearningStopped r)" for st :: "'a ob_table" and r
    using pure_build[of st i] by (auto simp: pure_exc_def)
  then have "stops_cleanly (sbind (sget (\<lambda>st :: 'a ob_table. build_hypothesis st i)) slift)"
    by (simp add: stops_cleanly_def action_defs)
  then show ?thesis unfolding lstar_run_def
    by (rule stops_sbind[OF stops_threshold(2) stops_sbind[OF stops_make_close
          stops_sbind[OF stops_threshold(2) stops_sbind[OF stops_make_consistent
          stops_sbind[OF stops_threshold(2)]]]]])
qed

text \<open>
  C6. Whatever the target, the clock and the other threads do, a learning run that gives up with
  \<open>ModelLearningStopped\<close> leaves the shared stop event set and a stop reason recorded.
\<close>

theorem learn_stopped_is_signalled:
  "case learn p fuel alphabet i env of
     (Inl (LearningStopped r), st) \<Rightarrow> env_stop (ot_env st) \<and> env_reason (ot_env st) \<noteq> None
   | _ \<Rightarrow> True"
  using stops_fill_table[of p] stops_run[of p fuel i]
  by (auto simp: learn_def lstar_init_def stops_cleanly_def split: prod.splits sum.splits learn_error.splits)

end
