(* ===== verification/Partial_Guidance.thy ===== *)
theory Partial_Guidance imports Conversation Recorder begin

text \<open>
  Partial-learning evidence, after \<open>voltron/learner/partial_guidance.py\<close>: the trace recorder of
  successful membership queries, the replayable graph it fills, and the no-growth threshold that
  ends model learning.  The observation table snapshot is a type parameter.  \<open>math.ceil\<close> of
  \<open>math.sqrt\<close> and \<open>math.log2\<close> is the exact integer ceiling (the double-precision results agree for
  the pair spaces of any real alphabet), related to the real functions by lemmas.
\<close>

section \<open>Traces and the graph\<close>

record partial_trace =
  pt_messages :: "(string \<times> bytes) list"
  pt_responses :: "string list"

definition pt_symbols :: "partial_trace \<Rightarrow> string list" where
  "pt_symbols t = map fst (pt_messages t)"

record 'tab partial_graph =
  fingerprint :: "(string, string) dict"
  traces :: "partial_trace list"
  request_response_pairs :: "(string \<times> string) list"
  response_symbols :: "string list"
  executed_symbols :: "string list"
  conflicts :: "(string, string) dict list"
  table_snapshot :: "'tab option"
  pg_reason :: string

definition new_graph :: "'tab partial_graph" where
  "new_graph = \<lparr>fingerprint = [], traces = [], request_response_pairs = [], response_symbols = [],
     executed_symbols = [], conflicts = [], table_snapshot = None,
     pg_reason = ''threshold_drained_partial''\<rparr>"

text \<open>The first trace of each non-empty message sequence, in order.\<close>

definition seed_sequences :: "'tab partial_graph \<Rightarrow> (string \<times> bytes) list list" where
  "seed_sequences g =
     (let unique = foldl (\<lambda>u t. if pt_messages t \<noteq> [] then dict_setdefault (pt_messages t) t u else u)
                     [] (traces g) in
      map (\<lambda>kv. pt_messages (snd kv)) unique)"

definition frontier_for :: "'tab partial_graph \<Rightarrow> partial_trace \<Rightarrow> string list \<Rightarrow> string list" where
  "frontier_for g t alphabet =
     (let prefix = pt_symbols t;
          seen = map last (filter (\<lambda>s. butlast s = prefix \<and> s \<noteq> []) (map pt_symbols (traces g))) in
      filter (\<lambda>a. a \<notin> set seen) (py_set alphabet))"

section \<open>The recorder\<close>

definition record_exchange :: "'tab partial_graph \<Rightarrow> string \<Rightarrow> string \<Rightarrow> 'tab partial_graph" where
  "record_exchange g symbol response =
     g\<lparr>executed_symbols := set_add symbol (executed_symbols g),
       response_symbols := set_add response (response_symbols g),
       request_response_pairs := set_add (symbol, response) (request_response_pairs g)\<rparr>"

text \<open>
  The loop over the responses.  \<open>None\<close> in the second component is the early \<open>return False\<close>: what was
  recorded before it stays recorded.
\<close>

fun trace_scan :: "conversation \<Rightarrow> (nat \<times> string) list \<Rightarrow> 'tab partial_graph \<Rightarrow>
    (string \<times> bytes) list \<Rightarrow> string list \<Rightarrow>
    'tab partial_graph \<times> ((string \<times> bytes) list \<times> string list) option" where
  "trace_scan c [] g messages responses = (g, Some (messages, responses))"
| "trace_scan c ((index, response) # rest) g messages responses =
     (if index \<ge> length (req_seq c) then (g, None)
      else
        let symbol = req_seq c ! index in
        if symbol = ''-'' then trace_scan c rest g messages responses
        else if response \<in> set abnormal_responses \<or>
          response \<in> {'''', ''-'', ''UNKNOWN'', ''PARSE_FAILURE''} \<or>
          index \<ge> length (content c) then (g, None)
        else
          let (request, raw_response) = content c ! index in
          if request = [] \<or> raw_response = [] then (g, None)
          else trace_scan c rest (record_exchange g symbol response)
                 (messages @ [(symbol, request)]) (responses @ [response]))"

definition trace_observe :: "'tab partial_graph \<Rightarrow> conversation \<Rightarrow> 'tab partial_graph \<times> bool" where
  "trace_observe g c =
     (let pairs_before = length (request_response_pairs g) in
      case trace_scan c (List.enumerate 0 (res_seq c)) g [] [] of
        (g1, None) \<Rightarrow> (g1, False)
      | (g1, Some (messages, responses)) \<Rightarrow>
          if messages = [] then (g1, False)
          else
            let g2 = g1\<lparr>traces := traces g1 @ [\<lparr>pt_messages = messages, pt_responses = responses\<rparr>]\<rparr> in
            (g2, length (request_response_pairs g2) > pairs_before))"

definition trace_snapshot :: "'tab partial_graph \<Rightarrow> (string, string) dict \<Rightarrow> 'tab \<Rightarrow> string \<Rightarrow>
    'tab partial_graph" where
  "trace_snapshot g fp table reason =
     g\<lparr>fingerprint := fp, table_snapshot := Some table, pg_reason := reason\<rparr>"

section \<open>The threshold\<close>

function ceil_sqrt_from :: "nat \<Rightarrow> nat \<Rightarrow> nat" where
  "ceil_sqrt_from n k = (if n \<le> k * k then k else ceil_sqrt_from n (Suc k))"
  by pat_completeness auto
termination
proof (relation "measure (\<lambda>(n, k). n - k)", goal_cases)
  case (2 n k)
  then have "k < n" by (metis le_square not_le order_le_less_trans)
  then show ?case by simp
qed simp

function ceil_log2_from :: "nat \<Rightarrow> nat \<Rightarrow> nat" where
  "ceil_log2_from n k = (if n \<le> 2 ^ k then k else ceil_log2_from n (Suc k))"
  by pat_completeness auto
termination
proof (relation "measure (\<lambda>(n, k). n - k)", goal_cases)
  case (2 n k)
  then have "k < n" by (metis less_exp not_le order_less_trans)
  then show ?case by simp
qed simp

declare ceil_sqrt_from.simps [simp del] ceil_log2_from.simps [simp del]

definition ceil_sqrt :: "nat \<Rightarrow> nat" where "ceil_sqrt n = ceil_sqrt_from n 0"

definition ceil_log2 :: "nat \<Rightarrow> nat" where "ceil_log2 n = ceil_log2_from n 0"

record learning_threshold =
  lt_alphabet :: "string list"
  no_growth_mq :: nat
  lt_reached :: bool
  lt_threshold :: nat
  round_size :: nat
  rounds :: nat

definition new_threshold :: "string list \<Rightarrow> learning_threshold" where
  "new_threshold alphabet = \<lparr>lt_alphabet = filter (\<lambda>s. s \<noteq> ''-'') (py_set alphabet),
     no_growth_mq = 0, lt_reached = False, lt_threshold = 0, round_size = 0, rounds = 0\<rparr>"

definition threshold_observe ::
    "learning_threshold \<Rightarrow> 'tab partial_graph \<Rightarrow> bool \<Rightarrow> learning_threshold \<times> bool" where
  "threshold_observe t g pair_grew =
     (if lt_reached t then (t, True)
      else if \<not> set (lt_alphabet t) \<subseteq> set (executed_symbols g) then (t, False)
      else
        let input_count = max 1 (length (lt_alphabet t));
            output_count = max 1 (length (response_symbols g));
            pair_space = input_count * output_count;
            rs = max input_count (ceil_sqrt pair_space);
            rd = min 10 (max 4 (ceil_log2 (pair_space + 1)));
            th = rs * rd;
            ng = (if pair_grew then 0 else no_growth_mq t + 1) in
        (t\<lparr>round_size := rs, rounds := rd, lt_threshold := th, no_growth_mq := ng,
           lt_reached := ng \<ge> th\<rparr>, ng \<ge> th))"

section \<open>Integer ceilings\<close>

lemma ceil_sqrt_from_spec:
  "(\<forall>j < k. j * j < n) \<Longrightarrow> n \<le> ceil_sqrt_from n k * ceil_sqrt_from n k \<and>
     (\<forall>j < ceil_sqrt_from n k. j * j < n)"
proof (induction n k rule: ceil_sqrt_from.induct)
  case (1 n k)
  show ?case
  proof (cases "n \<le> k * k")
    case False
    with "1.prems" have "\<forall>j < Suc k. j * j < n" by (simp add: less_Suc_eq)
    with "1.IH" False show ?thesis by (simp add: ceil_sqrt_from.simps [of n k])
  qed (use "1.prems" in \<open>simp add: ceil_sqrt_from.simps [of n k]\<close>)
qed

lemma ceil_log2_from_spec:
  "(\<forall>j < k. 2 ^ j < n) \<Longrightarrow> n \<le> 2 ^ ceil_log2_from n k \<and> (\<forall>j < ceil_log2_from n k. 2 ^ j < n)"
proof (induction n k rule: ceil_log2_from.induct)
  case (1 n k)
  show ?case
  proof (cases "n \<le> 2 ^ k")
    case False
    with "1.prems" have "\<forall>j < Suc k. 2 ^ j < n" by (simp add: less_Suc_eq)
    with "1.IH" False show ?thesis by (simp add: ceil_log2_from.simps [of n k])
  qed (use "1.prems" in \<open>simp add: ceil_log2_from.simps [of n k]\<close>)
qed

lemma ceil_sqrt_spec: "n \<le> ceil_sqrt n * ceil_sqrt n" "j < ceil_sqrt n \<Longrightarrow> j * j < n"
  using ceil_sqrt_from_spec[of 0 n] by (auto simp: ceil_sqrt_def)

lemma ceil_log2_spec: "n \<le> 2 ^ ceil_log2 n" "j < ceil_log2 n \<Longrightarrow> 2 ^ j < n"
  using ceil_log2_from_spec[of 0 n] by (auto simp: ceil_log2_def)

lemma ceil_sqrt_real: "ceil_sqrt n = nat \<lceil>sqrt (real n)\<rceil>"
proof -
  have "sqrt (real n) \<le> real (ceil_sqrt n)"
    using ceil_sqrt_spec(1)[of n] by (intro real_le_lsqrt) (simp_all add: power2_eq_square flip: of_nat_mult)
  moreover have "real (ceil_sqrt n) - 1 < sqrt (real n)"
  proof (cases "ceil_sqrt n")
    case (Suc m)
    with ceil_sqrt_spec(2)[of m n] have "real m * real m < real n" by (simp flip: of_nat_mult)
    then have "real m < sqrt (real n)" by (intro real_less_rsqrt) (simp add: power2_eq_square)
    with Suc show ?thesis by simp
  qed (simp add: order_less_le_trans[of "-1" 0])
  ultimately have "\<lceil>sqrt (real n)\<rceil> = int (ceil_sqrt n)" by (simp add: ceiling_eq_iff)
  then show ?thesis by simp
qed

lemma ceil_log2_real:
  assumes "0 < n"
  shows "ceil_log2 n = nat \<lceil>log 2 (real n)\<rceil>"
proof -
  have "log 2 (real n) \<le> real (ceil_log2 n)"
    using ceil_log2_spec(1)[of n] assms
    by (simp add: log_le_iff powr_realpow)
  moreover have "real (ceil_log2 n) - 1 < log 2 (real n)"
  proof (cases "ceil_log2 n")
    case 0
    with assms show ?thesis by (simp add: order_less_le_trans[of "-1" 0])
  next
    case (Suc m)
    with ceil_log2_spec(2)[of m n] assms have "real m < log 2 (real n)"
      by (simp add: less_log_iff powr_realpow)
    with Suc show ?thesis by simp
  qed
  ultimately have "\<lceil>log 2 (real n)\<rceil> = int (ceil_log2 n)" by (simp add: ceiling_eq_iff)
  then show ?thesis by simp
qed


section \<open>The recorded set\<close>

text \<open>The pairs a conversation offers: those before the first response that stops the scan.\<close>

fun trace_offers :: "conversation \<Rightarrow> (nat \<times> string) list \<Rightarrow> (string \<times> string) set" where
  "trace_offers c [] = {}"
| "trace_offers c ((i, r) # rest) =
     (if i \<ge> length (req_seq c) then {}
      else if req_seq c ! i = ''-'' then trace_offers c rest
      else if r \<in> set abnormal_responses \<or> r \<in> {'''', ''-'', ''UNKNOWN'', ''PARSE_FAILURE''} \<or>
        i \<ge> length (content c) \<or> fst (content c ! i) = [] \<or> snd (content c ! i) = [] then {}
      else insert (req_seq c ! i, r) (trace_offers c rest))"

lemma trace_scan_pairs:
  "set (request_response_pairs (fst (trace_scan c xs g ms rs))) =
     set (request_response_pairs g) \<union> trace_offers c xs"
  by (induction c xs g ms rs rule: trace_scan.induct)
    (auto simp: record_exchange_def Let_def split: prod.splits)

lemma trace_scan_traces [simp]: "traces (fst (trace_scan c xs g ms rs)) = traces g"
  by (induction c xs g ms rs rule: trace_scan.induct)
    (auto simp: record_exchange_def Let_def split: prod.splits)

lemma trace_observe_pairs:
  "set (request_response_pairs (fst (trace_observe g c))) =
     set (request_response_pairs g) \<union> trace_offers c (List.enumerate 0 (res_seq c))"
proof -
  obtain g' o' where s: "trace_scan c (List.enumerate 0 (res_seq c)) g [] [] = (g', o')" by fastforce
  have p: "set (request_response_pairs g') =
      set (request_response_pairs g) \<union> trace_offers c (List.enumerate 0 (res_seq c))"
    using trace_scan_pairs[of c "List.enumerate 0 (res_seq c)" g "[]" "[]"] by (simp only: s fst_conv)
  have "request_response_pairs (fst (trace_observe g c)) = request_response_pairs g'"
    by (cases o') (simp_all add: trace_observe_def s Let_def split: prod.split)
  with p show ?thesis by simp
qed

interpretation trace_pairs: recorder
  "\<lambda>g c. fst (trace_observe g c)" "\<lambda>g. set (request_response_pairs g)"
  "\<lambda>c. trace_offers c (List.enumerate 0 (res_seq c))"
  by unfold_locales (rule trace_observe_pairs)

section \<open>The graph invariant\<close>

definition trace_ok :: "(string \<times> string) set \<Rightarrow> partial_trace \<Rightarrow> bool" where
  "trace_ok ps t \<longleftrightarrow> pt_messages t \<noteq> [] \<and> length (pt_messages t) = length (pt_responses t) \<and>
     set (zip (pt_symbols t) (pt_responses t)) \<subseteq> ps \<and>
     list_all (\<lambda>m. fst m \<noteq> ''-'' \<and> snd m \<noteq> []) (pt_messages t) \<and>
     list_all (\<lambda>r. r \<notin> set abnormal_responses \<and> r \<noteq> ''PARSE_FAILURE'') (pt_responses t)"

definition graph_ok :: "'tab partial_graph \<Rightarrow> bool" where
  "graph_ok g \<longleftrightarrow>
     list_all (trace_ok (set (request_response_pairs g))) (traces g) \<and>
     set (executed_symbols g) = fst ` set (request_response_pairs g) \<and>
     set (response_symbols g) = snd ` set (request_response_pairs g) \<and>
     distinct (request_response_pairs g) \<and> distinct (executed_symbols g) \<and>
     distinct (response_symbols g)"

lemma new_graph_ok: "graph_ok new_graph"
  by (simp add: graph_ok_def new_graph_def)

lemma trace_ok_mono: "trace_ok ps t \<Longrightarrow> ps \<subseteq> qs \<Longrightarrow> trace_ok qs t"
  by (auto simp: trace_ok_def)

lemma record_exchange_ok: "graph_ok g \<Longrightarrow> graph_ok (record_exchange g q r)"
  by (auto simp: graph_ok_def record_exchange_def list_all_iff intro: trace_ok_mono)

lemma trace_scan_ok: "graph_ok g \<Longrightarrow> graph_ok (fst (trace_scan c xs g ms rs))"
  by (induction c xs g ms rs rule: trace_scan.induct)
    (auto simp: Let_def record_exchange_ok split: prod.splits)

definition draft_ok :: "(string \<times> string) set \<Rightarrow> (string \<times> bytes) list \<Rightarrow> string list \<Rightarrow> bool" where
  "draft_ok ps ms rs \<longleftrightarrow> ms = [] \<and> rs = [] \<or> trace_ok ps \<lparr>pt_messages = ms, pt_responses = rs\<rparr>"

lemma draft_ok_snoc:
  assumes "draft_ok ps ms rs" "ps \<subseteq> qs" "(q, r) \<in> qs" "q \<noteq> ''-''" "b \<noteq> []"
    "r \<notin> set abnormal_responses" "r \<noteq> ''PARSE_FAILURE''"
  shows "draft_ok qs (ms @ [(q, b)]) (rs @ [r])"
  using assms by (auto simp: draft_ok_def trace_ok_def pt_symbols_def)

lemma trace_scan_draft:
  "trace_scan c xs g ms rs = (g', Some (ms', rs')) \<Longrightarrow>
     draft_ok (set (request_response_pairs g)) ms rs \<Longrightarrow>
     draft_ok (set (request_response_pairs g')) ms' rs'"
proof (induction c xs g ms rs rule: trace_scan.induct)
  case (2 c i r rest g ms rs)
  show ?case
  proof (cases "req_seq c ! i = ''-''")
    case True
    with 2 show ?thesis by (auto simp: Let_def split: if_splits)
  next
    case False
    obtain b w where b: "content c ! i = (b, w)" by fastforce
    let ?g = "record_exchange g (req_seq c ! i) r"
    from False b "2.prems"(1) have ok: "b \<noteq> []" "r \<notin> set abnormal_responses" "r \<noteq> ''PARSE_FAILURE''"
      "\<not> i \<ge> length (req_seq c)" "\<not> i \<ge> length (content c)" "w \<noteq> []"
      "r \<notin> {'''', ''-'', ''UNKNOWN'', ''PARSE_FAILURE''}"
      and run: "trace_scan c rest ?g (ms @ [(req_seq c ! i, b)]) (rs @ [r]) = (g', Some (ms', rs'))"
      by (auto simp: Let_def split: if_splits)
    have "draft_ok (set (request_response_pairs ?g)) (ms @ [(req_seq c ! i, b)]) (rs @ [r])"
      using "2.prems"(2) False ok by (intro draft_ok_snoc) (auto simp: record_exchange_def)
    with "2.IH"(2)[OF ok(4) refl False _ b[symmetric]] run ok show ?thesis by auto
  qed
qed simp

lemma trace_observe_ok:
  assumes "graph_ok g"
  shows "graph_ok (fst (trace_observe g c))"
proof -
  let ?xs = "List.enumerate 0 (res_seq c)"
  obtain g' o' where s: "trace_scan c ?xs g [] [] = (g', o')" by fastforce
  from trace_scan_ok[OF assms, of c ?xs "[]" "[]"] s have ok: "graph_ok g'" by simp
  show ?thesis
  proof (cases o')
    case (Some mr)
    obtain ms rs where "mr = (ms, rs)" by fastforce
    with s Some have s': "trace_scan c ?xs g [] [] = (g', Some (ms, rs))" by simp
    from trace_scan_draft[OF s'] have "draft_ok (set (request_response_pairs g')) ms rs"
      by (simp add: draft_ok_def)
    with ok s' show ?thesis by (auto simp: trace_observe_def Let_def graph_ok_def draft_ok_def)
  qed (use s ok in \<open>simp add: trace_observe_def Let_def\<close>)
qed

section \<open>Properties of the recorder\<close>

text \<open>
  C26. Whatever membership-query conversations the recorder sees, its graph stays well formed: every
  stored trace is non-empty, pairs each concrete request with a normal response, has all its
  request/response pairs in the recorded set, and the executed and response symbols are exactly
  the two projections of that set.
\<close>

theorem trace_recorder_invariant:
  "graph_ok (foldl (\<lambda>g c. fst (trace_observe g c)) (new_graph :: 'tab partial_graph) cs) \<and>
   set (request_response_pairs (foldl (\<lambda>g c. fst (trace_observe g c)) (new_graph :: 'tab partial_graph) cs)) =
     (\<Union>c \<in> set cs. trace_offers c (List.enumerate 0 (res_seq c)))"
proof -
  have "graph_ok g \<Longrightarrow> graph_ok (foldl (\<lambda>g c. fst (trace_observe g c)) g cs)" for g :: "'tab partial_graph"
    by (induction cs arbitrary: g) (auto simp: trace_observe_ok)
  moreover have "set (request_response_pairs (new_graph :: 'tab partial_graph)) = {}"
    by (simp add: new_graph_def)
  ultimately show ?thesis using trace_pairs.seen_run[of new_graph cs] new_graph_ok by auto
qed

lemma dict_setdefault_keys:
  "map fst (dict_setdefault k v d) = set_add k (map fst d)"
proof (cases "map_of d k")
  case (Some v')
  then have "k \<in> fst ` set d" by (metis domI dom_map_of_conv_image_fst)
  with Some show ?thesis by (simp add: dict_setdefault_def set_add_def)
qed (simp add: dict_setdefault_def set_add_def, simp add: map_of_eq_None_iff)

lemma seed_fold_keys:
  "map fst (foldl (\<lambda>u t. if pt_messages t \<noteq> [] then dict_setdefault (pt_messages t) t u else u) u ts) =
     foldl (\<lambda>s x. set_add x s) (map fst u) (filter (\<lambda>m. m \<noteq> []) (map pt_messages ts))"
  by (induction ts arbitrary: u) (auto simp: dict_setdefault_keys)

lemma seed_fold_values:
  "(\<forall>kv \<in> set u. pt_messages (snd kv) = fst kv) \<Longrightarrow>
     \<forall>kv \<in> set (foldl (\<lambda>u t. if pt_messages t \<noteq> [] then dict_setdefault (pt_messages t) t u else u) u ts).
       pt_messages (snd kv) = fst kv"
proof (induction ts arbitrary: u)
  case (Cons t ts)
  have "\<forall>kv \<in> set (dict_setdefault (pt_messages t) t u). pt_messages (snd kv) = fst kv"
    using Cons.prems by (auto simp: dict_setdefault_def split: option.splits)
  with Cons show ?case by simp
qed simp

text \<open>
  The seed sequences are the distinct non-empty message sequences of the traces, in the order of
  their first trace.
\<close>

theorem seed_sequences_exact:
  "distinct (seed_sequences g) \<and>
   set (seed_sequences g) = {m \<in> pt_messages ` set (traces g). m \<noteq> []} \<and>
   seed_sequences g = py_set (filter (\<lambda>m. m \<noteq> []) (map pt_messages (traces g)))"
proof -
  let ?u = "foldl (\<lambda>u t. if pt_messages t \<noteq> [] then dict_setdefault (pt_messages t) t u else u) [] (traces g)"
  have "seed_sequences g = map (\<lambda>kv. pt_messages (snd kv)) ?u"
    by (simp add: seed_sequences_def Let_def)
  also have "\<dots> = map fst ?u" using seed_fold_values[of "[]" "traces g"] by auto
  also have "\<dots> = py_set (filter (\<lambda>m. m \<noteq> []) (map pt_messages (traces g)))"
    using seed_fold_keys[of "[]" "traces g"] by (simp add: py_set_def)
  finally show ?thesis by auto
qed

text \<open>
  The recorder under-reports: there is a conversation whose first exchange adds a new pair to the
  graph but whose observation reports that no pair was added, because a later timeout makes it
  return early; the learning threshold then counts the query as one without growth.
\<close>

theorem trace_observe_underreports:
  "\<exists>c. let (g1, grew) = trace_observe (new_graph :: unit partial_graph) c in
     \<not> grew \<and> length (request_response_pairs g1) > length (request_response_pairs (new_graph :: unit partial_graph)) \<and>
     no_growth_mq (fst (threshold_observe (new_threshold [''USER'']) g1 grew)) = 1"
proof -
  let ?c = "\<lparr>content = [([85], [50]), ([80], [])], req_seq = [''USER'', ''PASS''],
    res_seq = [''331'', ''TIMEOUT''], response_frames = []\<rparr>"
  have "let (g1, grew) = trace_observe (new_graph :: unit partial_graph) ?c in
     \<not> grew \<and> length (request_response_pairs g1) > length (request_response_pairs (new_graph :: unit partial_graph)) \<and>
     no_growth_mq (fst (threshold_observe (new_threshold [''USER'']) g1 grew)) = 1"
    by (simp add: trace_observe_def new_graph_def Let_def record_exchange_def abnormal_responses_def
        set_add_def threshold_observe_def new_threshold_def py_set_def)
  then show ?thesis by blast
qed

section \<open>Properties of the threshold\<close>

definition expected_threshold :: "learning_threshold \<Rightarrow> 'tab partial_graph \<Rightarrow> nat" where
  "expected_threshold t g =
     (let a = max 1 (length (lt_alphabet t)); n = a * max 1 (length (response_symbols g)) in
      max a (ceil_sqrt n) * min 10 (max 4 (ceil_log2 (n + 1))))"

abbreviation no_growth_run :: "'tab partial_graph \<Rightarrow> nat \<Rightarrow> learning_threshold \<Rightarrow> learning_threshold" where
  "no_growth_run g n \<equiv> (\<lambda>t. fst (threshold_observe t g False)) ^^ n"

lemma threshold_observe_step:
  "\<not> lt_reached t \<Longrightarrow> set (lt_alphabet t) \<subseteq> set (executed_symbols g) \<Longrightarrow>
     let t' = fst (threshold_observe t g grew) in
     no_growth_mq t' = (if grew then 0 else no_growth_mq t + 1) \<and>
     lt_reached t' = (no_growth_mq t' \<ge> expected_threshold t g) \<and> lt_alphabet t' = lt_alphabet t \<and>
     lt_threshold t' = expected_threshold t g"
  by (simp add: threshold_observe_def expected_threshold_def Let_def)

lemma threshold_alphabet [simp]: "lt_alphabet (fst (threshold_observe t g b)) = lt_alphabet t"
  by (simp add: threshold_observe_def Let_def)

lemma expected_threshold_positive: "0 < expected_threshold t g"
  by (simp add: expected_threshold_def Let_def less_max_iff_disj)

lemma no_growth_run_counts:
  assumes "\<not> lt_reached t" "set (lt_alphabet t) \<subseteq> set (executed_symbols g)" "no_growth_mq t = 0"
  shows "(n < expected_threshold t g \<longrightarrow>
            \<not> lt_reached (no_growth_run g n t) \<and> no_growth_mq (no_growth_run g n t) = n) \<and>
         (n \<ge> expected_threshold t g \<longrightarrow> lt_reached (no_growth_run g n t)) \<and>
         lt_alphabet (no_growth_run g n t) = lt_alphabet t"
proof (induction n)
  case 0
  with assms expected_threshold_positive[of t g] show ?case by auto
next
  case (Suc n)
  let ?t = "no_growth_run g n t"
  have same: "expected_threshold ?t g = expected_threshold t g"
    using Suc by (simp add: expected_threshold_def)
  show ?case
  proof (cases "n < expected_threshold t g")
    case True
    with Suc threshold_observe_step[of ?t g False] assms(2) same show ?thesis
      by (auto simp: Let_def)
  next
    case False
    with Suc have "lt_reached ?t" by auto
    then have "fst (threshold_observe ?t g False) = ?t" by (simp add: threshold_observe_def)
    with Suc False show ?thesis by auto
  qed
qed

text \<open>
  Once every input symbol has been exercised, the threshold is reached after exactly the
  computed number of consecutive queries without growth, never earlier, and it then stays reached;
  that number lies between 4 and 10 full rounds of at least one query per input symbol.
\<close>

theorem learning_threshold_exact:
  assumes "set (lt_alphabet t) \<subseteq> set (executed_symbols g)" and "\<not> lt_reached t" and "no_growth_mq t = 0"
  shows "lt_reached (no_growth_run g n t) = (n \<ge> expected_threshold t g) \<and>
    4 * length (lt_alphabet t) \<le> expected_threshold t g \<and>
    expected_threshold t g \<le> 10 * max (max 1 (length (lt_alphabet t)))
      (ceil_sqrt (max 1 (length (lt_alphabet t)) * max 1 (length (response_symbols g))))"
proof (intro conjI)
  show "lt_reached (no_growth_run g n t) = (n \<ge> expected_threshold t g)"
    using no_growth_run_counts[OF assms(2,1,3), of n] by (meson not_le)
  have "length (lt_alphabet t) * 4 \<le> expected_threshold t g"
    unfolding expected_threshold_def Let_def by (intro mult_le_mono) auto
  then show "4 * length (lt_alphabet t) \<le> expected_threshold t g" by simp
  show "expected_threshold t g \<le> 10 * max (max 1 (length (lt_alphabet t)))
      (ceil_sqrt (max 1 (length (lt_alphabet t)) * max 1 (length (response_symbols g))))"
    unfolding expected_threshold_def Let_def
    by (subst mult.commute) (intro mult_le_mono, auto)
qed

theorem learning_threshold_exact_witness:
  "lt_reached (no_growth_run (new_graph\<lparr>executed_symbols := [''QUIT'']\<rparr> :: unit partial_graph) 4
     (new_threshold [''QUIT'', ''-'']))"
proof -
  let ?g = "new_graph\<lparr>executed_symbols := [''QUIT'']\<rparr> :: unit partial_graph"
  let ?t = "new_threshold [''QUIT'', ''-'']"
  have "expected_threshold ?t ?g = 4"
  proof -
    have "ceil_sqrt 1 = 1" "ceil_log2 2 = 1" by code_simp+
    then show ?thesis
      by (simp add: expected_threshold_def numeral_2_eq_2 new_threshold_def py_set_def set_add_def new_graph_def)
  qed
  moreover have "set (lt_alphabet ?t) \<subseteq> set (executed_symbols ?g)" "\<not> lt_reached ?t" "no_growth_mq ?t = 0"
    by (auto simp: new_threshold_def)
  ultimately show ?thesis using learning_threshold_exact[of ?t ?g 4] by simp
qed

end
