(* ===== verification/Seed_Retention.thy ===== *)
theory Seed_Retention imports Conversation Recorder begin

text \<open>
  The interesting-seed rule of \<open>voltron/scheduler/seed_retention.py\<close>: the state of
  \<open>SeedRetentionPolicy\<close>, the scan of one conversation, the decision, and its reasons.
\<close>

section \<open>State and result\<close>

record seed_policy =
  unique_responses :: "string list"
  max_unique_response_count :: int
  max_sequence_length :: int
  max_unique_transition_count :: int
  seen_request_response_pairs :: "(string \<times> string) list"

definition new_seed_policy :: seed_policy where
  "new_seed_policy = \<lparr>unique_responses = [], max_unique_response_count = 0,
     max_sequence_length = 0, max_unique_transition_count = 0, seen_request_response_pairs = []\<rparr>"

record seed_novelty =
  interesting :: bool
  new_request_response_pairs :: "(string \<times> string \<times> bytes \<times> bytes) list"
  new_responses :: "(nat \<times> string) list"
  request_response_relations :: "(string \<times> string) list"
  transition_increment :: int
  response_type_increment :: int
  sequence_length_increment :: int
  unique_transition_increment :: int

definition retention_reasons :: "seed_novelty \<Rightarrow> string list" where
  "retention_reasons n =
     (if transition_increment n > 0 then [''new_response_transition''] else []) @
     (if response_type_increment n > 0 then [''new_response_type''] else []) @
     (if sequence_length_increment n > 0 then [''longer_response_sequence''] else []) @
     (if unique_transition_increment n > 0 then [''more_distinct_response_transitions''] else [])"

text \<open>The six arguments of the code; the response and request/response increments are not used.\<close>

definition is_interesting :: "int \<Rightarrow> int \<Rightarrow> int \<Rightarrow> int \<Rightarrow> int \<Rightarrow> int \<Rightarrow> bool" where
  "is_interesting trans_inc type_inc len_inc unique_res_inc req_res_inc unique_trans_inc \<longleftrightarrow>
     trans_inc > 0 \<or> type_inc > 0 \<or> len_inc > 0 \<or> unique_trans_inc > 0"

section \<open>The scan of one conversation\<close>

record seed_scan =
  sc_policy :: seed_policy
  sc_pairs :: "(string \<times> string \<times> bytes \<times> bytes) list"
  sc_responses :: "(nat \<times> string) list"
  sc_relations :: "(string \<times> string) list"

text \<open>The body of the loop after its guards, for one index.\<close>

definition scan_pair :: "conversation \<Rightarrow> nat \<Rightarrow> string \<Rightarrow> string \<Rightarrow> seed_scan \<Rightarrow> seed_scan" where
  "scan_pair c index request_type response_type s =
     (if index < length (content c) then
        let (request, response) = content c ! index;
            relation = (request_type, response_type) in
        if request \<noteq> [] \<and> response \<noteq> [] \<and>
           relation \<notin> set (seen_request_response_pairs (sc_policy s))
        then s\<lparr>sc_policy := (sc_policy s)\<lparr>seen_request_response_pairs :=
                  seen_request_response_pairs (sc_policy s) @ [relation]\<rparr>,
               sc_pairs := sc_pairs s @ [(request_type, response_type, request, response)]\<rparr>
        else s
      else s)"

definition scan_response :: "nat \<Rightarrow> string \<Rightarrow> seed_scan \<Rightarrow> seed_scan" where
  "scan_response index response_type s =
     (if response_type \<notin> set (unique_responses (sc_policy s))
      then s\<lparr>sc_policy := (sc_policy s)\<lparr>unique_responses :=
                unique_responses (sc_policy s) @ [response_type]\<rparr>,
             sc_responses := sc_responses s @ [(index, response_type)]\<rparr>
      else s)"

fun scan_responses :: "conversation \<Rightarrow> (nat \<times> string) list \<Rightarrow> seed_scan \<Rightarrow> seed_scan" where
  "scan_responses c [] s = s"
| "scan_responses c ((index, response_type) # rest) s =
     (if index \<ge> length (req_seq c) then scan_responses c rest s
      else
        let request_type = req_seq c ! index in
        if request_type = ''-'' \<or> response_type = ''-'' then scan_responses c rest s
        else if response_type \<in> set abnormal_responses then s
        else
          let s1 = s\<lparr>sc_relations := sc_relations s @ [(request_type, response_type)]\<rparr> in
          scan_responses c rest
            (scan_response index response_type (scan_pair c index request_type response_type s1)))"

section \<open>Observation\<close>

definition seed_observe ::
    "seed_policy \<Rightarrow> conversation \<Rightarrow> int \<Rightarrow> int \<Rightarrow> seed_policy \<times> seed_novelty" where
  "seed_observe p c trans_inc type_inc =
     (let s = scan_responses c (List.enumerate 0 (res_seq c))
                \<lparr>sc_policy = p, sc_pairs = [], sc_responses = [], sc_relations = []\<rparr>;
          p1 = sc_policy s;
          sequence_length = int (length (res_seq c));
          unique_response_count = int (length (py_set (res_seq c)));
          unique_transition_count = int (length (py_set (adjacent_pairs (res_seq c))));
          unique_response_inc = unique_response_count - max_unique_response_count p1;
          unique_transition_inc = unique_transition_count - max_unique_transition_count p1;
          sequence_length_inc = sequence_length - max_sequence_length p1;
          p2 = p1\<lparr>max_sequence_length := max sequence_length (max_sequence_length p1),
                 max_unique_response_count :=
                   max unique_response_count (max_unique_response_count p1),
                 max_unique_transition_count :=
                   max unique_transition_count (max_unique_transition_count p1)\<rparr> in
      (p2, \<lparr>interesting = is_interesting trans_inc type_inc sequence_length_inc
              unique_response_inc (int (length (sc_pairs s))) unique_transition_inc,
            new_request_response_pairs = sc_pairs s,
            new_responses = sc_responses s,
            request_response_relations = sc_relations s,
            transition_increment = trans_inc,
            response_type_increment = type_inc,
            sequence_length_increment = sequence_length_inc,
            unique_transition_increment = unique_transition_inc\<rparr>))"

section \<open>What a conversation offers\<close>

text \<open>
  The exchanges that the scan looks at: up to the first abnormal response, without connection
  greetings and without responses that have no request.
\<close>

fun considered :: "conversation \<Rightarrow> (nat \<times> string) list \<Rightarrow> (nat \<times> string \<times> string) list" where
  "considered c [] = []"
| "considered c ((i, r) # rest) =
     (if i \<ge> length (req_seq c) \<or> req_seq c ! i = ''-'' \<or> r = ''-'' then considered c rest
      else if r \<in> set abnormal_responses then []
      else (i, req_seq c ! i, r) # considered c rest)"

definition exchanges :: "conversation \<Rightarrow> (nat \<times> string \<times> string) list" where
  "exchanges c = considered c (List.enumerate 0 (res_seq c))"

definition has_content :: "conversation \<Rightarrow> nat \<Rightarrow> bool" where
  "has_content c i \<longleftrightarrow> i < length (content c) \<and> fst (content c ! i) \<noteq> [] \<and> snd (content c ! i) \<noteq> []"

definition pairs_of :: "conversation \<Rightarrow> (nat \<times> string \<times> string) list \<Rightarrow> (string \<times> string) set" where
  "pairs_of c xs = snd ` {x \<in> set xs. has_content c (fst x)}"

definition responses_of :: "(nat \<times> string \<times> string) list \<Rightarrow> string set" where
  "responses_of xs = (snd \<circ> snd) ` set xs"

lemma pairs_of_simps [simp]:
  "pairs_of c [] = {}"
  "pairs_of c ((i, q, r) # xs) = (if has_content c i then {(q, r)} else {}) \<union> pairs_of c xs"
  by (auto simp: pairs_of_def image_iff)

lemma responses_of_simps [simp]:
  "responses_of [] = {}" "responses_of ((i, q, r) # xs) = insert r (responses_of xs)"
  by (auto simp: responses_of_def)

text \<open>One step of the scan on the recorded sets.\<close>

lemma scan_pair_policy:
  "sc_policy (scan_pair c i q r s) = (sc_policy s)\<lparr>seen_request_response_pairs :=
     (if has_content c i then set_add (q, r) (seen_request_response_pairs (sc_policy s))
      else seen_request_response_pairs (sc_policy s))\<rparr>"
  by (auto simp: scan_pair_def has_content_def set_add_def Let_def split: prod.splits)

lemma scan_response_policy:
  "sc_policy (scan_response i r s) = (sc_policy s)\<lparr>unique_responses :=
     set_add r (unique_responses (sc_policy s))\<rparr>"
  by (auto simp: scan_response_def set_add_def)

lemma scan_step_frame [simp]:
  "sc_relations (scan_pair c i q r s) = sc_relations s"
  "sc_responses (scan_pair c i q r s) = sc_responses s"
  "sc_relations (scan_response i r s) = sc_relations s"
  "sc_pairs (scan_response i r s) = sc_pairs s"
  by (auto simp: scan_pair_def scan_response_def Let_def split: prod.splits)

lemmas scan_step_simps = scan_pair_policy scan_response_policy Let_def

lemma scan_responses_seen:
  "set (seen_request_response_pairs (sc_policy (scan_responses c xs s))) =
     set (seen_request_response_pairs (sc_policy s)) \<union> pairs_of c (considered c xs)"
  by (induction c xs s rule: scan_responses.induct) (auto simp: scan_step_simps)

lemma scan_responses_unique:
  "set (unique_responses (sc_policy (scan_responses c xs s))) =
     set (unique_responses (sc_policy s)) \<union> responses_of (considered c xs)"
  by (induction c xs s rule: scan_responses.induct) (auto simp: scan_step_simps)

lemma scan_responses_relations:
  "sc_relations (scan_responses c xs s) = sc_relations s @ map snd (considered c xs)"
  by (induction c xs s rule: scan_responses.induct) (auto simp: scan_step_simps)

lemma scan_responses_maxima:
  "max_sequence_length (sc_policy (scan_responses c xs s)) = max_sequence_length (sc_policy s)"
  "max_unique_response_count (sc_policy (scan_responses c xs s)) =
     max_unique_response_count (sc_policy s)"
  "max_unique_transition_count (sc_policy (scan_responses c xs s)) =
     max_unique_transition_count (sc_policy s)"
  by (induction c xs s rule: scan_responses.induct) (auto simp: scan_step_simps)

lemma scan_responses_distinct:
  "distinct (seen_request_response_pairs (sc_policy s)) \<Longrightarrow> distinct (unique_responses (sc_policy s)) \<Longrightarrow>
     distinct (seen_request_response_pairs (sc_policy (scan_responses c xs s))) \<and>
     distinct (unique_responses (sc_policy (scan_responses c xs s)))"
  by (induction c xs s rule: scan_responses.induct) (auto simp: scan_step_simps)

lemma scan_pairs_new:
  "(\<lambda>p. (fst p, fst (snd p))) ` set (sc_pairs (scan_responses c xs s)) =
     (\<lambda>p. (fst p, fst (snd p))) ` set (sc_pairs s) \<union>
     (pairs_of c (considered c xs) - set (seen_request_response_pairs (sc_policy s)))"
proof (induction c xs s rule: scan_responses.induct)
  case (2 c i r rest s)
  have step: "(\<lambda>p. (fst p, fst (snd p))) ` set (sc_pairs (scan_pair c i q r s)) =
     (\<lambda>p. (fst p, fst (snd p))) ` set (sc_pairs s) \<union>
     ((if has_content c i then {(q, r)} else {}) - set (seen_request_response_pairs (sc_policy s)))" for q s
    by (auto simp: scan_pair_def has_content_def Let_def split: prod.splits)
  from 2 show ?case by (auto simp: scan_step_simps step)
qed simp

lemma scan_new_responses:
  "snd ` set (sc_responses (scan_responses c xs s)) =
     snd ` set (sc_responses s) \<union>
     (responses_of (considered c xs) - set (unique_responses (sc_policy s)))"
proof (induction c xs s rule: scan_responses.induct)
  case (2 c i r rest s)
  have step: "snd ` set (sc_responses (scan_response i r s)) =
     snd ` set (sc_responses s) \<union> ({r} - set (unique_responses (sc_policy s)))" for s
    by (auto simp: scan_response_def)
  from 2 show ?case by (auto simp: scan_step_simps step)
qed simp

section \<open>Effect of an observation\<close>

lemma seed_observe_effect:
  "set (seen_request_response_pairs (fst (seed_observe p c t r))) =
     set (seen_request_response_pairs p) \<union> pairs_of c (exchanges c)"
  "set (unique_responses (fst (seed_observe p c t r))) =
     set (unique_responses p) \<union> responses_of (exchanges c)"
  "max_sequence_length (fst (seed_observe p c t r)) =
     max (int (length (res_seq c))) (max_sequence_length p)"
  "max_unique_response_count (fst (seed_observe p c t r)) =
     max (int (card (set (res_seq c)))) (max_unique_response_count p)"
  "max_unique_transition_count (fst (seed_observe p c t r)) =
     max (int (card (set (adjacent_pairs (res_seq c))))) (max_unique_transition_count p)"
  by (simp_all add: seed_observe_def Let_def scan_responses_seen scan_responses_unique
      scan_responses_maxima exchanges_def length_py_set)

lemma seed_observe_novelty:
  "request_response_relations (snd (seed_observe p c t r)) = map snd (exchanges c)"
  "(\<lambda>q. (fst q, fst (snd q))) ` set (new_request_response_pairs (snd (seed_observe p c t r))) =
     pairs_of c (exchanges c) - set (seen_request_response_pairs p)"
  "snd ` set (new_responses (snd (seed_observe p c t r))) =
     responses_of (exchanges c) - set (unique_responses p)"
  "interesting (snd (seed_observe p c t r)) \<longleftrightarrow> t > 0 \<or> r > 0 \<or>
     int (length (res_seq c)) > max_sequence_length p \<or>
     int (card (set (adjacent_pairs (res_seq c)))) > max_unique_transition_count p"
  by (simp_all add: seed_observe_def Let_def scan_responses_relations scan_pairs_new
      scan_new_responses scan_responses_maxima exchanges_def length_py_set is_interesting_def)

interpretation seed_pairs: recorder
  "\<lambda>p c. fst (seed_observe p c t r)" "\<lambda>p. set (seen_request_response_pairs p)"
  "\<lambda>c. pairs_of c (exchanges c)" for t r
  by unfold_locales (rule seed_observe_effect)

interpretation seed_responses: recorder
  "\<lambda>p c. fst (seed_observe p c t r)" "\<lambda>p. set (unique_responses p)"
  "\<lambda>c. responses_of (exchanges c)" for t r
  by unfold_locales (rule seed_observe_effect)

section \<open>A phase: a run of observations\<close>

text \<open>A phase observes one conversation after another, each with its two global increments.\<close>

definition seed_step :: "seed_policy \<Rightarrow> conversation \<times> int \<times> int \<Rightarrow> seed_policy" where
  "seed_step p x = fst (seed_observe p (fst x) (fst (snd x)) (snd (snd x)))"

definition seed_run :: "(conversation \<times> int \<times> int) list \<Rightarrow> seed_policy" where
  "seed_run xs = foldl seed_step new_seed_policy xs"

definition transitions_of :: "conversation \<Rightarrow> nat" where
  "transitions_of c = card (set (adjacent_pairs (res_seq c)))"

lemma seed_run_snoc: "seed_run (xs @ [x]) = seed_step (seed_run xs) x"
  by (simp add: seed_run_def)

lemma Max0_insert: "finite A \<Longrightarrow> Max (insert 0 (insert y A)) = max (y::int) (Max (insert 0 A))"
  by (subst insert_commute) (subst Max_insert; simp)

lemma seed_run_maxima:
  "max_sequence_length (seed_run xs) =
     Max (insert 0 ((\<lambda>x. int (length (res_seq (fst x)))) ` set xs))"
  "max_unique_transition_count (seed_run xs) =
     Max (insert 0 ((\<lambda>x. int (transitions_of (fst x))) ` set xs))"
proof (induction xs rule: rev_induct)
  case Nil
  { case 1 then show ?case by (simp add: seed_run_def new_seed_policy_def) }
  { case 2 then show ?case by (simp add: seed_run_def new_seed_policy_def) }
next
  case (snoc x xs)
  have img: "f ` set (xs @ [x]) = insert (f x) (f ` set xs)" for f :: "_ \<Rightarrow> int" by auto
  { case 1
    show ?case unfolding img
      by (subst Max0_insert) (simp_all add: seed_run_snoc seed_step_def seed_observe_effect snoc(1)
          del: Max_insert) }
  { case 2
    show ?case unfolding img
      by (subst Max0_insert) (simp_all add: seed_run_snoc seed_step_def seed_observe_effect snoc(2)
          transitions_of_def del: Max_insert) }
qed

lemma Max_less_iff_insert0:
  "finite A \<Longrightarrow> Max (insert 0 A) < (x::int) \<longleftrightarrow> 0 < x \<and> (\<forall>a \<in> A. a < x)"
  by (subst Max_less_iff) auto

text \<open>
  A conversation is retained in a phase exactly when the global counters grew during it, or
  its response sequence is longer than that of every earlier conversation of the phase, or it has
  more distinct adjacent response pairs than every earlier one; and it is retained exactly when it
  has a retention reason.
\<close>

theorem seed_retained_iff_record:
  "interesting (snd (seed_observe (seed_run xs) c t r)) =
     (t > 0 \<or> r > 0 \<or>
      0 < length (res_seq c) \<and> list_all (\<lambda>x. length (res_seq (fst x)) < length (res_seq c)) xs \<or>
      0 < transitions_of c \<and> list_all (\<lambda>x. transitions_of (fst x) < transitions_of c) xs) \<and>
   interesting (snd (seed_observe (seed_run xs) c t r)) =
     (retention_reasons (snd (seed_observe (seed_run xs) c t r)) \<noteq> [])"
proof
  show "interesting (snd (seed_observe (seed_run xs) c t r)) =
     (t > 0 \<or> r > 0 \<or>
      0 < length (res_seq c) \<and> list_all (\<lambda>x. length (res_seq (fst x)) < length (res_seq c)) xs \<or>
      0 < transitions_of c \<and> list_all (\<lambda>x. transitions_of (fst x) < transitions_of c) xs)"
    by (simp add: seed_observe_novelty seed_run_maxima Max_less_iff_insert0 list_all_iff
        transitions_of_def[symmetric])
  show "interesting (snd (seed_observe (seed_run xs) c t r)) =
     (retention_reasons (snd (seed_observe (seed_run xs) c t r)) \<noteq> [])"
    by (auto simp: seed_observe_def Let_def is_interesting_def retention_reasons_def)
qed

text \<open>
  Observing a conversation a second time finds nothing new: no new pair, no new response, and
  no retention unless a global counter grew, and no change of the seen pairs and responses.
\<close>

theorem seed_observe_idempotent:
  "let p1 = fst (seed_observe p c t r); n2 = snd (seed_observe p1 c t' r') in
     new_request_response_pairs n2 = [] \<and> new_responses n2 = [] \<and>
     interesting n2 = (t' > 0 \<or> r' > 0) \<and>
     set (seen_request_response_pairs (fst (seed_observe p1 c t' r'))) =
       set (seen_request_response_pairs p1) \<and>
     set (unique_responses (fst (seed_observe p1 c t' r'))) = set (unique_responses p1)"
proof -
  let ?p1 = "fst (seed_observe p c t r)"
  have "pairs_of c (exchanges c) \<subseteq> set (seen_request_response_pairs ?p1)"
    "responses_of (exchanges c) \<subseteq> set (unique_responses ?p1)"
    by (auto simp: seed_observe_effect)
  then have
    "(\<lambda>q. (fst q, fst (snd q))) ` set (new_request_response_pairs (snd (seed_observe ?p1 c t' r'))) = {}"
    "snd ` set (new_responses (snd (seed_observe ?p1 c t' r'))) = {}"
    by (simp_all only: seed_observe_novelty(2,3)) auto
  then have "new_request_response_pairs (snd (seed_observe ?p1 c t' r')) = []"
    "new_responses (snd (seed_observe ?p1 c t' r')) = []"
    by simp_all
  then show ?thesis
    by (auto simp: Let_def seed_observe_effect seed_observe_novelty(4))
qed

end
