(* ===== verification/Offline_Mutator.thy ===== *)
theory Offline_Mutator imports Prelude begin

unbundle bit_operations_syntax

text \<open>
  The local byte mutations of \<open>voltron/scheduler/offline_mutator.py\<close>.

  The pseudo-random generator is an argument: a tape of numbers, each draw with \<open>n\<close> possible
  outcomes taking the next number modulo \<open>n\<close> (an exhausted tape gives 0).  Every sequence of
  outcomes is the reading of some tape, so a fact about all tapes is a fact about all seeds.
  \<open>random()\<close> is a multiple of \<open>2\<^sup>-\<^sup>5\<^sup>3\<close> below 1, as CPython documents.
\<close>

section \<open>Random draws\<close>

type_synonym tape = "nat list"
type_synonym 'a rand = "tape \<Rightarrow> 'a \<times> tape"

definition ret :: "'a \<Rightarrow> 'a rand" where
  "ret x t = (x, t)"

definition rnd_bind :: "'a rand \<Rightarrow> ('a \<Rightarrow> 'b rand) \<Rightarrow> 'b rand" where
  "rnd_bind m k t = (case m t of (x, t') \<Rightarrow> k x t')"

definition randrange :: "nat \<Rightarrow> nat rand" where
  "randrange n t = (case t of [] \<Rightarrow> (0, []) | k # t' \<Rightarrow> (k mod n, t'))"

definition randint :: "nat \<Rightarrow> nat \<Rightarrow> nat rand" where
  "randint a b = rnd_bind (randrange (b - a + 1)) (\<lambda>k. ret (a + k))"

definition choice :: "'a list \<Rightarrow> 'a rand" where
  "choice xs = rnd_bind (randrange (length xs)) (\<lambda>k. ret (xs ! k))"

primrec rand_bytes :: "nat \<Rightarrow> bytes rand" where
  "rand_bytes 0 = ret []"
| "rand_bytes (Suc n) = rnd_bind (randrange 256) (\<lambda>b. rnd_bind (rand_bytes n) (\<lambda>bs. ret (of_nat b # bs)))"

text \<open>\<open>sample\<close>: \<open>k\<close> elements at distinct positions.\<close>

primrec sample :: "nat \<Rightarrow> 'a list \<Rightarrow> 'a list rand" where
  "sample 0 xs = ret []"
| "sample (Suc k) xs = rnd_bind (randrange (length xs)) (\<lambda>i.
     rnd_bind (sample k (take i xs @ drop (Suc i) xs)) (\<lambda>ys. ret (xs ! i # ys)))"

lemma ret_simp [simp]: "ret x t = (x, t)"
  by (simp add: ret_def)

lemma randrange_less: "0 < n \<Longrightarrow> fst (randrange n t) < n"
  by (simp add: randrange_def split: list.split)

lemma randint_bounds: "a \<le> b \<Longrightarrow> a \<le> fst (randint a b t) \<and> fst (randint a b t) \<le> b"
  using randrange_less[of "b - a + 1" t]
  by (auto simp: randint_def rnd_bind_def split: prod.splits)

lemma choice_in: "xs \<noteq> [] \<Longrightarrow> fst (choice xs t) \<in> set xs"
  using randrange_less[of "length xs" t] by (auto simp: choice_def rnd_bind_def split: prod.splits)

lemma length_rand_bytes [simp]: "length (fst (rand_bytes n t)) = n"
  by (induction n arbitrary: t) (auto simp: rnd_bind_def split: prod.splits, metis fst_conv)

lemma sample_distinct:
  "distinct xs \<Longrightarrow> k \<le> length xs \<Longrightarrow> distinct (fst (sample k xs t)) \<and>
     set (fst (sample k xs t)) \<subseteq> set xs \<and> length (fst (sample k xs t)) = k"
proof (induction k arbitrary: xs t)
  case (Suc k)
  define i where "i = fst (randrange (length xs) t)"
  have i: "i < length xs" unfolding i_def using Suc.prems by (intro randrange_less) auto
  define ys where "ys = take i xs @ drop (Suc i) xs"
  have xs: "xs = take i xs @ xs ! i # drop (Suc i) xs" using i by (rule id_take_nth_drop)
  have ys: "distinct ys" "k \<le> length ys" "set ys \<subseteq> set xs" "xs ! i \<notin> set ys"
    using Suc.prems i set_take_subset[of i xs] set_drop_subset[of "Suc i" xs]
    by (auto simp: ys_def distinct_conv_nth nth_append in_set_conv_nth)
  note IH = Suc.IH[OF ys(1,2), of "snd (randrange (length xs) t)"]
  have "fst (sample (Suc k) xs t) = xs ! i # fst (sample k ys (snd (randrange (length xs) t)))"
    by (simp add: rnd_bind_def i_def ys_def split: prod.splits)
  with IH ys i show ?case by auto
qed simp

section \<open>Mutator\<close>

datatype operator =
    Bit_flip | Byte_flip | Arithmetic | Insert | Delete | Duplicate | Block_replace | Boundary
  | Length_extreme
  | Aflnet_bitflip nat | Aflnet_byteflip nat | Aflnet_arith nat | Aflnet_interest nat
  | Aflnet_dict_overwrite | Aflnet_dict_insert | Aflnet_havoc

definition OPERATORS :: "operator list" where
  "OPERATORS = [Bit_flip, Byte_flip, Arithmetic, Insert, Delete, Duplicate, Block_replace, Boundary,
     Length_extreme]"

definition AFLNET_SINGLE_PACKET_OPERATORS :: "operator list" where
  "AFLNET_SINGLE_PACKET_OPERATORS =
     [Aflnet_bitflip 1, Aflnet_bitflip 2, Aflnet_bitflip 4,
      Aflnet_byteflip 1, Aflnet_byteflip 2, Aflnet_byteflip 4,
      Aflnet_arith 8, Aflnet_arith 16, Aflnet_arith 32,
      Aflnet_interest 8, Aflnet_interest 16, Aflnet_interest 32,
      Aflnet_dict_overwrite, Aflnet_dict_insert, Aflnet_havoc]"

definition INTERESTING_8 :: "nat list" where
  "INTERESTING_8 = [0, 1, 16, 32, 64, 100, 127, 128, 255]"

definition INTERESTING_16 :: "nat list" where
  "INTERESTING_16 = [0, 1, 16, 32, 64, 100, 127, 128, 255, 256, 512, 1000, 1024, 32767, 32768, 65535]"

definition INTERESTING_32 :: "nat list" where
  "INTERESTING_32 = [0, 1, 16, 32, 64, 100, 127, 128, 255, 256, 512, 1000, 1024, 65535, 65536,
     100663045, 2147483647, 2147483648, 4294967295]"

record mutation_stats =
  st_attempts :: nat
  st_applied :: nat
  st_bytes_added :: nat
  st_bytes_removed :: nat
  st_operators :: "(operator, nat) dict"

record mutator =
  om_enabled :: bool
  om_probability :: real
  om_max_packets :: nat
  om_max_mutations :: nat
  om_max_delta :: nat
  om_imported :: bool
  om_protected :: "string list"
  om_max_length :: nat
  om_extreme_length :: nat
  om_dictionary :: "bytes list"
  om_havoc_stack :: nat
  om_operators :: "operator list"

definition new_stats :: mutation_stats where
  "new_stats = \<lparr>st_attempts = 0, st_applied = 0, st_bytes_added = 0, st_bytes_removed = 0,
     st_operators = []\<rparr>"

text \<open>\<open>OfflineMutator.__init__\<close> clamps its arguments.\<close>

definition new_mutator :: "bool \<Rightarrow> real \<Rightarrow> int \<Rightarrow> int \<Rightarrow> int \<Rightarrow> bool \<Rightarrow> string list \<Rightarrow> int \<Rightarrow> int \<Rightarrow> bool \<Rightarrow>
    bytes list \<Rightarrow> int \<Rightarrow> mutator" where
  "new_mutator enabled probability max_packets max_mutations max_delta imported protected max_length
      extreme_length aflnet dictionary havoc =
     \<lparr>om_enabled = enabled, om_probability = max 0 (min 1 probability),
      om_max_packets = nat (max 0 max_packets), om_max_mutations = nat (max 0 max_mutations),
      om_max_delta = nat (max 0 max_delta), om_imported = imported, om_protected = protected,
      om_max_length = nat (max 1 max_length),
      om_extreme_length = min (nat (max 1 max_length)) (nat (max 1 extreme_length)),
      om_dictionary = filter (\<lambda>t. t \<noteq> []) dictionary, om_havoc_stack = nat (max 2 havoc),
      om_operators = OPERATORS @ (if aflnet then AFLNET_SINGLE_PACKET_OPERATORS else [])\<rparr>"

section \<open>Single mutations\<close>

definition from_bytes :: "bool \<Rightarrow> bytes \<Rightarrow> nat" where
  "from_bytes little bs = from_bytes_big (if little then rev bs else bs)"

definition to_bytes :: "bool \<Rightarrow> nat \<Rightarrow> nat \<Rightarrow> bytes" where
  "to_bytes little w n = (if little then rev (to_bytes_big w n) else to_bytes_big w n)"

definition overwrite :: "bytes \<Rightarrow> nat \<Rightarrow> bytes \<Rightarrow> bytes" where
  "overwrite data pos bs = take pos data @ bs @ drop (pos + length bs) data"

definition aflnet_bitflip :: "nat \<Rightarrow> bytes \<Rightarrow> bytes option rand" where
  "aflnet_bitflip width data =
     (let total_bits = length data * 8 in
      if total_bits < width then ret None
      else rnd_bind (randrange (total_bits - width + 1)) (\<lambda>bit.
        ret (Some (to_bytes True (length data)
          (from_bytes True data XOR push_bit bit (2 ^ width - 1))))))"

definition aflnet_byteflip :: "nat \<Rightarrow> bytes \<Rightarrow> bytes option rand" where
  "aflnet_byteflip width data =
     (if length data < width then ret None
      else rnd_bind (randrange (length data - width + 1)) (\<lambda>pos.
        ret (Some (overwrite data pos (map (\<lambda>b. b XOR 0xFF) (py_slice data pos (pos + width)))))))"

definition choose_order :: "nat \<Rightarrow> bool rand" where
  "choose_order width = (if 1 < width then choice [True, False] else ret True)"

definition aflnet_arithmetic :: "nat \<Rightarrow> bytes \<Rightarrow> bytes option rand" where
  "aflnet_arithmetic width data =
     (if length data < width then ret None
      else rnd_bind (randrange (length data - width + 1)) (\<lambda>pos.
           rnd_bind (choose_order width) (\<lambda>little.
           rnd_bind (choice [-35, -16, -1, 1, 16, 35]) (\<lambda>delta.
             let value = from_bytes little (py_slice data pos (pos + width));
                 sum = nat ((int value + delta) mod 2 ^ (width * 8))
             in ret (Some (overwrite data pos (to_bytes little width sum)))))))"

definition interesting_values :: "nat \<Rightarrow> nat list" where
  "interesting_values width =
     (if width = 1 then INTERESTING_8 else if width = 2 then INTERESTING_16 else INTERESTING_32)"

definition aflnet_interesting :: "nat \<Rightarrow> bytes \<Rightarrow> bytes option rand" where
  "aflnet_interesting width data =
     (if length data < width then ret None
      else rnd_bind (randrange (length data - width + 1)) (\<lambda>pos.
           rnd_bind (choose_order width) (\<lambda>little.
           rnd_bind (choice (interesting_values width)) (\<lambda>v.
             ret (Some (overwrite data pos (to_bytes little width v)))))))"

definition aflnet_dictionary_mutation :: "mutator \<Rightarrow> bool \<Rightarrow> bytes \<Rightarrow> bytes option rand" where
  "aflnet_dictionary_mutation m insertion data =
     (if om_dictionary m = [] then ret None
      else rnd_bind (choice (om_dictionary m)) (\<lambda>token.
        if insertion then rnd_bind (randrange (length data + 1)) (\<lambda>pos.
          ret (Some (take pos data @ token @ drop pos data)))
        else if length data < length token then ret None
        else rnd_bind (randrange (length data - length token + 1)) (\<lambda>pos.
          ret (Some (overwrite data pos token)))))"

text \<open>\<open>_apply\<close> with \<open>_apply_aflnet\<close>; \<open>havoc\<close> is what the havoc operator does.\<close>

definition apply_with :: "(bytes \<Rightarrow> bytes option rand) \<Rightarrow> mutator \<Rightarrow> operator \<Rightarrow> bytes \<Rightarrow>
    bytes option rand" where
  "apply_with havoc m op data =
     (if data = [] then ret None
      else rnd_bind (randrange (length data)) (\<lambda>pos.
        case op of
          Bit_flip \<Rightarrow> rnd_bind (randrange 8) (\<lambda>k.
            ret (Some (data[pos := (data ! pos) XOR push_bit k 1])))
        | Byte_flip \<Rightarrow> ret (Some (data[pos := (data ! pos) XOR 0xFF]))
        | Arithmetic \<Rightarrow> rnd_bind (choice [-1, 1, -16, 16]) (\<lambda>d.
            ret (Some (data[pos := (data ! pos) + d])))
        | Insert \<Rightarrow> rnd_bind (randrange 256) (\<lambda>b.
            ret (Some (take pos data @ [of_nat b] @ drop pos data)))
        | Delete \<Rightarrow> ret (Some (take pos data @ drop (Suc pos) data))
        | Duplicate \<Rightarrow> ret (Some (take pos data @ [data ! pos] @ drop pos data))
        | Block_replace \<Rightarrow> rnd_bind (randint 1 4) (\<lambda>k.
            rnd_bind (rand_bytes (min (length data - pos) k)) (\<lambda>bs.
              ret (Some (overwrite data pos bs))))
        | Boundary \<Rightarrow> rnd_bind (choice [0, 1, 0x7F, 0x80, 0xFE, 0xFF]) (\<lambda>b.
            ret (Some (data[pos := b])))
        | Length_extreme \<Rightarrow> rnd_bind (choice [True, False]) (\<lambda>shrink.
            if shrink then ret (Some (take 1 data))
            else rnd_bind (rand_bytes (om_extreme_length m - length data)) (\<lambda>padding.
              ret (Some (data @ padding))))
        | Aflnet_bitflip w \<Rightarrow> aflnet_bitflip w data
        | Aflnet_byteflip w \<Rightarrow> aflnet_byteflip w data
        | Aflnet_arith w \<Rightarrow> aflnet_arithmetic (w div 8) data
        | Aflnet_interest w \<Rightarrow> aflnet_interesting (w div 8) data
        | Aflnet_dict_overwrite \<Rightarrow> aflnet_dictionary_mutation m False data
        | Aflnet_dict_insert \<Rightarrow> aflnet_dictionary_mutation m True data
        | Aflnet_havoc \<Rightarrow> havoc data))"

text \<open>The stages of a havoc round exclude havoc itself, so its own handler is never asked.\<close>

primrec havoc_rounds :: "mutator \<Rightarrow> nat \<Rightarrow> bytes \<Rightarrow> bytes rand" where
  "havoc_rounds m 0 data = ret data"
| "havoc_rounds m (Suc n) data =
     rnd_bind (choice (filter (\<lambda>op. op \<noteq> Length_extreme \<and> op \<noteq> Aflnet_havoc) (om_operators m))) (\<lambda>op.
     rnd_bind (apply_with (\<lambda>_. ret None) m op data) (\<lambda>candidate.
       havoc_rounds m n (case candidate of
           Some c \<Rightarrow> if c \<noteq> [] \<and> length c \<le> om_max_length m then c else data
         | None \<Rightarrow> data)))"

definition aflnet_havoc :: "mutator \<Rightarrow> bytes \<Rightarrow> bytes option rand" where
  "aflnet_havoc m data =
     rnd_bind (randint 2 (om_havoc_stack m)) (\<lambda>n.
     rnd_bind (havoc_rounds m n data) (\<lambda>r. ret (Some r)))"

definition apply_op :: "mutator \<Rightarrow> operator \<Rightarrow> bytes \<Rightarrow> bytes option rand" where
  "apply_op m = apply_with (aflnet_havoc m) m"

section \<open>Sequences\<close>

type_synonym message = "string \<times> bytes"
type_synonym change = "nat \<times> operator \<times> int"

text \<open>The acceptance test of a candidate, and the bookkeeping of an accepted one.\<close>

definition acceptable :: "mutator \<Rightarrow> operator \<Rightarrow> bytes \<Rightarrow> bytes \<Rightarrow> bool" where
  "acceptable m op original candidate \<longleftrightarrow> candidate \<noteq> [] \<and> length candidate \<le> om_max_length m \<and>
     (op = Length_extreme \<or> \<bar>int (length candidate) - int (length original)\<bar> \<le> int (om_max_delta m))"

definition note_mutation :: "operator \<Rightarrow> nat \<Rightarrow> nat \<Rightarrow> mutation_stats \<Rightarrow> mutation_stats" where
  "note_mutation op before after st =
     st\<lparr>st_applied := st_applied st + 1, st_operators := dict_bump op (st_operators st),
        st_bytes_added := st_bytes_added st + (after - before),
        st_bytes_removed := st_bytes_removed st + (before - after)\<rparr>"

primrec mutate_packet :: "mutator \<Rightarrow> nat \<Rightarrow> bytes \<Rightarrow> nat \<Rightarrow> bytes \<times> mutation_stats \<times> change list \<Rightarrow>
    (bytes \<times> mutation_stats \<times> change list) rand" where
  "mutate_packet m index original 0 acc = ret acc"
| "mutate_packet m index original (Suc n) acc =
     (case acc of (mutated, st, changed) \<Rightarrow>
       rnd_bind (choice (om_operators m)) (\<lambda>op.
       rnd_bind (apply_op m op mutated) (\<lambda>candidate.
         mutate_packet m index original n
           (case candidate of
              None \<Rightarrow> acc
            | Some c \<Rightarrow>
                if acceptable m op original c
                then (c, note_mutation op (length mutated) (length c) st,
                      changed @ [(index, op, int (length c) - int (length original))])
                else acc))))"

fun mutate_packets :: "mutator \<Rightarrow> nat list \<Rightarrow> message list \<times> mutation_stats \<times> change list \<Rightarrow>
    (message list \<times> mutation_stats \<times> change list) rand" where
  "mutate_packets m [] acc = ret acc"
| "mutate_packets m (index # rest) (sq, st, changed) =
     (case sq ! index of (msg_type, original) \<Rightarrow>
       rnd_bind (randint 1 (om_max_mutations m)) (\<lambda>n.
       rnd_bind (mutate_packet m index original n (original, st, changed)) (\<lambda>(mutated, st', changed').
         mutate_packets m rest
           (if mutated \<noteq> original then sq[index := (msg_type, mutated)] else sq, st', changed'))))"

text \<open>
  \<open>mutate_sequence\<close>: the guards are tested from left to right, so the coin of the last one is only
  tossed when all others let the sequence through.
\<close>

definition blocked :: "mutator \<Rightarrow> message list \<Rightarrow> bool \<Rightarrow> bool" where
  "blocked m sq imported \<longleftrightarrow> \<not> om_enabled m \<or> sq = [] \<or> om_max_packets m = 0 \<or>
     om_max_mutations m = 0 \<or> (imported \<and> \<not> om_imported m)"

definition candidates :: "mutator \<Rightarrow> int \<Rightarrow> message list \<Rightarrow> nat list" where
  "candidates m prefix_length sq =
     filter (\<lambda>i. fst (sq ! i) \<notin> set (om_protected m)) [nat (max 0 prefix_length)..<length sq]"

definition mutate_sequence :: "mutator \<Rightarrow> mutation_stats \<Rightarrow> message list \<Rightarrow> int \<Rightarrow> bool \<Rightarrow>
    (message list \<times> mutation_stats \<times> change list) rand" where
  "mutate_sequence m st sq prefix_length imported =
     (if blocked m sq imported then ret (sq, st, [])
      else rnd_bind (randrange (2 ^ 53)) (\<lambda>k.
        if om_probability m \<le> real k / 2 ^ 53 then ret (sq, st, [])
        else
          (let st1 = st\<lparr>st_attempts := st_attempts st + 1\<rparr>;
               cands = candidates m prefix_length sq
           in if cands = [] then ret (sq, st1, [])
              else rnd_bind (randint 1 (min (om_max_packets m) (length cands))) (\<lambda>packet_count.
                   rnd_bind (sample packet_count cands) (\<lambda>picked.
                     mutate_packets m picked (sq, st1, []))))))"

section \<open>Lengths\<close>

lemma length_to_bytes [simp]: "length (to_bytes little w n) = w"
  by (simp add: to_bytes_def)

lemma length_overwrite: "pos + length bs \<le> length data \<Longrightarrow> length (overwrite data pos bs) = length data"
  by (simp add: overwrite_def)

lemma rnd_bind_eq: "rnd_bind m k t = k (fst (m t)) (snd (m t))"
  by (simp add: rnd_bind_def split_beta)

lemma window_fits:
  "w \<le> length data \<Longrightarrow> fst (randrange (length data - w + 1) t) + w \<le> length data"
  using randrange_less[of "length data - w + 1" t] by simp

lemmas window_fits_Suc = window_fits [simplified]

lemma length_py_window:
  "pos + w \<le> length data \<Longrightarrow> length (py_slice data pos (pos + w)) = w"
  by (simp add: py_slice_def)

text \<open>What an operator may do to the length of the message.\<close>

definition length_effect :: "mutator \<Rightarrow> operator \<Rightarrow> bytes \<Rightarrow> bytes \<Rightarrow> bool" where
  "length_effect m op data out =
     (case op of
        Insert \<Rightarrow> length out = length data + 1
      | Duplicate \<Rightarrow> length out = length data + 1
      | Delete \<Rightarrow> length out + 1 = length data
      | Length_extreme \<Rightarrow> length out = 1 \<or> length out = max (length data) (om_extreme_length m)
      | Aflnet_dict_insert \<Rightarrow> (\<exists>token \<in> set (om_dictionary m). length out = length data + length token)
      | Aflnet_havoc \<Rightarrow> out = data \<or> (out \<noteq> [] \<and> length out \<le> om_max_length m)
      | _ \<Rightarrow> length out = length data)"

lemma aflnet_lengths:
  "fst (aflnet_bitflip w data t) = Some out \<Longrightarrow> length out = length data"
  "fst (aflnet_byteflip w data t) = Some out \<Longrightarrow> length out = length data"
  "fst (aflnet_arithmetic w data t) = Some out \<Longrightarrow> length out = length data"
  "fst (aflnet_interesting w data t) = Some out \<Longrightarrow> length out = length data"
  by (auto simp: aflnet_bitflip_def aflnet_byteflip_def aflnet_arithmetic_def aflnet_interesting_def
      rnd_bind_eq Let_def length_py_window window_fits_Suc intro!: length_overwrite split: if_splits)

lemma dictionary_lengths:
  "fst (aflnet_dictionary_mutation m False data t) = Some out \<Longrightarrow> length out = length data"
  "fst (aflnet_dictionary_mutation m True data t) = Some out \<Longrightarrow>
     \<exists>token \<in> set (om_dictionary m). length out = length data + length token"
proof -
  assume "fst (aflnet_dictionary_mutation m False data t) = Some out"
  then show "length out = length data"
    by (auto simp: aflnet_dictionary_mutation_def rnd_bind_eq window_fits_Suc intro!: length_overwrite split: if_splits)
next
  assume a: "fst (aflnet_dictionary_mutation m True data t) = Some out"
  then have ne: "om_dictionary m \<noteq> []" by (auto simp: aflnet_dictionary_mutation_def)
  let ?t = "fst (choice (om_dictionary m) t)"
  from a ne have "length out = length data + length ?t"
    by (auto simp: aflnet_dictionary_mutation_def rnd_bind_eq)
  with choice_in[OF ne] show "\<exists>token \<in> set (om_dictionary m). length out = length data + length token" by blast
qed

lemma havoc_rounds_effect:
  "fst (havoc_rounds m n data t) = data \<or>
   (fst (havoc_rounds m n data t) \<noteq> [] \<and> length (fst (havoc_rounds m n data t)) \<le> om_max_length m)"
proof (induction n arbitrary: data t)
  case (Suc n)
  let ?op = "choice (filter (\<lambda>op. op \<noteq> Length_extreme \<and> op \<noteq> Aflnet_havoc) (om_operators m)) t"
  let ?c = "apply_with (\<lambda>_. ret None) m (fst ?op) data (snd ?op)"
  let ?d = "case fst ?c of Some c \<Rightarrow> if c \<noteq> [] \<and> length c \<le> om_max_length m then c else data | None \<Rightarrow> data"
  have "fst (havoc_rounds m (Suc n) data t) = fst (havoc_rounds m n ?d (snd ?c))"
    by (simp add: rnd_bind_eq)
  with Suc.IH[of ?d "snd ?c"] show ?case by (auto split: option.splits if_splits)
qed simp

lemma fst_randrange_pos: "data \<noteq> [] \<Longrightarrow> fst (randrange (length data) t) < length data"
  by (rule randrange_less) simp

lemma apply_op_length:
  assumes "fst (apply_op m op data t) = Some out"
  shows "length_effect m op data out"
proof -
  have ne: "data \<noteq> []" using assms by (auto simp: apply_op_def apply_with_def)
  define pos where "pos = fst (randrange (length data) t)"
  have pos: "pos < length data" unfolding pos_def by (rule fst_randrange_pos[OF ne])
  show ?thesis
  proof (cases op)
    case Block_replace
    then show ?thesis using assms ne pos
      by (auto simp: apply_op_def apply_with_def rnd_bind_eq length_effect_def pos_def[symmetric]
          intro!: length_overwrite)
  next
    case Aflnet_havoc
    with assms ne obtain n t' where "out = fst (havoc_rounds m n data t')"
      by (auto simp: apply_op_def apply_with_def rnd_bind_eq aflnet_havoc_def)
    then show ?thesis using havoc_rounds_effect[of m n data t'] Aflnet_havoc
      by (simp add: length_effect_def)
  qed (use assms ne pos in \<open>auto simp: apply_op_def apply_with_def rnd_bind_eq length_effect_def pos_def[symmetric]
       min_def dest: aflnet_lengths dictionary_lengths split: if_splits\<close>)
qed

section \<open>Flipped bits\<close>

lemma xor_less_power: "a < 2 ^ n \<Longrightarrow> b < 2 ^ n \<Longrightarrow> a XOR b < (2 :: nat) ^ n"
  by (metis take_bit_nat_eq_self_iff take_bit_xor)

lemma from_bytes_big_less: "from_bytes_big bs < 256 ^ length bs"
proof (induction bs rule: rev_induct)
  case (snoc b bs)
  have "unat b < 2 ^ LENGTH(8)" by (rule unsigned_less)
  then have "unat b < 256" by simp
  with snoc show ?case by (simp add: from_bytes_big_snoc)
qed (simp add: from_bytes_big_def)

lemma power_256: "(256 :: nat) ^ w = 2 ^ (w * 8)"
proof -
  have "(2 :: nat) ^ (8 * w) = (2 ^ 8) ^ w" by (rule power_mult)
  then show ?thesis by (simp add: mult.commute)
qed

lemma from_bytes_less: "from_bytes little bs < 2 ^ (length bs * 8)"
  using from_bytes_big_less[of bs] from_bytes_big_less[of "rev bs"]
  by (simp add: from_bytes_def power_256)

lemma from_to_bytes: "n < 2 ^ (w * 8) \<Longrightarrow> from_bytes little (to_bytes little w n) = n"
  by (simp add: from_bytes_def to_bytes_def from_to_bytes_big power_256)

lemma bit_window_less: "k + w \<le> n \<Longrightarrow> push_bit k (2 ^ w - 1) < (2 :: nat) ^ n"
proof -
  assume "k + w \<le> n"
  have "push_bit k (2 ^ w - 1) = (2 ^ w - 1) * (2 :: nat) ^ k" by (simp add: push_bit_eq_mult)
  also have "\<dots> < 2 ^ w * 2 ^ k" by simp
  also have "\<dots> \<le> 2 ^ n" using \<open>k + w \<le> n\<close> by (simp flip: power_add add: add.commute)
  finally show ?thesis .
qed

text \<open>
  The AFL bit stage flips exactly one window of adjacent bits of the message, read as a
  little-endian number, inside the message, and changes nothing else.
\<close>

theorem aflnet_bitflip_window:
  "case fst (aflnet_bitflip w data t) of
     None \<Rightarrow> length data * 8 < w
   | Some out \<Rightarrow> length out = length data \<and> (\<exists>k. k + w \<le> length data * 8 \<and>
       from_bytes True out = from_bytes True data XOR push_bit k (2 ^ w - 1))"
proof (cases "length data * 8 < w")
  case False
  define k where "k = fst (randrange (length data * 8 - w + 1) t)"
  have k: "k + w \<le> length data * 8"
    using randrange_less[of "length data * 8 - w + 1" t] False by (simp add: k_def)
  have "from_bytes True data XOR push_bit k (2 ^ w - 1) < 2 ^ (length data * 8)"
    by (rule xor_less_power[OF from_bytes_less bit_window_less[OF k]])
  have again: "from_bytes True (to_bytes True (length data) (from_bytes True data XOR push_bit k (2 ^ w - 1))) =
      from_bytes True data XOR push_bit k (2 ^ w - 1)"
    by (rule from_to_bytes) fact
  have "fst (aflnet_bitflip w data t) =
      Some (to_bytes True (length data) (from_bytes True data XOR push_bit k (2 ^ w - 1)))"
    using False by (simp add: aflnet_bitflip_def rnd_bind_eq k_def Let_def)
  with again k show ?thesis by auto
qed (simp add: aflnet_bitflip_def)

section \<open>Bounds on a mutated sequence\<close>

definition extreme_noted :: "nat \<Rightarrow> change list \<Rightarrow> bool" where
  "extreme_noted i changed \<longleftrightarrow> (\<exists>d. (i, Length_extreme, d) \<in> set changed)"

definition packet_ok :: "mutator \<Rightarrow> nat \<Rightarrow> bytes \<Rightarrow> change list \<Rightarrow> bytes \<Rightarrow> bool" where
  "packet_ok m i original changed out \<longleftrightarrow> out = original \<or>
     (out \<noteq> [] \<and> length out \<le> om_max_length m \<and>
      (extreme_noted i changed \<or> \<bar>int (length out) - int (length original)\<bar> \<le> int (om_max_delta m)))"

lemma extreme_noted_mono: "extreme_noted i c \<Longrightarrow> set c \<subseteq> set c' \<Longrightarrow> extreme_noted i c'"
  by (auto simp: extreme_noted_def)

lemma packet_ok_mono: "packet_ok m i x c y \<Longrightarrow> set c \<subseteq> set c' \<Longrightarrow> packet_ok m i x c' y"
  using extreme_noted_mono[of i c c'] by (auto simp: packet_ok_def)

lemma mutate_packet_ok:
  "packet_ok m i original (snd (snd acc)) (fst acc) \<Longrightarrow>
     fst (mutate_packet m i original n acc t) = (out, st', changed') \<Longrightarrow>
     packet_ok m i original changed' out \<and> set (snd (snd acc)) \<subseteq> set changed'"
proof (induction n arbitrary: acc t)
  case (Suc n)
  obtain cur st ch where acc: "acc = (cur, st, ch)" by (cases acc) auto
  let ?op = "choice (om_operators m) t"
  let ?c = "apply_op m (fst ?op) cur (snd ?op)"
  let ?acc = "case fst ?c of None \<Rightarrow> acc
    | Some c \<Rightarrow> if acceptable m (fst ?op) original c
        then (c, note_mutation (fst ?op) (length cur) (length c) st,
              ch @ [(i, fst ?op, int (length c) - int (length original))]) else acc"
  have "packet_ok m i original (snd (snd ?acc)) (fst ?acc) \<and> set ch \<subseteq> set (snd (snd ?acc))"
    using Suc.prems(1)
    by (auto simp: acc packet_ok_def acceptable_def extreme_noted_def split: option.splits)
  moreover have "fst (mutate_packet m i original n ?acc (snd ?c)) = (out, st', changed')"
    using Suc.prems(2) by (simp add: rnd_bind_eq acc cong: option.case_cong if_cong)
  ultimately show ?case using Suc.IH[of ?acc "snd ?c"] by (simp add: acc) blast
qed simp

definition sequence_ok :: "mutator \<Rightarrow> message list \<Rightarrow> nat set \<Rightarrow> change list \<Rightarrow> message list \<Rightarrow> bool" where
  "sequence_ok m sq touched changed sq' \<longleftrightarrow> length sq' = length sq \<and>
     (\<forall>i < length sq. fst (sq' ! i) = fst (sq ! i) \<and> (i \<notin> touched \<longrightarrow> sq' ! i = sq ! i) \<and>
        packet_ok m i (snd (sq ! i)) changed (snd (sq' ! i)))"

lemma mutate_packets_ok:
  "sequence_ok m sq (set seen) changed cur \<Longrightarrow> distinct picked \<Longrightarrow> set picked \<inter> set seen = {} \<Longrightarrow>
     set picked \<subseteq> {..<length sq} \<Longrightarrow>
     fst (mutate_packets m picked (cur, st, changed) t) = (sq', st', changed') \<Longrightarrow>
     sequence_ok m sq (set seen \<union> set picked) changed' sq'"
proof (induction picked arbitrary: cur st changed seen t)
  case (Cons i rest)
  have i: "i < length sq" "i \<notin> set seen" using Cons.prems(3,4) by auto
  from Cons.prems(1) i have len: "length cur = length sq" and here: "cur ! i = sq ! i"
    by (auto simp: sequence_ok_def)
  obtain ty original where orig: "sq ! i = (ty, original)" by (cases "sq ! i")
  let ?n = "randint 1 (om_max_mutations m) t"
  let ?p = "mutate_packet m i original (fst ?n) (original, st, changed) (snd ?n)"
  obtain out st1 ch1 where p: "fst ?p = (out, st1, ch1)" by (cases "fst ?p") auto
  have ok: "packet_ok m i original ch1 out" "set changed \<subseteq> set ch1"
    using mutate_packet_ok[of m i original "(original, st, changed)" "fst ?n" "snd ?n" out st1 ch1] p
    by (auto simp: packet_ok_def)
  let ?cur = "if out \<noteq> original then cur[i := (ty, out)] else cur"
  have "sequence_ok m sq (set (i # seen)) ch1 ?cur"
    using Cons.prems(1) ok packet_ok_mono[OF _ ok(2)] i len here orig
    by (auto simp: sequence_ok_def nth_list_update)
  moreover have "fst (mutate_packets m rest (?cur, st1, ch1) (snd ?p)) = (sq', st', changed')"
    using Cons.prems(5) p by (simp add: here orig rnd_bind_eq split: prod.splits)
  ultimately show ?case using Cons.IH[of "i # seen" ch1 ?cur st1 "snd ?p"] Cons.prems(2-4) by auto
qed simp

lemma candidates_ok:
  "i \<in> set (candidates m pl sq) \<Longrightarrow> i < length sq \<and> pl \<le> int i \<and> fst (sq ! i) \<notin> set (om_protected m)"
  by (auto simp: candidates_def)

lemma distinct_candidates: "distinct (candidates m pl sq)"
  by (simp add: candidates_def)

lemma sequence_ok_refl: "sequence_ok m sq touched changed sq"
  by (simp add: sequence_ok_def packet_ok_def)

text \<open>A mutated sequence differs from the original only in few unprotected packets.\<close>

lemma mutate_sequence_ok:
  assumes "fst (mutate_sequence m st sq pl imported t) = (sq', st', changed)"
  shows "\<exists>picked. sequence_ok m sq (set picked) changed sq' \<and> set picked \<subseteq> set (candidates m pl sq) \<and>
    length picked \<le> om_max_packets m"
proof (cases "sq' = sq \<and> changed = []")
  case True
  then show ?thesis by (auto simp: sequence_ok_refl intro!: exI[of _ "[]"])
next
  case False
  let ?k = "randrange (2 ^ 53) t"
  let ?cands = "candidates m pl sq"
  let ?n = "randint 1 (min (om_max_packets m) (length ?cands)) (snd ?k)"
  let ?p = "sample (fst ?n) ?cands (snd ?n)"
  from False assms have free: "\<not> blocked m sq imported" "?cands \<noteq> []"
    by (auto simp: mutate_sequence_def rnd_bind_eq Let_def split: if_splits)
  have "fst (mutate_packets m (fst ?p) (sq, st\<lparr>st_attempts := st_attempts st + 1\<rparr>, []) (snd ?p)) =
      (sq', st', changed)"
    using False assms by (auto simp: mutate_sequence_def rnd_bind_eq Let_def split: if_splits)
  moreover have n: "fst ?n \<le> min (om_max_packets m) (length ?cands)"
    using free by (intro randint_bounds[THEN conjunct2]) (auto simp: blocked_def Suc_le_eq)
  have s: "distinct (fst ?p)" "set (fst ?p) \<subseteq> set ?cands" "length (fst ?p) = fst ?n"
    using sample_distinct[OF distinct_candidates, of "fst ?n" m pl sq "snd ?n"] n by auto
  moreover have "set (fst ?p) \<subseteq> {..<length sq}" using s(2) candidates_ok by fastforce
  ultimately have "sequence_ok m sq (set [] \<union> set (fst ?p)) changed sq'"
    by (intro mutate_packets_ok[OF sequence_ok_refl]) auto
  with s n show ?thesis by auto
qed

text \<open>
  C25. A mutated sequence keeps its length and every message type; messages of the protected prefix
  or of a protected type are untouched, and at most the configured number of packets changes; a
  changed message is not empty, respects the maximal length, and has changed its length by at most
  the configured amount unless a length-extreme mutation is reported for it.
\<close>

theorem mutate_sequence_bounded:
  "case fst (mutate_sequence m st sq prefix_length imported t) of (sq', st', changed) \<Rightarrow>
     map fst sq' = map fst sq \<and>
     length (filter (\<lambda>i. sq' ! i \<noteq> sq ! i) [0..<length sq]) \<le> om_max_packets m \<and>
     list_all (\<lambda>i. sq' ! i = sq ! i \<or>
       (prefix_length \<le> int i \<and> fst (sq ! i) \<notin> set (om_protected m) \<and>
        snd (sq' ! i) \<noteq> [] \<and> length (snd (sq' ! i)) \<le> om_max_length m \<and>
        (extreme_noted i changed \<or>
         \<bar>int (length (snd (sq' ! i))) - int (length (snd (sq ! i)))\<bar> \<le> int (om_max_delta m))))
       [0..<length sq]"
proof -
  obtain sq' st' changed where r: "fst (mutate_sequence m st sq prefix_length imported t) = (sq', st', changed)"
    by (cases "fst (mutate_sequence m st sq prefix_length imported t)")
  from mutate_sequence_ok[OF r] obtain picked where
    p: "sequence_ok m sq (set picked) changed sq'" "set picked \<subseteq> set (candidates m prefix_length sq)"
      "length picked \<le> om_max_packets m" by blast
  have "map fst sq' = map fst sq" using p(1) by (auto simp: sequence_ok_def intro: nth_equalityI)
  moreover have "length (filter (\<lambda>i. sq' ! i \<noteq> sq ! i) [0..<length sq]) \<le> length picked"
  proof -
    let ?ds = "filter (\<lambda>i. sq' ! i \<noteq> sq ! i) [0..<length sq]"
    have "set ?ds \<subseteq> set picked" using p(1) by (auto simp: sequence_ok_def)
    then have "card (set ?ds) \<le> card (set picked)" by (intro card_mono) auto
    also have "\<dots> \<le> length picked" by (rule card_length)
    finally show ?thesis by (simp only: distinct_card distinct_filter distinct_upt)
  qed
  moreover have "sq' ! i = sq ! i \<or>
       (prefix_length \<le> int i \<and> fst (sq ! i) \<notin> set (om_protected m) \<and>
        snd (sq' ! i) \<noteq> [] \<and> length (snd (sq' ! i)) \<le> om_max_length m \<and>
        (extreme_noted i changed \<or>
         \<bar>int (length (snd (sq' ! i))) - int (length (snd (sq ! i)))\<bar> \<le> int (om_max_delta m)))"
    if "i < length sq" for i
  proof (cases "sq' ! i = sq ! i")
    case False
    from p(1) that have i: "fst (sq' ! i) = fst (sq ! i)" "i \<notin> set picked \<Longrightarrow> sq' ! i = sq ! i"
      "packet_ok m i (snd (sq ! i)) changed (snd (sq' ! i))"
      unfolding sequence_ok_def by blast+
    from i(1) False have "snd (sq' ! i) \<noteq> snd (sq ! i)" by (simp add: prod_eq_iff)
    moreover have "prefix_length \<le> int i \<and> fst (sq ! i) \<notin> set (om_protected m)"
      using i(2) False p(2) candidates_ok[of i m prefix_length sq] by blast
    ultimately show ?thesis using i(3) unfolding packet_ok_def by blast
  qed simp
  ultimately show ?thesis using r p(3) by (simp add: list_all_iff)
qed

text \<open>
  Every operator changes the length of a message only as it is meant to: the in-place stages
  keep it, insertion and deletion change it by one, dictionary insertion by a token of the
  dictionary, the extreme gives one byte or the extreme length, and havoc obeys the maximal length.
\<close>

theorem apply_op_length_effect:
  "case fst (apply_op m op data t) of None \<Rightarrow> True | Some out \<Rightarrow> length_effect m op data out"
  using apply_op_length[of m op data t] by (auto split: option.split)

end
