(* ===== verification/Run_Control.thy ===== *)
theory Run_Control imports Prelude begin

text \<open>
  The deadline controller of \<open>voltron/run_controller.py\<close>.

  Clock readings are integers of an arbitrary unit; they are arguments of the operations that read
  the clock.  The stop event is shared with the whole run and is part of the state; the callback
  given to the constructor is recorded with its reason, and \<open>sets\<close> says for which reasons it sets
  the event.  The first part has the methods run to completion one after the other; the step
  relation of the second part cuts them where the lock is released, so that the timer thread and
  the components interleave.
\<close>

section \<open>Controller\<close>

record run_controller =
  rc_duration :: int
  rc_started :: int
  rc_deadline :: int
  rc_timer :: "int option"
  rc_closed :: bool
  rc_requested :: bool
  rc_event :: bool
  rc_calls :: "string list"

definition new_controller :: "int \<Rightarrow> int \<Rightarrow> bool \<Rightarrow> run_controller result" where
  "new_controller duration now event =
     (if duration \<le> 0 then Inl ValueError
      else Inr \<lparr>rc_duration = duration, rc_started = now, rc_deadline = now + duration,
                rc_timer = None, rc_closed = False, rc_requested = False, rc_event = event,
                rc_calls = []\<rparr>)"

definition elapsed_s :: "int \<Rightarrow> run_controller \<Rightarrow> int" where
  "elapsed_s now rc = max 0 (now - rc_started rc)"

definition remaining_s :: "int \<Rightarrow> run_controller \<Rightarrow> int" where
  "remaining_s now rc = max 0 (rc_deadline rc - now)"

definition expired :: "int \<Rightarrow> run_controller \<Rightarrow> bool" where
  "expired now rc \<longleftrightarrow> rc_deadline rc \<le> now"

text \<open>The part of \<open>request_stop\<close> under the lock: whether the callback is to be called.\<close>

definition request_decide :: "string \<Rightarrow> run_controller \<Rightarrow> bool \<times> run_controller" where
  "request_decide reason rc =
     (if rc_closed rc \<or> rc_event rc then (False, rc)
      else if reason = ''deadline'' then
        (if rc_requested rc then (False, rc) else (True, rc\<lparr>rc_requested := True\<rparr>))
      else (True, rc))"

definition run_callback :: "(string \<Rightarrow> bool) \<Rightarrow> string \<Rightarrow> run_controller \<Rightarrow> run_controller" where
  "run_callback sets reason rc =
     rc\<lparr>rc_calls := rc_calls rc @ [reason], rc_event := rc_event rc \<or> sets reason\<rparr>"

definition request_stop :: "(string \<Rightarrow> bool) \<Rightarrow> string \<Rightarrow> run_controller \<Rightarrow> run_controller" where
  "request_stop sets reason rc =
     (case request_decide reason rc of
        (True, rc') \<Rightarrow> run_callback sets reason rc'
      | (False, rc') \<Rightarrow> rc')"

definition should_stop :: "(string \<Rightarrow> bool) \<Rightarrow> int \<Rightarrow> run_controller \<Rightarrow> bool \<times> run_controller" where
  "should_stop sets now rc =
     (if rc_event rc then (True, rc)
      else if expired now rc then (True, request_stop sets ''deadline'' rc)
      else (False, rc))"

text \<open>\<open>rc_timer\<close> holds the time at which the scheduled timer is due.\<close>

definition schedule_locked :: "int \<Rightarrow> run_controller \<Rightarrow> run_controller" where
  "schedule_locked now rc = rc\<lparr>rc_timer := Some (now + remaining_s now rc)\<rparr>"

definition start :: "int \<Rightarrow> run_controller \<Rightarrow> run_controller" where
  "start now rc = (if rc_closed rc \<or> rc_timer rc \<noteq> None then rc else schedule_locked now rc)"

definition close :: "run_controller \<Rightarrow> run_controller" where
  "close rc = rc\<lparr>rc_closed := True, rc_timer := None\<rparr>"

text \<open>\<open>_on_timer\<close>: the locked part tells whether the deadline is to be requested.\<close>

definition on_timer_locked :: "int \<Rightarrow> run_controller \<Rightarrow> bool \<times> run_controller" where
  "on_timer_locked now rc =
     (let rc' = rc\<lparr>rc_timer := None\<rparr> in
      if rc_closed rc' \<or> rc_event rc' then (False, rc')
      else if \<not> expired now rc' then (False, schedule_locked now rc')
      else (True, rc'))"

definition on_timer :: "(string \<Rightarrow> bool) \<Rightarrow> int \<Rightarrow> run_controller \<Rightarrow> run_controller" where
  "on_timer sets now rc =
     (case on_timer_locked now rc of
        (True, rc') \<Rightarrow> request_stop sets ''deadline'' rc'
      | (False, rc') \<Rightarrow> rc')"

lemma rc_fields [simp]:
  "rc_deadline (run_callback sets r rc) = rc_deadline rc" "rc_closed (run_callback sets r rc) = rc_closed rc"
  "rc_requested (run_callback sets r rc) = rc_requested rc" "rc_timer (run_callback sets r rc) = rc_timer rc"
  "rc_event (run_callback sets r rc) = (rc_event rc \<or> sets r)"
  "rc_calls (run_callback sets r rc) = rc_calls rc @ [r]"
  by (simp_all add: run_callback_def)

section \<open>Interleaved runs\<close>

text \<open>
  What a thread has still to do: enter \<open>request_stop\<close>, or call the callback after the lock was
  released.  \<open>watched\<close> remembers that \<open>start\<close> was called.
\<close>

datatype todo = Decide string | Deliver string

record run_state =
  rs_now :: int
  rs_controller :: run_controller
  rs_todo :: "todo list"
  rs_watched :: bool

inductive run_step :: "(string \<Rightarrow> bool) \<Rightarrow> run_state \<Rightarrow> run_state \<Rightarrow> bool" for sets where
  tick: "0 \<le> d \<Longrightarrow> run_step sets s (s\<lparr>rs_now := rs_now s + d\<rparr>)"
| call_request: "run_step sets s (s\<lparr>rs_todo := rs_todo s @ [Decide reason]\<rparr>)"
| call_should_stop:
    "\<not> rc_event (rs_controller s) \<Longrightarrow> expired (rs_now s) (rs_controller s) \<Longrightarrow>
       run_step sets s (s\<lparr>rs_todo := rs_todo s @ [Decide ''deadline'']\<rparr>)"
| decide_call:
    "rs_todo s = xs @ Decide reason # ys \<Longrightarrow> request_decide reason (rs_controller s) = (True, rc) \<Longrightarrow>
       run_step sets s (s\<lparr>rs_controller := rc, rs_todo := xs @ Deliver reason # ys\<rparr>)"
| decide_return:
    "rs_todo s = xs @ Decide reason # ys \<Longrightarrow> request_decide reason (rs_controller s) = (False, rc) \<Longrightarrow>
       run_step sets s (s\<lparr>rs_controller := rc, rs_todo := xs @ ys\<rparr>)"
| deliver:
    "rs_todo s = xs @ Deliver reason # ys \<Longrightarrow>
       run_step sets s (s\<lparr>rs_controller := run_callback sets reason (rs_controller s),
                         rs_todo := xs @ ys\<rparr>)"
| start: "run_step sets s (s\<lparr>rs_controller := start (rs_now s) (rs_controller s), rs_watched := True\<rparr>)"
| timer_fires:
    "rc_timer (rs_controller s) \<noteq> None \<Longrightarrow> on_timer_locked (rs_now s) (rs_controller s) = (True, rc) \<Longrightarrow>
       run_step sets s (s\<lparr>rs_controller := rc, rs_todo := rs_todo s @ [Decide ''deadline'']\<rparr>)"
| timer_again:
    "rc_timer (rs_controller s) \<noteq> None \<Longrightarrow> on_timer_locked (rs_now s) (rs_controller s) = (False, rc) \<Longrightarrow>
       run_step sets s (s\<lparr>rs_controller := rc\<rparr>)"
| close: "run_step sets s (s\<lparr>rs_controller := close (rs_controller s)\<rparr>)"
| event_set: "run_step sets s (s\<lparr>rs_controller := (rs_controller s)\<lparr>rc_event := True\<rparr>\<rparr>)"

inductive_cases run_stepE: "run_step sets s s'"

definition run_init :: "int \<Rightarrow> run_controller \<Rightarrow> run_state" where
  "run_init now rc = \<lparr>rs_now = now, rs_controller = rc, rs_todo = [], rs_watched = False\<rparr>"

inductive reachable :: "(string \<Rightarrow> bool) \<Rightarrow> int \<Rightarrow> int \<Rightarrow> run_state \<Rightarrow> bool" for sets duration now where
  init: "new_controller duration now False = Inr rc \<Longrightarrow> reachable sets duration now (run_init now rc)"
| step: "reachable sets duration now s \<Longrightarrow> run_step sets s s' \<Longrightarrow> reachable sets duration now s'"

text \<open>
  The deadline is requested at most once, counting the calls on their way; while the run is
  watched, open and not stopped, there is a timer or the request is made or on its way.
\<close>

definition deadline_calls :: "run_state \<Rightarrow> nat" where
  "deadline_calls s = count_list (rc_calls (rs_controller s)) ''deadline'' +
     count_list (rs_todo s) (Deliver ''deadline'')"

definition watch_ok :: "run_state \<Rightarrow> bool" where
  "watch_ok s \<longleftrightarrow> (rs_watched s \<and> \<not> rc_closed (rs_controller s) \<and> \<not> rc_event (rs_controller s) \<longrightarrow>
     rc_timer (rs_controller s) \<noteq> None \<or> rc_requested (rs_controller s) \<or> Decide ''deadline'' \<in> set (rs_todo s))"

definition run_ok :: "int \<Rightarrow> int \<Rightarrow> run_state \<Rightarrow> bool" where
  "run_ok duration now s \<longleftrightarrow> now \<le> rs_now s \<and>
     rc_deadline (rs_controller s) = now + duration \<and>
     (rc_closed (rs_controller s) \<longrightarrow> rc_timer (rs_controller s) = None) \<and>
     (case rc_timer (rs_controller s) of None \<Rightarrow> True
      | Some t \<Rightarrow> now + duration \<le> t) \<and>
     deadline_calls s = (if rc_requested (rs_controller s) then 1 else 0) \<and>
     watch_ok s"

lemmas run_ok_defs = run_ok_def watch_ok_def deadline_calls_def

lemma run_ok_decide_call:
  assumes "run_ok duration now s" "rs_todo s = xs @ Decide reason # ys"
    "request_decide reason (rs_controller s) = (True, rc)"
  shows "run_ok duration now (s\<lparr>rs_controller := rc, rs_todo := xs @ Deliver reason # ys\<rparr>)"
proof (cases "reason = ''deadline''")
  case True
  with assms(3) have "\<not> rc_requested (rs_controller s)" "rc = rs_controller s\<lparr>rc_requested := True\<rparr>"
    by (auto simp: request_decide_def split: if_splits)
  with assms(1,2) True show ?thesis by (auto simp: run_ok_defs)
next
  case False
  with assms(3) have "rc = rs_controller s" by (auto simp: request_decide_def split: if_splits)
  with assms(1,2) False show ?thesis by (simp add: run_ok_defs)
qed

lemma run_ok_decide_return:
  assumes "run_ok duration now s" "rs_todo s = xs @ Decide reason # ys"
    "request_decide reason (rs_controller s) = (False, rc)"
  shows "run_ok duration now (s\<lparr>rs_controller := rc, rs_todo := xs @ ys\<rparr>)"
proof -
  have "rc = rs_controller s" "rc_closed rc \<or> rc_event rc \<or> rc_requested rc"
    using assms(3) by (auto simp: request_decide_def split: if_splits)
  with assms(1,2) show ?thesis by (auto simp: run_ok_defs)
qed

lemma run_ok_deliver:
  assumes "run_ok duration now s" "rs_todo s = xs @ Deliver reason # ys"
  shows "run_ok duration now (s\<lparr>rs_controller := run_callback sets reason (rs_controller s), rs_todo := xs @ ys\<rparr>)"
proof -
  let ?s = "s\<lparr>rs_controller := run_callback sets reason (rs_controller s), rs_todo := xs @ ys\<rparr>"
  have "deadline_calls ?s = deadline_calls s" using assms(2) by (simp add: deadline_calls_def)
  moreover have "watch_ok s \<Longrightarrow> watch_ok ?s" using assms(2) by (auto simp: watch_ok_def)
  ultimately show ?thesis using assms(1) by (simp add: run_ok_def)
qed

lemma run_ok_timer:
  assumes "run_ok duration now s" "on_timer_locked (rs_now s) (rs_controller s) = (b, rc)"
  shows "run_ok duration now (s\<lparr>rs_controller := rc, rs_todo := rs_todo s @ (if b then [Decide ''deadline''] else [])\<rparr>)"
  using assms by (auto simp: run_ok_defs on_timer_locked_def schedule_locked_def remaining_s_def
      expired_def Let_def split: if_splits)

lemma run_ok_step:
  assumes "run_step sets s s'" "run_ok duration now s"
  shows "run_ok duration now s'"
  using assms
proof cases
  case (decide_call xs reason ys rc)
  then show ?thesis using run_ok_decide_call[OF assms(2)] by simp
next
  case (decide_return xs reason ys rc)
  then show ?thesis using run_ok_decide_return[OF assms(2)] by simp
next
  case (timer_fires rc)
  then show ?thesis using run_ok_timer[OF assms(2)] by fastforce
next
  case (timer_again rc)
  then show ?thesis using run_ok_timer[OF assms(2) timer_again(3)] by simp
next
  case start
  then show ?thesis using assms(2)
    by (auto simp: run_ok_defs start_def schedule_locked_def remaining_s_def)
next
  case (deliver xs reason ys)
  then show ?thesis using run_ok_deliver[OF assms(2)] by simp
qed (use assms(2) in \<open>auto simp: run_ok_defs close_def\<close>)

lemma reachable_ok: "reachable sets duration now s \<Longrightarrow> run_ok duration now s"
proof (induction rule: reachable.induct)
  case (init rc)
  then show ?case by (auto simp: new_controller_def run_init_def run_ok_def watch_ok_def
      deadline_calls_def split: if_splits)
qed (rule run_ok_step)

text \<open>
  C11. However the timer thread, the components and the owner interleave, the deadline never moves
  and the callback is called for it at most once.
\<close>

theorem deadline_requested_once:
  assumes "reachable sets duration now s"
  shows "rc_deadline (rs_controller s) = now + duration \<and>
    count_list (rc_calls (rs_controller s)) ''deadline'' \<le> 1"
  using reachable_ok[OF assms] by (auto simp: run_ok_def deadline_calls_def split: if_splits)

text \<open>A run in which the timer fires at the deadline.\<close>

definition demo_controller :: run_controller where
  "demo_controller = \<lparr>rc_duration = 5, rc_started = 0, rc_deadline = 5, rc_timer = None,
     rc_closed = False, rc_requested = False, rc_event = False, rc_calls = []\<rparr>"

definition demo_started :: run_state where
  "demo_started = \<lparr>rs_now = 5, rs_controller = demo_controller\<lparr>rc_timer := Some 5\<rparr>, rs_todo = [],
     rs_watched = True\<rparr>"

definition demo_done :: run_state where
  "demo_done = \<lparr>rs_now = 5, rs_controller = demo_controller\<lparr>rc_requested := True, rc_event := True,
     rc_calls := [''deadline'']\<rparr>, rs_todo = [], rs_watched = True\<rparr>"

lemma reachable_demo_started: "reachable sets 5 0 demo_started"
proof -
  have "reachable sets 5 0 (run_init 0 demo_controller)"
    by (rule reachable.init) (simp add: new_controller_def demo_controller_def)
  from reachable.step[OF reachable.step[OF this run_step.start] run_step.tick[of 5]]
  show ?thesis by (simp add: run_init_def demo_started_def start_def demo_controller_def
      schedule_locked_def remaining_s_def)
qed

lemma reachable_demo_done: "reachable (\<lambda>_. True) 5 0 demo_done"
proof -
  let ?c = "demo_controller\<lparr>rc_timer := None\<rparr>"
  have 1: "run_step (\<lambda>_. True) demo_started (demo_started\<lparr>rs_controller := ?c, rs_todo := [Decide ''deadline'']\<rparr>)"
    using run_step.timer_fires[of demo_started ?c "\<lambda>_. True"]
    by (simp add: demo_started_def on_timer_locked_def demo_controller_def expired_def)
  let ?s2 = "demo_started\<lparr>rs_controller := ?c, rs_todo := [Decide ''deadline'']\<rparr>"
  let ?s3 = "?s2\<lparr>rs_controller := ?c\<lparr>rc_requested := True\<rparr>, rs_todo := [Deliver ''deadline'']\<rparr>"
  have 2: "run_step (\<lambda>_. True) ?s2 ?s3"
    using run_step.decide_call[of ?s2 "[]" "''deadline''" "[]" "?c\<lparr>rc_requested := True\<rparr>"]
    by (simp add: request_decide_def demo_controller_def)
  have 3: "run_step (\<lambda>_. True) ?s3 demo_done"
    using run_step.deliver[of ?s3 "[]" "''deadline''" "[]" "\<lambda>_. True"]
    by (simp add: run_callback_def demo_controller_def demo_done_def demo_started_def)
  from reachable.step[OF reachable.step[OF reachable.step[OF reachable_demo_started 1] 2] 3]
  show ?thesis .
qed

theorem deadline_requested_once_witness:
  "rc_deadline (rs_controller demo_done) = 0 + 5 \<and>
   count_list (rc_calls (rs_controller demo_done)) ''deadline'' \<le> 1"
  by (rule deadline_requested_once[OF reachable_demo_done])

text \<open>
  C12. While a started run is neither closed nor stopped, the watcher is never lost: a timer is
  scheduled, not before the deadline, or the deadline request is made or under way.
\<close>

theorem watcher_never_lost:
  assumes "reachable sets duration now s" and "rs_watched s"
    and "\<not> rc_closed (rs_controller s)" and "\<not> rc_event (rs_controller s)"
  shows "(\<exists>t. rc_timer (rs_controller s) = Some t \<and> rc_deadline (rs_controller s) \<le> t) \<or>
    rc_requested (rs_controller s) \<or> Decide ''deadline'' \<in> set (rs_todo s)"
  using reachable_ok[OF assms(1)] assms(2-4)
  by (auto simp: run_ok_def watch_ok_def split: option.splits)

theorem watcher_never_lost_witness:
  "(\<exists>t. rc_timer (rs_controller demo_started) = Some t \<and> rc_deadline (rs_controller demo_started) \<le> t) \<or>
    rc_requested (rs_controller demo_started) \<or> Decide ''deadline'' \<in> set (rs_todo demo_started)"
  by (rule watcher_never_lost[OF reachable_demo_started[of "\<lambda>_. True"]])
    (simp_all add: demo_started_def demo_controller_def)

text \<open>
  \<open>should_stop\<close> answers True exactly when the event is set or the deadline has passed, it asks
  for a stop only then, and once it has answered True it does so at every later time, whatever the
  callback does.
\<close>

theorem should_stop_stable:
  "case should_stop sets now rc of (answer, rc') \<Rightarrow>
     answer = (rc_event rc \<or> rc_deadline rc \<le> now) \<and>
     rc_deadline rc' = rc_deadline rc \<and> rc_closed rc' = rc_closed rc \<and> rc_timer rc' = rc_timer rc \<and>
     (if answer then fst (should_stop sets (now + int later) rc') else rc' = rc)"
  by (auto simp: should_stop_def expired_def request_stop_def request_decide_def split: prod.splits if_splits)

end
