(* ===== verification/Metrics.thy ===== *)
theory Metrics imports Prelude begin

text \<open>
  The shared metrics of \<open>voltron/analyzer/analyzer.py\<close>: the response and transition counters with
  their snapshots, the generator checkpoints, the iteration table, the phases of a run and the
  accounting of language model calls.

  Every CSV file is the list of its rows; \<open>io\<close> says whether the guarded file operation succeeds
  (the code logs a failure and goes on).  Clock readings are integer arguments.  Formatting of
  numbers and dates is not part of a row.
\<close>

section \<open>State\<close>

type_synonym counter = "(string, nat) dict"

record component =
  co_request_type :: string
  co_kind :: string
  co_version :: string
  co_evolve_round :: string

record state_row =
  sr_data_type :: string
  sr_data :: nat
  sr_event :: string
  sr_event_value :: string
  sr_phase :: string
  sr_phase_iteration :: "int option"
  sr_evolve_round :: string
  sr_generator :: string
  sr_version :: string
  sr_component_kind :: string
  sr_request_type :: string
  sr_parser_version :: string
  sr_components :: "component list"

record checkpoint =
  cp_response_events :: int
  cp_response_types :: int
  cp_transition_events :: int
  cp_response_transitions :: int

text \<open>Arguments of a checkpoint that are only written to its row.\<close>

record checkpoint_labels =
  cl_phase_iteration :: "int option"
  cl_model_id :: string
  cl_iteration_status :: string
  cl_mutated_types :: "string list"
  cl_round_limit :: "int option"
  cl_rounds_attempted :: "int option"
  cl_published_types :: "string list"

definition no_labels :: "int option \<Rightarrow> checkpoint_labels" where
  "no_labels phase_iteration =
     \<lparr>cl_phase_iteration = phase_iteration, cl_model_id = [], cl_iteration_status = [],
      cl_mutated_types = [], cl_round_limit = None, cl_rounds_attempted = None,
      cl_published_types = []\<rparr>"

record checkpoint_row =
  cr_id :: nat
  cr_elapsed :: int
  cr_phase :: string
  cr_type :: string
  cr_operation :: string
  cr_evaluated :: string
  cr_labels :: checkpoint_labels
  cr_current :: checkpoint
  cr_delta :: checkpoint

record iteration_row =
  ir_phase :: string
  ir_iteration :: int
  ir_sample_point :: string
  ir_status :: string
  ir_elapsed :: int
  ir_nodes :: nat
  ir_edges :: nat
  ir_iteration_nodes :: nat
  ir_iteration_edges :: nat
  ir_lifetime_nodes :: nat
  ir_lifetime_edges :: nat

record phase_metric =
  pm_phase :: string
  pm_status :: string
  pm_start :: int
  pm_end :: "int option"
  pm_duration :: int
  pm_chat_time :: int
  pm_llm_calls :: int
  pm_prompt_tokens :: int
  pm_completion_tokens :: int
  pm_total_tokens :: int
  pm_written :: bool

record usage_metric =
  um_usage :: string
  um_model :: string
  um_llm_calls :: int
  um_token_reported_calls :: int
  um_chat_time :: int
  um_prompt_tokens :: int
  um_completion_tokens :: int
  um_total_tokens :: int
  um_max_prompt_tokens :: int
  um_max_completion_tokens :: int
  um_max_total_tokens :: int
  um_valid_responses :: int
  um_invalid_responses :: int
  um_empty_responses :: int
  um_schema_failures :: int
  um_truncated_responses :: int
  um_discarded_completion_tokens :: int

record validation_row =
  vr_usage :: string
  vr_model :: string
  vr_valid :: bool
  vr_reason :: string
  vr_completion_tokens :: int

record analyzer =
  an_start_time :: int
  an_req_types :: counter
  an_res_types :: counter
  an_cur_res_types :: counter
  an_resp_trans :: counter
  an_cur_resp_trans :: counter
  an_lifetime_res_types :: counter
  an_lifetime_resp_trans :: counter
  an_state :: nat
  an_stage :: string
  an_stop_reason :: "string option"
  an_stop_event :: bool
  an_phases :: "(string, phase_metric) dict"
  an_active_phase :: "string option"
  an_phase_rows :: "phase_metric list"
  an_usage :: "(string \<times> string, usage_metric) dict"
  an_validation_rows :: "validation_row list"
  an_recorded_iterations :: "(string \<times> int) list"
  an_iteration_rows :: "iteration_row list"
  an_checkpoint_id :: nat
  an_last_checkpoint :: "checkpoint option"
  an_last_operation :: "string option"
  an_finalized :: bool
  an_checkpoint_rows :: "checkpoint_row list"
  an_snapshot_phase :: string
  an_snapshot_iteration :: "int option"
  an_snapshot_components :: "component list"
  an_snapshot_request_type :: string
  an_snapshot_parser_version :: string
  an_state_rows :: "state_row list"

definition new_analyzer :: analyzer where
  "new_analyzer =
     \<lparr>an_start_time = 0, an_req_types = [], an_res_types = [], an_cur_res_types = [],
      an_resp_trans = [], an_cur_resp_trans = [], an_lifetime_res_types = [],
      an_lifetime_resp_trans = [], an_state = 0, an_stage = [], an_stop_reason = None,
      an_stop_event = False, an_phases = [], an_active_phase = None, an_phase_rows = [],
      an_usage = [], an_validation_rows = [], an_recorded_iterations = [], an_iteration_rows = [],
      an_checkpoint_id = 0, an_last_checkpoint = None, an_last_operation = None,
      an_finalized = False, an_checkpoint_rows = [], an_snapshot_phase = [],
      an_snapshot_iteration = None, an_snapshot_components = [], an_snapshot_request_type = [],
      an_snapshot_parser_version = [], an_state_rows = []\<rparr>"

section \<open>Counters and state snapshots\<close>

definition res_types_num :: "analyzer \<Rightarrow> nat" where
  "res_types_num an = length (an_res_types an)"

definition resp_trans_num :: "analyzer \<Rightarrow> nat" where
  "resp_trans_num an = length (an_resp_trans an)"

definition lifetime_res_events_num :: "analyzer \<Rightarrow> nat" where
  "lifetime_res_events_num an = sum_list (map snd (an_lifetime_res_types an))"

definition lifetime_res_types_num :: "analyzer \<Rightarrow> nat" where
  "lifetime_res_types_num an = length (an_lifetime_res_types an)"

definition lifetime_resp_trans_events_num :: "analyzer \<Rightarrow> nat" where
  "lifetime_resp_trans_events_num an = sum_list (map snd (an_lifetime_resp_trans an))"

definition lifetime_resp_trans_num :: "analyzer \<Rightarrow> nat" where
  "lifetime_resp_trans_num an = length (an_lifetime_resp_trans an)"

text \<open>\<open>unseen_res_types\<close> goes over the request counter.\<close>

definition unseen_res_types :: "analyzer \<Rightarrow> string list" where
  "unseen_res_types an = filter (\<lambda>k. dict_count (an_req_types an) k = 0) (map fst (an_req_types an))"

definition snapshot_values :: "analyzer \<Rightarrow> (string \<times> nat) list" where
  "snapshot_values an =
     [(''nodes'', res_types_num an), (''edges'', resp_trans_num an),
      (''lifetime_response_events'', lifetime_res_events_num an),
      (''lifetime_response_types'', lifetime_res_types_num an),
      (''lifetime_response_transition_events'', lifetime_resp_trans_events_num an),
      (''lifetime_response_transitions'', lifetime_resp_trans_num an)]"

definition no_component :: component where
  "no_component = \<lparr>co_request_type = [], co_kind = [], co_version = [], co_evolve_round = []\<rparr>"

definition snapshot_row :: "analyzer \<Rightarrow> string \<Rightarrow> string \<Rightarrow> string \<times> nat \<Rightarrow> state_row" where
  "snapshot_row an event event_value entry =
     (let active = (if an_snapshot_components an = [] then no_component
                    else last (an_snapshot_components an))
      in \<lparr>sr_data_type = fst entry, sr_data = snd entry, sr_event = event,
          sr_event_value = event_value, sr_phase = an_snapshot_phase an,
          sr_phase_iteration = an_snapshot_iteration an, sr_evolve_round = co_evolve_round active,
          sr_generator = co_request_type active, sr_version = co_version active,
          sr_component_kind = co_kind active, sr_request_type = an_snapshot_request_type an,
          sr_parser_version = an_snapshot_parser_version an,
          sr_components = an_snapshot_components an\<rparr>)"

definition record_state_snapshot :: "bool \<Rightarrow> string \<Rightarrow> string \<Rightarrow> analyzer \<Rightarrow> analyzer" where
  "record_state_snapshot io event event_value an =
     (if io
      then an\<lparr>an_state_rows := an_state_rows an @ map (snapshot_row an event event_value) (snapshot_values an)\<rparr>
      else an)"

definition set_state_snapshot_phase :: "string \<Rightarrow> int option \<Rightarrow> analyzer \<Rightarrow> analyzer" where
  "set_state_snapshot_phase phase iteration an =
     an\<lparr>an_snapshot_phase := phase, an_snapshot_iteration := iteration\<rparr>"

definition set_state_snapshot_components ::
    "component list \<Rightarrow> string \<Rightarrow> string \<Rightarrow> analyzer \<Rightarrow> analyzer" where
  "set_state_snapshot_components components request_type parser_version an =
     an\<lparr>an_snapshot_components := components, an_snapshot_request_type := request_type,
        an_snapshot_parser_version := parser_version\<rparr>"

definition req_types_update :: "string \<Rightarrow> analyzer \<Rightarrow> analyzer" where
  "req_types_update code an = an\<lparr>an_req_types := dict_bump code (an_req_types an)\<rparr>"

definition res_types_update :: "bool \<Rightarrow> string \<Rightarrow> analyzer \<Rightarrow> analyzer" where
  "res_types_update io code an =
     (let is_new = map_of (an_lifetime_res_types an) code = None;
          an' = an\<lparr>an_res_types := dict_bump code (an_res_types an),
                   an_cur_res_types := dict_bump code (an_cur_res_types an),
                   an_lifetime_res_types := dict_bump code (an_lifetime_res_types an)\<rparr>
      in if is_new then record_state_snapshot io ''new_response_type'' code an' else an')"

definition resp_trans_update :: "bool \<Rightarrow> string \<Rightarrow> analyzer \<Rightarrow> analyzer" where
  "resp_trans_update io tr an =
     (let is_new = map_of (an_lifetime_resp_trans an) tr = None;
          an' = an\<lparr>an_resp_trans := dict_bump tr (an_resp_trans an),
                   an_cur_resp_trans := dict_bump tr (an_cur_resp_trans an),
                   an_lifetime_resp_trans := dict_bump tr (an_lifetime_resp_trans an)\<rparr>
      in if is_new then record_state_snapshot io ''new_response_transition'' tr an' else an')"

definition reset_automata_cnt :: "analyzer \<Rightarrow> analyzer" where
  "reset_automata_cnt an = an\<lparr>an_state := 0, an_cur_res_types := [], an_cur_resp_trans := []\<rparr>"

text \<open>The fuzzing phase starts its cumulative counters anew (\<open>fuzz.py\<close>, \<open>fuzz_loop\<close>).\<close>

definition reset_phase_counters :: "analyzer \<Rightarrow> analyzer" where
  "reset_phase_counters an = an\<lparr>an_res_types := [], an_resp_trans := []\<rparr>"

section \<open>Iteration table and generator checkpoints\<close>

definition record_iteration_state_metrics ::
    "bool \<Rightarrow> int \<Rightarrow> string \<Rightarrow> int \<Rightarrow> string \<Rightarrow> string \<Rightarrow> bool \<Rightarrow> analyzer \<Rightarrow> bool \<times> analyzer" where
  "record_iteration_state_metrics io now phase iteration sample_point status skip an =
     (let key = (phase, iteration) in
      if skip \<and> key \<in> set (an_recorded_iterations an) then (False, an)
      else if \<not> io then (False, an)
      else
        (let r = \<lparr>ir_phase = phase, ir_iteration = iteration, ir_sample_point = sample_point,
                  ir_status = status, ir_elapsed = max 0 (now - an_start_time an),
                  ir_nodes = res_types_num an, ir_edges = resp_trans_num an,
                  ir_iteration_nodes = length (an_cur_res_types an),
                  ir_iteration_edges = length (an_cur_resp_trans an),
                  ir_lifetime_nodes = lifetime_res_types_num an,
                  ir_lifetime_edges = lifetime_resp_trans_num an\<rparr>;
             an' = an\<lparr>an_iteration_rows := an_iteration_rows an @ [r]\<rparr>
         in (True, if sample_point \<noteq> ''run_final''
                   then an'\<lparr>an_recorded_iterations := set_add key (an_recorded_iterations an')\<rparr>
                   else an')))"

definition checkpoint_now :: "analyzer \<Rightarrow> checkpoint" where
  "checkpoint_now an =
     \<lparr>cp_response_events = int (lifetime_res_events_num an),
      cp_response_types = int (lifetime_res_types_num an),
      cp_transition_events = int (lifetime_resp_trans_events_num an),
      cp_response_transitions = int (lifetime_resp_trans_num an)\<rparr>"

definition checkpoint_delta :: "checkpoint option \<Rightarrow> bool \<Rightarrow> checkpoint \<Rightarrow> checkpoint" where
  "checkpoint_delta previous is_baseline current =
     (case previous of
        Some p \<Rightarrow>
          if is_baseline
          then \<lparr>cp_response_events = 0, cp_response_types = 0, cp_transition_events = 0,
                cp_response_transitions = 0\<rparr>
          else \<lparr>cp_response_events = cp_response_events current - cp_response_events p,
                cp_response_types = cp_response_types current - cp_response_types p,
                cp_transition_events = cp_transition_events current - cp_transition_events p,
                cp_response_transitions = cp_response_transitions current - cp_response_transitions p\<rparr>
      | None \<Rightarrow> \<lparr>cp_response_events = 0, cp_response_types = 0, cp_transition_events = 0,
                 cp_response_transitions = 0\<rparr>)"

definition record_generator_checkpoint ::
    "bool \<Rightarrow> int \<Rightarrow> string \<Rightarrow> string \<Rightarrow> string \<Rightarrow> string \<Rightarrow> checkpoint_labels \<Rightarrow> analyzer \<Rightarrow> analyzer" where
  "record_generator_checkpoint io now phase checkpoint_type operation_id baseline_operation_id labels an =
     (if checkpoint_type = ''run_final'' \<and> an_finalized an then an
      else
        (let current = checkpoint_now an;
             is_baseline = suffix ''_baseline'' checkpoint_type;
             deltas = checkpoint_delta (an_last_checkpoint an) is_baseline current;
             evaluated = (if is_baseline then baseline_operation_id
                          else (case an_last_operation an of None \<Rightarrow> [] | Some op \<Rightarrow> op));
             r = \<lparr>cr_id = an_checkpoint_id an, cr_elapsed = max 0 (now - an_start_time an),
                  cr_phase = phase, cr_type = checkpoint_type, cr_operation = operation_id,
                  cr_evaluated = evaluated, cr_labels = labels, cr_current = current, cr_delta = deltas\<rparr>
         in if \<not> io then an
            else an\<lparr>an_checkpoint_rows := an_checkpoint_rows an @ [r],
                    an_checkpoint_id := an_checkpoint_id an + 1,
                    an_last_checkpoint := Some current,
                    an_last_operation :=
                      (if is_baseline
                       then (if baseline_operation_id = [] then None else Some baseline_operation_id)
                       else if operation_id \<noteq> [] then Some operation_id
                       else an_last_operation an),
                    an_finalized := (checkpoint_type = ''run_final'' \<or> an_finalized an)\<rparr>))"

definition finalize_generator_metrics :: "bool \<Rightarrow> int \<Rightarrow> int option \<Rightarrow> analyzer \<Rightarrow> analyzer" where
  "finalize_generator_metrics io now phase_iteration an =
     (if an_last_checkpoint an = None \<or> an_finalized an then an
      else record_generator_checkpoint io now ''final'' ''run_final'' [] [] (no_labels phase_iteration) an)"

section \<open>Stop reason\<close>

definition request_stop :: "string \<Rightarrow> analyzer \<Rightarrow> analyzer" where
  "request_stop reason an =
     (case an_stop_reason an of None \<Rightarrow> an\<lparr>an_stop_reason := Some reason\<rparr> | Some _ \<Rightarrow> an)
       \<lparr>an_stop_event := True\<rparr>"

definition phase_stop_status :: "analyzer \<Rightarrow> string \<Rightarrow> string" where
  "phase_stop_status an dflt =
     (case an_stop_reason an of
        None \<Rightarrow> dflt
      | Some reason \<Rightarrow>
          if reason = ''deadline'' then ''deadline_reached''
          else if reason \<in> {''external_interrupt'', ''cancelled''} then ''interrupted''
          else if reason \<in> {''failure'', ''model_learning_failure'', ''sut_failure'', ''coverage_failure''}
          then ''failed''
          else dflt)"

section \<open>Phases\<close>

definition new_phase_metric :: "int \<Rightarrow> string \<Rightarrow> phase_metric" where
  "new_phase_metric now phase =
     \<lparr>pm_phase = phase, pm_status = ''running'', pm_start = now, pm_end = None, pm_duration = 0,
      pm_chat_time = 0, pm_llm_calls = 0, pm_prompt_tokens = 0, pm_completion_tokens = 0,
      pm_total_tokens = 0, pm_written = False\<rparr>"

definition put_phase :: "phase_metric \<Rightarrow> string \<Rightarrow> analyzer \<Rightarrow> analyzer" where
  "put_phase metric phase an = an\<lparr>an_phases := dict_put phase metric (an_phases an)\<rparr>"

text \<open>The row is written and the metric, which the dictionary shares, is marked.\<close>

definition write_phase_metric :: "bool \<Rightarrow> phase_metric \<Rightarrow> string \<Rightarrow> analyzer \<Rightarrow> analyzer" where
  "write_phase_metric io metric phase an =
     (if io
      then put_phase (metric\<lparr>pm_written := True\<rparr>) phase (an\<lparr>an_phase_rows := an_phase_rows an @ [metric]\<rparr>)
      else put_phase metric phase an)"

definition clear_active :: "string \<Rightarrow> analyzer \<Rightarrow> analyzer" where
  "clear_active phase an =
     (if an_active_phase an = Some phase then an\<lparr>an_active_phase := None\<rparr> else an)"

definition end_phase_unlocked :: "bool \<Rightarrow> int \<Rightarrow> string \<Rightarrow> string \<Rightarrow> analyzer \<Rightarrow> analyzer" where
  "end_phase_unlocked io now phase status an =
     (case map_of (an_phases an) phase of
        None \<Rightarrow> clear_active phase an
      | Some metric \<Rightarrow>
          if pm_written metric then clear_active phase an
          else
            (let metric' = metric\<lparr>pm_status := status, pm_end := Some now,
                                  pm_duration := max 0 (now - pm_start metric)\<rparr>
             in clear_active phase (write_phase_metric io metric' phase an)))"

definition begin_phase :: "bool \<Rightarrow> int \<Rightarrow> string \<Rightarrow> analyzer \<Rightarrow> analyzer" where
  "begin_phase io now phase an =
     (if an_active_phase an = Some phase then an
      else
        (let an' = (case an_active_phase an of
                      None \<Rightarrow> an
                    | Some p \<Rightarrow> end_phase_unlocked io now p ''interrupted'' an)
         in (put_phase (new_phase_metric now phase) phase an')\<lparr>an_active_phase := Some phase\<rparr>))"

definition record_skipped_phase :: "bool \<Rightarrow> int \<Rightarrow> string \<Rightarrow> analyzer \<Rightarrow> analyzer" where
  "record_skipped_phase io now phase an =
     (let metric = (new_phase_metric now phase)\<lparr>pm_status := ''skipped'', pm_end := Some now,
                     pm_duration := 0\<rparr>
      in write_phase_metric io metric phase an)"

definition finalize_open_phase :: "bool \<Rightarrow> int \<Rightarrow> string \<Rightarrow> analyzer \<Rightarrow> analyzer" where
  "finalize_open_phase io now status an =
     (case an_active_phase an of
        None \<Rightarrow> an
      | Some phase \<Rightarrow> end_phase_unlocked io now phase status an)"

definition has_text :: "string \<Rightarrow> string \<Rightarrow> bool" where
  "has_text pat s \<longleftrightarrow> sublist pat s"

definition phase_from_stage :: "string \<Rightarrow> string option" where
  "phase_from_stage stage =
     (let s = py_lower stage in
      if has_text ''model learning'' s \<or> has_text ''fuzzer evolve'' s then Some ''model_learning''
      else if has_text ''berserker'' s \<or> has_text ''fuzz'' s then Some ''fuzzing''
      else None)"

section \<open>Language model calls\<close>

record llm_call =
  lc_duration :: int
  lc_prompt_tokens :: int
  lc_completion_tokens :: int
  lc_total_tokens :: int
  lc_usage :: string
  lc_model :: string
  lc_tokens_reported :: bool
  lc_response_valid :: "bool option"
  lc_validation_reason :: string

definition charge_phase :: "llm_call \<Rightarrow> phase_metric \<Rightarrow> phase_metric" where
  "charge_phase c m =
     m\<lparr>pm_chat_time := pm_chat_time m + lc_duration c, pm_llm_calls := pm_llm_calls m + 1,
       pm_prompt_tokens := pm_prompt_tokens m + lc_prompt_tokens c,
       pm_completion_tokens := pm_completion_tokens m + lc_completion_tokens c,
       pm_total_tokens := pm_total_tokens m + lc_total_tokens c\<rparr>"

definition new_usage_metric :: "string \<Rightarrow> string \<Rightarrow> usage_metric" where
  "new_usage_metric usage model =
     \<lparr>um_usage = usage, um_model = model, um_llm_calls = 0, um_token_reported_calls = 0,
      um_chat_time = 0, um_prompt_tokens = 0, um_completion_tokens = 0, um_total_tokens = 0,
      um_max_prompt_tokens = 0, um_max_completion_tokens = 0, um_max_total_tokens = 0,
      um_valid_responses = 0, um_invalid_responses = 0, um_empty_responses = 0,
      um_schema_failures = 0, um_truncated_responses = 0, um_discarded_completion_tokens = 0\<rparr>"

definition charge_tokens :: "llm_call \<Rightarrow> usage_metric \<Rightarrow> usage_metric" where
  "charge_tokens c m =
     m\<lparr>um_llm_calls := um_llm_calls m + 1,
       um_token_reported_calls := um_token_reported_calls m + (if lc_tokens_reported c then 1 else 0),
       um_chat_time := um_chat_time m + lc_duration c,
       um_prompt_tokens := um_prompt_tokens m + lc_prompt_tokens c,
       um_completion_tokens := um_completion_tokens m + lc_completion_tokens c,
       um_total_tokens := um_total_tokens m + lc_total_tokens c,
       um_max_prompt_tokens := max (um_max_prompt_tokens m) (lc_prompt_tokens c),
       um_max_completion_tokens := max (um_max_completion_tokens m) (lc_completion_tokens c),
       um_max_total_tokens := max (um_max_total_tokens m) (lc_total_tokens c)\<rparr>"

definition charge_validity :: "llm_call \<Rightarrow> usage_metric \<Rightarrow> usage_metric" where
  "charge_validity c m =
     (case lc_response_valid c of
        None \<Rightarrow> m
      | Some True \<Rightarrow> m\<lparr>um_valid_responses := um_valid_responses m + 1\<rparr>
      | Some False \<Rightarrow>
          (let m' = m\<lparr>um_invalid_responses := um_invalid_responses m + 1,
                      um_discarded_completion_tokens :=
                        um_discarded_completion_tokens m + lc_completion_tokens c\<rparr>
           in if lc_validation_reason c = ''empty_response''
              then m'\<lparr>um_empty_responses := um_empty_responses m' + 1\<rparr>
              else if lc_validation_reason c = ''truncated_response''
              then m'\<lparr>um_truncated_responses := um_truncated_responses m' + 1\<rparr>
              else m'\<lparr>um_schema_failures := um_schema_failures m' + 1\<rparr>))"

definition charge_active_phase :: "int \<Rightarrow> llm_call \<Rightarrow> analyzer \<Rightarrow> analyzer" where
  "charge_active_phase now c an =
     (case (case an_active_phase an of
              Some p \<Rightarrow> if p = [] then phase_from_stage (an_stage an) else Some p
            | None \<Rightarrow> phase_from_stage (an_stage an)) of
        None \<Rightarrow> an
      | Some phase \<Rightarrow>
          (let metric = (case map_of (an_phases an) phase of
                           None \<Rightarrow> new_phase_metric now phase
                         | Some m \<Rightarrow> if pm_written m then new_phase_metric now phase else m)
           in put_phase (charge_phase c metric) phase an))"

definition record_llm_usage :: "bool \<Rightarrow> int \<Rightarrow> llm_call \<Rightarrow> analyzer \<Rightarrow> analyzer" where
  "record_llm_usage io now c an =
     (let an1 = charge_active_phase now c an;
          usage_name = py_strip (lc_usage c);
          model_name = py_strip (lc_model c);
          key = (usage_name, model_name)
      in if usage_name = [] then an1
         else
           (let metric = (case map_of (an_usage an1) key of
                            None \<Rightarrow> new_usage_metric usage_name model_name | Some m \<Rightarrow> m);
                an2 = an1\<lparr>an_usage := dict_put key (charge_validity c (charge_tokens c metric)) (an_usage an1)\<rparr>
            in case lc_response_valid c of
                 None \<Rightarrow> an2
               | Some v \<Rightarrow>
                   if io
                   then an2\<lparr>an_validation_rows := an_validation_rows an2 @
                          [\<lparr>vr_usage = usage_name, vr_model = model_name, vr_valid = v,
                            vr_reason = lc_validation_reason c,
                            vr_completion_tokens = max 0 (lc_completion_tokens c)\<rparr>]\<rparr>
                   else an2))"

text \<open>\<open>seconds_to_hms\<close> for a whole number of seconds.\<close>

definition seconds_to_hms :: "nat \<Rightarrow> string" where
  "seconds_to_hms total_seconds =
     pad2 (total_seconds div 3600) @ '':'' @ pad2 ((total_seconds mod 3600) div 60) @ '':'' @
     pad2 (total_seconds mod 60)"

section \<open>Counting is exact\<close>

datatype count_event = Res string | Trans string | Reset_automata | Reset_phase

definition count_step :: "bool \<Rightarrow> analyzer \<Rightarrow> count_event \<Rightarrow> analyzer" where
  "count_step io an e =
     (case e of
        Res r \<Rightarrow> res_types_update io r an
      | Trans t \<Rightarrow> resp_trans_update io t an
      | Reset_automata \<Rightarrow> reset_automata_cnt an
      | Reset_phase \<Rightarrow> reset_phase_counters an)"

definition count_run :: "bool \<Rightarrow> count_event list \<Rightarrow> analyzer \<Rightarrow> analyzer" where
  "count_run io es an = foldl (count_step io) an es"

lemma count_run_snoc: "count_run io (es @ [e]) an = count_step io (count_run io es an) e"
  by (simp add: count_run_def)

lemma count_run_Nil [simp]: "count_run io [] an = an"
  by (simp add: count_run_def)

definition since :: "count_event \<Rightarrow> count_event list \<Rightarrow> count_event list" where
  "since e es = rev (takeWhile (\<lambda>x. x \<noteq> e) (rev es))"

lemma since_snoc: "since e (es @ [x]) = (if x = e then [] else since e es @ [x])"
  by (simp add: since_def)

lemma since_Nil [simp]: "since e [] = []"
  by (simp add: since_def)

lemma snapshot_fields [simp]:
  "an_lifetime_res_types (record_state_snapshot io a b an) = an_lifetime_res_types an"
  "an_lifetime_resp_trans (record_state_snapshot io a b an) = an_lifetime_resp_trans an"
  "an_res_types (record_state_snapshot io a b an) = an_res_types an"
  "an_resp_trans (record_state_snapshot io a b an) = an_resp_trans an"
  "an_cur_res_types (record_state_snapshot io a b an) = an_cur_res_types an"
  "an_cur_resp_trans (record_state_snapshot io a b an) = an_cur_resp_trans an"
  "an_checkpoint_rows (record_state_snapshot io a b an) = an_checkpoint_rows an"
  "an_checkpoint_id (record_state_snapshot io a b an) = an_checkpoint_id an"
  "an_last_checkpoint (record_state_snapshot io a b an) = an_last_checkpoint an"
  "an_last_operation (record_state_snapshot io a b an) = an_last_operation an"
  "an_finalized (record_state_snapshot io a b an) = an_finalized an"
  by (simp_all add: record_state_snapshot_def)

lemmas count_step_defs = count_step_def res_types_update_def resp_trans_update_def
  reset_automata_cnt_def reset_phase_counters_def Let_def

definition counts_exact :: "count_event list \<Rightarrow> analyzer \<Rightarrow> bool" where
  "counts_exact es an \<longleftrightarrow> (\<forall>k.
     dict_count (an_lifetime_res_types an) k = count_list es (Res k) \<and>
     dict_count (an_lifetime_resp_trans an) k = count_list es (Trans k) \<and>
     dict_count (an_res_types an) k = count_list (since Reset_phase es) (Res k) \<and>
     dict_count (an_resp_trans an) k = count_list (since Reset_phase es) (Trans k) \<and>
     dict_count (an_cur_res_types an) k = count_list (since Reset_automata es) (Res k) \<and>
     dict_count (an_cur_resp_trans an) k = count_list (since Reset_automata es) (Trans k))"

lemma counts_exact_run: "counts_exact es (count_run io es new_analyzer)"
proof (induction es rule: rev_induct)
  case Nil
  then show ?case by (simp add: counts_exact_def new_analyzer_def)
next
  case (snoc e es)
  then show ?case
    by (cases e) (auto simp: counts_exact_def count_run_snoc since_snoc count_step_defs)
qed

text \<open>A snapshot is taken for each first occurrence, in order.\<close>

fun discoveries :: "count_event list \<Rightarrow> count_event list" where
  "discoveries [] = []"
| "discoveries (e # es) =
     (case e of
        Res r \<Rightarrow> e # filter (\<lambda>x. x \<noteq> e) (discoveries es)
      | Trans t \<Rightarrow> e # filter (\<lambda>x. x \<noteq> e) (discoveries es)
      | _ \<Rightarrow> discoveries es)"

definition is_count :: "count_event \<Rightarrow> bool" where
  "is_count e \<longleftrightarrow> (case e of Res _ \<Rightarrow> True | Trans _ \<Rightarrow> True | _ \<Rightarrow> False)"

lemma set_discoveries: "set (discoveries es) = set (filter is_count es)"
  by (induction es) (auto simp: is_count_def split: count_event.splits)

lemma discoveries_snoc:
  "discoveries (es @ [e]) = discoveries es @ (if is_count e \<and> e \<notin> set es then [e] else [])"
  by (induction es) (auto simp: is_count_def split: count_event.splits)

definition event_key :: "count_event \<Rightarrow> string \<times> string" where
  "event_key e = (case e of
     Res r \<Rightarrow> (''new_response_type'', r) | Trans t \<Rightarrow> (''new_response_transition'', t) | _ \<Rightarrow> ([], []))"

definition node_rows :: "analyzer \<Rightarrow> (string \<times> string) list" where
  "node_rows an = map (\<lambda>r. (sr_event r, sr_event_value r))
     (filter (\<lambda>r. sr_data_type r = ''nodes'') (an_state_rows an))"

lemma node_rows_snapshot:
  "node_rows (record_state_snapshot True event v an) = node_rows an @ [(event, v)]"
  by (simp add: node_rows_def record_state_snapshot_def snapshot_values_def snapshot_row_def Let_def)

lemma node_rows_upd [simp]:
  "node_rows (an\<lparr>an_res_types := a, an_cur_res_types := b, an_lifetime_res_types := c\<rparr>) = node_rows an"
  "node_rows (an\<lparr>an_resp_trans := a, an_cur_resp_trans := b, an_lifetime_resp_trans := c\<rparr>) = node_rows an"
  "node_rows (an\<lparr>an_state := n, an_cur_res_types := a, an_cur_resp_trans := b\<rparr>) = node_rows an"
  "node_rows (an\<lparr>an_res_types := a, an_resp_trans := b\<rparr>) = node_rows an"
  by (simp_all add: node_rows_def)

lemma dict_count_zero: "list_all (\<lambda>e. 0 < snd e) d \<Longrightarrow> dict_count d k = 0 \<longleftrightarrow> map_of d k = None"
  by (force simp: dict_count_def list_all_iff split: option.split dest: map_of_SomeD)

lemma positive_bump: "list_all (\<lambda>e. 0 < snd e) d \<Longrightarrow> list_all (\<lambda>e. 0 < snd e) (dict_bump k d)"
proof -
  have "list_all (\<lambda>e. 0 < snd e) d \<Longrightarrow> 0 < v \<Longrightarrow> list_all (\<lambda>e. 0 < snd e) (dict_put k v d)" for v :: nat
    by (induction k v d rule: dict_put.induct) auto
  then show "list_all (\<lambda>e. 0 < snd e) d \<Longrightarrow> list_all (\<lambda>e. 0 < snd e) (dict_bump k d)"
    by (simp add: dict_bump_def)
qed

definition positive :: "analyzer \<Rightarrow> bool" where
  "positive an \<longleftrightarrow> list_all (\<lambda>e. 0 < snd e) (an_lifetime_res_types an) \<and>
     list_all (\<lambda>e. 0 < snd e) (an_lifetime_resp_trans an)"

lemma positive_run: "positive (count_run io es new_analyzer)"
proof (induction es rule: rev_induct)
  case (snoc e es)
  then show ?case
    by (cases e) (auto simp: positive_def count_run_snoc count_step_defs intro: positive_bump)
qed (simp add: positive_def new_analyzer_def)

lemma fresh_iff:
  "map_of (an_lifetime_res_types (count_run io es new_analyzer)) r = None \<longleftrightarrow> Res r \<notin> set es"
  "map_of (an_lifetime_resp_trans (count_run io es new_analyzer)) t = None \<longleftrightarrow> Trans t \<notin> set es"
  using positive_run[of io es] counts_exact_run[of es io]
  by (auto simp: positive_def counts_exact_def count_list_0_iff simp flip: dict_count_zero)

lemma node_rows_run: "node_rows (count_run True es new_analyzer) = map event_key (discoveries es)"
proof (induction es rule: rev_induct)
  case Nil
  then show ?case by (simp add: node_rows_def new_analyzer_def)
next
  case (snoc e es)
  then show ?case
    by (cases e) (auto simp: count_run_snoc discoveries_snoc count_step_defs node_rows_snapshot
        fresh_iff is_count_def event_key_def)
qed


section \<open>Generator checkpoints\<close>

datatype metric_event =
    Count count_event
  | Checkpoint int string string string string checkpoint_labels
  | Finalize int "int option"

definition metric_step :: "bool \<Rightarrow> analyzer \<Rightarrow> metric_event \<Rightarrow> analyzer" where
  "metric_step io an e =
     (case e of
        Count c \<Rightarrow> count_step io an c
      | Checkpoint now phase ty op base labels \<Rightarrow> record_generator_checkpoint io now phase ty op base labels an
      | Finalize now it \<Rightarrow> finalize_generator_metrics io now it an)"

definition metric_run :: "bool \<Rightarrow> metric_event list \<Rightarrow> analyzer \<Rightarrow> analyzer" where
  "metric_run io es an = foldl (metric_step io) an es"

definition cp_le :: "checkpoint \<Rightarrow> checkpoint \<Rightarrow> bool" where
  "cp_le a b \<longleftrightarrow> cp_response_events a \<le> cp_response_events b \<and> cp_response_types a \<le> cp_response_types b \<and>
     cp_transition_events a \<le> cp_transition_events b \<and> cp_response_transitions a \<le> cp_response_transitions b"

definition is_baseline :: "checkpoint_row \<Rightarrow> bool" where
  "is_baseline r \<longleftrightarrow> suffix ''_baseline'' (cr_type r)"

text \<open>Each row's deltas are relative to the row before it, and the counts never go back.\<close>

fun chain_from :: "checkpoint option \<Rightarrow> checkpoint_row list \<Rightarrow> bool" where
  "chain_from prev [] = True"
| "chain_from prev (r # rs) \<longleftrightarrow> cr_delta r = checkpoint_delta prev (is_baseline r) (cr_current r) \<and>
     (case prev of None \<Rightarrow> True | Some p \<Rightarrow> cp_le p (cr_current r)) \<and> chain_from (Some (cr_current r)) rs"

definition last_current :: "checkpoint option \<Rightarrow> checkpoint_row list \<Rightarrow> checkpoint option" where
  "last_current prev rs = (if rs = [] then prev else Some (cr_current (last rs)))"

lemma chain_from_snoc:
  "chain_from prev (rs @ [r]) \<longleftrightarrow> chain_from prev rs \<and>
     cr_delta r = checkpoint_delta (last_current prev rs) (is_baseline r) (cr_current r) \<and>
     (case last_current prev rs of None \<Rightarrow> True | Some p \<Rightarrow> cp_le p (cr_current r))"
  by (induction rs arbitrary: prev) (auto simp: last_current_def)

definition checkpoints_ok :: "analyzer \<Rightarrow> bool" where
  "checkpoints_ok an \<longleftrightarrow> map cr_id (an_checkpoint_rows an) = [0..<an_checkpoint_id an] \<and>
     an_last_checkpoint an = last_current None (an_checkpoint_rows an) \<and>
     chain_from None (an_checkpoint_rows an) \<and>
     length (filter (\<lambda>r. cr_type r = ''run_final'') (an_checkpoint_rows an)) = (if an_finalized an then 1 else 0) \<and>
     (case an_last_checkpoint an of None \<Rightarrow> True | Some c \<Rightarrow> cp_le c (checkpoint_now an))"

lemma cp_le_refl [simp]: "cp_le a a"
  by (simp add: cp_le_def)

lemma cp_le_trans: "cp_le a b \<Longrightarrow> cp_le b c \<Longrightarrow> cp_le a c"
  by (simp add: cp_le_def)

lemma cp_le_count: "cp_le (checkpoint_now an) (checkpoint_now (count_step io an e))"
  by (cases e)
    (auto simp: cp_le_def checkpoint_now_def count_step_defs lifetime_res_events_num_def
      lifetime_res_types_num_def lifetime_resp_trans_events_num_def lifetime_resp_trans_num_def
      sum_dict_bump length_dict_bump)

lemma checkpoint_fields [simp]:
  "an_checkpoint_rows (count_step io an e) = an_checkpoint_rows an"
  "an_checkpoint_id (count_step io an e) = an_checkpoint_id an"
  "an_last_checkpoint (count_step io an e) = an_last_checkpoint an"
  "an_finalized (count_step io an e) = an_finalized an"
  by (cases e; simp add: count_step_defs)+

lemma checkpoints_ok_count: "checkpoints_ok an \<Longrightarrow> checkpoints_ok (count_step io an e)"
  using cp_le_trans[OF _ cp_le_count] by (auto simp: checkpoints_ok_def split: option.splits)

lemma checkpoints_ok_record:
  assumes "checkpoints_ok an"
  shows "checkpoints_ok (record_generator_checkpoint io now phase ty op base labels an)"
proof (cases "ty = ''run_final'' \<and> an_finalized an \<or> \<not> io")
  case True
  then show ?thesis using assms by (auto simp: record_generator_checkpoint_def Let_def)
next
  case False
  let ?an = "record_generator_checkpoint io now phase ty op base labels an"
  obtain r where r: "an_checkpoint_rows ?an = an_checkpoint_rows an @ [r]" "cr_id r = an_checkpoint_id an"
    "cr_type r = ty" "cr_current r = checkpoint_now an"
    "cr_delta r = checkpoint_delta (an_last_checkpoint an) (suffix ''_baseline'' ty) (checkpoint_now an)"
    using False by (auto simp: record_generator_checkpoint_def Let_def)
  have f: "an_checkpoint_id ?an = Suc (an_checkpoint_id an)" "an_last_checkpoint ?an = Some (checkpoint_now an)"
    "an_finalized ?an = (ty = ''run_final'' \<or> an_finalized an)" "checkpoint_now ?an = checkpoint_now an"
    using False by (auto simp: record_generator_checkpoint_def Let_def checkpoint_now_def
        lifetime_res_events_num_def lifetime_res_types_num_def lifetime_resp_trans_events_num_def
        lifetime_resp_trans_num_def)
  have last: "last_current None (an_checkpoint_rows an @ [r]) = Some (checkpoint_now an)"
    by (simp add: last_current_def r)
  from assms False show ?thesis
    unfolding checkpoints_ok_def f r(1)
    by (auto simp: chain_from_snoc r is_baseline_def last split: option.splits)
qed

lemma checkpoints_ok_run: "checkpoints_ok (metric_run io es new_analyzer)"
proof (induction es rule: rev_induct)
  case Nil
  then show ?case by (simp add: metric_run_def checkpoints_ok_def new_analyzer_def last_current_def)
next
  case (snoc e es)
  then show ?case
    by (cases e) (simp_all add: metric_run_def metric_step_def checkpoints_ok_count
        checkpoints_ok_record finalize_generator_metrics_def)
qed

text \<open>The rows after row \<open>i\<close> up to the next baseline.\<close>

definition segment :: "checkpoint_row list \<Rightarrow> nat \<Rightarrow> checkpoint_row list" where
  "segment rows i = takeWhile (\<lambda>r. \<not> is_baseline r) (drop (Suc i) rows)"

definition checkpoint_counts :: "(checkpoint \<Rightarrow> int) list" where
  "checkpoint_counts = [cp_response_events, cp_response_types, cp_transition_events, cp_response_transitions]"

lemma delta_count: "f \<in> set checkpoint_counts \<Longrightarrow> \<not> b \<Longrightarrow> f (checkpoint_delta (Some p) b c) = f c - f p"
  by (auto simp: checkpoint_counts_def checkpoint_delta_def)

lemma telescope:
  "chain_from (Some p) rs \<Longrightarrow> f \<in> set checkpoint_counts \<Longrightarrow>
     f p + sum_list (map (\<lambda>r. f (cr_delta r)) (takeWhile (\<lambda>r. \<not> is_baseline r) rs)) =
     f (the (last_current (Some p) (takeWhile (\<lambda>r. \<not> is_baseline r) rs)))"
proof (induction rs arbitrary: p)
  case (Cons r rs)
  show ?case
  proof (cases "is_baseline r")
    case False
    from Cons.IH[of "cr_current r"] Cons.prems False delta_count[OF Cons.prems(2) False, of p "cr_current r"]
    show ?thesis by (auto simp: last_current_def split: if_splits)
  qed (simp add: last_current_def)
qed (simp add: last_current_def)

lemma chain_from_drop:
  "chain_from prev rs \<Longrightarrow> i < length rs \<Longrightarrow> chain_from (Some (cr_current (rs ! i))) (drop (Suc i) rs)"
proof (induction rs arbitrary: prev i)
  case (Cons r rs)
  then show ?case by (cases i) auto
qed simp

text \<open>
  Whatever counters events, checkpoints and finalisations come, the checkpoint rows are numbered
  without gaps, at most one is final, and the deltas between a row and the next baseline add up, for
  each of the four counts, to the difference of the whole-run values.
\<close>

theorem checkpoint_deltas_add_up:
  "let rows = an_checkpoint_rows (metric_run io es new_analyzer) in
     map cr_id rows = [0..<length rows] \<and>
     length (filter (\<lambda>r. cr_type r = ''run_final'') rows) \<le> 1 \<and>
     list_all (\<lambda>i. list_all (\<lambda>f.
       f (cr_current (rows ! i)) + sum_list (map (\<lambda>r. f (cr_delta r)) (segment rows i)) =
       f (cr_current (last (rows ! i # segment rows i)))) checkpoint_counts) [0..<length rows]"
proof -
  let ?an = "metric_run io es new_analyzer"
  let ?rows = "an_checkpoint_rows ?an"
  note ok = checkpoints_ok_run[of io es]
  have "an_checkpoint_id ?an = length ?rows"
    using ok by (metis checkpoints_ok_def diff_zero length_map length_upt)
  then have "map cr_id ?rows = [0..<length ?rows]"
    "length (filter (\<lambda>r. cr_type r = ''run_final'') ?rows) \<le> 1" "chain_from None ?rows"
    using ok by (auto simp: checkpoints_ok_def)
  moreover have "f (cr_current (?rows ! i)) + sum_list (map (\<lambda>r. f (cr_delta r)) (segment ?rows i)) =
       f (cr_current (last (?rows ! i # segment ?rows i)))"
    if "i < length ?rows" "f \<in> set checkpoint_counts" for i f
    using telescope[OF chain_from_drop[OF \<open>chain_from None ?rows\<close> that(1)] that(2)]
    by (auto simp: segment_def last_current_def split: if_splits)
  ultimately show ?thesis by (simp add: Let_def list_all_iff)
qed

section \<open>Phases and language model calls\<close>

text \<open>
  Beginning a phase that is not active and ending it writes exactly one row for it, with the
  given status and the time in between, when the file can be written; afterwards no phase is active,
  and ending it again writes nothing.
\<close>

theorem begin_end_phase_row:
  "let an1 = begin_phase io t1 phase an;
       an2 = end_phase_unlocked io t2 phase status an1;
       an3 = end_phase_unlocked io t3 phase status' an2 in
   an_active_phase an1 = Some phase \<and> an_active_phase an2 = None \<and>
   (if an_active_phase an = Some phase then an1 = an
    else an_phase_rows an2 = an_phase_rows an1 @
      (if io then [(new_phase_metric t1 phase)\<lparr>pm_status := status, pm_end := Some t2,
                     pm_duration := max 0 (t2 - t1)\<rparr>] else []) \<and>
      (if io then an_phase_rows an3 = an_phase_rows an2 else True))"
proof (cases "an_active_phase an = Some phase")
  case True
  then show ?thesis
    by (auto simp: begin_phase_def Let_def end_phase_unlocked_def clear_active_def
        write_phase_metric_def put_phase_def split: option.split)
next
  case False
  then show ?thesis
    by (simp add: begin_phase_def Let_def end_phase_unlocked_def clear_active_def
        write_phase_metric_def put_phase_def new_phase_metric_def)
qed

definition call_key :: "llm_call \<Rightarrow> string \<times> string" where
  "call_key c = (py_strip (lc_usage c), py_strip (lc_model c))"

definition calls_of :: "string \<times> string \<Rightarrow> llm_call list \<Rightarrow> llm_call list" where
  "calls_of k cs = filter (\<lambda>c. call_key c = k) cs"

definition usage_run :: "bool \<Rightarrow> (int \<times> llm_call) list \<Rightarrow> analyzer \<Rightarrow> analyzer" where
  "usage_run io cs an = foldl (\<lambda>an (now, c). record_llm_usage io now c an) an cs"

definition of_reason :: "llm_call \<Rightarrow> string" where
  "of_reason c = (if lc_validation_reason c \<in> {''empty_response'', ''truncated_response''}
                  then lc_validation_reason c else ''schema'')"

definition invalid_calls :: "llm_call list \<Rightarrow> llm_call list" where
  "invalid_calls cs = filter (\<lambda>c. lc_response_valid c = Some False) cs"

text \<open>What the aggregate of the calls \<open>cs\<close> of one usage has to say.\<close>

definition accounts :: "llm_call list \<Rightarrow> usage_metric \<Rightarrow> bool" where
  "accounts cs m \<longleftrightarrow> um_llm_calls m = int (length cs) \<and>
     um_token_reported_calls m = int (length (filter lc_tokens_reported cs)) \<and>
     um_prompt_tokens m = sum_list (map lc_prompt_tokens cs) \<and>
     um_completion_tokens m = sum_list (map lc_completion_tokens cs) \<and>
     um_total_tokens m = sum_list (map lc_total_tokens cs) \<and>
     um_max_total_tokens m = foldl max 0 (map lc_total_tokens cs) \<and>
     um_valid_responses m = int (length (filter (\<lambda>c. lc_response_valid c = Some True) cs)) \<and>
     um_invalid_responses m = int (length (invalid_calls cs)) \<and>
     um_empty_responses m = int (length (filter (\<lambda>c. of_reason c = ''empty_response'') (invalid_calls cs))) \<and>
     um_truncated_responses m = int (length (filter (\<lambda>c. of_reason c = ''truncated_response'') (invalid_calls cs))) \<and>
     um_schema_failures m = um_invalid_responses m - um_empty_responses m - um_truncated_responses m \<and>
     um_discarded_completion_tokens m = sum_list (map lc_completion_tokens (invalid_calls cs))"

lemma accounts_new: "accounts [] (new_usage_metric u n)"
  by (simp add: accounts_def new_usage_metric_def invalid_calls_def)

lemma accounts_snoc: "accounts cs m \<Longrightarrow> accounts (cs @ [c]) (charge_validity c (charge_tokens c m))"
  by (cases "lc_response_valid c"; cases "the (lc_response_valid c)")
    (auto simp: accounts_def charge_validity_def charge_tokens_def invalid_calls_def of_reason_def Let_def)

lemma usage_charge_phase [simp]: "an_usage (charge_active_phase now c an) = an_usage an"
  by (auto simp: charge_active_phase_def put_phase_def Let_def split: option.split)

lemma usage_record:
  "an_usage (record_llm_usage io now c an) =
     (if fst (call_key c) = [] then an_usage an
      else dict_put (call_key c) (charge_validity c (charge_tokens c
        (case map_of (an_usage an) (call_key c) of
           None \<Rightarrow> new_usage_metric (fst (call_key c)) (snd (call_key c)) | Some m \<Rightarrow> m))) (an_usage an))"
  by (simp add: record_llm_usage_def call_key_def Let_def split: option.split)

definition usage_ok :: "llm_call list \<Rightarrow> analyzer \<Rightarrow> bool" where
  "usage_ok cs an \<longleftrightarrow> (\<forall>u n. u \<noteq> [] \<longrightarrow> (case map_of (an_usage an) (u, n) of
     None \<Rightarrow> calls_of (u, n) cs = [] | Some m \<Rightarrow> accounts (calls_of (u, n) cs) m))"

lemma usage_ok_step: "usage_ok cs an \<Longrightarrow> usage_ok (cs @ [c]) (record_llm_usage io now c an)"
  unfolding usage_ok_def
proof (intro allI impI)
  fix u n :: string
  assume ok: "\<forall>u n. u \<noteq> [] \<longrightarrow> (case map_of (an_usage an) (u, n) of
     None \<Rightarrow> calls_of (u, n) cs = [] | Some m \<Rightarrow> accounts (calls_of (u, n) cs) m)" and u: "u \<noteq> []"
  from ok u have here: "case map_of (an_usage an) (u, n) of
     None \<Rightarrow> calls_of (u, n) cs = [] | Some m \<Rightarrow> accounts (calls_of (u, n) cs) m" by blast
  show "case map_of (an_usage (record_llm_usage io now c an)) (u, n) of
     None \<Rightarrow> calls_of (u, n) (cs @ [c]) = [] | Some m \<Rightarrow> accounts (calls_of (u, n) (cs @ [c])) m"
  proof (cases "call_key c = (u, n)")
    case True
    then have "calls_of (u, n) (cs @ [c]) = calls_of (u, n) cs @ [c]" by (simp add: calls_of_def)
    with True u here accounts_snoc[of "calls_of (u, n) cs" _ c] accounts_new[of u n]
    show ?thesis by (auto simp: usage_record split: option.splits)
  next
    case False
    then have "calls_of (u, n) (cs @ [c]) = calls_of (u, n) cs" by (simp add: calls_of_def)
    with False here show ?thesis by (auto simp: usage_record split: option.splits)
  qed
qed

text \<open>
  After any calls, the aggregate of a usage and model accounts for exactly the calls with that
  usage and model: their number, tokens and largest call, and each invalid response is counted under
  one of the three causes with its completion tokens as discarded.
\<close>

theorem llm_usage_accounted:
  "let an = usage_run io cs new_analyzer; mine = calls_of (u, n) (map snd cs) in
     if u = [] then True
     else (case map_of (an_usage an) (u, n) of None \<Rightarrow> mine = [] | Some m \<Rightarrow> accounts mine m)"
proof -
  have "usage_ok (map snd cs) (usage_run io cs new_analyzer)"
  proof (induction cs rule: rev_induct)
    case Nil
    then show ?case by (simp add: usage_run_def usage_ok_def new_analyzer_def calls_of_def)
  next
    case (snoc e cs)
    then show ?case using usage_ok_step[of "map snd cs" _ "snd e" io "fst e"]
      by (simp add: usage_run_def split_beta)
  qed
  then show ?thesis by (simp add: usage_ok_def Let_def)
qed

end
