(* ===== verification/Scheduler.thy ===== *)
theory Scheduler
  imports Obs_Table Offline_Mutator Seed_Retention Partial_Guidance
    "HOL-Library.List_Lexorder" "HOL-Library.Char_ord" "HOL-Library.Product_Lexorder"
begin

text \<open>
  The fuzzing scheduler of \<open>voltron/scheduler/berserker.py\<close>: the access sequences of the learned
  machine, the priority of a state, the selection of prefix, mutated middle and suffix, the feedback
  after a round, and the energy loop.

  The mapper, the executor and the analyzer counters are the record \<open>sched_ports\<close> over an arbitrary
  world; random draws come from tapes as in \<open>Offline_Mutator\<close>.  Concrete seed sequences carry an
  identity number, because the code compares them with \<open>is\<close>.  Floating-point rewards and scores are
  reals; the copying of statistics into the progress display is not modelled.
\<close>

section \<open>State\<close>

record state_stats =
  ss_state_id :: nat
  ss_depth :: nat
  ss_call_count :: nat
  ss_total_reward :: real
  ss_out_degree :: nat
  ss_covered :: "string list"
  ss_last_score :: real

type_synonym seed = "nat \<times> message list"

record 'w sched_ports =
  sp_select_generators :: "string list \<Rightarrow> 'w \<Rightarrow> message list \<times> 'w"
  sp_select_mutators :: "string list \<Rightarrow> 'w \<Rightarrow> message list \<times> 'w"
  sp_has_mutators :: "'w \<Rightarrow> bool"
  sp_interact :: "message list \<Rightarrow> 'w \<Rightarrow> conversation option \<times> 'w"
  sp_replay :: "message list \<Rightarrow> 'w \<Rightarrow> 'w"
  sp_should_stop :: "'w \<Rightarrow> bool \<times> 'w"
  sp_res_types_num :: "'w \<Rightarrow> int"
  sp_resp_trans_num :: "'w \<Rightarrow> int"
  sp_non_compliant :: "'w \<Rightarrow> int"
  sp_save_cons :: "conversation \<Rightarrow> string list \<Rightarrow> 'w \<Rightarrow> 'w"
  sp_remember_offline :: "bytes \<Rightarrow> string \<Rightarrow> operator \<Rightarrow> 'w \<Rightarrow> 'w"

record 'w berserker =
  bz_retention :: seed_policy
  bz_useful_msg :: "message list"
  bz_useful_seq :: "seed list"
  bz_partial_seeds :: "seed list"
  bz_imported_seeds :: "seed list"
  bz_next_id :: nat
  bz_use_guidance :: bool
  bz_use_corpus :: bool
  bz_replay_imported :: bool
  bz_replay_complete :: bool
  bz_alphabet :: "string list"
  bz_req_dep :: "(string, string list) dict"
  bz_req_res :: "(string, string list) dict"
  bz_machine :: "learned option"
  bz_states :: "word list"
  bz_stats :: "(word, state_stats) dict"
  bz_selected :: "word option"
  bz_selected_mode :: string
  bz_visited :: "nat list"
  bz_partial_flag :: bool
  bz_imported_flag :: bool
  bz_interesting_flag :: bool
  bz_partial_attempts :: nat
  bz_transit :: "word list"
  bz_mutator :: mutator
  bz_mut_stats :: mutation_stats
  bz_tape :: tape
  bz_mut_tape :: tape
  bz_world :: 'w

type_synonym ('w, 'a) sched = "(exc, 'w berserker, 'a) action"

definition draw :: "'a rand \<Rightarrow> ('w, 'a) sched" where
  "draw m st = (case m (bz_tape st) of (x, t) \<Rightarrow> (Inr x, st\<lparr>bz_tape := t\<rparr>))"

text \<open>\<open>rand.choice\<close> raises on an empty sequence.\<close>

definition pick :: "'a list \<Rightarrow> ('w, 'a) sched" where
  "pick xs = (if xs = [] then slift (Inl IndexError) else draw (choice xs))"

definition below_half :: "('w, bool) sched" where
  "below_half = sbind (draw (randrange (2 ^ 53))) (\<lambda>k. sret (k < 2 ^ 52))"

definition in_world :: "('w \<Rightarrow> 'a \<times> 'w) \<Rightarrow> ('w, 'a) sched" where
  "in_world f st = (case f (bz_world st) of (x, w) \<Rightarrow> (Inr x, st\<lparr>bz_world := w\<rparr>))"

section \<open>Access sequences of the machine\<close>

definition depth_of :: "word \<Rightarrow> nat" where
  "depth_of p = length (filter (\<lambda>symbol. symbol \<noteq> ''-'') p)"

fun walk :: "nat edge_dict \<Rightarrow> nat \<Rightarrow> word \<Rightarrow> nat option" where
  "walk delta q [] = Some q"
| "walk delta q (a # w) =
     (if a = ''-'' then walk delta q w
      else (case map_of delta (q, a) of None \<Rightarrow> None | Some q' \<Rightarrow> walk delta q' w))"

definition machine_state_after :: "learned \<Rightarrow> word \<Rightarrow> nat option" where
  "machine_state_after m access = walk (mm_delta m) (mm_start m) access"

definition outgoing_symbols :: "learned \<Rightarrow> nat \<Rightarrow> string list" where
  "outgoing_symbols m q = py_set (map snd (filter (\<lambda>k. fst k = q) (map fst (mm_delta m))))"

text \<open>
  The candidates of the constructor: a longer prefix is kept when its cell differs from two strings,
  and a cell is a tuple, so every one with a cell is kept; a missing cell raises a KeyError.
\<close>

definition cell_differs_from :: "cell \<Rightarrow> string \<Rightarrow> bool" where
  "cell_differs_from c name = True"

definition candidate_step :: "observations \<Rightarrow> word list \<Rightarrow> word \<Rightarrow> word list result" where
  "candidate_step T acc p =
     (if length p = 1 then Inr (acc @ [p])
      else if 1 < length p then
        (case ob_cell T (butlast p) (last_n 1 p) of
           None \<Rightarrow> Inl KeyError
         | Some c \<Rightarrow>
             Inr (if cell_differs_from c ''CRASH'' \<and> cell_differs_from c ''TIMEOUT''
                  then acc @ [p] else acc))
      else Inr acc)"

definition candidate_states :: "observations \<Rightarrow> word list \<Rightarrow> word list result" where
  "candidate_states T access = rfold (candidate_step T) [] access"

definition access_step :: "learned \<Rightarrow> (nat, word) dict \<Rightarrow> word \<Rightarrow> (nat, word) dict" where
  "access_step m acc state =
     (case machine_state_after m state of
        None \<Rightarrow> acc
      | Some q \<Rightarrow> (case map_of acc q of None \<Rightarrow> acc @ [(q, state)] | Some _ \<Rightarrow> acc))"

definition access_sequences :: "learned \<Rightarrow> word list \<Rightarrow> (nat, word) dict" where
  "access_sequences m cands = foldl (access_step m) [] (sort_key (\<lambda>p. (depth_of p, p)) cands)"

definition new_stats_entry :: "learned \<Rightarrow> nat \<times> word \<Rightarrow> word \<times> state_stats" where
  "new_stats_entry m entry =
     (snd entry, \<lparr>ss_state_id = fst entry, ss_depth = depth_of (snd entry), ss_call_count = 0,
                  ss_total_reward = 0, ss_out_degree = length (outgoing_symbols m (fst entry)),
                  ss_covered = [], ss_last_score = 0\<rparr>)"

text \<open>The part of \<open>__init__\<close> about the machine: states, their statistics, and the visited states.\<close>

definition init_states :: "learned \<Rightarrow> (word list \<times> (word, state_stats) dict \<times> nat list) result" where
  "init_states m =
     (case mm_table m of (S, E, T) \<Rightarrow>
       rbind (candidate_states T S) (\<lambda>cands.
         let acc = access_sequences m cands in
         Inr (map snd acc, foldl (\<lambda>d (k, v). dict_put k v d) [] (map (new_stats_entry m) acc),
              [mm_start m])))"

text \<open>
  \<open>__init__\<close>.  The partial seeds are those of the trace graph, used only with guidance; empty
  imported sequences are dropped; each sequence gets its identity number in the order of
  construction.  The request types, dependencies, machine, mutator, tapes and world are arguments.
\<close>

definition number_seeds :: "nat \<Rightarrow> message list list \<Rightarrow> seed list" where
  "number_seeds start seqs = zip [start..<start + length seqs] seqs"

definition berserker_init :: "string list \<Rightarrow> (string, string list) dict \<Rightarrow> learned option \<Rightarrow> bool \<Rightarrow> bool \<Rightarrow>
    't partial_graph option \<Rightarrow> message list list \<Rightarrow> bool \<Rightarrow> mutator \<Rightarrow> tape \<Rightarrow> tape \<Rightarrow> 'w \<Rightarrow>
    'w berserker result" where
  "berserker_init request_types req_dep machine use_guidance use_corpus graph imported replay mut
     rand_tape mut_tape w =
     (let partial = number_seeds 0
            (case graph of Some g \<Rightarrow> (if use_guidance then seed_sequences g else []) | None \<Rightarrow> []);
          imported' = number_seeds (length partial) (filter (\<lambda>s. s \<noteq> []) imported) in
      rbind (case machine of
               Some m \<Rightarrow> if use_guidance then init_states m else Inr ([], [], [])
             | None \<Rightarrow> Inr ([], [], [])) (\<lambda>(states, stats, visited).
        Inr \<lparr>bz_retention = new_seed_policy, bz_useful_msg = [], bz_useful_seq = partial @ imported',
             bz_partial_seeds = partial, bz_imported_seeds = imported',
             bz_next_id = length partial + length imported', bz_use_guidance = use_guidance,
             bz_use_corpus = use_corpus, bz_replay_imported = replay, bz_replay_complete = False,
             bz_alphabet = request_types, bz_req_dep = (if use_guidance then req_dep else []),
             bz_req_res = [], bz_machine = machine, bz_states = states, bz_stats = stats,
             bz_selected = None, bz_selected_mode = [], bz_visited = visited, bz_partial_flag = False,
             bz_imported_flag = False, bz_interesting_flag = False, bz_partial_attempts = 0,
             bz_transit = [], bz_mutator = mut, bz_mut_stats = new_stats, bz_tape = rand_tape,
             bz_mut_tape = mut_tape, bz_world = w\<rparr>))"

section \<open>Priority of a state\<close>

definition average_reward :: "state_stats \<Rightarrow> real" where
  "average_reward s = ss_total_reward s / real (max (ss_call_count s) 1)"

definition exploration :: "nat \<Rightarrow> state_stats \<Rightarrow> real" where
  "exploration total_calls s = sqrt (ln (real (total_calls + 1)) / real (ss_call_count s + 1))"

definition max_or :: "'a :: linorder \<Rightarrow> 'a list \<Rightarrow> 'a" where
  "max_or d xs = (if xs = [] then d else Max (set xs))"

definition normalized :: "real \<Rightarrow> real \<Rightarrow> real" where
  "normalized x m = (if 0 < m then x / m else 0)"

definition priority_score :: "(word, state_stats) dict \<Rightarrow> state_stats \<Rightarrow> real" where
  "priority_score all s =
     (let items = map snd all;
          total_calls = sum_list (map ss_call_count items);
          max_average_reward = max_or 0 (map average_reward items);
          max_exploration = max_or 0 (map (exploration total_calls) items);
          normalized_reward = normalized (average_reward s) max_average_reward;
          normalized_exploration = normalized (exploration total_calls s) max_exploration;
          max_depth = max_or 0 (map ss_depth items);
          max_out_degree = max_or 0 (map ss_out_degree items);
          depth = real (ss_depth s) / real (max max_depth 1);
          uncovered = (real (ss_out_degree s) - real (length (ss_covered s))) / real (max max_out_degree 1);
          structure = (depth + uncovered) / 2
      in (normalized_reward + normalized_exploration + structure) / 3)"

definition calculate_state_priority :: "word \<Rightarrow> ('w, real) sched" where
  "calculate_state_priority state st =
     (case map_of (bz_stats st) state of
        None \<Rightarrow> (Inl KeyError, st)
      | Some s \<Rightarrow>
          (let score = priority_score (bz_stats st) s
           in (Inr score, st\<lparr>bz_stats := dict_put state (s\<lparr>ss_last_score := score\<rparr>) (bz_stats st)\<rparr>)))"

text \<open>\<open>math.isclose\<close> with the relative and absolute tolerance of the code.\<close>

definition is_close :: "real \<Rightarrow> real \<Rightarrow> bool" where
  "is_close a b \<longleftrightarrow> a = b \<or> \<bar>a - b\<bar> \<le> max (1 / 10 ^ 12 * max \<bar>a\<bar> \<bar>b\<bar>) (1 / 10 ^ 12)"

fun score_states :: "word list \<Rightarrow> ('w, (word, real) dict) sched" where
  "score_states [] st = (Inr [], st)"
| "score_states (s # ss) st =
     sbind (calculate_state_priority s) (\<lambda>score.
     sbind (score_states ss) (\<lambda>rest. sret ((s, score) # rest))) st"

definition select_priority_state :: "('w, word option) sched" where
  "select_priority_state =
     sbind (sget bz_states) (\<lambda>states.
       if states = [] then sret None
       else sbind (score_states states) (\<lambda>scores.
         let best_score = Max (set (map snd scores));
             candidates = map fst (filter (\<lambda>e. is_close (snd e) best_score) scores)
         in sbind (pick candidates) (\<lambda>s. sret (Some s))))"

section \<open>Selection\<close>

definition generators_for :: "'w sched_ports \<Rightarrow> string list \<Rightarrow> ('w, message list) sched" where
  "generators_for p req = in_world (sp_select_generators p req)"

definition use_machine_state :: "'w sched_ports \<Rightarrow> word \<Rightarrow> string \<Rightarrow> ('w, message list) sched" where
  "use_machine_state p state mode =
     sbind (smodify (\<lambda>st. st\<lparr>bz_selected := Some state, bz_selected_mode := mode\<rparr>)) (\<lambda>_.
     sbind (sget (\<lambda>st. map_of (bz_stats st) state)) (\<lambda>stats.
     case stats of
       None \<Rightarrow> slift (Inl KeyError)
     | Some s \<Rightarrow>
         sbind (smodify (\<lambda>st. st\<lparr>bz_stats :=
             dict_put state (s\<lparr>ss_call_count := ss_call_count s + 1\<rparr>) (bz_stats st)\<rparr>)) (\<lambda>_.
           generators_for p state)))"

primrec draw_many :: "nat \<Rightarrow> 'a list \<Rightarrow> ('w, 'a list) sched" where
  "draw_many 0 xs = sret []"
| "draw_many (Suc n) xs = sbind (pick xs) (\<lambda>x. sbind (draw_many n xs) (\<lambda>rest. sret (x # rest)))"

definition select_random_requests :: "'w sched_ports \<Rightarrow> nat \<Rightarrow> nat \<Rightarrow> ('w, message list) sched" where
  "select_random_requests p min_length max_length =
     sbind (sget bz_alphabet) (\<lambda>alphabet.
       if alphabet = [] then sret []
       else sbind (draw (randint min_length max_length)) (\<lambda>n.
            sbind (draw_many n alphabet) (generators_for p)))"

text \<open>
  The dependency walk: from a request to one of those it depends on, until a request repeats or has
  no dependencies; the request sequence is built backwards.
\<close>

function dep_chain :: "(string, string list) dict \<Rightarrow> string \<Rightarrow> string list \<Rightarrow> tape \<Rightarrow> string list result \<times> tape" where
  "dep_chain dep cur chain t =
     (if cur \<in> set chain then (Inr (cur # chain), t)
      else
        (case map_of dep cur of
           None \<Rightarrow> (Inr (cur # chain), t)
         | Some [] \<Rightarrow> (Inl IndexError, t)
         | Some (d # ds) \<Rightarrow>
             (case choice (d # ds) t of (nxt, t') \<Rightarrow> dep_chain dep nxt (cur # chain) t')))"
  by pat_completeness auto
termination
proof (relation "measure (\<lambda>(dep, cur, chain, t). card (fst ` set dep - set chain))", goal_cases)
  case (2 dep cur chain t x2 d ds nxt t')
  have "cur \<in> fst ` set dep" using 2(2) by (metis domI dom_map_of_conv_image_fst)
  then have "card (fst ` set dep - set (cur # chain)) < card (fst ` set dep - set chain)"
    using 2(1) by (intro psubset_card_mono) auto
  then show ?case by simp
qed simp

declare dep_chain.simps [simp del]

definition dependent_requests :: "('w, string list) sched" where
  "dependent_requests =
     sbind (sget bz_req_dep) (\<lambda>dep.
     sbind (pick (map fst dep)) (\<lambda>cur.
       \<lambda>st. case dep_chain dep cur [] (bz_tape st) of (r, t) \<Rightarrow> (r, st\<lparr>bz_tape := t\<rparr>)))"

definition is_imported :: "'w berserker \<Rightarrow> seed \<Rightarrow> bool" where
  "is_imported st s \<longleftrightarrow> fst s \<in> fst ` set (bz_imported_seeds st)"

definition clear_selection :: "('w, unit) sched" where
  "clear_selection = smodify (\<lambda>st. st\<lparr>bz_selected := None, bz_selected_mode := [],
     bz_partial_flag := False, bz_imported_flag := False, bz_interesting_flag := False\<rparr>)"

definition corpus_of :: "'w berserker \<Rightarrow> seed list" where
  "corpus_of st = bz_imported_seeds st @ filter (\<lambda>s. \<not> is_imported st s) (bz_useful_seq st)"

text \<open>The prefix taken from the corpus, if the coin says so.\<close>

definition corpus_prefix :: "('w, message list option) sched" where
  "corpus_prefix =
     sbind (sget corpus_of) (\<lambda>corpus.
       if corpus = [] then sret None
       else sbind below_half (\<lambda>heads.
         if \<not> heads then sret None
         else sbind (pick corpus) (\<lambda>s.
              sbind (smodify (\<lambda>st. if is_imported st s then st\<lparr>bz_imported_flag := True\<rparr>
                                   else st\<lparr>bz_interesting_flag := True\<rparr>)) (\<lambda>_.
                sret (Some (snd s))))))"

definition seed_prefix :: "('w, message list option) sched" where
  "seed_prefix =
     sbind (sget (\<lambda>st. bz_partial_seeds st @ bz_imported_seeds st)) (\<lambda>seeds.
       if seeds = [] then sret None
       else sbind below_half (\<lambda>heads.
         if \<not> heads then sret None
         else sbind (smodify (\<lambda>st. st\<lparr>bz_partial_flag := True,
                                     bz_partial_attempts := bz_partial_attempts st + 1\<rparr>)) (\<lambda>_.
              sbind (pick seeds) (\<lambda>s.
              sbind (smodify (\<lambda>st. if is_imported st s
                                   then st\<lparr>bz_partial_flag := False, bz_imported_flag := True\<rparr>
                                   else st)) (\<lambda>_.
                sret (Some (snd s)))))))"

definition base_state_mode :: "'w berserker \<Rightarrow> string list" where
  "base_state_mode st = (if bz_use_guidance st then [''random'', ''priority'', ''specific''] else [''random''])"

definition mutated_seq_mode :: "'w berserker \<Rightarrow> string list" where
  "mutated_seq_mode st = (if bz_use_guidance st then [''random'', ''interesting'', ''specific''] else [''random''])"

definition random_base :: "'w sched_ports \<Rightarrow> ('w, message list) sched" where
  "random_base p =
     sbind (sget bz_states) (\<lambda>states.
       if states \<noteq> [] then sbind (pick states) (\<lambda>s. use_machine_state p s ''random'')
       else select_random_requests p 1 8)"

definition specific_base :: "'w sched_ports \<Rightarrow> ('w, message list) sched" where
  "specific_base p =
     sbind (sget bz_req_dep) (\<lambda>dep.
       if dep \<noteq> [] then sbind dependent_requests (generators_for p)
       else sbind (sget bz_useful_seq) (\<lambda>seqs. sbind (pick seqs) (\<lambda>s. sret (snd s))))"

definition priority_base :: "'w sched_ports \<Rightarrow> ('w, message list) sched" where
  "priority_base p =
     sbind select_priority_state (\<lambda>choice.
       case choice of
         Some s \<Rightarrow> use_machine_state p s ''priority''
       | None \<Rightarrow> select_random_requests p 1 8)"

definition guided_base :: "'w sched_ports \<Rightarrow> ('w, message list) sched" where
  "guided_base p =
     sbind (sget (\<lambda>st. bz_useful_seq st = [])) (\<lambda>none_useful.
     sbind (if none_useful then sret ''random''
            else sbind (sget base_state_mode) pick) (\<lambda>mode.
       if mode = ''random'' then random_base p
       else if mode = ''specific'' then specific_base p
       else priority_base p))"

definition select_base_state :: "'w sched_ports \<Rightarrow> ('w, message list) sched" where
  "select_base_state p =
     sbind clear_selection (\<lambda>_.
     sbind (sget bz_use_corpus) (\<lambda>use_corpus.
     sbind (if use_corpus then corpus_prefix else sret None) (\<lambda>from_corpus.
     case from_corpus of
       Some s \<Rightarrow> sret s
     | None \<Rightarrow>
         sbind seed_prefix (\<lambda>from_seed.
         case from_seed of
           Some s \<Rightarrow> sret s
         | None \<Rightarrow> guided_base p))))"

definition select_suffix :: "'w sched_ports \<Rightarrow> ('w, message list) sched" where
  "select_suffix p =
     sbind (sget bz_transit) (\<lambda>transit.
       if transit \<noteq> [] then sbind (pick transit) (generators_for p)
       else select_random_requests p 1 8)"

definition messages_for :: "'w sched_ports \<Rightarrow> bool \<Rightarrow> string list \<Rightarrow> ('w, message list) sched" where
  "messages_for p mut req = (if mut then in_world (sp_select_mutators p req) else generators_for p req)"

definition select_mutated_seq :: "'w sched_ports \<Rightarrow> ('w, message list) sched" where
  "select_mutated_seq p =
     sbind (draw (randint 1 42)) (\<lambda>scope.
     sbind (pick [True, False]) (\<lambda>mut.
     sbind (sget (\<lambda>st. bz_useful_msg st = [])) (\<lambda>none_useful.
     sbind (if none_useful then sret ''random''
            else sbind (sget mutated_seq_mode) pick) (\<lambda>mode.
       if mode = ''random''
       then sbind (sget bz_alphabet) (\<lambda>alphabet. sbind (draw_many scope alphabet) (messages_for p mut))
       else if mode = ''interesting''
       then sbind (sget bz_useful_msg) (draw_many scope)
       else sbind (sget bz_req_dep) (\<lambda>dep.
              if dep \<noteq> [] then sbind dependent_requests (messages_for p mut)
              else sbind (sget bz_useful_msg) (draw_many scope))))))"

section \<open>Imported seeds\<close>

fun replay_loop :: "'w sched_ports \<Rightarrow> seed list \<Rightarrow> ('w, unit) sched" where
  "replay_loop p [] st = (Inr (), st)"
| "replay_loop p (s # ss) st =
     sbind (in_world (sp_should_stop p)) (\<lambda>stop.
       if stop then sret ()
       else sbind (smodify (\<lambda>st. st\<lparr>bz_world := sp_replay p (snd s) (bz_world st)\<rparr>)) (\<lambda>_.
            replay_loop p ss)) st"

definition replay_imported_seed_sequences_once :: "'w sched_ports \<Rightarrow> ('w, unit) sched" where
  "replay_imported_seed_sequences_once p =
     sbind (sget bz_replay_complete) (\<lambda>complete.
       if complete then sret ()
       else sbind (smodify (\<lambda>st. st\<lparr>bz_replay_complete := True\<rparr>)) (\<lambda>_.
            sbind (sget bz_replay_imported) (\<lambda>replay.
              if replay then sbind (sget bz_imported_seeds) (replay_loop p) else sret ())))"

section \<open>Feedback of a round\<close>

definition bug_responses :: "string list" where
  "bug_responses = [''CRASH'']"

definition round_reward :: "bool \<Rightarrow> int \<Rightarrow> int \<Rightarrow> bool \<Rightarrow> bool \<Rightarrow> real" where
  "round_reward discovered transition_inc response_inc crashed bug_signal =
     1 * of_bool discovered + 7 / 10 * of_bool (0 < transition_inc) + 1 / 2 * of_bool (0 < response_inc) +
     2 * of_bool crashed + 5 * of_bool (crashed \<or> bug_signal)"

definition prefix_reached :: "word \<Rightarrow> message list \<Rightarrow> nat \<Rightarrow> bool" where
  "prefix_reached state request_sequence prefix_length \<longleftrightarrow>
     map fst (take prefix_length request_sequence) = filter (\<lambda>symbol. symbol \<noteq> ''-'') state"

text \<open>The transition taken out of the selected state, when the machine has it.\<close>

definition cover_transition :: "learned option \<Rightarrow> nat \<Rightarrow> string option \<Rightarrow> string list \<times> nat list \<times> bool \<Rightarrow>
    (string list \<times> nat list \<times> bool) result" where
  "cover_transition machine state_id symbol acc =
     (case acc of (covered, visited, discovered) \<Rightarrow>
       case (machine, symbol) of
         (Some m, Some a) \<Rightarrow>
           if a \<in> set (outgoing_symbols m state_id)
           then rbind (dict_index (mm_delta m) (state_id, a)) (\<lambda>destination.
                  Inr (set_add a covered,
                       if destination \<notin> set visited then set_add destination visited else visited,
                       discovered \<or> destination \<notin> set visited))
           else Inr acc
       | _ \<Rightarrow> Inr acc)"

definition update_state_feedback :: "message list \<Rightarrow> nat \<Rightarrow> int \<Rightarrow> int \<Rightarrow> conversation option \<Rightarrow> bool \<Rightarrow>
    ('w, unit) sched" where
  "update_state_feedback request_sequence prefix_length transition_inc response_inc cons bug_signal st =
     (case bz_selected st of
        None \<Rightarrow> (Inr (), st)
      | Some state \<Rightarrow>
          (case map_of (bz_stats st) state of
             None \<Rightarrow> (Inl KeyError, st)
           | Some stats \<Rightarrow>
               if \<not> prefix_reached state request_sequence prefix_length then (Inr (), st)
               else
                 (let state_id = ss_state_id stats;
                      discovered0 = state_id \<notin> set (bz_visited st);
                      visited0 = set_add state_id (bz_visited st);
                      symbol = (if prefix_length < length request_sequence
                                then Some (fst (request_sequence ! prefix_length)) else None)
                  in case cover_transition (bz_machine st) state_id symbol
                            (ss_covered stats, visited0, discovered0) of
                       Inl e \<Rightarrow> (Inl e, st\<lparr>bz_visited := visited0\<rparr>)
                     | Inr (covered, visited, discovered) \<Rightarrow>
                         (let responses = (case cons of None \<Rightarrow> [] | Some c \<Rightarrow> res_seq c);
                              crashed = (set responses \<inter> set bug_responses \<noteq> {});
                              reward = round_reward discovered transition_inc response_inc crashed bug_signal
                          in (Inr (), st\<lparr>bz_visited := visited,
                                bz_stats := dict_put state (stats\<lparr>ss_covered := covered,
                                  ss_total_reward := ss_total_reward stats + reward\<rparr>) (bz_stats st)\<rparr>)))))"

text \<open>
  \<open>analyze_cons\<close>: the messages and prefixes of new responses become seeds; \<open>exchange_messages\<close> is
  the inner loop over the prefix.
\<close>

definition exchange_messages :: "conversation \<Rightarrow> nat \<Rightarrow> message list" where
  "exchange_messages c n =
     map (\<lambda>i. (req_seq c ! i, fst (content c ! i))) (filter (\<lambda>i. req_seq c ! i \<noteq> ''-'') [0..<n])"

definition learn_response :: "conversation \<Rightarrow> 'w berserker \<Rightarrow> nat \<times> string \<Rightarrow> 'w berserker" where
  "learn_response c st entry =
     (let index = fst entry in
      if index < length (content c) \<and> index < length (req_seq c)
      then st\<lparr>bz_useful_msg := bz_useful_msg st @ [(req_seq c ! index, fst (content c ! index))],
              bz_useful_seq := bz_useful_seq st @
                [(bz_next_id st, exchange_messages c (min (index + 1) (min (length (req_seq c)) (length (content c)))))],
              bz_next_id := bz_next_id st + 1\<rparr>
      else st)"

definition note_relation :: "(string, string list) dict \<Rightarrow> string \<times> string \<Rightarrow> (string, string list) dict" where
  "note_relation d rel =
     (case rel of (req, res) \<Rightarrow>
       dict_put req (set_add res (case map_of d req of None \<Rightarrow> [] | Some rs \<Rightarrow> rs)) d)"

definition analyze_cons :: "'w sched_ports \<Rightarrow> conversation \<Rightarrow> int \<Rightarrow> int \<Rightarrow> 'w berserker \<Rightarrow> 'w berserker" where
  "analyze_cons p c trans_inc type_inc st =
     (case seed_observe (bz_retention st) c trans_inc type_inc of (policy, novelty) \<Rightarrow>
       (let st1 = foldl (learn_response c) (st\<lparr>bz_retention := policy\<rparr>) (new_responses novelty);
            st2 = st1\<lparr>bz_req_res := foldl note_relation (bz_req_res st1) (request_response_relations novelty)\<rparr>
        in if interesting novelty
           then st2\<lparr>bz_world := sp_save_cons p c (retention_reasons novelty) (bz_world st2)\<rparr>
           else st2))"

section \<open>The energy loop\<close>

fun interleave :: "'a list \<Rightarrow> 'a list \<Rightarrow> 'a list" where
  "interleave [] ms = ms"
| "interleave (p # ps) [] = p # ps"
| "interleave (p # ps) (m # ms) = p # m # interleave ps ms"

definition assemble :: "string \<Rightarrow> message list \<Rightarrow> message list \<Rightarrow> message list \<Rightarrow> message list" where
  "assemble how front ms back = (if how = ''cat'' then front @ ms @ back else interleave front ms @ back)"

definition anchored :: "'w berserker \<Rightarrow> bool" where
  "anchored st \<longleftrightarrow> bz_selected st \<noteq> None \<or> bz_partial_flag st \<or> bz_imported_flag st \<or> bz_interesting_flag st"

definition protected_length :: "'w berserker \<Rightarrow> message list \<Rightarrow> nat" where
  "protected_length st front =
     (if bz_imported_flag st \<and> om_imported (bz_mutator st) \<and> \<not> bz_use_corpus st then 0 else length front)"

text \<open>Every offline change is remembered with the mapper, under the bytes it produced.\<close>

definition remember_changes :: "'w sched_ports \<Rightarrow> message list \<Rightarrow> change list \<Rightarrow> 'w \<Rightarrow> 'w" where
  "remember_changes p sq changed w =
     foldl (\<lambda>w (index, op, _). sp_remember_offline p (snd (sq ! index)) (fst (sq ! index)) op w) w changed"

definition offline_mutate :: "'w sched_ports \<Rightarrow> message list \<Rightarrow> nat \<Rightarrow> ('w, message list) sched" where
  "offline_mutate p sq prot st =
     (case mutate_sequence (bz_mutator st) (bz_mut_stats st) sq (int prot) (bz_imported_flag st) (bz_mut_tape st) of
        ((sq', stats, changed), t) \<Rightarrow>
          (Inr sq', st\<lparr>bz_mut_stats := stats, bz_mut_tape := t,
                      bz_world := remember_changes p sq' changed (bz_world st)\<rparr>))"

text \<open>What a round builds: the prefix and the request sequence.\<close>

definition build_round :: "'w sched_ports \<Rightarrow> ('w, message list \<times> message list) sched" where
  "build_round p =
     sbind (select_base_state p) (\<lambda>front.
     sbind (sget (\<lambda>st. sp_has_mutators p (bz_world st))) (\<lambda>has_mutators.
     sbind (if has_mutators then select_mutated_seq p else sret []) (\<lambda>ms.
     sbind (select_suffix p) (\<lambda>back.
     sbind (sget anchored) (\<lambda>fixed.
     sbind (if fixed then sret ''cat'' else pick [''cat'', ''int'']) (\<lambda>how.
     sbind (sget (\<lambda>st. protected_length st front)) (\<lambda>prot.
     sbind (offline_mutate p (assemble how front ms back) prot) (\<lambda>sq.
       sret (front, sq)))))))))"

datatype round_end = Stopped_round | Grown_round bool

text \<open>One round: the answer tells whether the loop was left, or whether the transitions grew.\<close>

definition run_round :: "'w sched_ports \<Rightarrow> ('w, round_end) sched" where
  "run_round p =
     sbind (sget (\<lambda>st. (sp_res_types_num p (bz_world st), sp_resp_trans_num p (bz_world st),
                        sp_non_compliant p (bz_world st)))) (\<lambda>(last_resp, last_trans, last_bad).
     sbind (build_round p) (\<lambda>(front, sq).
     sbind (in_world (sp_interact p sq)) (\<lambda>cons.
     sbind (in_world (sp_should_stop p)) (\<lambda>stop.
     if stop then sret Stopped_round
     else
       sbind (sget (\<lambda>st. (sp_resp_trans_num p (bz_world st), sp_res_types_num p (bz_world st),
                          sp_non_compliant p (bz_world st)))) (\<lambda>(cur_trans, cur_resp, cur_bad).
       sbind (update_state_feedback sq (length front) (cur_trans - last_trans) (cur_resp - last_resp)
                cons (last_bad < cur_bad)) (\<lambda>_.
       sbind (case cons of None \<Rightarrow> sret ()
              | Some c \<Rightarrow> smodify (analyze_cons p c (cur_trans - last_trans) (cur_resp - last_resp))) (\<lambda>_.
         sret (Grown_round (last_trans < cur_trans)))))))))"

definition energy_left :: "'w berserker \<Rightarrow> int \<Rightarrow> bool" where
  "energy_left st energy \<longleftrightarrow> (if bz_use_guidance st then 0 \<le> energy else 0 < energy)"

definition next_energy :: "'w berserker \<Rightarrow> bool \<Rightarrow> int \<Rightarrow> int" where
  "next_energy st grown energy =
     (if \<not> bz_use_guidance st then energy - 1 else if \<not> grown then energy - 1 else energy + 1)"

text \<open>The result is the number of completed rounds, or None when the fuel did not suffice.\<close>

primrec run_loop :: "'w sched_ports \<Rightarrow> nat \<Rightarrow> int \<Rightarrow> nat \<Rightarrow> ('w, nat option) sched" where
  "run_loop p 0 energy completed = sret None"
| "run_loop p (Suc fuel) energy completed =
     sbind (sget (\<lambda>st. energy_left st energy)) (\<lambda>left.
     if \<not> left then sret (Some completed)
     else sbind (in_world (sp_should_stop p)) (\<lambda>stop.
       if stop then sret (Some completed)
       else sbind (run_round p) (\<lambda>outcome.
         case outcome of
           Stopped_round \<Rightarrow> sret (Some completed)
         | Grown_round grown \<Rightarrow>
             sbind (sget (\<lambda>st. next_energy st grown energy)) (\<lambda>energy'.
               run_loop p fuel energy' (completed + 1)))))"

definition berserker_run :: "'w sched_ports \<Rightarrow> nat \<Rightarrow> int \<Rightarrow> ('w, nat option) sched" where
  "berserker_run p fuel energy = run_loop p fuel energy 0"

end
