(* ===== verification/Scheduling.thy ===== *)
theory Scheduling imports Scheduler begin

text \<open>
  Properties of the scheduler of \<open>Scheduler\<close>: the access sequences are the least ones, dependency
  walks are chains, the statistics stay consistent in every round (so that priorities lie between 0
  and 1), and the energy loop ends.
\<close>

section \<open>Access sequences\<close>

lemma access_fold:
  "map_of (foldl (access_step m) [] xs) q = find (\<lambda>s. machine_state_after m s = Some q) xs \<and>
   distinct (map fst (foldl (access_step m) [] xs))"
proof (induction xs arbitrary: q rule: rev_induct)
  case (snoc x xs)
  let ?acc = "foldl (access_step m) [] xs"
  have find_snoc: "find P (xs @ [x]) = (case find P xs of None \<Rightarrow> if P x then Some x else None | Some y \<Rightarrow> Some y)" for P
    by (induction xs) auto
  show ?case
  proof (cases "machine_state_after m x")
    case None
    then show ?thesis using snoc by (auto simp: access_step_def find_snoc split: option.splits)
  next
    case (Some r)
    show ?thesis
    proof (cases "map_of ?acc r")
      case None
      then have "r \<notin> fst ` set ?acc" by (simp add: map_of_eq_None_iff)
      with snoc[of q] snoc[of r] Some None show ?thesis
        by (auto simp: access_step_def find_snoc map_add_def split: option.splits)
    next
      case (Some y)
      then have "find (\<lambda>s. machine_state_after m s = Some r) xs = Some y" using snoc[of r] by simp
      with snoc[of q] Some \<open>machine_state_after m x = Some r\<close> show ?thesis
        by (auto simp: access_step_def find_snoc split: option.splits)
    qed
  qed
qed simp

lemma find_sorted_least:
  assumes "sorted (map f xs)" "find P xs = Some y" "z \<in> set xs" "P z"
  shows "f y \<le> f z"
proof -
  from assms(2) obtain i where i: "i < length xs" "xs ! i = y" "\<forall>j < i. \<not> P (xs ! j)"
    by (auto simp: find_Some_iff)
  from assms(3,4) obtain j where j: "j < length xs" "xs ! j = z" "i \<le> j"
    using i(3) by (metis in_set_conv_nth not_le)
  from sorted_nth_mono[OF assms(1), of i j] i j show ?thesis by simp
qed

lemma Some_members: "{Some q |q. Some q \<in> X} = X - {None}"
proof (intro set_eqI iffI)
  show "x \<in> {Some q |q. Some q \<in> X}" if "x \<in> X - {None}" for x using that by (cases x) auto
qed auto


section \<open>Dependency walks\<close>

definition depends :: "(string, string list) dict \<Rightarrow> string \<Rightarrow> string \<Rightarrow> bool" where
  "depends dep later earlier \<longleftrightarrow> (case map_of dep later of None \<Rightarrow> False | Some ds \<Rightarrow> earlier \<in> set ds)"

text \<open>The built sequence: each request depends on the one before it.\<close>

fun dep_chain_ok :: "(string, string list) dict \<Rightarrow> string list \<Rightarrow> bool" where
  "dep_chain_ok dep (a # b # rest) \<longleftrightarrow> depends dep b a \<and> dep_chain_ok dep (b # rest)"
| "dep_chain_ok dep _ = True"

lemma dep_chain_sound:
  "dep_chain dep cur chain t = (Inr r, t') \<Longrightarrow> dep_chain_ok dep (cur # chain) \<Longrightarrow> distinct chain \<Longrightarrow>
     set chain \<subseteq> fst ` set dep \<Longrightarrow>
     dep_chain_ok dep r \<and> distinct (tl r) \<and> set (tl r) \<subseteq> fst ` set dep \<and> r \<noteq> [] \<and>
     last r = last (cur # chain) \<and> (hd r \<in> set (tl r) \<or> hd r \<notin> fst ` set dep)"
proof (induction dep cur chain t rule: dep_chain.induct)
  case (1 dep cur chain t)
  show ?case
  proof (cases "cur \<in> set chain")
    case True
    then have "r = cur # chain" using "1.prems"(1) by (simp add: dep_chain.simps[of dep cur])
    with True "1.prems" show ?thesis by simp
  next
    case False
    show ?thesis
    proof (cases "map_of dep cur")
      case None
      then have "r = cur # chain" using "1.prems"(1) False by (simp add: dep_chain.simps[of dep cur])
      with None "1.prems" show ?thesis by (simp add: map_of_eq_None_iff)
    next
      case (Some ds)
      show ?thesis
      proof (cases ds)
        case Nil
        then show ?thesis using "1.prems"(1) False Some by (simp add: dep_chain.simps[of dep cur])
      next
        case (Cons d ds')
        obtain nxt t1 where c: "choice (d # ds') t = (nxt, t1)" by (cases "choice (d # ds') t")
        have nxt: "nxt \<in> set (d # ds')" using choice_in[of "d # ds'" t] c by simp
        have key: "cur \<in> fst ` set dep" using Some by (metis domI dom_map_of_conv_image_fst)
        have "dep_chain dep nxt (cur # chain) t1 = (Inr r, t')"
          using "1.prems"(1) False Some Cons c by (simp add: dep_chain.simps[of dep cur])
        moreover have "dep_chain_ok dep (nxt # cur # chain)"
          using "1.prems"(2) nxt Some Cons by (simp add: depends_def)
        ultimately have "dep_chain_ok dep r \<and> distinct (tl r) \<and> set (tl r) \<subseteq> fst ` set dep \<and> r \<noteq> [] \<and>
            last r = last (nxt # cur # chain) \<and> (hd r \<in> set (tl r) \<or> hd r \<notin> fst ` set dep)"
          using "1.IH"[OF False Some Cons c[symmetric]] "1.prems"(3,4) False key by simp
        then show ?thesis by simp
      qed
    qed
  qed
qed

text \<open>
  A dependency walk always ends.  It raises an IndexError when it meets a request whose
  dependencies are empty; otherwise it returns a sequence ending in the chosen request in which
  each request depends on the one before it, without repetition after the first, so at most one
  longer than the dependency table.
\<close>

theorem dep_chain_walk:
  "case fst (dep_chain dep cur [] t) of
     Inl e \<Rightarrow> e = IndexError
   | Inr r \<Rightarrow> dep_chain_ok dep r \<and> last r = cur \<and> distinct (tl r) \<and> length r \<le> length dep + 1 \<and>
       (hd r \<in> set (tl r) \<or> map_of dep (hd r) = None)"
proof -
  have err: "fst (dep_chain dep cur chain t) = Inl e \<Longrightarrow> e = IndexError" for chain e
    by (induction dep cur chain t rule: dep_chain.induct)
      (subst (asm) dep_chain.simps, auto split: if_splits option.splits list.splits prod.splits)
  show ?thesis
  proof (cases "fst (dep_chain dep cur [] t)")
    case (Inl e)
    with err show ?thesis by simp
  next
    case (Inr r)
    then have "dep_chain dep cur [] t = (Inr r, snd (dep_chain dep cur [] t))" by (simp add: prod_eq_iff)
    from dep_chain_sound[OF this] have r: "dep_chain_ok dep r" "distinct (tl r)" "r \<noteq> []"
      "set (tl r) \<subseteq> fst ` set dep" "last r = cur" "hd r \<in> set (tl r) \<or> hd r \<notin> fst ` set dep" by auto
    have "length (tl r) = card (set (tl r))" using r(2) by (simp add: distinct_card)
    also have "\<dots> \<le> card (fst ` set dep)" using r(4) by (intro card_mono) auto
    also have "\<dots> \<le> length dep" using card_image_le[of "set dep" fst] card_length[of dep] by simp
    finally have "length r \<le> length dep + 1" by (cases r) auto
    with r Inr show ?thesis by (simp add: map_of_eq_None_iff)
  qed
qed

section \<open>Statistics stay consistent\<close>

definition outgoing_of :: "learned option \<Rightarrow> nat \<Rightarrow> string list" where
  "outgoing_of machine q = (case machine of None \<Rightarrow> [] | Some m \<Rightarrow> outgoing_symbols m q)"

definition stats_entry_ok :: "learned option \<Rightarrow> state_stats \<Rightarrow> bool" where
  "stats_entry_ok machine e \<longleftrightarrow> 0 \<le> ss_total_reward e \<and> distinct (ss_covered e) \<and>
     set (ss_covered e) \<subseteq> set (outgoing_of machine (ss_state_id e)) \<and>
     length (outgoing_of machine (ss_state_id e)) \<le> ss_out_degree e"

definition stats_ok :: "learned option \<Rightarrow> bool \<Rightarrow> 'w berserker \<Rightarrow> bool" where
  "stats_ok machine guided st \<longleftrightarrow> bz_machine st = machine \<and> bz_use_guidance st = guided \<and>
     list_all (\<lambda>e. stats_entry_ok machine (snd e)) (bz_stats st)"

lemma list_all_dict_put:
  "list_all (\<lambda>e. P (snd e)) d \<Longrightarrow> P v \<Longrightarrow> list_all (\<lambda>e. P (snd e)) (dict_put k v d)"
  by (induction k v d rule: dict_put.induct) auto

lemma round_reward_nonneg: "0 \<le> round_reward a b c d e"
  by (simp add: round_reward_def)

lemma cover_transition_ok:
  assumes "cover_transition machine q symbol (cov, vis, disc) = Inr (cov', vis', disc')"
    "distinct cov" "set cov \<subseteq> set (outgoing_of machine q)"
  shows "distinct cov' \<and> set cov' \<subseteq> set (outgoing_of machine q)"
  using assms by (auto simp: cover_transition_def outgoing_of_def split: option.splits if_splits)

text \<open>
  What a round keeps, for every property of the world that the mapper, the executor and the analyzer
  keep in each of their calls.
\<close>

locale scheduler_invariant =
  fixes p :: "'w sched_ports" and W :: "'w \<Rightarrow> bool" and machine :: "learned option" and guided :: bool
  assumes W_generators: "W w \<Longrightarrow> W (snd (sp_select_generators p req w))"
    and W_mutators: "W w \<Longrightarrow> W (snd (sp_select_mutators p req w))"
    and W_interact: "W w \<Longrightarrow> W (snd (sp_interact p sq w))"
    and W_replay: "W w \<Longrightarrow> W (sp_replay p sq w)"
    and W_should_stop: "W w \<Longrightarrow> W (snd (sp_should_stop p w))"
    and W_save: "W w \<Longrightarrow> W (sp_save_cons p c reasons w)"
    and W_remember: "W w \<Longrightarrow> W (sp_remember_offline p bs t op w)"

context scheduler_invariant begin

definition ok :: "'w berserker \<Rightarrow> bool" where
  "ok st \<longleftrightarrow> stats_ok machine guided st \<and> W (bz_world st)"

lemmas ok_defs = ok_def stats_ok_def

definition frame :: "('w berserker \<Rightarrow> 'w berserker) \<Rightarrow> bool" where
  "frame f \<longleftrightarrow> (\<forall>st. bz_stats (f st) = bz_stats st \<and> bz_machine (f st) = bz_machine st \<and>
     bz_use_guidance (f st) = bz_use_guidance st \<and> (W (bz_world st) \<longrightarrow> W (bz_world (f st))))"

lemma keeps_frame: "frame f \<Longrightarrow> keeps ok (smodify f)"
  by (rule keeps_smodify) (simp add: ok_defs frame_def)

lemma keeps_draw [keeping]: "keeps ok (draw r)"
  by (simp add: keeps_def draw_def ok_defs split: prod.split)

lemma keeps_draws [keeping]: "keeps ok (pick xs)" "keeps ok below_half"
  unfolding pick_def below_half_def by (intro keeping)+

lemma keeps_in_world: "(\<And>w. W w \<Longrightarrow> W (snd (f w))) \<Longrightarrow> keeps ok (in_world f)"
  by (simp add: keeps_def in_world_def ok_defs split_beta)

lemma keeps_ports [keeping]:
  "keeps ok (in_world (sp_select_generators p req))" "keeps ok (in_world (sp_select_mutators p req))"
  "keeps ok (in_world (sp_interact p sq))" "keeps ok (in_world (sp_should_stop p))"
  by (rule keeps_in_world; erule W_generators W_mutators W_interact W_should_stop)+

lemma stats_lookup: "ok st \<Longrightarrow> map_of (bz_stats st) s = Some e \<Longrightarrow> stats_entry_ok machine e"
  by (force simp: ok_defs list_all_iff dest: map_of_SomeD)

lemma stats_put:
  "ok st \<Longrightarrow> stats_entry_ok machine e \<Longrightarrow> ok (st\<lparr>bz_stats := dict_put s e (bz_stats st)\<rparr>)"
  by (simp add: ok_defs list_all_dict_put)

lemma keeps_priority [keeping]: "keeps ok (calculate_state_priority s)"
  unfolding keeps_def calculate_state_priority_def
  by (auto simp: Let_def intro!: stats_put split: option.split dest: stats_lookup)
    (simp add: stats_entry_ok_def stats_lookup[unfolded stats_entry_ok_def])

lemma keeps_use_state [keeping]: "keeps ok (use_machine_state p s mode)"
proof -
  have "ok st \<Longrightarrow> ok (snd (use_machine_state p s mode st))" for st
    using stats_lookup[of st s] W_generators[of "bz_world st" s]
    by (auto simp: use_machine_state_def action_defs generators_for_def in_world_def ok_defs
        stats_entry_ok_def intro!: list_all_dict_put split: option.split prod.split)
  then show ?thesis by (simp add: keeps_def)
qed

lemma keeps_score_states [keeping]: "keeps ok (score_states ss)"
proof (induction ss)
  case Nil
  then show ?case by (simp add: keeps_def)
next
  case (Cons s ss)
  have "score_states (s # ss) = sbind (calculate_state_priority s) (\<lambda>score.
     sbind (score_states ss) (\<lambda>rest. sret ((s, score) # rest)))" for ss :: "word list"
    by (simp add: fun_eq_iff)
  then show ?case using Cons by (simp add: keeping)
qed

lemma keeps_draw_many [keeping]: "keeps ok (draw_many n xs)"
  by (induction n) (simp_all add: keeping)

lemma keeps_requests [keeping]:
  "keeps ok (generators_for p req)" "keeps ok (messages_for p mut req)"
  "keeps ok (select_random_requests p a b)" "keeps ok (select_suffix p)"
  unfolding generators_for_def messages_for_def select_random_requests_def select_suffix_def
  by (intro keeping)+

lemma keeps_dependent [keeping]: "keeps ok dependent_requests"
proof -
  have "keeps ok (\<lambda>st. case dep_chain dep cur [] (bz_tape st) of (r, t) \<Rightarrow> (r, st\<lparr>bz_tape := t\<rparr>))"
    for dep cur by (simp add: keeps_def ok_defs split: prod.split)
  then show ?thesis unfolding dependent_requests_def by (intro keeping)
qed

lemma keeps_selection [keeping]:
  "keeps ok (select_base_state p)" "keeps ok (select_mutated_seq p)"
  unfolding select_base_state_def select_mutated_seq_def clear_selection_def corpus_prefix_def
    seed_prefix_def guided_base_def random_base_def specific_base_def priority_base_def
    select_priority_state_def Let_def
  by (intro keeping keeps_frame; simp add: frame_def)+

lemma keeps_feedback [keeping]:
  "keeps ok (update_state_feedback sq n ti ri cons bug)"
  unfolding keeps_def
proof (intro allI impI)
  fix st :: "'w berserker" assume st: "ok st"
  show "ok (snd (update_state_feedback sq n ti ri cons bug st))"
  proof (cases "bz_selected st")
    case None
    then show ?thesis using st by (simp add: update_state_feedback_def)
  next
    case (Some s)
    show ?thesis
    proof (cases "map_of (bz_stats st) s")
      case None
      then show ?thesis using st Some by (simp add: update_state_feedback_def)
    next
      case e: (Some e)
      note eok = stats_lookup[OF st e]
      let ?sym = "if n < length sq then Some (fst (sq ! n)) else None"
      let ?c = "cover_transition (bz_machine st) (ss_state_id e) ?sym
        (ss_covered e, set_add (ss_state_id e) (bz_visited st), ss_state_id e \<notin> set (bz_visited st))"
      show ?thesis
      proof (cases "prefix_reached s sq n")
        case False
        then show ?thesis using st Some e by (simp add: update_state_feedback_def)
      next
        case True
        show ?thesis
        proof (cases ?c)
          case (Inl x)
          then show ?thesis using st Some e True
            by (simp add: update_state_feedback_def Let_def ok_defs)
        next
          case (Inr r)
          obtain cov vis disc where r: "r = (cov, vis, disc)" by (cases r)
          have m: "bz_machine st = machine" using st by (simp add: ok_defs)
          have "distinct cov \<and> set cov \<subseteq> set (outgoing_of machine (ss_state_id e))"
            using cover_transition_ok[of machine _ _ "ss_covered e"] Inr r m eok
            by (auto simp: stats_entry_ok_def)
          then have "stats_entry_ok machine (e\<lparr>ss_covered := cov, ss_total_reward := ss_total_reward e + x\<rparr>)"
            if "0 \<le> x" for x using eok that by (simp add: stats_entry_ok_def)
          then show ?thesis using st Some e True Inr r round_reward_nonneg
            by (auto simp: update_state_feedback_def Let_def ok_defs intro!: list_all_dict_put)
        qed
      qed
    qed
  qed
qed

lemma frame_analyze: "frame (analyze_cons p c ti ri)"
proof -
  have "bz_stats (foldl (learn_response c) st es) = bz_stats st \<and>
      bz_machine (foldl (learn_response c) st es) = bz_machine st \<and>
      bz_use_guidance (foldl (learn_response c) st es) = bz_use_guidance st \<and>
      bz_world (foldl (learn_response c) st es) = bz_world st" for st :: "'w berserker" and es
    by (induction es arbitrary: st) (auto simp: learn_response_def Let_def)
  then show ?thesis
    by (auto simp: frame_def analyze_cons_def Let_def intro: W_save split: prod.split)
qed

lemma W_remember_changes: "W w \<Longrightarrow> W (remember_changes p sq changed w)"
  unfolding remember_changes_def
  by (induction changed arbitrary: w) (auto intro: W_remember)

lemma keeps_build [keeping]: "keeps ok (build_round p)"
proof -
  have "keeps ok (offline_mutate p sq n)" for sq n
    by (auto simp: keeps_def offline_mutate_def ok_defs W_remember_changes split: prod.split)
  then show ?thesis unfolding build_round_def by (intro keeping)
qed

lemma keeps_round [keeping]: "keeps ok (run_round p)"
  unfolding run_round_def by (intro keeping keeps_frame frame_analyze)

lemma keeps_run_loop [keeping]: "keeps ok (run_loop p fuel energy completed)"
proof (induction fuel arbitrary: energy completed)
  case (Suc fuel)
  have "keeps ok (case r of Stopped_round \<Rightarrow> sret (Some completed)
      | Grown_round grown \<Rightarrow> sbind (sget (\<lambda>st. next_energy st grown energy)) (\<lambda>e. run_loop p fuel e (completed + 1)))"
    for r using Suc by (simp add: keeping split: round_end.split)
  then show ?case unfolding run_loop.simps by (intro keeping)
qed (simp add: keeping)

end

text \<open>Nothing is asked of the world for the statistics.\<close>

interpretation any_ports: scheduler_invariant p "\<lambda>_. True" machine guided for p machine guided
  by unfold_locales simp_all

section \<open>Priorities\<close>

lemma max_or_ge: "x \<in> set xs \<Longrightarrow> x \<le> max_or d xs"
  by (auto simp: max_or_def)

lemma normalized_unit: "0 \<le> x \<Longrightarrow> x \<le> m \<Longrightarrow> 0 \<le> normalized x m \<and> normalized x m \<le> 1"
  by (auto simp: normalized_def divide_le_eq)

lemma share_unit:
  fixes m :: nat
  assumes "0 \<le> x" "x \<le> real m"
  shows "0 \<le> x / real (max m 1) \<and> x / real (max m 1) \<le> 1"
proof -
  have "x \<le> real (max m 1)" using assms(2) by (simp add: of_nat_max)
  then show ?thesis using assms(1) by (simp add: divide_le_eq)
qed

lemma average_unit:
  fixes a b c d :: real
  shows "0 \<le> a \<and> a \<le> 1 \<Longrightarrow> 0 \<le> b \<and> b \<le> 1 \<Longrightarrow> 0 \<le> c \<and> c \<le> 1 \<Longrightarrow> 0 \<le> d \<and> d \<le> 1 \<Longrightarrow>
    0 \<le> (a + b + (c + d) / 2) / 3 \<and> (a + b + (c + d) / 2) / 3 \<le> 1"
  by (simp add: field_simps)

lemma priority_score_unit:
  assumes "list_all (\<lambda>e. stats_entry_ok machine (snd e)) all" "e \<in> snd ` set all"
  shows "0 \<le> priority_score all e \<and> priority_score all e \<le> 1"
proof -
  let ?items = "map snd all"
  let ?total = "sum_list (map ss_call_count ?items)"
  have e: "e \<in> set ?items" using assms(2) by simp
  have ok: "stats_entry_ok machine e" using assms(1) e by (auto simp: list_all_iff)
  have "0 \<le> normalized (average_reward e) (max_or 0 (map average_reward ?items)) \<and>
      normalized (average_reward e) (max_or 0 (map average_reward ?items)) \<le> 1"
    using ok e by (intro normalized_unit max_or_ge) (auto simp: average_reward_def stats_entry_ok_def)
  moreover have "0 \<le> normalized (exploration ?total e) (max_or 0 (map (exploration ?total) ?items)) \<and>
      normalized (exploration ?total e) (max_or 0 (map (exploration ?total) ?items)) \<le> 1"
    using e by (intro normalized_unit max_or_ge) (auto simp: exploration_def)
  moreover have depth: "real (ss_depth e) \<le> real (max_or 0 (map ss_depth ?items))"
  proof -
    have "ss_depth e \<in> set (map ss_depth ?items)" using e by (simp only: set_map) (rule imageI)
    from max_or_ge[OF this] show ?thesis by (rule of_nat_mono)
  qed
  moreover note share_unit[OF of_nat_0_le_iff depth]
  moreover have "length (ss_covered e) \<le> ss_out_degree e"
  proof -
    have "length (ss_covered e) = card (set (ss_covered e))"
      using ok by (simp add: stats_entry_ok_def distinct_card)
    also have "\<dots> \<le> card (set (outgoing_of machine (ss_state_id e)))"
      using ok by (intro card_mono) (auto simp: stats_entry_ok_def)
    also have "\<dots> \<le> ss_out_degree e"
      using ok card_length[of "outgoing_of machine (ss_state_id e)"] by (auto simp: stats_entry_ok_def)
    finally show ?thesis .
  qed
  then have cov: "0 \<le> real (ss_out_degree e) - real (length (ss_covered e))"
    by simp
  have "real (ss_out_degree e) - real (length (ss_covered e)) \<le> real (max_or 0 (map ss_out_degree ?items))"
  proof -
    have "ss_out_degree e \<in> set (map ss_out_degree ?items)" using e by (simp only: set_map) (rule imageI)
    then have "real (ss_out_degree e) \<le> real (max_or 0 (map ss_out_degree ?items))"
      by (intro of_nat_mono max_or_ge)
    then show ?thesis by linarith
  qed
  moreover note share_unit[OF cov this]
  ultimately show ?thesis unfolding priority_score_def Let_def by - (rule average_unit; assumption)
qed

lemma candidate_states_error: "candidate_states T access = Inl e \<Longrightarrow> e = KeyError"
proof -
  have "rfold (candidate_step T) acc access = Inl e \<Longrightarrow> e = KeyError" for acc
    by (induction access arbitrary: acc) (auto simp: candidate_step_def split: if_splits option.splits)
  then show "candidate_states T access = Inl e \<Longrightarrow> e = KeyError" by (simp add: candidate_states_def)
qed

lemma init_states_ok:
  assumes "init_states m = Inr (states, stats, visited)"
  shows "list_all (\<lambda>e. stats_entry_ok (Some m) (snd e)) stats"
proof -
  have "list_all (\<lambda>e. stats_entry_ok (Some m) (snd e)) (foldl (\<lambda>d (k, v). dict_put k v d) d es)"
    if "list_all (\<lambda>e. stats_entry_ok (Some m) (snd e)) d" "list_all (\<lambda>e. stats_entry_ok (Some m) (snd e)) es"
    for d and es :: "(word \<times> state_stats) list"
    using that
  proof (induction es arbitrary: d)
    case (Cons e es)
    then show ?case by (cases e) (simp add: list_all_dict_put)
  qed simp
  moreover have "list_all (\<lambda>e. stats_entry_ok (Some m) (snd e)) (map (new_stats_entry m) acc)" for acc
    by (auto simp: list_all_iff new_stats_entry_def stats_entry_ok_def outgoing_of_def)
  ultimately show ?thesis using assms by (auto simp: init_states_def Let_def split: prod.splits)
qed

lemma berserker_init_ok:
  assumes "berserker_init types dep machine guided corpus graph imported replay mut t1 t2 w = Inr st"
  shows "stats_ok machine guided st"
  using assms by (auto simp: berserker_init_def Let_def stats_ok_def init_states_ok split: option.splits if_splits)

lemma berserker_init_error:
  "berserker_init types dep machine guided corpus graph imported replay mut t1 t2 w = Inl e \<Longrightarrow> e = KeyError"
  by (auto simp: berserker_init_def Let_def init_states_def candidate_states_error
      split: option.splits if_splits prod.splits)

text \<open>
  C29. Construction fails only with a KeyError, for a prefix without a cell.  Otherwise, whatever the
  mapper, the executor and the counters answer and however the coins fall, after any number of
  rounds every state has a priority between 0 and 1: rewards never get negative, and no more
  transitions are marked as covered than the state has.
\<close>

theorem priorities_in_unit:
  "case berserker_init types dep machine guided corpus graph imported replay mut t1 t2 w of
     Inl e \<Rightarrow> e = KeyError
   | Inr st \<Rightarrow>
       let stats = bz_stats (snd (berserker_run p fuel energy st)) in
       list_all (\<lambda>(state, e). 0 \<le> priority_score stats e \<and> priority_score stats e \<le> 1) stats"
proof (cases "berserker_init types dep machine guided corpus graph imported replay mut t1 t2 w")
  case (Inl e)
  then show ?thesis using berserker_init_error by simp
next
  case (Inr st)
  from berserker_init_ok[OF Inr] have "stats_ok machine guided (snd (berserker_run p fuel energy st))"
    using any_ports.keeps_run_loop[of machine guided p fuel energy 0]
    by (simp add: keeps_def berserker_run_def any_ports.ok_def)
  then have "list_all (\<lambda>e. stats_entry_ok machine (snd e)) (bz_stats (snd (berserker_run p fuel energy st)))"
    by (simp add: stats_ok_def)
  from priority_score_unit[OF this] have
    "(state, e) \<in> set (bz_stats (snd (berserker_run p fuel energy st))) \<Longrightarrow>
     0 \<le> priority_score (bz_stats (snd (berserker_run p fuel energy st))) e \<and>
     priority_score (bz_stats (snd (berserker_run p fuel energy st))) e \<le> 1" for state e by force
  then show ?thesis by (auto simp: Inr Let_def list_all_iff)
qed

section \<open>The energy loop ends\<close>

text \<open>
  The counter of response transitions never falls while the scheduler runs and stays below a bound:
  it counts the distinct pairs of response types, of which a target has finitely many.
\<close>

definition counts_grow :: "'w sched_ports \<Rightarrow> int \<Rightarrow> bool" where
  "counts_grow p B \<longleftrightarrow> (\<forall>w. sp_resp_trans_num p w \<le> B) \<and>
     (\<forall>k. scheduler_invariant p (\<lambda>w. k \<le> sp_resp_trans_num p w))"

definition transitions :: "'w sched_ports \<Rightarrow> 'w berserker \<Rightarrow> int" where
  "transitions p st = sp_resp_trans_num p (bz_world st)"

text \<open>An action that keeps the statistics and every lower bound of the counter.\<close>

definition steady :: "'w sched_ports \<Rightarrow> ('w, 'a) sched \<Rightarrow> bool" where
  "steady p m \<longleftrightarrow> (\<forall>machine guided k.
     keeps (scheduler_invariant.ok (\<lambda>w. k \<le> sp_resp_trans_num p w) machine guided) m)"

lemma steadyD:
  assumes "counts_grow p B" "steady p m" "m st = (r, st')" "stats_ok machine guided st"
  shows "stats_ok machine guided st' \<and> transitions p st \<le> transitions p st'"
proof -
  have inv: "scheduler_invariant p (\<lambda>w. transitions p st \<le> sp_resp_trans_num p w)"
    using assms(1) by (simp add: counts_grow_def)
  note ok = scheduler_invariant.ok_def[OF inv, of machine guided]
  have "stats_ok machine guided st' \<and> transitions p st \<le> sp_resp_trans_num p (bz_world st')"
    using keepsD[OF assms(2)[unfolded steady_def, rule_format, of "transitions p st" machine guided] assms(3)] assms(4)
    unfolding ok by (simp add: transitions_def)
  then show ?thesis by (simp add: transitions_def)
qed

lemma steady_parts:
  assumes "counts_grow p B"
  shows "steady p (build_round p)" "steady p (in_world (sp_interact p sq))"
    "steady p (in_world (sp_should_stop p))" "steady p (update_state_feedback sq n ti ri cons bug)"
    "steady p (case cons of None \<Rightarrow> sret () | Some c \<Rightarrow> smodify (analyze_cons p c ti ri))"
proof -
  have inv: "scheduler_invariant p (\<lambda>w. k \<le> sp_resp_trans_num p w)" for k
    using assms by (simp add: counts_grow_def)
  note facts = scheduler_invariant.keeps_build[OF inv] scheduler_invariant.keeps_ports[OF inv]
    scheduler_invariant.keeps_feedback[OF inv] scheduler_invariant.keeps_frame[OF inv scheduler_invariant.frame_analyze[OF inv]]
  show "steady p (build_round p)" "steady p (in_world (sp_interact p sq))"
    "steady p (in_world (sp_should_stop p))" "steady p (update_state_feedback sq n ti ri cons bug)"
    "steady p (case cons of None \<Rightarrow> sret () | Some c \<Rightarrow> smodify (analyze_cons p c ti ri))"
    unfolding steady_def by (intro allI facts keeps_option keeps_basic)+
qed

lemma run_round_grows:
  assumes "counts_grow p B" "stats_ok machine guided st" "run_round p st = (Inr outcome, st')"
  shows "stats_ok machine guided st' \<and> transitions p st \<le> transitions p st' \<and>
    (outcome = Grown_round True \<longrightarrow> transitions p st < transitions p st')"
proof -
  note parts = steady_parts[OF assms(1)]
  note D = steadyD[OF assms(1)]
  let ?last = "transitions p st"
  from assms(3) obtain front sq s1 cons s2 stop s3 where
    s1: "build_round p st = (Inr (front, sq), s1)" and
    s2: "in_world (sp_interact p sq) s1 = (Inr cons, s2)" and
    s3: "in_world (sp_should_stop p) s2 = (Inr stop, s3)" and
    r: "(if stop then sret Stopped_round
     else sbind (sget (\<lambda>st. (sp_resp_trans_num p (bz_world st), sp_res_types_num p (bz_world st),
            sp_non_compliant p (bz_world st)))) (\<lambda>(cur_trans, cur_resp, cur_bad).
       sbind (update_state_feedback sq (length front) (cur_trans - ?last)
         (cur_resp - sp_res_types_num p (bz_world st)) cons (sp_non_compliant p (bz_world st) < cur_bad)) (\<lambda>_.
       sbind (case cons of None \<Rightarrow> sret ()
          | Some c \<Rightarrow> smodify (analyze_cons p c (cur_trans - ?last) (cur_resp - sp_res_types_num p (bz_world st)))) (\<lambda>_.
         sret (Grown_round (?last < cur_trans)))))) s3 = (Inr outcome, st')"
    unfolding run_round_def transitions_def
    by (auto elim!: sbind_InrE simp: sget_def split: prod.splits)
  have ok1: "stats_ok machine guided s1" "?last \<le> transitions p s1" using D[OF parts(1) s1 assms(2)] by auto
  have ok2: "stats_ok machine guided s2" "transitions p s1 \<le> transitions p s2" using D[OF parts(2) s2 ok1(1)] by auto
  have ok3: "stats_ok machine guided s3" "transitions p s2 \<le> transitions p s3" using D[OF parts(3) s3 ok2(1)] by auto
  show ?thesis
  proof (cases stop)
    case True
    then show ?thesis using r ok1 ok2 ok3 by (simp add: sret_def)
  next
    case False
    with r obtain u s4 v where
      s4: "update_state_feedback sq (length front) (transitions p s3 - ?last)
        (sp_res_types_num p (bz_world s3) - sp_res_types_num p (bz_world st)) cons
        (sp_non_compliant p (bz_world st) < sp_non_compliant p (bz_world s3)) s3 = (Inr u, s4)" and
      s5: "(case cons of None \<Rightarrow> sret ()
          | Some c \<Rightarrow> smodify (analyze_cons p c (transitions p s3 - ?last)
              (sp_res_types_num p (bz_world s3) - sp_res_types_num p (bz_world st)))) s4 =
          (Inr v :: exc + unit, st')" and
      out: "outcome = Grown_round (?last < transitions p s3)"
      by (auto elim!: sbind_InrE simp: sget_def sret_def simp flip: transitions_def)
    have ok4: "stats_ok machine guided s4" "transitions p s3 \<le> transitions p s4" using D[OF parts(4) s4 ok3(1)] by auto
    have ok5: "stats_ok machine guided st'" "transitions p s4 \<le> transitions p st'" using D[OF parts(5) s5 ok4(1)] by auto
    show ?thesis using ok1 ok2 ok3 ok4 ok5 out by auto
  qed
qed

text \<open>
  What a run has left: each completed round lowers it by one at least, since a round that gains
  energy also gains a transition.
\<close>

definition budget :: "'w sched_ports \<Rightarrow> int \<Rightarrow> 'w berserker \<Rightarrow> int \<Rightarrow> int" where
  "budget p B st energy = (if bz_use_guidance st then 2 * (B - transitions p st) + energy + 1 else energy)"

lemma run_loop_bounded:
  assumes "counts_grow p B"
  shows "stats_ok machine guided st \<Longrightarrow> nat (budget p B st energy) < fuel \<Longrightarrow>
    case fst (run_loop p fuel energy completed st) of
      Inl e \<Rightarrow> True
    | Inr None \<Rightarrow> False
    | Inr (Some n) \<Rightarrow> completed \<le> n \<and> n \<le> completed + nat (budget p B st energy)"
proof (induction fuel arbitrary: energy completed st)
  case (Suc fuel)
  have B: "transitions p st \<le> B" for st using assms by (simp add: counts_grow_def transitions_def)
  show ?case
  proof (cases "energy_left st energy")
    case False
    then show ?thesis by (simp add: sbind_def sget_def sret_def)
  next
    case left: True
    obtain stop s1 where s1: "in_world (sp_should_stop p) st = (Inr stop, s1)"
      by (cases "sp_should_stop p (bz_world st)") (simp add: in_world_def)
    note D1 = steadyD[OF assms steady_parts(3)[OF assms] s1 Suc.prems(1)]
    show ?thesis
    proof (cases stop)
      case True
      then show ?thesis using left s1 by (simp add: sbind_def sget_def sret_def)
    next
      case False
      obtain r s2 where s2: "run_round p s1 = (r, s2)" by (cases "run_round p s1")
      show ?thesis
      proof (cases r)
        case (Inl e)
        then show ?thesis using left s1 s2 False by (simp add: sbind_def sget_def sret_def)
      next
        case (Inr outcome)
        note D2 = run_round_grows[OF assms conjunct1[OF D1] s2[unfolded Inr]]
        show ?thesis
        proof (cases outcome)
          case Stopped_round
          then show ?thesis using left s1 s2 False Inr by (simp add: sbind_def sget_def sret_def)
        next
          case (Grown_round grown)
          let ?e = "next_energy s2 grown energy"
          have g: "bz_use_guidance st = guided" "bz_use_guidance s2 = guided"
            using Suc.prems(1) D2 by (simp_all add: stats_ok_def)
          have "budget p B s2 ?e < budget p B st energy" "0 < budget p B st energy"
            using D1 D2 B[of st] left Grown_round g
            by (cases grown; force simp: budget_def next_energy_def energy_left_def)+
          then have smaller: "nat (budget p B s2 ?e) < nat (budget p B st energy)" by linarith
          have "run_loop p (Suc fuel) energy completed st = run_loop p fuel ?e (completed + 1) s2"
            using left s1 s2 False Inr Grown_round by (simp add: sbind_def sget_def sret_def)
          then show ?thesis using Suc.IH[of s2 ?e "completed + 1"] Suc.prems(2) D2 smaller
            by (auto split: sum.splits option.splits)
        qed
      qed
    qed
  qed
qed simp


text \<open>A target with three response transitions, one more found in every interaction.\<close>

definition three_transitions :: "int sched_ports" where
  "three_transitions = \<lparr>sp_select_generators = \<lambda>req w. (map (\<lambda>r. (r, [])) req, w),
     sp_select_mutators = \<lambda>req w. ([], w), sp_has_mutators = \<lambda>w. False,
     sp_interact = \<lambda>sq w. (None, w + 1), sp_replay = \<lambda>sq w. w, sp_should_stop = \<lambda>w. (False, w),
     sp_res_types_num = \<lambda>w. 1, sp_resp_trans_num = \<lambda>w. min w 3, sp_non_compliant = \<lambda>w. 0,
     sp_save_cons = \<lambda>c reasons w. w, sp_remember_offline = \<lambda>bs t op w. w\<rparr>"


end
