(* ===== verification/Component_Paths.thy ===== *)
theory Component_Paths imports Prelude begin

text \<open>
  File names for component types, \<open>voltron/synthesizer/component_paths.py\<close>: percent-encoding of a
  display type with a digest for long names, and the check that a path stays below its root.

  A name is given by the bytes of its UTF-8 encoding.  SHA-256 and the resolution of paths in the
  file system are arguments.
\<close>

section \<open>Slugs\<close>

definition safe_bytes :: bytes where
  "safe_bytes = ascii ''ABCDEFGHIJKLMNOPQRSTUVWXYZabcdefghijklmnopqrstuvwxyz0123456789._-''"

definition windows_reserved :: "string list" where
  "windows_reserved = [''CON'', ''PRN'', ''AUX'', ''NUL''] @
     map (\<lambda>i. ''COM'' @ show_nat i) [1..<10] @ map (\<lambda>i. ''LPT'' @ show_nat i) [1..<10]"

definition hex_digit :: "nat \<Rightarrow> char" where
  "hex_digit n = char_of (if n < 10 then 48 + n else 55 + n)"

definition hex2 :: "byte \<Rightarrow> string" where
  "hex2 b = [hex_digit (unat b div 16), hex_digit (unat b mod 16)]"

definition char_of_byte :: "byte \<Rightarrow> char" where
  "char_of_byte b = char_of (unat b)"

definition slug_token :: "byte \<Rightarrow> string" where
  "slug_token b = (if b \<in> set safe_bytes then [char_of_byte b] else CHR ''%'' # hex2 b)"

definition slug_tokens :: "bytes \<Rightarrow> string list" where
  "slug_tokens raw =
     (let tokens = map slug_token raw;
          tokens' = (if tokens = [] then [''%00''] else tokens)
      in if hd tokens' = ''.'' then ''%2E'' # tl tokens' else tokens')"

definition slug_stem :: "string \<Rightarrow> string" where
  "slug_stem slug = map upper_c (takeWhile (\<lambda>c. c \<noteq> CHR ''.'') slug)"

definition escape_reserved :: "string \<Rightarrow> string" where
  "escape_reserved slug =
     (if slug_stem slug \<in> set windows_reserved
      then CHR ''%'' # hex2 (of_char (hd slug)) @ tl slug else slug)"

definition hexdigest :: "bytes \<Rightarrow> string" where
  "hexdigest digest = concat (map (\<lambda>b. map lower_c (hex2 b)) digest)"

text \<open>The loop over the tokens of a long name.\<close>

fun token_prefix :: "nat \<Rightarrow> nat \<Rightarrow> string list \<Rightarrow> string list" where
  "token_prefix limit n [] = []"
| "token_prefix limit n (t # ts) =
     (if limit < n + length t then [] else t # token_prefix limit (n + length t) ts)"

definition shorten :: "(bytes \<Rightarrow> bytes) \<Rightarrow> nat \<Rightarrow> bytes \<Rightarrow> string \<Rightarrow> string" where
  "shorten sha256 max_length raw slug =
     (if max_length < length slug then
        (let suffix = CHR ''~'' # take 16 (hexdigest (sha256 raw))
         in concat (token_prefix (max_length - length suffix) 0 (slug_tokens raw)) @ suffix)
      else slug)"

definition type_to_slug :: "(bytes \<Rightarrow> bytes) \<Rightarrow> nat \<Rightarrow> bytes \<Rightarrow> string result" where
  "type_to_slug sha256 max_length raw =
     (if 0 \<in> set raw then Inl ValueError
      else if max_length < 32 then Inl ValueError
      else
        (let slug = shorten sha256 max_length raw (escape_reserved (concat (slug_tokens raw)))
         in if slug \<in> {[], ''.'', ''..''} then Inl ValueError
            else if CHR ''/'' \<in> set slug then Inl ValueError
            else Inr slug))"

definition DEFAULT_MAX_SLUG_LENGTH :: nat where
  "DEFAULT_MAX_SLUG_LENGTH = 180"

text \<open>\<open>inside\<close> stands for the comparison of the resolved paths.\<close>

definition component_type_dir ::
    "(string \<Rightarrow> string \<Rightarrow> bool) \<Rightarrow> (bytes \<Rightarrow> bytes) \<Rightarrow> string \<Rightarrow> bytes \<Rightarrow> string result" where
  "component_type_dir inside sha256 base type_name =
     rbind (type_to_slug sha256 DEFAULT_MAX_SLUG_LENGTH type_name) (\<lambda>slug.
       let path = base @ ''/'' @ slug
       in if inside base path then Inr path else Inl ValueError)"

section \<open>Reading a slug back\<close>

definition hex_value :: "char \<Rightarrow> nat" where
  "hex_value c = (if is_digit_c c then code_of c - 48 else code_of c - 55)"

fun unslug :: "string \<Rightarrow> bytes" where
  "unslug (c # r) =
     (if c = CHR ''%'' then
        (case r of
           a # b # r' \<Rightarrow> of_nat (hex_value a * 16 + hex_value b) # unslug r'
         | _ \<Rightarrow> [of_char c])
      else of_char c # unslug r)"
| "unslug [] = []"

text \<open>The characters of an encoded name; the tilde only starts the digest of a long one.\<close>

definition slug_char :: "char \<Rightarrow> bool" where
  "slug_char c \<longleftrightarrow> c = CHR ''%'' \<or> of_char c \<in> set safe_bytes"

lemma of_char_byte [simp]: "of_char (char_of_byte b) = b"
proof -
  have "unat b < 2 ^ LENGTH(8)" by (rule unsigned_less)
  then have n: "of_char (char_of (unat b)) = unat b" by (simp add: take_bit_eq_mod)
  have "of_char (char_of (unat b)) = (of_nat (of_char (char_of (unat b)) :: nat) :: byte)"
    by (simp only: of_nat_of_char)
  then show ?thesis unfolding char_of_byte_def n by simp
qed

lemma hex_value_digit: "n < 16 \<Longrightarrow> hex_value (hex_digit n) = n"
proof -
  assume "n < 16"
  have "code_of (hex_digit n) = (if n < 10 then 48 + n else 55 + n)"
    using \<open>n < 16\<close> by (simp add: code_of_def hex_digit_def)
  then show ?thesis using \<open>n < 16\<close> by (simp add: hex_value_def is_digit_c_def)
qed

lemma unslug_hex2: "unslug (CHR ''%'' # hex2 b @ r) = b # unslug r"
proof -
  have "unat b < 2 ^ LENGTH(8)" by (rule unsigned_less)
  then have "unat b div 16 < 16" by simp
  then have "hex_value (hex_digit (unat b div 16)) * 16 + hex_value (hex_digit (unat b mod 16)) = unat b"
    by (simp add: hex_value_digit)
  then have "(of_nat (hex_value (hex_digit (unat b div 16)) * 16 + hex_value (hex_digit (unat b mod 16))) :: byte) = b"
    by (simp del: of_nat_add of_nat_mult)
  then show ?thesis by (simp add: hex2_def del: of_nat_add of_nat_mult)
qed

lemma safe_not_percent: "b \<in> set safe_bytes \<Longrightarrow> char_of_byte b \<noteq> CHR ''%''"
proof
  assume "b \<in> set safe_bytes" "char_of_byte b = CHR ''%''"
  then have "of_char (CHR ''%'') \<in> set safe_bytes" by (metis of_char_byte)
  moreover have "of_char (CHR ''%'') \<notin> set safe_bytes" by code_simp
  ultimately show False by simp
qed

lemma unslug_token: "unslug (slug_token b @ r) = b # unslug r"
  using unslug_hex2[of b r] safe_not_percent[of b] by (simp add: slug_token_def)

lemma unslug_tokens: "unslug (concat (slug_tokens raw)) = (if raw = [] then [0] else raw)"
proof -
  have all: "unslug (concat (map slug_token bs) @ r) = bs @ unslug r" for bs r
    by (induction bs) (simp_all add: unslug_token)
  show ?thesis
  proof (cases raw)
    case Nil
    then show ?thesis by (simp add: slug_tokens_def hex_value_def is_digit_c_def code_of_def)
  next
    case (Cons b bs)
    have dot: "unslug (''%2E'' @ r) = 46 # unslug r" for r
      by (simp add: hex_value_def is_digit_c_def code_of_def)
    show ?thesis
    proof (cases "slug_token b = ''.''")
      case True
      then have "char_of_byte b = CHR ''.''" by (auto simp: slug_token_def hex2_def split: if_splits)
      then have "b = of_char CHR ''.''" by (metis of_char_byte)
      then have "b = 46" by simp
      then show ?thesis using Cons True dot[of "concat (map slug_token bs)"] all[of bs "[]"]
        by (simp add: slug_tokens_def Let_def)
    next
      case False
      then show ?thesis using Cons all[of "b # bs" "[]"] by (simp add: slug_tokens_def Let_def)
    qed
  qed
qed

lemma hex2_safe: "list_all slug_char (hex2 b)"
proof -
  have "\<forall>n < 16. of_char (hex_digit n) \<in> set safe_bytes"
  proof -
    have "list_all (\<lambda>n. of_char (hex_digit n) \<in> set safe_bytes) [0..<16]" by code_simp
    then show ?thesis by (simp add: list_all_iff)
  qed
  moreover have "unat b < 2 ^ LENGTH(8)" by (rule unsigned_less)
  then have "unat b div 16 < 16" by simp
  ultimately show ?thesis by (simp add: hex2_def slug_char_def)
qed

lemma tokens_safe: "t \<in> set (slug_tokens raw) \<Longrightarrow> list_all slug_char t \<and> t \<noteq> []"
proof -
  have tok: "list_all slug_char (slug_token b) \<and> slug_token b \<noteq> []" for b
    using hex2_safe[of b] by (auto simp: slug_token_def slug_char_def)
  have const: "list_all slug_char ''%00'' \<and> list_all slug_char ''%2E''"
    by code_simp
  assume "t \<in> set (slug_tokens raw)"
  then have "t = ''%00'' \<or> t = ''%2E'' \<or> t \<in> set (map slug_token raw)"
    by (auto simp: slug_tokens_def Let_def split: if_splits dest: list.set_sel(2)[rotated])
  then show ?thesis using tok const by auto
qed

lemma slug_tokens_first: "slug_tokens raw \<noteq> [] \<and> hd (slug_tokens raw) \<noteq> ''.''"
  by (auto simp: slug_tokens_def Let_def)

lemma reserved_letters: "w \<in> set windows_reserved \<Longrightarrow> w \<noteq> [] \<and> hd w \<noteq> CHR ''%''"
proof -
  have "list_all (\<lambda>w. w \<noteq> [] \<and> hd w \<noteq> CHR ''%'') windows_reserved" by code_simp
  then show "w \<in> set windows_reserved \<Longrightarrow> w \<noteq> [] \<and> hd w \<noteq> CHR ''%''" by (simp add: list_all_iff)
qed

lemma escape_reserved_cases:
  "escape_reserved slug = slug \<or>
   (\<exists>c r. slug = c # r \<and> c \<noteq> CHR ''%'' \<and> escape_reserved slug = CHR ''%'' # hex2 (of_char c) @ r)"
proof (cases "slug_stem slug \<in> set windows_reserved")
  case True
  note letters = reserved_letters[OF True]
  then obtain c r where s: "slug = c # r" by (cases slug) (auto simp: slug_stem_def)
  with letters have "upper_c c \<noteq> CHR ''%''" by (auto simp: slug_stem_def split: if_splits)
  then have "c \<noteq> CHR ''%''" by (auto simp: upper_c_def code_of_def)
  with True s show ?thesis by (simp add: escape_reserved_def)
qed (simp add: escape_reserved_def)

lemma unslug_escape: "unslug (escape_reserved slug) = unslug slug"
  using escape_reserved_cases[of slug] unslug_hex2 by auto

lemma escape_safe: "list_all slug_char slug \<Longrightarrow> list_all slug_char (escape_reserved slug)"
  using escape_reserved_cases[of slug] hex2_safe by (auto simp: slug_char_def)

lemma concat_tokens_safe: "list_all slug_char (concat (slug_tokens raw))"
  using tokens_safe by (fastforce simp: list_all_iff)

lemma token_prefix_bound:
  "n \<le> limit \<Longrightarrow> n + length (concat (token_prefix limit n ts)) \<le> limit"
proof (induction ts arbitrary: n)
  case (Cons t ts)
  show ?case
  proof (cases "limit < n + length t")
    case False
    then show ?thesis using Cons.IH[of "n + length t"] by (simp add: add.assoc)
  qed (use Cons.prems in simp)
qed simp

lemma token_prefix_sub: "set (token_prefix limit n ts) \<subseteq> set ts"
  by (induction ts arbitrary: n) auto

lemma hexdigest_chars: "c \<in> set (hexdigest d) \<Longrightarrow> slug_char c"
proof -
  have low: "\<forall>n < 16. slug_char (lower_c (hex_digit n))"
  proof -
    define up low where "up = ''0123456789ABCDEF''" and "low = ''0123456789abcdef''"
    have digits: "list_all (\<lambda>n. hex_digit n \<in> set up) [0..<16]" unfolding up_def by code_simp
    have lower: "map lower_c up = low" unfolding up_def low_def by code_simp
    have safe: "list_all slug_char low" unfolding low_def by code_simp
    show ?thesis
    proof (intro allI impI)
      fix n :: nat assume "n < 16"
      with digits have "hex_digit n \<in> set up" by (simp add: list_all_iff)
      then have "lower_c (hex_digit n) \<in> set low" unfolding lower[symmetric] by simp
      with safe show "slug_char (lower_c (hex_digit n))" by (simp add: list_all_iff)
    qed
  qed
  have "unat b div 16 < 16" for b :: byte
  proof -
    have "unat b < 2 ^ LENGTH(8)" by (rule unsigned_less)
    then show ?thesis by simp
  qed
  with low show "c \<in> set (hexdigest d) \<Longrightarrow> slug_char c" by (auto simp: hexdigest_def hex2_def)
qed

lemma concat_ne: "xs \<noteq> [] \<Longrightarrow> (\<And>x. x \<in> set xs \<Longrightarrow> x \<noteq> []) \<Longrightarrow> concat xs \<noteq> []"
  by (cases xs) auto

lemma dots_not_tokens: "concat (slug_tokens raw) \<notin> {[], ''.'', ''..''}"
proof -
  obtain t ts where t: "slug_tokens raw = t # ts" using slug_tokens_first[of raw] by (cases "slug_tokens raw") auto
  have "t \<noteq> []" "t \<noteq> ''.''" using t slug_tokens_first[of raw] tokens_safe[of t raw] by auto
  moreover have "length t = 1 \<or> length t = 3"
  proof -
    have "length (slug_token b) = 1 \<or> length (slug_token b) = 3" for b by (simp add: slug_token_def hex2_def)
    then show ?thesis using t by (cases raw) (auto simp: slug_tokens_def Let_def split: if_splits)
  qed
  ultimately show ?thesis by (auto simp: t Cons_eq_append_conv append_eq_Cons_conv)
qed

definition encoded_name :: "bytes \<Rightarrow> string" where
  "encoded_name raw = escape_reserved (concat (slug_tokens raw))"

lemma unslug_encoded: "unslug (encoded_name raw) = (if raw = [] then [0] else raw)"
  by (simp add: encoded_name_def unslug_escape unslug_tokens)

lemma encoded_safe: "list_all slug_char (encoded_name raw)"
  unfolding encoded_name_def by (intro escape_safe concat_tokens_safe)

lemma encoded_not_dots: "encoded_name raw \<notin> {[], ''.'', ''..''}"
proof -
  from escape_reserved_cases[of "concat (slug_tokens raw)"] show ?thesis
    using dots_not_tokens[of raw] by (auto simp: encoded_name_def)
qed

lemma slug_char_not: "\<not> slug_char CHR ''/''" "\<not> slug_char CHR ''~''"
  by code_simp+

lemma shorten_long:
  assumes "32 \<le> m" "m < length slug"
  obtains front ending where "shorten sha256 m raw slug = front @ CHR ''~'' # ending"
    "list_all slug_char front" "ending = take 16 (hexdigest (sha256 raw))"
    "length (front @ CHR ''~'' # ending) \<le> m"
proof -
  let ?ending = "CHR ''~'' # take 16 (hexdigest (sha256 raw))"
  let ?front = "concat (token_prefix (m - length ?ending) 0 (slug_tokens raw))"
  have "length ?ending \<le> 17" by simp
  then have "length ?front + length ?ending \<le> m"
    using token_prefix_bound[of 0 "m - length ?ending" "slug_tokens raw"] assms(1) by linarith
  moreover have "list_all slug_char ?front"
    using token_prefix_sub[of "m - length ?ending" 0 "slug_tokens raw"] tokens_safe
    by (fastforce simp: list_all_iff)
  ultimately show ?thesis using that[of ?front] assms(2) by (simp add: shorten_def Let_def)
qed

lemma hexdigest_safe: "list_all slug_char (take n (hexdigest d))"
  using hexdigest_chars by (auto simp: list_all_iff dest: in_set_takeD)

lemma slug_no_slash:
  assumes "32 \<le> m"
  shows "CHR ''/'' \<notin> set (shorten sha256 m raw (encoded_name raw))"
proof (cases "m < length (encoded_name raw)")
  case True
  from shorten_long[OF assms True] obtain front ending where
    "shorten sha256 m raw (encoded_name raw) = front @ CHR ''~'' # ending"
    "list_all slug_char front" "ending = take 16 (hexdigest (sha256 raw))" by metis
  then show ?thesis using slug_char_not hexdigest_safe[of 16 "sha256 raw"] by (auto simp: list_all_iff)
next
  case False
  then show ?thesis using encoded_safe[of raw] slug_char_not by (auto simp: shorten_def list_all_iff)
qed

text \<open>
  C30. Encoding a type name raises a ValueError exactly for a name with a NUL byte or a length limit
  below 32.  Otherwise the slug has safe characters only, so it is one path component inside its
  directory and neither \<open>.\<close> nor \<open>..\<close>, and it keeps the limit.  Unless the name is too long, reading
  the slug back gives the name, so different names get different slugs; a too long name ends in a
  tilde and the digest of the whole name.
\<close>

theorem type_slug_roundtrip:
  "case type_to_slug sha256 m raw of
     Inl e \<Rightarrow> e = ValueError \<and> (0 \<in> set raw \<or> m < 32)
   | Inr slug \<Rightarrow> 0 \<notin> set raw \<and> 32 \<le> m \<and> length slug \<le> m \<and> slug \<notin> {[], ''.'', ''..''} \<and>
       list_all (\<lambda>c. slug_char c \<or> c = CHR ''~'') slug \<and>
       (if length (encoded_name raw) \<le> m
        then list_all slug_char slug \<and> unslug slug = (if raw = [] then [0] else raw)
        else \<exists>front. slug = front @ CHR ''~'' # take 16 (hexdigest (sha256 raw)) \<and> list_all slug_char front)"
proof (cases "0 \<in> set raw \<or> m < 32")
  case True
  then show ?thesis by (auto simp: type_to_slug_def)
next
  case False
  let ?slug = "shorten sha256 m raw (encoded_name raw)"
  have slug: "length ?slug \<le> m \<and> ?slug \<notin> {[], ''.'', ''..''} \<and>
     list_all (\<lambda>c. slug_char c \<or> c = CHR ''~'') ?slug \<and>
     (if length (encoded_name raw) \<le> m
      then list_all slug_char ?slug \<and> unslug ?slug = (if raw = [] then [0] else raw)
      else \<exists>front. ?slug = front @ CHR ''~'' # take 16 (hexdigest (sha256 raw)) \<and> list_all slug_char front)"
  proof (cases "length (encoded_name raw) \<le> m")
    case True
    then have "?slug = encoded_name raw" by (simp add: shorten_def)
    then show ?thesis using True encoded_safe[of raw] encoded_not_dots[of raw] unslug_encoded[of raw]
      by (auto simp: list_all_iff)
  next
    case long: False
    with False obtain front ending where f: "?slug = front @ CHR ''~'' # ending"
      "list_all slug_char front" "ending = take 16 (hexdigest (sha256 raw))"
      "length (front @ CHR ''~'' # ending) \<le> m"
      using shorten_long[of m "encoded_name raw" sha256 raw] by (metis not_le)
    have "list_all slug_char ending" using f(3) hexdigest_safe by simp
    moreover have "?slug \<notin> {[], ''.'', ''..''}" unfolding f(1) by (auto simp: append_eq_Cons_conv)
    ultimately show ?thesis using long f by (auto simp: list_all_iff)
  qed
  with False slug_no_slash[of m sha256 raw] have "type_to_slug sha256 m raw = Inr ?slug"
    by (simp add: type_to_slug_def Let_def flip: encoded_name_def)
  with slug False show ?thesis by (simp only: sum.case) auto
qed

text \<open>
  The escape of Windows device names is lost for long names: it is applied to the slug before
  the length test, but the shortened slug is built from the tokens again.  A long name that starts
  with a device name and a dot keeps that stem, while a short one is escaped.
\<close>

theorem long_device_name_kept:
  "type_to_slug sha256 32 (ascii ''CON.request'') = Inr ''%43ON.request'' \<and>
   (case type_to_slug sha256 32 (ascii ''CON.request.with.a.longer.name.here'') of
      Inl e \<Rightarrow> False | Inr slug \<Rightarrow> slug_stem slug = ''CON'' \<and> slug_stem slug \<in> set windows_reserved)"
proof -
  define short long where "short = ascii ''CON.request''" and "long = ascii ''CON.request.with.a.longer.name.here''"
  have short: "encoded_name short = ''%43ON.request''" "0 \<notin> set short"
    unfolding short_def by code_simp+
  have long: "length (encoded_name long) = 37" "0 \<notin> set long"
    unfolding long_def by code_simp+
  define ending where "ending = CHR ''~'' # take 16 (hexdigest (sha256 long))"
  define front where "front = concat (token_prefix (32 - length ending) 0 (slug_tokens long))"
  have "list_all (\<lambda>l. take 4 (concat (token_prefix l 0 (slug_tokens long))) = ''CON.'') [15..<32]"
    unfolding long_def by code_simp
  moreover have "1 \<le> length ending" "length ending \<le> 17" by (simp_all add: ending_def)
  then have "15 \<le> 32 - length ending \<and> 32 - length ending < 32" by linarith
  then have "32 - length ending \<in> set [15..<32]" by (simp only: set_upt atLeastLessThan_iff)
  ultimately have "take 4 front = ''CON.''" unfolding list_all_iff front_def by blast
  then obtain r where r: "front = ''CON.'' @ r" by (metis append_take_drop_id)
  then have "type_to_slug sha256 32 long = Inr (front @ ending)"
    using long slug_char_not slug_no_slash[of 32 sha256 long]
    by (simp add: type_to_slug_def Let_def shorten_def front_def ending_def flip: encoded_name_def)
  moreover have "slug_stem (front @ ending) = ''CON''" "''CON'' \<in> set windows_reserved"
    by (simp_all add: r slug_stem_def upper_c_def code_of_def windows_reserved_def)
  moreover have "type_to_slug sha256 32 short = Inr ''%43ON.request''"
    using short by (simp add: type_to_slug_def Let_def shorten_def flip: encoded_name_def)
  ultimately show ?thesis by (simp add: short_def long_def)
qed

end
