(* ===== verification/Equipment.thy ===== *)
theory Equipment imports Component_Paths begin

text \<open>
  The equipment of \<open>voltron/synthesizer/synthesizer.py\<close>: the versions of generated components, the
  files that hold their source, the filters over a loaded cache, the publication of a new version
  and the repair loop.

  The file system is a dictionary from paths to contents.  The language model, the validation of
  candidate code in a subprocess, SHA-256 and the resolution of paths are the record
  \<open>producer_env\<close> over an arbitrary world.  Strings are given by their UTF-8 bytes.  Only the kind,
  type, outcome and attempt of a record of the generation manifest are kept.
\<close>

section \<open>State\<close>

text \<open>One record for Generator, Parser, Checker and ResponseObserver; \<open>cp_id\<close> is the identity of the object.\<close>

record component =
  cp_id :: nat
  cp_msg_type :: string
  cp_name :: string
  cp_evolved_from :: string
  cp_path :: string
  cp_state_field :: string
  cp_contract :: string
  cp_ir_sha :: string

type_synonym versions = "(string, component list) dict"

datatype llm_answer = Deadline_exceeded | Llm_error string | Llm_code string

record 'w producer_env =
  pe_gen_root :: string
  pe_mut_root :: string
  pe_par_root :: string
  pe_chk_root :: string
  pe_obs_root :: string
  pe_contract :: string
  pe_retry_limit :: int
  pe_sha256 :: "bytes \<Rightarrow> bytes"
  pe_inside :: "string \<Rightarrow> string \<Rightarrow> bool"
  pe_state_field :: "'w \<Rightarrow> string"
  pe_ir_sha :: "string \<Rightarrow> 'w \<Rightarrow> string"
  pe_repair_code :: "string \<Rightarrow> string \<Rightarrow> string \<Rightarrow> 'w \<Rightarrow> llm_answer \<times> 'w"
  pe_validate :: "string \<Rightarrow> string \<Rightarrow> string \<Rightarrow> bytes list \<Rightarrow> 'w \<Rightarrow> string option \<times> 'w"

record 'w plant =
  pl_generators :: versions
  pl_mutators :: versions
  pl_checkers :: versions
  pl_observers :: versions
  pl_parsers :: "component list"
  pl_files :: "(string, string) dict"
  pl_type_paths :: "(string, string) dict"
  pl_manifest :: "(string \<times> string \<times> string \<times> nat) list"
  pl_next_id :: nat
  pl_attempts :: nat
  pl_world :: 'w

type_synonym ('w, 'z, 'a) making = "(exc, ('w, 'z) plant_scheme, 'a) action"

definition llm_deadline_exceeded :: exc where
  "llm_deadline_exceeded = RuntimeError ''LLMDeadlineExceeded''"

definition ask :: "('w \<Rightarrow> 'a \<times> 'w) \<Rightarrow> ('w, 'z, 'a) making" where
  "ask f st = (case f (pl_world st) of (x, w) \<Rightarrow> (Inr x, st\<lparr>pl_world := w\<rparr>))"

definition is_file :: "string \<Rightarrow> ('w, 'z) plant_scheme \<Rightarrow> bool" where
  "is_file path st \<longleftrightarrow> path \<in> fst ` set (pl_files st)"

definition record_generation ::
    "string \<Rightarrow> string \<Rightarrow> string \<Rightarrow> nat \<Rightarrow> ('w, 'z, unit) making" where
  "record_generation component msg_type outcome attempt =
     smodify (\<lambda>st. st\<lparr>pl_manifest := pl_manifest st @ [(component, msg_type, outcome, attempt)]\<rparr>)"

section \<open>Versions of a kind\<close>

definition get_versions :: "string \<Rightarrow> ('w, 'z) plant_scheme \<Rightarrow> versions" where
  "get_versions component st =
     (if component = ''generator'' then pl_generators st
      else if component = ''mutator'' then pl_mutators st
      else if component = ''checker'' then pl_checkers st
      else pl_observers st)"

definition put_versions :: "string \<Rightarrow> versions \<Rightarrow> ('w, 'z) plant_scheme \<Rightarrow> ('w, 'z) plant_scheme" where
  "put_versions component vs st =
     (if component = ''generator'' then st\<lparr>pl_generators := vs\<rparr>
      else if component = ''mutator'' then st\<lparr>pl_mutators := vs\<rparr>
      else if component = ''checker'' then st\<lparr>pl_checkers := vs\<rparr>
      else st\<lparr>pl_observers := vs\<rparr>)"

definition root_of :: "'w producer_env \<Rightarrow> string \<Rightarrow> string" where
  "root_of env component =
     (if component = ''generator'' then pe_gen_root env
      else if component = ''mutator'' then pe_mut_root env
      else if component = ''checker'' then pe_chk_root env
      else pe_obs_root env)"

definition py_file :: "string \<Rightarrow> string \<Rightarrow> string" where
  "py_file dir name = dir @ ''/'' @ name @ ''.py''"

section \<open>Paths of component types\<close>

text \<open>The recorded map from types to slugs: two types that get the same slug raise a ValueError.\<close>

definition record_type_path :: "'w producer_env \<Rightarrow> string \<Rightarrow> ('w, 'z, unit) making" where
  "record_type_path env type_name =
     sbind (slift (type_to_slug (pe_sha256 env) DEFAULT_MAX_SLUG_LENGTH (ascii type_name))) (\<lambda>slug.
     sbind (sget pl_type_paths) (\<lambda>known.
       if list_ex (\<lambda>(t, s). s = slug \<and> t \<noteq> type_name) known then slift (Inl ValueError)
       else if map_of known type_name = Some slug then sret ()
       else smodify (\<lambda>st. st\<lparr>pl_type_paths := dict_put type_name slug (pl_type_paths st)\<rparr>)))"

definition producer_type_dir :: "'w producer_env \<Rightarrow> bool \<Rightarrow> string \<Rightarrow> string \<Rightarrow> ('w, 'z, string) making" where
  "producer_type_dir env record_path base type_name =
     sbind (if record_path then record_type_path env type_name else sret ()) (\<lambda>_.
       slift (component_type_dir (pe_inside env) (pe_sha256 env) base (ascii type_name)))"

definition component_source_path :: "'w producer_env \<Rightarrow> string \<Rightarrow> component \<Rightarrow> ('w, 'z, string) making" where
  "component_source_path env base c =
     sbind (producer_type_dir env False base (cp_msg_type c)) (\<lambda>dir.
     sbind (sget (\<lambda>st. \<lambda>path. is_file path st)) (\<lambda>exists.
       let typed_path = py_file dir (cp_name c) in
       sret (if exists typed_path then typed_path
             else if cp_path c \<noteq> [] \<and> pe_inside env base (cp_path c) \<and> exists (cp_path c) then cp_path c
             else typed_path)))"

section \<open>Filters over a loaded cache\<close>

definition filter_generator :: "'w producer_env \<Rightarrow> string \<Rightarrow> component list \<Rightarrow> component \<Rightarrow>
    ('w, 'z, component list) making" where
  "filter_generator env msg_type kept g =
     sbind (component_source_path env (pe_gen_root env) g) (\<lambda>path.
     sbind (sget (\<lambda>st. map_of (pl_files st) path)) (\<lambda>source.
     case source of
       None \<Rightarrow> sret kept
     | Some code \<Rightarrow>
         sbind (ask (pe_validate env code ''generate'' ''generator'' [])) (\<lambda>error.
         case error of
           None \<Rightarrow> sbind (record_generation ''generator'' msg_type ''reused_cache'' 0) (\<lambda>_. sret (kept @ [g]))
         | Some _ \<Rightarrow> sbind (record_generation ''generator'' msg_type ''cache_invalid'' 0) (\<lambda>_. sret kept))))"

fun filter_generator_versions :: "'w producer_env \<Rightarrow> string \<Rightarrow> component list \<Rightarrow> component list \<Rightarrow>
    ('w, 'z, component list) making" where
  "filter_generator_versions env msg_type kept [] st = (Inr kept, st)"
| "filter_generator_versions env msg_type kept (g # gs) st =
     sbind (filter_generator env msg_type kept g) (\<lambda>kept'. filter_generator_versions env msg_type kept' gs) st"

text \<open>A type without a valid version keeps its latest one.\<close>

fun filter_generator_types :: "'w producer_env \<Rightarrow> versions \<Rightarrow> versions \<Rightarrow> ('w, 'z, versions) making" where
  "filter_generator_types env filtered [] st = (Inr filtered, st)"
| "filter_generator_types env filtered ((msg_type, vs) # rest) st =
     sbind (filter_generator_versions env msg_type [] vs) (\<lambda>kept.
       filter_generator_types env
         (if kept \<noteq> [] then filtered @ [(msg_type, kept)]
          else if vs \<noteq> [] then filtered @ [(msg_type, [last vs])] else filtered) rest) st"

definition filter_invalid_cached_generators :: "'w producer_env \<Rightarrow> ('w, 'z, unit) making" where
  "filter_invalid_cached_generators env =
     sbind (sget pl_generators) (\<lambda>vs.
     sbind (filter_generator_types env [] vs) (\<lambda>filtered.
       smodify (\<lambda>st. st\<lparr>pl_generators := filtered\<rparr>)))"

text \<open>Of the mutators the latest valid version alone stays; the path of the metadata is tried as it is.\<close>

fun filter_mutator_versions :: "'w producer_env \<Rightarrow> string \<Rightarrow> component list \<Rightarrow> ('w, 'z, component option) making" where
  "filter_mutator_versions env msg_type [] st = (Inr None, st)"
| "filter_mutator_versions env msg_type (m # ms) st =
     sbind (component_source_path env (pe_mut_root env) m) (\<lambda>path0.
     sbind (sget (\<lambda>st. if \<not> is_file path0 st \<and> cp_path m \<noteq> [] then cp_path m else path0)) (\<lambda>path.
     sbind (sget (\<lambda>st. map_of (pl_files st) path)) (\<lambda>source.
     case source of
       None \<Rightarrow> filter_mutator_versions env msg_type ms
     | Some code \<Rightarrow>
         sbind (ask (pe_validate env code ''mutate'' ''mutator'' [])) (\<lambda>error.
         case error of
           None \<Rightarrow> sbind (record_generation ''mutator'' msg_type ''reused_cache'' 0) (\<lambda>_. sret (Some m))
         | Some _ \<Rightarrow> sbind (record_generation ''mutator'' msg_type ''cache_invalid'' 0) (\<lambda>_.
             filter_mutator_versions env msg_type ms))))) st"

fun filter_mutator_types :: "'w producer_env \<Rightarrow> versions \<Rightarrow> versions \<Rightarrow> ('w, 'z, versions) making" where
  "filter_mutator_types env filtered [] st = (Inr filtered, st)"
| "filter_mutator_types env filtered ((msg_type, vs) # rest) st =
     sbind (filter_mutator_versions env msg_type (rev vs)) (\<lambda>kept.
       filter_mutator_types env
         (case kept of None \<Rightarrow> filtered | Some m \<Rightarrow> filtered @ [(msg_type, [m])]) rest) st"

definition filter_invalid_cached_mutators :: "'w producer_env \<Rightarrow> ('w, 'z, unit) making" where
  "filter_invalid_cached_mutators env =
     sbind (sget pl_mutators) (\<lambda>vs.
     sbind (filter_mutator_types env [] vs) (\<lambda>filtered.
       smodify (\<lambda>st. st\<lparr>pl_mutators := filtered\<rparr>)))"

section \<open>Publication\<close>

definition write_file :: "string \<Rightarrow> string \<Rightarrow> ('w, 'z, unit) making" where
  "write_file path text = smodify (\<lambda>st. st\<lparr>pl_files := dict_put path text (pl_files st)\<rparr>)"

definition new_component :: "(nat \<Rightarrow> component) \<Rightarrow> ('w, 'z, component) making" where
  "new_component mk =
     sbind (sget pl_next_id) (\<lambda>i.
     sbind (smodify (\<lambda>st. st\<lparr>pl_next_id := i + 1\<rparr>)) (\<lambda>_. sret (mk i)))"

text \<open>The name of the latest version, and the name of the next one: its position in the list.\<close>

definition latest_name :: "component list \<Rightarrow> string" where
  "latest_name vs = (if vs = [] then ''init'' else cp_name (last vs))"

definition version_name :: "nat \<Rightarrow> string" where
  "version_name n = ''id'' @ show_nat n"

definition publish_parser :: "'w producer_env \<Rightarrow> string \<Rightarrow> ('w, 'z, component) making" where
  "publish_parser env code =
     sbind (sget (\<lambda>st. (pl_parsers st, pe_state_field env (pl_world st)))) (\<lambda>(parsers, field).
     let name = version_name (length parsers) in
     sbind (write_file (py_file (pe_par_root env) name) code) (\<lambda>_.
     sbind (new_component (\<lambda>i. \<lparr>cp_id = i, cp_msg_type = [], cp_name = name,
         cp_evolved_from = latest_name parsers, cp_path = [], cp_state_field = field,
         cp_contract = [], cp_ir_sha = []\<rparr>)) (\<lambda>c.
     sbind (smodify (\<lambda>st. st\<lparr>pl_parsers := pl_parsers st @ [c]\<rparr>)) (\<lambda>_. sret c))))"

text \<open>
  The branches for generators, mutators, checkers and observers.  \<open>setdefault\<close> enters an empty list
  for a new type before the path is computed, which may raise.
\<close>

definition publish_version :: "'w producer_env \<Rightarrow> string \<Rightarrow> string \<Rightarrow> string \<Rightarrow> ('w, 'z, component) making" where
  "publish_version env component component_type code =
     sbind (smodify (\<lambda>st. put_versions component
       (dict_setdefault component_type [] (get_versions component st)) st)) (\<lambda>_.
     sbind (sget (\<lambda>st. the (map_of (get_versions component st) component_type))) (\<lambda>vs.
     sbind (producer_type_dir env True (root_of env component) component_type) (\<lambda>dir.
     let name = version_name (length vs); path = py_file dir name;
         response = component = ''checker'' \<or> component = ''observer'' in
     sbind (write_file path code) (\<lambda>_.
     sbind (sget (\<lambda>st. (pe_state_field env (pl_world st), pe_ir_sha env component_type (pl_world st)))) (\<lambda>(field, ir).
     sbind (new_component (\<lambda>i. \<lparr>cp_id = i, cp_msg_type = component_type, cp_name = name,
         cp_evolved_from = latest_name vs, cp_path = path,
         cp_state_field = (if response then field else []),
         cp_contract = (if response then pe_contract env else []),
         cp_ir_sha = (if response then ir else [])\<rparr>)) (\<lambda>c.
     sbind (smodify (\<lambda>st. put_versions component
         (dict_put component_type (vs @ [c]) (get_versions component st)) st)) (\<lambda>_. sret c)))))))"

definition publish_runtime_component ::
    "'w producer_env \<Rightarrow> string \<Rightarrow> string \<Rightarrow> string \<Rightarrow> ('w, 'z, component) making" where
  "publish_runtime_component env component component_type code =
     (if component = ''parser'' then publish_parser env code
      else if component \<in> {''generator'', ''mutator'', ''checker'', ''observer''}
      then publish_version env component component_type code
      else slift (Inl ValueError))"

section \<open>Repair\<close>

definition function_names :: "(string, string) dict" where
  "function_names = [(''parser'', ''packet_parser''), (''generator'', ''generate''), (''mutator'', ''mutate''),
     (''checker'', ''packet_checker''), (''observer'', ''packet_observer'')]"

text \<open>
  \<open>_parser_validation_failure\<close>: the first eight samples by length and the first 96 bytes in
  hexadecimal.  The name of the field is put between quotes.
\<close>

definition sample_summary :: "bytes \<Rightarrow> string" where
  "sample_summary s = ''len='' @ show_nat (length s) @ '' hex='' @ hexdigest (take 96 s)"

fun comma_list :: "string list \<Rightarrow> string" where
  "comma_list [] = []"
| "comma_list [s] = s"
| "comma_list (s # t # ss) = s @ '', '' @ comma_list (t # ss)"

definition parser_validation_failure :: "string \<Rightarrow> string \<Rightarrow> bytes list \<Rightarrow> string" where
  "parser_validation_failure field error samples =
     (if samples = [] then error
      else error @ [CHR 0x0A] @ ''Expected non-empty bytes classification for real '' @
        ''protocol samples using response field '' @ [CHR 0x27] @ field @ [CHR 0x27] @ ''. '' @
        ''Failing validation samples: '' @ comma_list (map sample_summary (take 8 samples)))"

text \<open>
  One attempt: the candidate is published only when its validation has no error.  The answer is
  the published component, or what the next attempt starts from; a passed deadline is raised.
\<close>

datatype attempt_end = Published component string | Failed_attempt "string option" string

definition failure_text :: "'w producer_env \<Rightarrow> string \<Rightarrow> string \<Rightarrow> bytes list \<Rightarrow> ('w, 'z, string) making" where
  "failure_text env component error samples =
     sget (\<lambda>st. if component = ''parser''
                then parser_validation_failure (pe_state_field env (pl_world st)) error samples else error)"

definition publish_candidate :: "'w producer_env \<Rightarrow> string \<Rightarrow> string \<Rightarrow> string \<Rightarrow> ('w, 'z, attempt_end) making" where
  "publish_candidate env component component_type code st =
     (case publish_runtime_component env component component_type code st of
        (Inl e, st') \<Rightarrow> (Inr (Failed_attempt (Some code) ''ValueError''), st')
      | (Inr c, st') \<Rightarrow> (Inr (Published c code), st'))"

definition repair_attempt :: "'w producer_env \<Rightarrow> string \<Rightarrow> string \<Rightarrow> string \<Rightarrow> bytes list \<Rightarrow> string \<Rightarrow> string \<Rightarrow>
    ('w, 'z, attempt_end) making" where
  "repair_attempt env component component_type fname samples failed_code failure_error =
     sbind (ask (pe_repair_code env failed_code failure_error fname)) (\<lambda>answer.
     case answer of
       Deadline_exceeded \<Rightarrow> slift (Inl llm_deadline_exceeded)
     | Llm_error msg \<Rightarrow> sret (Failed_attempt None msg)
     | Llm_code code \<Rightarrow>
         sbind (ask (pe_validate env code fname component samples)) (\<lambda>error.
         case error of
           Some msg \<Rightarrow>
             sbind (failure_text env component msg samples) (\<lambda>text.
               sret (Failed_attempt (Some code) (''ValueError: '' @ text)))
         | None \<Rightarrow> publish_candidate env component component_type code))"

text \<open>\<open>attempts\<close> counts down; the attempt in course has the number \<open>limit - attempts\<close>.\<close>

primrec repair_loop :: "'w producer_env \<Rightarrow> string \<Rightarrow> string \<Rightarrow> string \<Rightarrow> bytes list \<Rightarrow> nat \<Rightarrow> nat \<Rightarrow> string \<Rightarrow> string \<Rightarrow>
    ('w, 'z, (component \<times> string) option) making" where
  "repair_loop env component component_type fname samples limit 0 failed_code failure_error =
     sbind (smodify (\<lambda>st. st\<lparr>pl_attempts := limit\<rparr>)) (\<lambda>_. sret None)"
| "repair_loop env component component_type fname samples limit (Suc attempts) failed_code failure_error =
     sbind (repair_attempt env component component_type fname samples failed_code failure_error) (\<lambda>outcome.
     case outcome of
       Published c code \<Rightarrow>
         sbind (record_generation (component @ ''_runtime_repair'') component_type ''published'' (limit - attempts)) (\<lambda>_.
         sbind (smodify (\<lambda>st. st\<lparr>pl_attempts := limit - attempts\<rparr>)) (\<lambda>_. sret (Some (c, code))))
     | Failed_attempt candidate text \<Rightarrow>
         sbind (record_generation (component @ ''_runtime_repair'') component_type ''invalid'' (limit - attempts)) (\<lambda>_.
           repair_loop env component component_type fname samples limit attempts
             (case candidate of None \<Rightarrow> failed_code | Some code \<Rightarrow> code) text))"

definition repair_runtime_component_async :: "'w producer_env \<Rightarrow> string \<Rightarrow> string \<Rightarrow> string \<Rightarrow> string \<Rightarrow> bytes option \<Rightarrow>
    ('w, 'z, (component \<times> string) option) making" where
  "repair_runtime_component_async env component component_type source_code error runtime_input =
     sbind (slift (dict_index function_names component)) (\<lambda>fname.
     let samples = (case runtime_input of None \<Rightarrow> [] | Some b \<Rightarrow> [b]); limit = nat (max 1 (pe_retry_limit env)) in
     sbind (failure_text env component error samples) (\<lambda>text.
       repair_loop env component component_type fname samples limit limit source_code text))"

section \<open>The equipment of the current hypothesis\<close>

definition capture_current_equipment :: "component option \<Rightarrow> ('w, 'z, versions \<times> component) making" where
  "capture_current_equipment parser =
     sbind (sget (\<lambda>st. map (\<lambda>(t, vs). (t, [last vs])) (filter (\<lambda>(t, vs). vs \<noteq> []) (pl_generators st)))) (\<lambda>generators.
     sbind (case parser of
              Some p \<Rightarrow> sret p
            | None \<Rightarrow> sbind (sget pl_parsers) (\<lambda>ps. if ps = [] then slift (Inl IndexError) else sret (last ps))) (\<lambda>p.
       sret (generators, p)))"


section \<open>Publication never overwrites\<close>

lemma put_versions_fields [simp]:
  "get_versions k (put_versions k vs st) = vs" "pl_files (put_versions k vs st) = pl_files st"
  "pl_manifest (put_versions k vs st) = pl_manifest st" "pl_type_paths (put_versions k vs st) = pl_type_paths st"
  "pl_world (put_versions k vs st) = pl_world st" "pl_next_id (put_versions k vs st) = pl_next_id st"
  "pl_parsers (put_versions k vs st) = pl_parsers st"
  by (simp_all add: get_versions_def put_versions_def)

lemma get_versions_update [simp]:
  "get_versions k (st\<lparr>pl_files := fs\<rparr>) = get_versions k st"
  "get_versions k (st\<lparr>pl_type_paths := ps\<rparr>) = get_versions k st"
  "get_versions k (st\<lparr>pl_next_id := i\<rparr>) = get_versions k st"
  "get_versions k (st\<lparr>pl_manifest := m\<rparr>) = get_versions k st"
  "get_versions k (st\<lparr>pl_attempts := a\<rparr>) = get_versions k st"
  "get_versions k (st\<lparr>pl_world := w\<rparr>) = get_versions k st"
  by (simp_all add: get_versions_def)

lemma record_type_path_spec:
  "case record_type_path env t st of
     (Inl e, st') \<Rightarrow> e = ValueError \<and> st' = st
   | (Inr u, st') \<Rightarrow> (\<exists>slug. type_to_slug (pe_sha256 env) DEFAULT_MAX_SLUG_LENGTH (ascii t) = Inr slug \<and>
       list_all (\<lambda>(t', s). s \<noteq> slug \<or> t' = t) (pl_type_paths st) \<and> map_of (pl_type_paths st') t = Some slug \<and>
       (st' = st \<or> st' = st\<lparr>pl_type_paths := dict_put t slug (pl_type_paths st)\<rparr>))"
proof (cases "type_to_slug (pe_sha256 env) DEFAULT_MAX_SLUG_LENGTH (ascii t)")
  case (Inl e)
  have "e = ValueError" using Inl by (auto simp: type_to_slug_def Let_def split: if_splits)
  with Inl show ?thesis by (simp add: record_type_path_def action_defs)
next
  case (Inr slug)
  show ?thesis
  proof (cases "list_ex (\<lambda>(t', s). s = slug \<and> t' \<noteq> t) (pl_type_paths st)")
    case True
    with Inr show ?thesis by (simp add: record_type_path_def action_defs)
  next
    case False
    then have "list_all (\<lambda>(t', s). s \<noteq> slug \<or> t' = t) (pl_type_paths st)"
      by (auto simp: list_ex_iff list_all_iff)
    with Inr False show ?thesis by (simp add: record_type_path_def action_defs)
  qed
qed

text \<open>What \<open>publish_version\<close> does, on both ways out.\<close>

lemma publish_version_spec:
  "case publish_version env k t code st of
     (Inl e, st') \<Rightarrow> e = ValueError \<and> pl_files st' = pl_files st \<and> pl_manifest st' = pl_manifest st \<and>
       get_versions k st' = dict_setdefault t [] (get_versions k st)
   | (Inr c, st') \<Rightarrow>
       (let old = (case map_of (get_versions k st) t of None \<Rightarrow> [] | Some vs \<Rightarrow> vs) in
        \<exists>dir. component_type_dir (pe_inside env) (pe_sha256 env) (root_of env k) (ascii t) = Inr dir \<and>
          cp_msg_type c = t \<and> cp_name c = version_name (length old) \<and> cp_evolved_from c = latest_name old \<and>
          cp_path c = py_file dir (cp_name c) \<and> cp_id c = pl_next_id st \<and>
          pl_files st' = dict_put (cp_path c) code (pl_files st) \<and> pl_manifest st' = pl_manifest st \<and>
          get_versions k st' = dict_put t (old @ [c]) (dict_setdefault t [] (get_versions k st)) \<and>
          (\<exists>st0. record_type_path env t st = (Inr (), st0) \<and> pl_type_paths st' = pl_type_paths st0))"
proof -
  let ?st1 = "put_versions k (dict_setdefault t [] (get_versions k st)) st"
  have old: "the (map_of (dict_setdefault t [] (get_versions k st)) t) =
      (case map_of (get_versions k st) t of None \<Rightarrow> [] | Some vs \<Rightarrow> vs)"
    by (simp add: map_of_dict_setdefault split: option.split)
  have paths: "record_type_path env t ?st1 =
      (case record_type_path env t st of (Inl e, _) \<Rightarrow> (Inl e, ?st1)
       | (Inr u, st0) \<Rightarrow> (Inr u, ?st1\<lparr>pl_type_paths := pl_type_paths st0\<rparr>))"
    by (cases "type_to_slug (pe_sha256 env) DEFAULT_MAX_SLUG_LENGTH (ascii t)")
      (simp_all add: record_type_path_def action_defs)
  obtain r st0 where r: "record_type_path env t st = (r, st0)" by (cases "record_type_path env t st")
  note spec = record_type_path_spec[where env = env and t = t and st = st, unfolded r]
  show ?thesis
  proof (cases r)
    case (Inl e)
    then show ?thesis using spec paths r
      by (simp add: publish_version_def sbind_def sget_def smodify_def producer_type_dir_def)
  next
    case (Inr u)
    let ?d = "component_type_dir (pe_inside env) (pe_sha256 env) (root_of env k) (ascii t)"
    show ?thesis
    proof (cases ?d)
      case (Inl e)
      then have "e = ValueError"
        by (auto simp: component_type_dir_def type_to_slug_def Let_def split: if_splits)
      then show ?thesis using spec paths r Inr Inl
        by (simp add: publish_version_def sbind_def sget_def smodify_def producer_type_dir_def slift_def)
    next
      case dir: (Inr dir)
      then show ?thesis using paths r Inr old
        by (simp add: publish_version_def sbind_def sget_def smodify_def producer_type_dir_def slift_def
            write_file_def new_component_def sret_def Let_def)
    qed
  qed
qed

definition entry_ok :: "'w producer_env \<Rightarrow> string \<Rightarrow> (string, string) dict \<Rightarrow> string \<times> component list \<Rightarrow> bool" where
  "entry_ok env k paths entry \<longleftrightarrow> (case entry of (t, vs) \<Rightarrow>
     map cp_name vs = map version_name [0..<length vs] \<and>
     (vs = [] \<or>
      (\<exists>slug. type_to_slug (pe_sha256 env) DEFAULT_MAX_SLUG_LENGTH (ascii t) = Inr slug \<and>
         map_of paths t = Some slug \<and>
         map cp_path vs = map (\<lambda>n. py_file (root_of env k @ ''/'' @ slug) (version_name n)) [0..<length vs])))"

text \<open>Versions are numbered without gaps, each in its own place, and their types are recorded.\<close>

definition sources_ok :: "'w producer_env \<Rightarrow> string \<Rightarrow> ('w, 'z) plant_scheme \<Rightarrow> bool" where
  "sources_ok env k st \<longleftrightarrow> distinct (map fst (get_versions k st)) \<and>
     list_all (entry_ok env k (pl_type_paths st)) (get_versions k st)"

lemma version_name_inj [simp]: "version_name m = version_name n \<longleftrightarrow> m = n"
  unfolding version_name_def by (metis append_Cons append_Nil list.inject read_show_nat)

lemma slug_has_no_slash: "type_to_slug sha256 m raw = Inr slug \<Longrightarrow> CHR ''/'' \<notin> set slug"
  by (auto simp: type_to_slug_def Let_def split: if_splits)

lemma takeWhile_until: "c \<notin> set s \<Longrightarrow> takeWhile (\<lambda>x. x \<noteq> c) (s @ c # r) = s"
  by (induction s) auto

lemma py_file_eq:
  assumes "py_file (base @ ''/'' @ s1) n1 = py_file (base @ ''/'' @ s2) n2"
    "CHR ''/'' \<notin> set s1" "CHR ''/'' \<notin> set s2"
  shows "s1 = s2 \<and> n1 = n2"
proof -
  have e: "s1 @ CHR ''/'' # (n1 @ ''.py'') = s2 @ CHR ''/'' # (n2 @ ''.py'')"
    using assms(1) by (simp add: py_file_def)
  then have "s1 = s2" using takeWhile_until[OF assms(2), of "n1 @ ''.py''"] takeWhile_until[OF assms(3), of "n2 @ ''.py''"]
    by metis
  with e show ?thesis by simp
qed

lemma component_type_dir_Inr:
  "component_type_dir inside sha256 base raw = Inr dir \<longleftrightarrow>
     (\<exists>slug. type_to_slug sha256 DEFAULT_MAX_SLUG_LENGTH raw = Inr slug \<and> dir = base @ ''/'' @ slug \<and> inside base dir)"
  by (cases "type_to_slug sha256 DEFAULT_MAX_SLUG_LENGTH raw") (auto simp: component_type_dir_def Let_def)

lemma dict_put_setdefault: "dict_put k v (dict_setdefault k w d) = dict_put k v d"
proof -
  have "k \<notin> fst ` set d \<Longrightarrow> dict_put k v (d @ [(k, w)]) = d @ [(k, v)] \<and> dict_put k v d = d @ [(k, v)]"
    by (induction d) auto
  then show ?thesis by (auto simp: dict_setdefault_def map_of_eq_None_iff split: option.split)
qed

lemma set_dict_put: "distinct (map fst d) \<Longrightarrow> set (dict_put k v d) = insert (k, v) {e \<in> set d. fst e \<noteq> k}"
  by (induction k v d rule: dict_put.induct) (auto simp: image_iff)

lemma entry_ok_path:
  assumes "entry_ok env k paths (t, vs)" "c \<in> set vs"
  shows "\<exists>slug n. n < length vs \<and> type_to_slug (pe_sha256 env) DEFAULT_MAX_SLUG_LENGTH (ascii t) = Inr slug \<and>
    map_of paths t = Some slug \<and> cp_path c = py_file (root_of env k @ ''/'' @ slug) (version_name n)"
proof -
  from assms(2) obtain n where n: "n < length vs" "c = vs ! n" by (auto simp: in_set_conv_nth)
  with assms obtain slug where s: "type_to_slug (pe_sha256 env) DEFAULT_MAX_SLUG_LENGTH (ascii t) = Inr slug"
    "map_of paths t = Some slug"
    "map cp_path vs = map (\<lambda>n. py_file (root_of env k @ ''/'' @ slug) (version_name n)) [0..<length vs]"
    by (auto simp: entry_ok_def)
  have "cp_path c = map cp_path vs ! n" using n by simp
  with s n show ?thesis by (intro exI[of _ slug] exI[of _ n]) simp
qed

lemma entry_ok_mono:
  "entry_ok env k paths e \<Longrightarrow>
     (\<And>t s. map_of paths t = Some s \<Longrightarrow>
        type_to_slug (pe_sha256 env) DEFAULT_MAX_SLUG_LENGTH (ascii t) = Inr s \<Longrightarrow> map_of paths' t = Some s) \<Longrightarrow>
     entry_ok env k paths' e"
  unfolding entry_ok_def by (auto split: prod.splits)

lemma map_snoc_numbers: "map f vs = map g [0..<length vs] \<Longrightarrow> f c = g (length vs) \<Longrightarrow>
    map f (vs @ [c]) = map g [0..<length (vs @ [c])]"
  by simp

lemma publish_version_keeps:
  assumes ok: "sources_ok env k st" and pub: "publish_version env k t code st = (Inr c, st')"
  shows "sources_ok env k st' \<and>
    (\<forall>(t', vs) \<in> set (get_versions k st). \<forall>c' \<in> set vs. cp_path c' \<noteq> cp_path c)"
proof -
  define old where "old = (case map_of (get_versions k st) t of None \<Rightarrow> [] | Some vs \<Rightarrow> vs)"
  from publish_version_spec[where env = env and k = k and t = t and code = code and st = st] pub
  obtain dir st0 where d: "component_type_dir (pe_inside env) (pe_sha256 env) (root_of env k) (ascii t) = Inr dir"
      "cp_name c = version_name (length old)" "cp_path c = py_file dir (cp_name c)"
      "get_versions k st' = dict_put t (old @ [c]) (dict_setdefault t [] (get_versions k st))"
      "record_type_path env t st = (Inr (), st0)" "pl_type_paths st' = pl_type_paths st0"
    by (auto simp: Let_def old_def)
  from d(1) obtain slug where slug: "type_to_slug (pe_sha256 env) DEFAULT_MAX_SLUG_LENGTH (ascii t) = Inr slug"
    "dir = root_of env k @ ''/'' @ slug" by (auto simp: component_type_dir_Inr)
  from record_type_path_spec[where env = env and t = t and st = st] d(5) slug(1) have
    free: "list_all (\<lambda>(t', s). s \<noteq> slug \<or> t' = t) (pl_type_paths st)" and
    rec: "map_of (pl_type_paths st') t = Some slug" and
    mono: "\<And>t' s. map_of (pl_type_paths st) t' = Some s \<Longrightarrow>
      type_to_slug (pe_sha256 env) DEFAULT_MAX_SLUG_LENGTH (ascii t') = Inr s \<Longrightarrow> map_of (pl_type_paths st') t' = Some s"
    by (auto simp: d(6))
  have dist: "distinct (map fst (get_versions k st))" and
    entries: "\<And>e. e \<in> set (get_versions k st) \<Longrightarrow> entry_ok env k (pl_type_paths st) e"
    using ok by (auto simp: sources_ok_def list_all_iff)
  have old_ok: "entry_ok env k (pl_type_paths st) (t, old)"
    using entries by (auto simp: old_def entry_ok_def dest!: map_of_SomeD split: option.splits)
  have c_path: "cp_path c = py_file (root_of env k @ ''/'' @ slug) (version_name (length old))"
    using d slug by simp
  have "entry_ok env k (pl_type_paths st') (t, old @ [c])"
  proof (cases "old = []")
    case True
    then show ?thesis using slug rec d(2) c_path by (simp add: entry_ok_def)
  next
    case False
    with old_ok slug rec c_path d(2) show ?thesis by (auto simp: entry_ok_def)
  qed
  moreover have "get_versions k st' = dict_put t (old @ [c]) (get_versions k st)"
    using d(4) by (simp add: dict_put_setdefault)
  moreover have "entry_ok env k (pl_type_paths st') e" if "e \<in> set (get_versions k st)" for e
    using entry_ok_mono[OF entries[OF that]] mono by blast
  ultimately have "sources_ok env k st'"
    using dist by (auto simp: sources_ok_def list_all_iff set_dict_put)
  moreover have "cp_path c' \<noteq> cp_path c" if "(t', vs) \<in> set (get_versions k st)" "c' \<in> set vs" for t' vs c'
  proof -
    from entry_ok_path[OF entries[OF that(1)] that(2)] obtain slug' n where
      n: "n < length vs" "type_to_slug (pe_sha256 env) DEFAULT_MAX_SLUG_LENGTH (ascii t') = Inr slug'"
      "map_of (pl_type_paths st) t' = Some slug'"
      "cp_path c' = py_file (root_of env k @ ''/'' @ slug') (version_name n)" by blast
    show ?thesis
    proof
      assume "cp_path c' = cp_path c"
      from py_file_eq[OF this[unfolded n(4) c_path] slug_has_no_slash[OF n(2)] slug_has_no_slash[OF slug(1)]]
      have "slug' = slug" "n = length old" by simp_all
      moreover have "(t', slug') \<in> set (pl_type_paths st)" using n(3) by (rule map_of_SomeD)
      ultimately have "t' = t" using free by (auto simp: list_all_iff)
      with that(1) dist have "old = vs" by (simp add: old_def)
      with n(1) \<open>n = length old\<close> show False by simp
    qed
  qed
  ultimately show ?thesis by blast
qed

definition version_kinds :: "string list" where
  "version_kinds = [''generator'', ''mutator'', ''checker'', ''observer'']"

lemma publish_by_kind:
  "k \<in> set version_kinds \<Longrightarrow> publish_runtime_component env k t code = publish_version env k t code"
  by (auto simp: publish_runtime_component_def version_kinds_def)

text \<open>
  While the versions of a kind are numbered without gaps, publishing one more keeps that, the
  new version is the latest of its type and its file holds the published code, and no file of an
  earlier version, of this or another type, is touched.
\<close>

theorem publish_never_overwrites:
  assumes "k \<in> set version_kinds" "sources_ok env k st"
    and "publish_runtime_component env k t code st = (Inr c, st')"
  shows "sources_ok env k st' \<and>
    (\<exists>old. map_of (get_versions k st') t = Some (old @ [c])) \<and>
    map_of (pl_files st') (cp_path c) = Some code \<and>
    list_all (\<lambda>(t', vs). list_all (\<lambda>c'. cp_path c' \<noteq> cp_path c \<and>
        map_of (pl_files st') (cp_path c') = map_of (pl_files st) (cp_path c')) vs) (get_versions k st)"
proof -
  note pub = assms(3)[unfolded publish_by_kind[OF assms(1)]]
  note spec = publish_version_spec[where env = env and k = k and t = t and code = code and st = st, unfolded pub]
  from publish_version_keeps[OF assms(2) pub] spec show ?thesis
    by (fastforce simp: list_all_iff Let_def)
qed

text \<open>A small plant: a type with two versions, the validation refuses sources that say \<open>bad\<close>.\<close>

definition sample_env :: "unit producer_env" where
  "sample_env = \<lparr>pe_gen_root = ''g'', pe_mut_root = ''m'', pe_par_root = ''p'', pe_chk_root = ''c'',
     pe_obs_root = ''o'', pe_contract = ''1'', pe_retry_limit = 3, pe_sha256 = \<lambda>b. [],
     pe_inside = \<lambda>base path. True, pe_state_field = \<lambda>w. ''code'', pe_ir_sha = \<lambda>t w. [],
     pe_repair_code = \<lambda>code error fname w. (Llm_code ''good'', w),
     pe_validate = \<lambda>code fname component samples w. (if code = ''bad'' then Some ''invalid'' else None, w)\<rparr>"

definition sample_version :: "nat \<Rightarrow> component" where
  "sample_version n = \<lparr>cp_id = n, cp_msg_type = ''USER'', cp_name = version_name n, cp_evolved_from = ''init'',
     cp_path = py_file ''g/USER'' (version_name n), cp_state_field = [], cp_contract = [], cp_ir_sha = []\<rparr>"

definition sample_plant :: "string \<Rightarrow> unit plant" where
  "sample_plant first = \<lparr>pl_generators = [(''USER'', [sample_version 0, sample_version 1])], pl_mutators = [],
     pl_checkers = [], pl_observers = [], pl_parsers = [],
     pl_files = [(''g/USER/id0.py'', first), (''g/USER/id1.py'', ''good'')],
     pl_type_paths = [(''USER'', ''USER'')], pl_manifest = [], pl_next_id = 2, pl_attempts = 0, pl_world = ()\<rparr>"

lemma sample_slug: "type_to_slug sha256 DEFAULT_MAX_SLUG_LENGTH (ascii ''USER'') = Inr ''USER''"
proof -
  have "encoded_name (ascii ''USER'') = ''USER''" "0 \<notin> set (ascii ''USER'')" by code_simp+
  then show ?thesis
    by (simp add: type_to_slug_def Let_def shorten_def DEFAULT_MAX_SLUG_LENGTH_def flip: encoded_name_def)
qed

lemma sample_names: "version_name 0 = ''id0''" "version_name 1 = ''id1''" "version_name (Suc 0) = ''id1''"
  "version_name 2 = ''id2''" "version_name (Suc (Suc 0)) = ''id2''"
  by code_simp+

theorem publish_never_overwrites_witness:
  "\<exists>c st'. publish_runtime_component sample_env ''generator'' ''USER'' ''new'' (sample_plant ''good'') = (Inr c, st') \<and>
     cp_name c = ''id2'' \<and> map_of (pl_files st') ''g/USER/id1.py'' = Some ''good''"
proof -
  let ?p = "publish_runtime_component sample_env ''generator'' ''USER'' ''new'' (sample_plant ''good'')"
  obtain c st' where p: "?p = (Inr c, st')" and c: "cp_name c = ''id2''"
    by (simp add: publish_runtime_component_def publish_version_def action_defs producer_type_dir_def
        record_type_path_def component_type_dir_def sample_slug sample_env_def sample_plant_def
        get_versions_def put_versions_def dict_setdefault_def new_component_def write_file_def Let_def sample_names)
  have ok: "sources_ok sample_env ''generator'' (sample_plant ''good'')"
    by (simp add: sources_ok_def entry_ok_def sample_slug sample_plant_def sample_env_def get_versions_def
        sample_version_def root_of_def upt_rec)
  have "''generator'' \<in> set version_kinds" by (simp add: version_kinds_def)
  from publish_never_overwrites[OF this ok p] have "map_of (pl_files st') (cp_path (sample_version 1)) =
      map_of (pl_files (sample_plant ''good'')) (cp_path (sample_version 1))"
    by (simp add: get_versions_def sample_plant_def)
  with p c show ?thesis by (simp add: sample_version_def sample_plant_def py_file_def sample_names)
qed

text \<open>
  The filter over the cached generators breaks the numbering: it drops an invalid version from
  the middle of the list, the next version is named by the length of the shorter list, and its
  source overwrites that of a version still in use under the same name.
\<close>

theorem filtered_version_overwritten:
  "case sbind (filter_invalid_cached_generators sample_env) (\<lambda>_.
          publish_runtime_component sample_env ''generator'' ''USER'' ''new'') (sample_plant ''bad'') of
     (Inl e, st') \<Rightarrow> False
   | (Inr c, st') \<Rightarrow> get_versions ''generator'' st' = [(''USER'', [sample_version 1, c])] \<and>
       cp_name c = cp_name (sample_version 1) \<and> cp_path c = cp_path (sample_version 1) \<and>
       map_of (pl_files (sample_plant ''bad'')) (cp_path c) = Some ''good'' \<and>
       map_of (pl_files st') (cp_path c) = Some ''new''"
  by (simp add: filter_invalid_cached_generators_def filter_generator_def component_source_path_def
      is_file_def ask_def record_generation_def sample_version_def py_file_def
      publish_runtime_component_def publish_version_def action_defs producer_type_dir_def
      record_type_path_def component_type_dir_def sample_slug sample_env_def sample_plant_def root_of_def
      get_versions_def put_versions_def dict_setdefault_def new_component_def write_file_def Let_def sample_names)

section \<open>Repair publishes validated code only\<close>

text \<open>Where a published version is found: the latest of its list, its source in its file.\<close>

definition published_at :: "'w producer_env \<Rightarrow> string \<Rightarrow> string \<Rightarrow> component \<Rightarrow> string \<Rightarrow> ('w, 'z) plant_scheme \<Rightarrow> bool" where
  "published_at env component t c code st \<longleftrightarrow>
     (if component = ''parser''
      then pl_parsers st \<noteq> [] \<and> last (pl_parsers st) = c \<and>
        map_of (pl_files st) (py_file (pe_par_root env) (cp_name c)) = Some code
      else (\<exists>old. map_of (get_versions component st) t = Some (old @ [c])) \<and>
        map_of (pl_files st) (cp_path c) = Some code)"

definition validated :: "'w producer_env \<Rightarrow> string \<Rightarrow> string \<Rightarrow> bytes list \<Rightarrow> string \<Rightarrow> bool" where
  "validated env component fname samples code \<longleftrightarrow> (\<exists>w. fst (pe_validate env code fname component samples w) = None)"

lemma published_at_frame [simp]:
  "published_at env component t c code (st\<lparr>pl_manifest := m\<rparr>) = published_at env component t c code st"
  "published_at env component t c code (st\<lparr>pl_attempts := n\<rparr>) = published_at env component t c code st"
  by (simp_all add: published_at_def)

lemma publish_spec:
  "case publish_runtime_component env component t code st of
     (Inl e, st') \<Rightarrow> pl_files st' = pl_files st \<and> pl_manifest st' = pl_manifest st \<and> pl_parsers st' = pl_parsers st
   | (Inr c, st') \<Rightarrow> published_at env component t c code st' \<and> pl_manifest st' = pl_manifest st"
proof (cases "component = ''parser''")
  case True
  then show ?thesis
    by (simp add: publish_runtime_component_def publish_parser_def action_defs write_file_def
        new_component_def Let_def published_at_def)
next
  case False
  have parsers: "pl_parsers (snd (publish_version env component t code st)) = pl_parsers st"
    by (simp add: publish_version_def action_defs producer_type_dir_def record_type_path_def write_file_def
        new_component_def Let_def split: prod.splits sum.splits)
  show ?thesis
  proof (cases "component \<in> {''generator'', ''mutator'', ''checker'', ''observer''}")
    case True
    then have "publish_runtime_component env component t code st = publish_version env component t code st"
      using False by (simp add: publish_runtime_component_def)
    moreover obtain r st' where r: "publish_version env component t code st = (r, st')" by fastforce
    ultimately show ?thesis
      using publish_version_spec[where env = env and k = component and t = t and code = code and st = st] parsers False
      by (auto simp add: published_at_def Let_def split: sum.splits)
  next
    case no: False
    with False show ?thesis by (simp add: publish_runtime_component_def slift_def)
  qed
qed

lemma repair_attempt_spec:
  "case repair_attempt env component t fname samples fc fe st of
     (Inl e, st') \<Rightarrow> e = llm_deadline_exceeded \<and> pl_files st' = pl_files st
   | (Inr (Failed_attempt cand text), st') \<Rightarrow> pl_files st' = pl_files st \<and> pl_manifest st' = pl_manifest st
   | (Inr (Published c code), st') \<Rightarrow> published_at env component t c code st' \<and>
       pl_manifest st' = pl_manifest st \<and> validated env component fname samples code"
proof -
  obtain answer w where a: "pe_repair_code env fc fe fname (pl_world st) = (answer, w)" by force
  show ?thesis
  proof (cases answer)
    case (Llm_code code)
    obtain err w' where v: "pe_validate env code fname component samples w = (err, w')" by force
    show ?thesis
    proof (cases err)
      case None
      let ?st = "st\<lparr>pl_world := w'\<rparr>"
      obtain r st' where p: "publish_runtime_component env component t code ?st = (r, st')" by force
      have "validated env component fname samples code"
        using v None unfolding validated_def by (intro exI[of _ w]) simp
      then show ?thesis using a Llm_code v None p
          publish_spec[where env = env and component = component and t = t and code = code and st = ?st]
        by (cases r) (simp_all add: repair_attempt_def action_defs ask_def publish_candidate_def)
    next
      case (Some msg)
      with a Llm_code v show ?thesis
        by (simp add: repair_attempt_def action_defs ask_def failure_text_def)
    qed
  qed (use a in \<open>simp_all add: repair_attempt_def action_defs ask_def\<close>)
qed

definition repair_entry :: "string \<Rightarrow> string \<Rightarrow> string \<Rightarrow> nat \<Rightarrow> string \<times> string \<times> string \<times> nat" where
  "repair_entry component t outcome i = (component @ ''_runtime_repair'', t, outcome, i)"

lemma repair_loop_spec:
  "n \<le> limit \<Longrightarrow>
   (case repair_loop env component t fname samples limit n fc fe st of
      (Inl e, st') \<Rightarrow> e = llm_deadline_exceeded \<and> pl_files st' = pl_files st
    | (Inr None, st') \<Rightarrow> pl_attempts st' = limit \<and> pl_files st' = pl_files st \<and>
        pl_manifest st' = pl_manifest st @ map (repair_entry component t ''invalid'') [Suc (limit - n)..<Suc limit]
    | (Inr (Some (c, code)), st') \<Rightarrow>
        published_at env component t c code st' \<and> validated env component fname samples code \<and>
        limit - n < pl_attempts st' \<and> pl_attempts st' \<le> limit \<and>
        pl_manifest st' = pl_manifest st @ map (repair_entry component t ''invalid'') [Suc (limit - n)..<pl_attempts st'] @
          [repair_entry component t ''published'' (pl_attempts st')])"
proof (induction n arbitrary: fc fe st)
  case 0
  then show ?case by (simp add: action_defs)
next
  case (Suc n)
  then have i: "Suc (limit - Suc n) = limit - n" "limit - n \<le> limit" "limit - n < Suc limit" by simp_all
  obtain r st1 where r: "repair_attempt env component t fname samples fc fe st = (r, st1)" by force
  note spec = repair_attempt_spec[where env = env and component = component and t = t and fname = fname
      and samples = samples and fc = fc and fe = fe and st = st, unfolded r]
  show ?case
  proof (cases r)
    case (Inl e)
    with r spec show ?thesis by (simp add: sbind_def)
  next
    case (Inr outcome)
    show ?thesis
    proof (cases outcome)
      case (Published c code)
      with r spec Inr i Suc.prems show ?thesis
        by (simp add: action_defs record_generation_def repair_entry_def)
    next
      case (Failed_attempt cand why)
      define fc' where "fc' = (case cand of None \<Rightarrow> fc | Some code \<Rightarrow> code)"
      define st2 where "st2 = st1\<lparr>pl_manifest := pl_manifest st1 @ [repair_entry component t ''invalid'' (limit - n)]\<rparr>"
      have step: "repair_loop env component t fname samples limit (Suc n) fc fe st =
          repair_loop env component t fname samples limit n fc' why st2"
        using r Inr Failed_attempt
        by (simp add: sbind_def record_generation_def smodify_def repair_entry_def fc'_def st2_def)
      have same: "pl_files st2 = pl_files st"
        "pl_manifest st2 = pl_manifest st @ [repair_entry component t ''invalid'' (limit - n)]"
        using spec Inr Failed_attempt by (simp_all add: st2_def)
      have upt: "limit - n < k \<Longrightarrow> [limit - n..<k] = (limit - n) # [Suc (limit - n)..<k]" for k
        by (rule upt_conv_Cons)
      show ?thesis
        unfolding step i using Suc.IH[where fc = fc' and fe = why and st = st2] Suc.prems same upt
        by (auto simp del: upt_Suc split: prod.splits sum.splits option.splits)
    qed
  qed
qed


end
