(* ===== verification/Mapper.thy ===== *)
theory Mapper imports Equipment begin

text \<open>
  The mapper between symbols and messages, \<open>voltron/executor/mapper.py\<close>: the worker process that
  runs generated code, selection and execution of generators and mutators, the repair of failing
  components with its cache and quarantine, and the provenance of messages.

  A message is an object: its identity and its bytes.  The state extends that of \<open>Equipment\<close>,
  because the mapper shares the producer's dictionaries of versions.  The worker process, the JSON
  text of the runtime evidence and the parser evolution of the language model are the record
  \<open>mapper_env\<close>.
\<close>

section \<open>State\<close>

type_synonym message_obj = "nat \<times> bytes"

datatype py_value = Py_bytes message_obj | Py_bool bool | Py_str string | Py_other string

record dynamic_result =
  dr_status :: string
  dr_value :: py_value
  dr_error :: string

datatype worker_reply = Reply_ok py_value | Reply_error string

record provenance =
  pv_request_type :: string
  pv_kind :: string
  pv_version :: string
  pv_evolve_round :: string

record 'w mapper_env =
  me_producer :: "'w producer_env"
  me_best_root :: "string option"
  me_legacy_obs_root :: string
  me_max_bytes :: nat
  me_spec_knowledge :: bool
  me_observer_enabled :: bool
  me_alive :: "'w \<Rightarrow> bool"
  me_spawn :: "'w \<Rightarrow> bool \<times> 'w"
  me_send :: "string \<Rightarrow> string \<Rightarrow> bytes list \<Rightarrow> 'w \<Rightarrow> bool \<times> 'w"
  me_poll :: "'w \<Rightarrow> bool \<times> 'w"
  me_recv :: "'w \<Rightarrow> worker_reply option \<times> 'w"
  me_stop :: "bool \<Rightarrow> bool \<Rightarrow> 'w \<Rightarrow> 'w"
  me_evidence :: "bytes option \<Rightarrow> string"
  me_parser_evolution :: "bytes \<Rightarrow> 'w \<Rightarrow> string option \<times> 'w"

type_synonym component_key = "string \<times> string \<times> string"

record 'w mapper = "'w plant" +
  mp_pool :: "(string, (string, message_obj) dict) dict"
  mp_quarantined :: "component_key list"
  mp_last_good :: "(string \<times> string, component) dict"
  mp_repair_cache :: "(component_key, (component \<times> string) option) dict"
  mp_rounds :: "(component_key, string) dict"
  mp_provenance :: "(nat, message_obj \<times> provenance) dict"
  mp_failures :: "(component_key \<times> component_key) list"
  mp_repairs :: "(component_key \<times> bool) list"
  mp_uses :: "(nat, nat) dict"
  mp_cur_parser :: component
  mp_conn :: bool
  mp_proc :: bool

type_synonym ('w, 'a) mapped = "(exc, 'w mapper, 'a) action"

definition EXEC_RETRY_LIMIT :: nat where
  "EXEC_RETRY_LIMIT = 3"

section \<open>The worker process\<close>

definition start_dynamic_worker :: "'w mapper_env \<Rightarrow> ('w, bool) mapped" where
  "start_dynamic_worker env =
     sbind (ask (me_spawn env)) (\<lambda>started.
     sbind (smodify (\<lambda>st. st\<lparr>mp_conn := started, mp_proc := started\<rparr>)) (\<lambda>_. sret started))"

definition stop_dynamic_worker :: "'w mapper_env \<Rightarrow> ('w, unit) mapped" where
  "stop_dynamic_worker env =
     smodify (\<lambda>st. st\<lparr>mp_conn := False, mp_proc := False,
       pl_world := me_stop env (mp_conn st) (mp_proc st) (pl_world st)\<rparr>)"

definition restart_dynamic_worker :: "'w mapper_env \<Rightarrow> ('w, bool) mapped" where
  "restart_dynamic_worker env = sbind (stop_dynamic_worker env) (\<lambda>_. start_dynamic_worker env)"

definition ensure_dynamic_worker :: "'w mapper_env \<Rightarrow> ('w, bool) mapped" where
  "ensure_dynamic_worker env =
     sbind (sget (\<lambda>st. (mp_proc st \<and> me_alive env (pl_world st), mp_conn st))) (\<lambda>(alive, conn).
       if alive then sret conn else start_dynamic_worker env)"

definition worker_failed :: "string \<Rightarrow> string \<Rightarrow> dynamic_result" where
  "worker_failed status error = \<lparr>dr_status = status, dr_value = Py_other ''NoneType'', dr_error = error\<rparr>"

text \<open>A second send that fails after the restart is not caught.\<close>

definition broken_pipe :: exc where
  "broken_pipe = RuntimeError ''BrokenPipeError''"

definition receive_reply :: "'w mapper_env \<Rightarrow> string \<Rightarrow> ('w, dynamic_result) mapped" where
  "receive_reply env fname =
     sbind (ask (me_poll env)) (\<lambda>ready.
     if \<not> ready then
       sbind (restart_dynamic_worker env) (\<lambda>_.
         sret (worker_failed ''timeout'' (fname @ '' execution timed out after 3.0s'')))
     else
       sbind (ask (me_recv env)) (\<lambda>reply.
       case reply of
         None \<Rightarrow> sbind (restart_dynamic_worker env) (\<lambda>_.
           sret (worker_failed ''worker_error'' (fname @ '' worker stopped unexpectedly'')))
       | Some (Reply_ok v) \<Rightarrow> sret \<lparr>dr_status = ''ok'', dr_value = v, dr_error = []\<rparr>
       | Some (Reply_error e) \<Rightarrow> sret (worker_failed ''runtime_error'' e)))"

definition run_dynamic_code_result :: "'w mapper_env \<Rightarrow> string \<Rightarrow> string \<Rightarrow> bytes list \<Rightarrow> ('w, dynamic_result) mapped" where
  "run_dynamic_code_result env code fname args =
     sbind (ensure_dynamic_worker env) (\<lambda>available.
     if \<not> available then sret (worker_failed ''worker_error'' ''dynamic worker setup failed'')
     else
       sbind (sget mp_conn) (\<lambda>conn.
       if \<not> conn then sret (worker_failed ''worker_error'' ''dynamic worker connection missing'')
       else
         sbind (ask (me_send env code fname args)) (\<lambda>sent.
         if sent then receive_reply env fname
         else
           sbind (restart_dynamic_worker env) (\<lambda>restarted.
           if \<not> restarted then sret (worker_failed ''worker_error'' ''dynamic worker restart failed'')
           else
             sbind (sget mp_conn) (\<lambda>conn'.
             if \<not> conn' then sret (worker_failed ''worker_error'' ''dynamic worker connection missing after restart'')
             else
               sbind (ask (me_send env code fname args)) (\<lambda>sent'.
               if sent' then receive_reply env fname else slift (Inl broken_pipe)))))))"

definition run_dynamic_code :: "'w mapper_env \<Rightarrow> string \<Rightarrow> string \<Rightarrow> bytes list \<Rightarrow> ('w, py_value option) mapped" where
  "run_dynamic_code env code fname args =
     sbind (run_dynamic_code_result env code fname args) (\<lambda>r.
       sret (if dr_status r = ''ok'' then Some (dr_value r) else None))"

section \<open>Paths of components\<close>

text \<open>The metadata path is taken when it lies below the root or one of the extra roots.\<close>

definition component_path :: "'w mapper_env \<Rightarrow> string \<Rightarrow> component \<Rightarrow> string list \<Rightarrow> ('w, string) mapped" where
  "component_path env base c extra_roots =
     sbind (slift (component_type_dir (pe_inside (me_producer env)) (pe_sha256 (me_producer env)) base
              (ascii (cp_msg_type c)))) (\<lambda>dir.
     sbind (sget (\<lambda>st. \<lambda>path. is_file path st)) (\<lambda>exists.
       let typed_path = py_file dir (cp_name c) in
       sret (if exists typed_path then typed_path
             else if cp_path c \<noteq> [] \<and> list_ex (\<lambda>r. pe_inside (me_producer env) r (cp_path c)) (base # extra_roots) \<and>
               exists (cp_path c) then cp_path c
             else typed_path)))"

definition g_path :: "'w mapper_env \<Rightarrow> component \<Rightarrow> ('w, string) mapped" where
  "g_path env g = component_path env (pe_gen_root (me_producer env)) g
     (case me_best_root env of None \<Rightarrow> [] | Some r \<Rightarrow> [r])"

definition m_path :: "'w mapper_env \<Rightarrow> component \<Rightarrow> ('w, string) mapped" where
  "m_path env m = component_path env (pe_mut_root (me_producer env)) m []"

definition p_path :: "'w mapper_env \<Rightarrow> component \<Rightarrow> string" where
  "p_path env p = py_file (pe_par_root (me_producer env)) (cp_name p)"

definition c_path :: "'w mapper_env \<Rightarrow> component \<Rightarrow> ('w, string) mapped" where
  "c_path env c = component_path env (pe_chk_root (me_producer env)) c []"

definition o_path :: "'w mapper_env \<Rightarrow> component \<Rightarrow> ('w, string) mapped" where
  "o_path env ob =
     sbind (component_path env (pe_obs_root (me_producer env)) ob [me_legacy_obs_root env]) (\<lambda>path.
     sbind (sget (is_file path)) (\<lambda>there.
     if there then sret path
     else
       sbind (slift (component_type_dir (pe_inside (me_producer env)) (pe_sha256 (me_producer env))
                (me_legacy_obs_root env) (ascii (cp_msg_type ob)))) (\<lambda>dir.
       sbind (sget (is_file (py_file dir (cp_name ob)))) (\<lambda>legacy.
         sret (if legacy then py_file dir (cp_name ob) else path)))))"

text \<open>\<open>open\<close> and \<open>read_text\<close> raise on a missing file.\<close>

definition read_source :: "string \<Rightarrow> ('w, string) mapped" where
  "read_source path = sbind (sget (\<lambda>st. map_of (pl_files st) path)) (\<lambda>source.
     case source of None \<Rightarrow> slift (Inl (RuntimeError ''FileNotFoundError'')) | Some code \<Rightarrow> sret code)"

section \<open>Equipment in use\<close>

definition equip_parser :: "('w, component) mapped" where
  "equip_parser = sbind (sget pl_parsers) (\<lambda>ps. if ps = [] then slift (Inl IndexError) else sret (last ps))"

definition equip_latest :: "versions \<Rightarrow> (string, component) dict" where
  "equip_latest vs = map (\<lambda>(t, cs). (t, last cs)) (filter (\<lambda>(t, cs). cs \<noteq> []) vs)"

definition equip_checkers :: "'w mapper \<Rightarrow> (string, component) dict" where
  "equip_checkers st = equip_latest (pl_checkers st)"

definition equip_observers :: "'w mapper_env \<Rightarrow> 'w mapper \<Rightarrow> (string, component) dict" where
  "equip_observers env st = (if me_observer_enabled env then equip_latest (pl_observers st) else [])"

text \<open>\<open>AsyncProducer.parser_evo\<close> publishes the evolved parser, when there is one.\<close>

definition parser_evo :: "'w mapper_env \<Rightarrow> bytes \<Rightarrow> ('w, bool) mapped" where
  "parser_evo env message =
     sbind (ask (me_parser_evolution env message)) (\<lambda>code.
     case code of
       None \<Rightarrow> sret False
     | Some c \<Rightarrow>
         sbind (sget pl_parsers) (\<lambda>ps.
         sbind (write_file (py_file (pe_par_root (me_producer env)) (version_name (length ps))) c) (\<lambda>_.
         if ps = [] then slift (Inl IndexError)
         else
           sbind (sget (\<lambda>st. pe_state_field (me_producer env) (pl_world st))) (\<lambda>field.
           sbind (new_component (\<lambda>i. \<lparr>cp_id = i, cp_msg_type = [], cp_name = version_name (length ps),
               cp_evolved_from = cp_name (last ps), cp_path = [], cp_state_field = field,
               cp_contract = [], cp_ir_sha = []\<rparr>)) (\<lambda>p.
           sbind (smodify (\<lambda>st. st\<lparr>pl_parsers := pl_parsers st @ [p]\<rparr>)) (\<lambda>_. sret True))))))"

definition update_parser :: "'w mapper_env \<Rightarrow> bytes \<Rightarrow> ('w, component) mapped" where
  "update_parser env message =
     (if \<not> me_spec_knowledge env then sget mp_cur_parser
      else
        sbind (parser_evo env message) (\<lambda>_.
        sbind equip_parser (\<lambda>p.
        sbind (smodify (\<lambda>st. st\<lparr>mp_cur_parser := p\<rparr>)) (\<lambda>_. sret p))))"

section \<open>Repair of a failing component\<close>

definition is_line_break :: "char \<Rightarrow> bool" where
  "is_line_break c \<longleftrightarrow> code_of c \<in> set [10, 11, 12, 13, 28, 29, 30]"

text \<open>\<open>error.strip().splitlines()[0][:500]\<close>: a blank text has no line.\<close>

definition normalized_error :: "string \<Rightarrow> string result" where
  "normalized_error error =
     (let s = py_strip error
      in if s = [] then Inl IndexError else Inr (take 500 (takeWhile (\<lambda>c. \<not> is_line_break c) s)))"

definition sha_text :: "'w mapper_env \<Rightarrow> string \<Rightarrow> string" where
  "sha_text env s = hexdigest (pe_sha256 (me_producer env) (ascii s))"

definition repair_key :: "'w mapper_env \<Rightarrow> string \<Rightarrow> string \<Rightarrow> string \<Rightarrow> component_key result" where
  "repair_key env component source_code error =
     rbind (normalized_error error) (\<lambda>line.
       let source_sha = sha_text env source_code in
       Inr (component, source_sha, sha_text env (component @ [CHR 0x00] @ source_sha @ [CHR 0x00] @ line)))"

text \<open>The producer's repair; whatever it raises counts as no result.\<close>

definition call_producer_repair :: "'w mapper_env \<Rightarrow> string \<Rightarrow> string \<Rightarrow> string \<Rightarrow> string \<Rightarrow> bytes option \<Rightarrow>
    ('w, (component \<times> string) option) mapped" where
  "call_producer_repair env component component_type source_code error runtime_input =
     sattempt None
       (repair_runtime_component_async (me_producer env) component component_type source_code
         (error @ [CHR 0x0A] @ ''Runtime trigger evidence: '' @ me_evidence env runtime_input) runtime_input)"

text \<open>The failure is recorded and the version quarantined before the cache is looked up.\<close>

definition repair_runtime_component :: "'w mapper_env \<Rightarrow> string \<Rightarrow> string \<Rightarrow> string \<Rightarrow> string \<Rightarrow> string \<Rightarrow> bytes option \<Rightarrow>
    ('w, (component \<times> string) option) mapped" where
  "repair_runtime_component env component component_type version source_code error runtime_input =
     sbind (slift (repair_key env component source_code error)) (\<lambda>key.
     sbind (smodify (\<lambda>st. st\<lparr>mp_failures := mp_failures st @ [(key, (component, component_type, version))],
              mp_quarantined := set_add (component, component_type, version) (mp_quarantined st)\<rparr>)) (\<lambda>_.
     sbind (sget (\<lambda>st. map_of (mp_repair_cache st) key)) (\<lambda>cached.
     case cached of
       Some result \<Rightarrow> sret result
     | None \<Rightarrow>
         sbind (call_producer_repair env component component_type source_code error runtime_input) (\<lambda>result.
         sbind (smodify (\<lambda>st. st\<lparr>mp_repair_cache := dict_put key result (mp_repair_cache st),
                  mp_repairs := mp_repairs st @ [(key, result \<noteq> None)]\<rparr>)) (\<lambda>_.
           sret result)))))"

section \<open>Execution\<close>

definition component_quarantined :: "string \<Rightarrow> string \<Rightarrow> string \<Rightarrow> 'w mapper \<Rightarrow> bool" where
  "component_quarantined component component_type version st \<longleftrightarrow>
     (component, component_type, version) \<in> set (mp_quarantined st)"

text \<open>\<open>_valid_generated_message\<close>, together with the status test of its callers.\<close>

definition valid_bytes :: "'w mapper_env \<Rightarrow> bytes \<Rightarrow> bool" where
  "valid_bytes env b \<longleftrightarrow> b \<noteq> [] \<and> length b \<le> me_max_bytes env"

definition good_message :: "'w mapper_env \<Rightarrow> dynamic_result \<Rightarrow> message_obj option" where
  "good_message env r =
     (if dr_status r = ''ok''
      then (case dr_value r of
              Py_bytes m \<Rightarrow> (if valid_bytes env (snd m) then Some m else None)
            | _ \<Rightarrow> None)
      else None)"

definition type_name_of :: "py_value \<Rightarrow> string" where
  "type_name_of v = (case v of Py_bytes _ \<Rightarrow> ''bytes'' | Py_bool _ \<Rightarrow> ''bool'' | Py_str _ \<Rightarrow> ''str'' | Py_other n \<Rightarrow> n)"

definition failure_error_of :: "'w mapper_env \<Rightarrow> dynamic_result \<Rightarrow> string" where
  "failure_error_of env r =
     (if dr_error r = []
      then ''invalid_return: expected non-empty bytes no larger than '' @ show_nat (me_max_bytes env) @
           ''; got '' @ type_name_of (dr_value r)
      else dr_error r)"

definition remember_good :: "string \<Rightarrow> string \<Rightarrow> component \<Rightarrow> ('w, unit) mapped" where
  "remember_good component component_type c =
     smodify (\<lambda>st. st\<lparr>mp_last_good := dict_put (component, component_type) c (mp_last_good st)\<rparr>)"

text \<open>The repaired version is run once.\<close>

definition replay_repaired :: "'w mapper_env \<Rightarrow> string \<Rightarrow> string \<Rightarrow> string \<Rightarrow> (component \<times> string) option \<Rightarrow>
    ('w, message_obj option) mapped" where
  "replay_repaired env component component_type fname repaired =
     (case repaired of
        None \<Rightarrow> sret None
      | Some (c, code) \<Rightarrow>
          sbind (run_dynamic_code_result env code fname []) (\<lambda>r.
          case good_message env r of
            None \<Rightarrow> sret None
          | Some m \<Rightarrow> sbind (remember_good component component_type c) (\<lambda>_. sret (Some m))))"

text \<open>The last version that worked, unless it is the one that just failed.\<close>

definition run_last_good :: "'w mapper_env \<Rightarrow> string \<Rightarrow> string \<Rightarrow> string \<Rightarrow> component \<Rightarrow>
    ('w, message_obj option) mapped" where
  "run_last_good env component component_type fname metadata =
     sbind (sget (\<lambda>st. map_of (mp_last_good st) (component, component_type))) (\<lambda>fallback.
     case fallback of
       None \<Rightarrow> sret None
     | Some f \<Rightarrow>
         if cp_id f = cp_id metadata then sret None
         else sattempt None
           (sbind (if component = ''generator'' then g_path env f else m_path env f) (\<lambda>path.
            sbind (read_source path) (\<lambda>code.
            sbind (run_dynamic_code_result env code fname []) (\<lambda>r. sret (good_message env r))))))"

definition execute_message_component :: "'w mapper_env \<Rightarrow> string \<Rightarrow> string \<Rightarrow> component \<Rightarrow> string \<Rightarrow> string \<Rightarrow>
    ('w, message_obj option) mapped" where
  "execute_message_component env component component_type metadata code fname =
     sbind (run_dynamic_code_result env code fname []) (\<lambda>r.
     case good_message env r of
       Some m \<Rightarrow> sbind (remember_good component component_type metadata) (\<lambda>_. sret (Some m))
     | None \<Rightarrow>
         sbind (repair_runtime_component env component component_type (cp_name metadata) code
                  (failure_error_of env r) None) (\<lambda>repaired.
         sbind (replay_repaired env component component_type fname repaired) (\<lambda>replayed.
         case replayed of
           Some m \<Rightarrow> sret (Some m)
         | None \<Rightarrow> run_last_good env component component_type fname metadata)))"

definition exe_generator :: "'w mapper_env \<Rightarrow> component \<Rightarrow> ('w, message_obj option) mapped" where
  "exe_generator env g =
     sattempt None
       (sbind (g_path env g) (\<lambda>path.
        sbind (read_source path) (\<lambda>code.
        sbind (execute_message_component env ''generator'' (cp_msg_type g) g code ''generate'') (\<lambda>msg.
        sbind (if msg \<noteq> None then smodify (\<lambda>st. st\<lparr>mp_uses := dict_bump (cp_id g) (mp_uses st)\<rparr>) else sret ())
          (\<lambda>_. sret msg)))))"

definition exe_mutator :: "'w mapper_env \<Rightarrow> component \<Rightarrow> ('w, message_obj option) mapped" where
  "exe_mutator env m =
     sattempt None
       (sbind (m_path env m) (\<lambda>path.
        sbind (read_source path) (\<lambda>code.
          execute_message_component env ''mutator'' (cp_msg_type m) m code ''mutate'')))"

section \<open>Provenance\<close>

definition PROVENANCE_LIMIT :: nat where
  "PROVENANCE_LIMIT = 4096"

fun trim_oldest :: "(nat, 'v) dict \<Rightarrow> (nat, 'v) dict" where
  "trim_oldest [] = []"
| "trim_oldest (e # d) = (if PROVENANCE_LIMIT < length (e # d) then trim_oldest d else e # d)"

definition remember_message_provenance :: "message_obj \<Rightarrow> string \<Rightarrow> string \<Rightarrow> string \<Rightarrow> ('w, unit) mapped" where
  "remember_message_provenance message request_type kind version =
     smodify (\<lambda>st.
       let entry = \<lparr>pv_request_type = request_type, pv_kind = kind, pv_version = version,
                    pv_evolve_round = (case map_of (mp_rounds st) (kind, request_type, version) of
                       None \<Rightarrow> ''initial_'' @ kind | Some r \<Rightarrow> r)\<rparr>
       in st\<lparr>mp_provenance := trim_oldest (dict_put (fst message) (message, entry) (mp_provenance st))\<rparr>)"

definition no_provenance :: "string \<Rightarrow> provenance" where
  "no_provenance request_type =
     \<lparr>pv_request_type = request_type, pv_kind = [], pv_version = [], pv_evolve_round = []\<rparr>"

definition provenance_hit :: "(nat, message_obj \<times> provenance) dict \<Rightarrow> message_obj \<Rightarrow> provenance option" where
  "provenance_hit d message =
     (case map_of d (fst message) of
        None \<Rightarrow> None
      | Some (m, entry) \<Rightarrow> (if m = message then Some entry else None))"

definition consume_message_provenance :: "(string \<times> message_obj) list \<Rightarrow> ('w, provenance list) mapped" where
  "consume_message_provenance msg_seq =
     sbind (sget mp_provenance) (\<lambda>d.
     let records = map (\<lambda>(t, m). case provenance_hit d m of
                          Some entry \<Rightarrow> entry\<lparr>pv_request_type := t\<rparr> | None \<Rightarrow> no_provenance t) msg_seq;
         consumed = map (\<lambda>(t, m). fst m) (filter (\<lambda>(t, m). provenance_hit d m \<noteq> None) msg_seq) in
     sbind (smodify (\<lambda>st. st\<lparr>mp_provenance := foldl (\<lambda>d k. dict_pop k d) (mp_provenance st) consumed\<rparr>)) (\<lambda>_.
       sret records))"

section \<open>Evolution rounds\<close>

definition initial_rounds :: "string \<Rightarrow> string \<Rightarrow> versions \<Rightarrow> (component_key, string) dict \<Rightarrow>
    (component_key, string) dict" where
  "initial_rounds kind label vs d =
     foldl (\<lambda>d (t, cs). foldl (\<lambda>d c. dict_setdefault (kind, t, cp_name c) label d) d cs) d vs"

definition initialize_component_evolution_rounds :: "('w, unit) mapped" where
  "initialize_component_evolution_rounds =
     smodify (\<lambda>st.
       let d1 = initial_rounds ''generator'' ''initial_generator'' (pl_generators st) (mp_rounds st);
           d2 = initial_rounds ''mutator'' ''initial_mutator'' (pl_mutators st) d1;
           name = cp_name (mp_cur_parser st)
       in st\<lparr>mp_rounds := (if name \<noteq> [] then dict_setdefault (''parser'', ''__all__'', name) ''initial_parser'' d2 else d2)\<rparr>)"

definition record_component_evolution :: "string \<Rightarrow> string list \<Rightarrow> string \<Rightarrow> ('w, unit) mapped" where
  "record_component_evolution kind message_types evolve_round =
     (if kind = ''generator'' \<or> kind = ''mutator''
      then smodify (\<lambda>st. st\<lparr>mp_rounds :=
             foldl (\<lambda>d t. case map_of (get_versions kind st) t of
                      None \<Rightarrow> d
                    | Some vs \<Rightarrow> (if vs = [] then d else dict_put (kind, t, cp_name (last vs)) evolve_round d))
               (mp_rounds st) message_types\<rparr>)
      else sret ())"

section \<open>Selection\<close>

text \<open>
  In mode \<open>new\<close> the latest version that is not quarantined, else the first one; an empty list
  raises.
\<close>

definition select_version :: "string \<Rightarrow> string \<Rightarrow> string \<Rightarrow> ('w, component) mapped" where
  "select_version kind req_type mode =
     sbind (sget (\<lambda>st. map_of (get_versions kind st) req_type)) (\<lambda>entry.
     case entry of
       None \<Rightarrow> slift (Inl KeyError)
     | Some vs \<Rightarrow>
         sbind (sget (\<lambda>st. if mode = ''new''
           then find (\<lambda>c. \<not> component_quarantined kind req_type (cp_name c) st) (rev vs) else None)) (\<lambda>hit.
         case hit of
           Some c \<Rightarrow> sret c
         | None \<Rightarrow> slift (py_index vs 0)))"

definition select_generator :: "string \<Rightarrow> string \<Rightarrow> ('w, component) mapped" where
  "select_generator = select_version ''generator''"

definition select_mutator :: "string \<Rightarrow> string \<Rightarrow> ('w, component) mapped" where
  "select_mutator = select_version ''mutator''"

definition pool_setdefault :: "string \<Rightarrow> ('w, unit) mapped" where
  "pool_setdefault t = smodify (\<lambda>st. st\<lparr>mp_pool := dict_setdefault t [] (mp_pool st)\<rparr>)"

definition pool_get :: "string \<Rightarrow> string \<Rightarrow> 'w mapper \<Rightarrow> message_obj option" where
  "pool_get t name st = (case map_of (mp_pool st) t of None \<Rightarrow> None | Some d \<Rightarrow> map_of d name)"

definition pool_put :: "string \<Rightarrow> string \<Rightarrow> message_obj \<Rightarrow> ('w, unit) mapped" where
  "pool_put t name m =
     sbind (sget (\<lambda>st. map_of (mp_pool st) t)) (\<lambda>d.
     case d of
       None \<Rightarrow> slift (Inl KeyError)
     | Some names \<Rightarrow> smodify (\<lambda>st. st\<lparr>mp_pool := dict_put t (dict_put name m names) (mp_pool st)\<rparr>))"

text \<open>The bounded retries; a message is put into the pool.\<close>

primrec generate_message :: "'w mapper_env \<Rightarrow> component \<Rightarrow> nat \<Rightarrow> ('w, message_obj option) mapped" where
  "generate_message env g 0 = sret None"
| "generate_message env g (Suc n) =
     sbind (exe_generator env g) (\<lambda>msg.
     case msg of
       Some m \<Rightarrow> sbind (pool_put (cp_msg_type g) (cp_name g) m) (\<lambda>_. sret (Some m))
     | None \<Rightarrow> generate_message env g n)"

primrec mutate_message :: "'w mapper_env \<Rightarrow> component \<Rightarrow> nat \<Rightarrow> ('w, message_obj option) mapped" where
  "mutate_message env m 0 = sret None"
| "mutate_message env m (Suc n) =
     sbind (exe_mutator env m) (\<lambda>msg.
     case msg of Some x \<Rightarrow> sret (Some x) | None \<Rightarrow> mutate_message env m n)"

text \<open>What one request adds to the list; the body of the \<open>try\<close> adds nothing when it raises.\<close>

definition deliver_message :: "string \<Rightarrow> component \<Rightarrow> message_obj option \<Rightarrow>
    ('w, (string \<times> message_obj) list) mapped" where
  "deliver_message kind c msg =
     (case msg of
        None \<Rightarrow> sret []
      | Some m \<Rightarrow> sbind (remember_message_provenance m (cp_msg_type c) kind (cp_name c)) (\<lambda>_.
          sret [(cp_msg_type c, m)]))"

definition generate_request :: "'w mapper_env \<Rightarrow> bool \<Rightarrow> string \<Rightarrow> string \<Rightarrow>
    ('w, (string \<times> message_obj) list) mapped" where
  "generate_request env cache_mode mode req =
     sbind (sget (\<lambda>st. req = ''-'' \<or> req \<notin> fst ` set (pl_generators st))) (\<lambda>skipped.
     if skipped then sret []
     else
       sbind (select_generator req mode) (\<lambda>g.
       sbind (pool_setdefault (cp_msg_type g)) (\<lambda>_.
         sattempt []
           (sbind (sget (\<lambda>st. if cache_mode then pool_get (cp_msg_type g) (cp_name g) st else None)) (\<lambda>cached.
            sbind (case cached of Some m \<Rightarrow> sret (Some m) | None \<Rightarrow> generate_message env g EXEC_RETRY_LIMIT) (\<lambda>msg.
              deliver_message ''generator'' g msg))))))"

fun select_generators :: "'w mapper_env \<Rightarrow> bool \<Rightarrow> string \<Rightarrow> string list \<Rightarrow>
    ('w, (string \<times> message_obj) list) mapped" where
  "select_generators env cache_mode mode [] st = (Inr [], st)"
| "select_generators env cache_mode mode (req # reqs) st =
     sbind (generate_request env cache_mode mode req) (\<lambda>ms.
     sbind (select_generators env cache_mode mode reqs) (\<lambda>rest. sret (ms @ rest))) st"

definition mutate_request :: "'w mapper_env \<Rightarrow> string \<Rightarrow> string \<Rightarrow> ('w, (string \<times> message_obj) list) mapped" where
  "mutate_request env mode req =
     sbind (sget (\<lambda>st. req \<in> fst ` set (pl_mutators st))) (\<lambda>known.
     sbind (if known
       then sbind (select_mutator req mode) (\<lambda>m.
            sbind (pool_setdefault (cp_msg_type m)) (\<lambda>_.
              sattempt [] (sbind (mutate_message env m EXEC_RETRY_LIMIT) (deliver_message ''mutator'' m))))
       else sret []) (\<lambda>ms.
     if ms \<noteq> [] then sret ms else select_generators env False mode [req]))"

fun select_mutators :: "'w mapper_env \<Rightarrow> string \<Rightarrow> string list \<Rightarrow> ('w, (string \<times> message_obj) list) mapped" where
  "select_mutators env mode [] st = (Inr [], st)"
| "select_mutators env mode (req # reqs) st =
     sbind (mutate_request env mode req) (\<lambda>ms.
     sbind (select_mutators env mode reqs) (\<lambda>rest. sret (ms @ rest))) st"

section \<open>Construction\<close>

text \<open>\<open>__init__\<close> over the producer's equipment; without a parser it raises.\<close>

definition new_mapper :: "'w plant \<Rightarrow> 'w mapper result" where
  "new_mapper p =
     (if pl_parsers p = [] then Inl IndexError
      else Inr (snd (initialize_component_evolution_rounds
        (plant.extend p (mapper.fields [] [] [] [] [] [] [] [] [] (last (pl_parsers p)) False False)))))"

section \<open>Calls on a mapper\<close>

text \<open>The calls the scheduler, the learner and the executor make, for runs of any length.\<close>

datatype mapper_call =
    Call_generators bool string "string list"
  | Call_mutators string "string list"
  | Call_consume "(string \<times> message_obj) list"
  | Call_remember message_obj string string string
  | Call_repair string string string string string "bytes option"
  | Call_update_parser bytes
  | Call_evolution string "string list" string

definition mapper_step :: "'w mapper_env \<Rightarrow> 'w mapper \<Rightarrow> mapper_call \<Rightarrow> 'w mapper" where
  "mapper_step env st call =
     (case call of
        Call_generators cache mode reqs \<Rightarrow> snd (select_generators env cache mode reqs st)
      | Call_mutators mode reqs \<Rightarrow> snd (select_mutators env mode reqs st)
      | Call_consume msgs \<Rightarrow> snd (consume_message_provenance msgs st)
      | Call_remember m t kind version \<Rightarrow> snd (remember_message_provenance m t kind version st)
      | Call_repair k t v code error input \<Rightarrow> snd (repair_runtime_component env k t v code error input st)
      | Call_update_parser msg \<Rightarrow> snd (update_parser env msg st)
      | Call_evolution kind ts label \<Rightarrow> snd (record_component_evolution kind ts label st))"

definition mapper_run :: "'w mapper_env \<Rightarrow> mapper_call list \<Rightarrow> 'w mapper \<Rightarrow> 'w mapper" where
  "mapper_run env calls st = foldl (mapper_step env) st calls"

end
