(* ===== verification/Mapper_Facts.thy ===== *)
theory Mapper_Facts imports Mapper begin

text \<open>
  Properties of the mapper of \<open>Mapper\<close>: what every call keeps, what selection returns, the effect
  of a failure on later selections, and the repetition of a cached selection.
\<close>

section \<open>Actions on the shared equipment\<close>

text \<open>Actions of the producer leave the mapper's own fields alone.\<close>

definition same_more :: "(exc, ('w, 'z) plant_scheme, 'a) action \<Rightarrow> bool" where
  "same_more m \<longleftrightarrow> (\<forall>x. keeps (\<lambda>st. plant.more st = x) m)"

lemma more_of_update [simp]:
  "plant.more (st\<lparr>pl_generators := a\<rparr>) = plant.more st" "plant.more (st\<lparr>pl_mutators := a\<rparr>) = plant.more st"
  "plant.more (st\<lparr>pl_checkers := a\<rparr>) = plant.more st" "plant.more (st\<lparr>pl_observers := a\<rparr>) = plant.more st"
  "plant.more (st\<lparr>pl_parsers := b\<rparr>) = plant.more st" "plant.more (st\<lparr>pl_files := c\<rparr>) = plant.more st"
  "plant.more (st\<lparr>pl_type_paths := c\<rparr>) = plant.more st" "plant.more (st\<lparr>pl_manifest := d\<rparr>) = plant.more st"
  "plant.more (st\<lparr>pl_next_id := n\<rparr>) = plant.more st" "plant.more (st\<lparr>pl_attempts := n\<rparr>) = plant.more st"
  "plant.more (st\<lparr>pl_world := w\<rparr>) = plant.more st"
  by (cases st; simp)+

lemma more_put_versions [simp]: "plant.more (put_versions k vs st) = plant.more st"
  by (simp add: put_versions_def)

lemma keeps_more [keeping]:
  "keeps (\<lambda>st. plant.more st = x) (ask f)" "keeps (\<lambda>st. plant.more st = x) (record_generation a b c d)"
  "keeps (\<lambda>st. plant.more st = x) (write_file p t)" "keeps (\<lambda>st. plant.more st = x) (new_component mk)"
  by (simp_all add: keeps_def ask_def record_generation_def write_file_def new_component_def action_defs split: prod.split)

lemma keeps_more_modify: "(\<And>st. plant.more (f st) = plant.more st) \<Longrightarrow> keeps (\<lambda>st. plant.more st = x) (smodify f)"
  by (rule keeps_smodify) simp

lemma same_more_publish: "same_more (publish_runtime_component env k t code)"
  unfolding same_more_def publish_runtime_component_def publish_parser_def publish_version_def
    producer_type_dir_def record_type_path_def Let_def
  by (intro allI keeping keeps_more_modify; simp)

lemma same_more_repair: "same_more (repair_runtime_component_async env k t code error input)"
proof -
  have attempt: "keeps (\<lambda>st. plant.more st = x) (repair_attempt env k t fname samples fc fe)" for x :: 'b and fname samples fc fe
  proof -
    have cand: "keeps (\<lambda>st. plant.more st = x) (publish_candidate env k t c)" for c
    proof -
      have "snd (publish_candidate env k t c st) = snd (publish_runtime_component env k t c st)" for st :: "('a, 'b) plant_scheme"
        by (simp add: publish_candidate_def split: prod.split sum.split)
      moreover have "keeps (\<lambda>st. plant.more st = x) (publish_runtime_component env k t c)"
        by (rule same_more_publish[unfolded same_more_def, rule_format])
      ultimately show ?thesis by (simp add: keeps_def)
    qed
    show ?thesis unfolding repair_attempt_def failure_text_def
      by (intro keeping; simp add: keeping cand split: llm_answer.split option.split)
  qed
  have "keeps (\<lambda>st. plant.more st = x) (repair_loop env k t fname samples limit n fc fe)" for x :: 'b and fname samples limit n fc fe
  proof (induction n arbitrary: fc fe)
    case (Suc n)
    show ?case unfolding repair_loop.simps
      by (intro keeping attempt; simp split: attempt_end.split; intro allI conjI impI keeping keeps_more_modify Suc; simp)
  qed (simp, intro keeping keeps_more_modify, simp)
  then show ?thesis unfolding same_more_def repair_runtime_component_async_def Let_def failure_text_def
    by (intro allI keeping)
qed

section \<open>Generated messages are valid\<close>

definition valid_option :: "'w mapper_env \<Rightarrow> message_obj option \<Rightarrow> bool" where
  "valid_option env msg \<longleftrightarrow> (case msg of None \<Rightarrow> True | Some m \<Rightarrow> valid_bytes env (snd m))"

lemma valid_option_simps [simp]: "valid_option env None" "valid_option env (Some m) = valid_bytes env (snd m)"
  by (simp_all add: valid_option_def)

lemma good_message_valid: "valid_option env (good_message env r)"
  by (auto simp: good_message_def split: py_value.split)

lemma good_message_Some: "good_message env r = Some m \<Longrightarrow> valid_bytes env (snd m)"
  using good_message_valid[of env r] by simp

text \<open>
  What an execution keeps: any property that does not depend on the world, the worker, the versions
  that worked and the counts of uses, and that a repair keeps.
\<close>

locale execution_invariant =
  fixes I :: "'w mapper \<Rightarrow> bool"
  assumes I_world: "I (st\<lparr>pl_world := w\<rparr>) \<longleftrightarrow> I st"
    and I_worker: "I (st\<lparr>mp_conn := a, mp_proc := b\<rparr>) \<longleftrightarrow> I st"
    and I_good: "I (st\<lparr>mp_last_good := g\<rparr>) \<longleftrightarrow> I st"
    and I_uses: "I (st\<lparr>mp_uses := u\<rparr>) \<longleftrightarrow> I st"
    and I_repair: "keeps I (repair_runtime_component env k t v code error input)"

context execution_invariant begin

lemma I_stop: "I (st\<lparr>mp_conn := a, mp_proc := b, pl_world := w\<rparr>) \<longleftrightarrow> I st"
  using I_world[where st = "st\<lparr>mp_conn := a, mp_proc := b\<rparr>" and w = w] I_worker[where st = st and a = a and b = b]
  by simp

lemmas I_simps = I_world I_worker I_good I_uses I_stop

lemma keeps_modify: "(\<And>st. I (f st) = I st) \<Longrightarrow> keeps I (smodify f)"
  by (rule keeps_smodify) simp

lemma keeps_repair [keeping]: "keeps I (repair_runtime_component env k t v code error input)"
  by (rule I_repair)

lemma keeps_ask [keeping]: "keeps I (ask f)"
  by (simp add: keeps_def ask_def I_simps split: prod.split)

lemma keeps_worker [keeping]:
  "keeps I (start_dynamic_worker e)" "keeps I (stop_dynamic_worker e)"
  "keeps I (restart_dynamic_worker e)" "keeps I (ensure_dynamic_worker e)"
  unfolding start_dynamic_worker_def stop_dynamic_worker_def restart_dynamic_worker_def ensure_dynamic_worker_def
  by (intro keeping keeps_modify; simp add: I_simps)+

lemma keeps_run [keeping]: "keeps I (run_dynamic_code_result e code fname args)"
proof -
  have "keeps I (receive_reply e fname)"
    unfolding receive_reply_def
    by (intro keeping; simp split: worker_reply.split; intro allI conjI impI keeping)
  then show ?thesis unfolding run_dynamic_code_result_def by (intro keeping)
qed

lemma keeps_paths [keeping]:
  "keeps I (g_path e g)" "keeps I (m_path e g)" "keeps I (read_source p)"
  unfolding g_path_def m_path_def component_path_def read_source_def Let_def by (intro keeping)+

lemma keeps_good [keeping]: "keeps I (remember_good k t c)"
  unfolding remember_good_def by (intro keeping keeps_modify) (simp add: I_simps)

lemma yields_good:
  "keeps I m \<Longrightarrow> yields I (sbind m (\<lambda>r. sret (good_message env r))) (valid_option env)"
  by (intro yields_then yields_sret good_message_valid)

lemma yields_note_good:
  assumes "keeps I m" "valid_bytes env (snd x)"
  shows "yields I (sbind m (\<lambda>_. sret (Some x))) (valid_option env)"
  using assms by (intro yields_then yields_sret) simp_all

lemma yields_replay: "yields I (replay_repaired env k t fname repaired) (valid_option env)"
  unfolding replay_repaired_def
  by (auto split: option.split prod.split intro!: yields_sret yields_then keeping yields_option yields_note_good
      dest: good_message_Some)

lemma yields_last_good: "yields I (run_last_good env k t fname c) (valid_option env)"
  unfolding run_last_good_def
  by (intro yields_then yields_option yields_if yields_sret yields_sattempt keeping good_message_valid) simp_all

lemma yields_execute: "yields I (execute_message_component env k t c code fname) (valid_option env)"
  unfolding execute_message_component_def
  by (intro yields_then[OF keeps_run] yields_option yields_then[OF keeps_repair]
      yields_sbind[OF yields_replay] yields_last_good yields_note_good keeps_good good_message_Some)
    (auto intro: yields_sret)

lemma yields_exe: "yields I (exe_generator env g) (valid_option env)"
  "yields I (exe_mutator env g) (valid_option env)"
proof -
  have uses: "keeps I (if msg \<noteq> None then smodify (\<lambda>st. st\<lparr>mp_uses := dict_bump i (mp_uses st)\<rparr>) else sret ())"
    for msg :: "message_obj option" and i by (intro keeping keeps_modify) (simp add: I_simps)
  show "yields I (exe_generator env g) (valid_option env)"
    unfolding exe_generator_def
    by (intro yields_sattempt yields_then[OF keeps_paths(1)] yields_then[OF keeps_paths(3)]
        yields_sbind[OF yields_execute] yields_then[OF uses] yields_sret) simp_all
  show "yields I (exe_mutator env g) (valid_option env)"
    unfolding exe_mutator_def
    by (intro yields_sattempt yields_then[OF keeps_paths(2)] yields_then[OF keeps_paths(3)] yields_execute) simp
qed

end

section \<open>What every call keeps\<close>

definition pool_ok :: "'w mapper_env \<Rightarrow> (string, (string, message_obj) dict) dict \<Rightarrow> bool" where
  "pool_ok env pool \<longleftrightarrow> list_all (\<lambda>(t, d). list_all (\<lambda>(n, m). valid_bytes env (snd m)) d) pool"

definition provenance_ok :: "(nat, message_obj \<times> provenance) dict \<Rightarrow> bool" where
  "provenance_ok d \<longleftrightarrow> length d \<le> PROVENANCE_LIMIT \<and> distinct (map fst d) \<and> list_all (\<lambda>(k, m, e). k = fst m) d"

text \<open>Every failure is recorded and its version quarantined; every key of the cache was repaired once.\<close>

definition repairs_ok :: "'w mapper \<Rightarrow> bool" where
  "repairs_ok st \<longleftrightarrow> map fst (mp_repairs st) = map fst (mp_repair_cache st) \<and> distinct (map fst (mp_repair_cache st)) \<and>
     fst ` set (mp_repair_cache st) \<subseteq> fst ` set (mp_failures st) \<and>
     set (mp_quarantined st) = snd ` set (mp_failures st)"

definition mapper_ok :: "'w mapper_env \<Rightarrow> 'w mapper \<Rightarrow> bool" where
  "mapper_ok env st \<longleftrightarrow> pool_ok env (mp_pool st) \<and> provenance_ok (mp_provenance st) \<and> repairs_ok st"

lemmas mapper_ok_defs = mapper_ok_def repairs_ok_def

lemma mapper_ok_more:
  "plant.more st = plant.more st' \<Longrightarrow> mapper_ok env st \<longleftrightarrow> mapper_ok env (st' :: 'w mapper)"
  by (cases st; cases st') (simp add: mapper_ok_defs)

lemma mapper_ok_update [simp]:
  "mapper_ok env (st\<lparr>pl_world := w\<rparr>) = mapper_ok env st" "mapper_ok env (st\<lparr>mp_conn := a, mp_proc := b\<rparr>) = mapper_ok env st"
  "mapper_ok env (st\<lparr>mp_conn := a, mp_proc := b, pl_world := w\<rparr>) = mapper_ok env st"
  "mapper_ok env (st\<lparr>mp_uses := u\<rparr>) = mapper_ok env st" "mapper_ok env (st\<lparr>mp_last_good := g\<rparr>) = mapper_ok env st"
  "mapper_ok env (st\<lparr>mp_cur_parser := p\<rparr>) = mapper_ok env st" "mapper_ok env (st\<lparr>pl_parsers := ps\<rparr>) = mapper_ok env st"
  "mapper_ok env (st\<lparr>mp_rounds := r\<rparr>) = mapper_ok env st" "mapper_ok env (st\<lparr>pl_files := fs\<rparr>) = mapper_ok env st"
  "mapper_ok env (st\<lparr>pl_next_id := n\<rparr>) = mapper_ok env st"
  by (simp_all add: mapper_ok_defs)

lemma keeps_ok_modify: "(\<And>st. mapper_ok env (f st) = mapper_ok env st) \<Longrightarrow> keeps (mapper_ok env) (smodify f)"
  by (rule keeps_smodify) simp

lemma keeps_ok_same_more: "same_more m \<Longrightarrow> keeps (mapper_ok env) (m :: ('w, 'a) mapped)"
  unfolding same_more_def keeps_def by (metis mapper_ok_more)

lemma producer_repair_more:
  assumes "call_producer_repair e k t code error input s = (r, s')"
  shows "plant.more s' = plant.more s \<and> (\<exists>r'. r = Inr r')"
proof
  have "keeps (\<lambda>x. plant.more x = plant.more s) (call_producer_repair e k t code error input)"
    unfolding call_producer_repair_def
    by (intro keeping same_more_repair[unfolded same_more_def, rule_format])
  from keepsD[OF this assms] show "plant.more s' = plant.more s" by simp
  show "\<exists>r'. r = Inr r'"
    using assms by (auto simp: call_producer_repair_def sattempt_def split: prod.splits sum.splits)
qed

lemma keeps_ok_repair [keeping]: "keeps (mapper_ok env) (repair_runtime_component e k t v code error input)"
proof -
  have producer: "keeps (mapper_ok env) (call_producer_repair e k t code error input)" for k t code error input
    unfolding call_producer_repair_def by (intro keeping keeps_ok_same_more same_more_repair)
  have "mapper_ok env (snd (repair_runtime_component e k t v code error input st))" if ok: "mapper_ok env st" for st
  proof (cases "repair_key e k code error")
    case (Inl x)
    then show ?thesis using ok by (simp add: repair_runtime_component_def action_defs)
  next
    case (Inr key)
    let ?st1 = "st\<lparr>mp_failures := mp_failures st @ [(key, (k, t, v))],
              mp_quarantined := set_add (k, t, v) (mp_quarantined st)\<rparr>"
    have ok1: "mapper_ok env ?st1" using ok by (auto simp: mapper_ok_defs)
    show ?thesis
    proof (cases "map_of (mp_repair_cache st) key")
      case (Some r)
      then show ?thesis using ok1 Inr by (simp add: repair_runtime_component_def action_defs)
    next
      case None
      obtain r st2 where c: "call_producer_repair e k t code error input ?st1 = (r, st2)" by force
      have ok2: "mapper_ok env st2" using keepsD[OF producer c ok1] .
      have more: "plant.more st2 = plant.more ?st1" using producer_repair_more[OF c] by simp
      have same: "mp_repair_cache st2 = mp_repair_cache st" "mp_failures st2 = mp_failures ?st1"
        using more by (cases st2; cases st; simp)+
      from None have fresh: "key \<notin> fst ` set (mp_repair_cache st)" by (simp add: map_of_eq_None_iff)
      have "(key, (k, t, v)) \<in> set (mp_failures st2)" using same(2) by simp
      then have "key \<in> fst ` set (mp_failures st2)" by force
      then have "mapper_ok env (st2\<lparr>mp_repair_cache := dict_put key r' (mp_repair_cache st2),
          mp_repairs := mp_repairs st2 @ [(key, r' \<noteq> None)]\<rparr>)" for r'
        using ok2 fresh same(1) by (auto simp: mapper_ok_defs keys_dict_put set_add_def)
      moreover have "\<exists>r'. r = Inr r'" using producer_repair_more[OF c] by simp
      ultimately show ?thesis using Inr None c
        by (auto simp: repair_runtime_component_def action_defs)
    qed
  qed
  then show ?thesis by (simp add: keeps_def)
qed

interpretation ok: execution_invariant "mapper_ok env" for env
  by unfold_locales (simp_all add: keeps_ok_repair)

section \<open>Provenance stays bounded\<close>

lemma trim_oldest_drop: "trim_oldest d = drop (length d - PROVENANCE_LIMIT) d"
proof (induction d)
  case (Cons e d)
  then show ?case by (auto simp: Suc_diff_le less_Suc_eq_le split: if_splits)
qed simp

lemma provenance_ok_remember:
  assumes "provenance_ok d"
  shows "provenance_ok (trim_oldest (dict_put (fst m) (m, e) d))"
proof -
  let ?d = "dict_put (fst m) (m, e) d"
  have "list_all (\<lambda>(k, m', e'). k = fst m') ?d"
    using assms by (induction "fst m" "(m, e)" d rule: dict_put.induct) (auto simp: provenance_ok_def)
  moreover have "distinct (drop n (map fst ?d))" for n
    using assms by (intro distinct_drop) (simp add: provenance_ok_def)
  ultimately show ?thesis
    by (auto simp: provenance_ok_def trim_oldest_drop drop_map list_all_iff dest: in_set_dropD)
qed

lemma keeps_ok_remember [keeping]: "keeps (mapper_ok env) (remember_message_provenance m t kind v)"
  unfolding remember_message_provenance_def Let_def
  by (rule keeps_smodify) (simp add: mapper_ok_defs provenance_ok_remember)

lemma provenance_ok_pop: "provenance_ok d \<Longrightarrow> provenance_ok (dict_pop k d)"
  by (auto simp: provenance_ok_def distinct_dict_pop list_all_iff dict_pop_def
      intro: le_trans[OF length_filter_le] simp del: distinct_map)
    (metis dict_pop_def distinct_dict_pop)+

lemma keeps_ok_consume [keeping]: "keeps (mapper_ok env) (consume_message_provenance msgs)"
proof -
  have "provenance_ok d \<Longrightarrow> provenance_ok (foldl (\<lambda>d k. dict_pop k d) d ks)" for d ks
    by (induction ks arbitrary: d) (auto intro: provenance_ok_pop)
  then show ?thesis unfolding consume_message_provenance_def Let_def
    by (intro keeping keeps_smodify) (simp add: mapper_ok_defs)
qed

section \<open>Selection\<close>

lemma keeps_ok_select [keeping]: "keeps (mapper_ok env) (select_version kind req mode)"
  unfolding select_version_def by (intro keeping)

lemma keeps_ok_pool: "keeps (mapper_ok env) (pool_setdefault t)"
  "valid_bytes env (snd m) \<Longrightarrow> keeps (mapper_ok env) (pool_put t name m)"
proof -
  show "keeps (mapper_ok env) (pool_setdefault t)"
    unfolding pool_setdefault_def
    by (rule keeps_smodify) (auto simp: mapper_ok_defs pool_ok_def dict_setdefault_def split: option.split)
  assume m: "valid_bytes env (snd m)"
  have names: "list_all (\<lambda>(n, m). valid_bytes env (snd m)) (dict_put name m d)"
    if "list_all (\<lambda>(n, m). valid_bytes env (snd m)) d" for d
    using that m by (induction name m d rule: dict_put.induct) auto
  have pool: "pool_ok env (dict_put t d p)" if "pool_ok env p" "list_all (\<lambda>(n, m). valid_bytes env (snd m)) d" for p d
    using that by (induction t d p rule: dict_put.induct) (auto simp: pool_ok_def)
  have "mapper_ok env (snd (pool_put t name m st))" if "mapper_ok env st" for st
  proof (cases "map_of (mp_pool st) t")
    case (Some d)
    then have "list_all (\<lambda>(n, m). valid_bytes env (snd m)) d"
      using that by (auto simp: mapper_ok_def pool_ok_def list_all_iff dest!: map_of_SomeD)
    with that Some show ?thesis
      by (simp add: pool_put_def action_defs mapper_ok_defs pool names)
  qed (simp add: pool_put_def action_defs that)
  then show "keeps (mapper_ok env) (pool_put t name m)" by (simp add: keeps_def)
qed

lemma pool_get_valid: "mapper_ok env st \<Longrightarrow> valid_option env (pool_get t name st)"
  by (fastforce simp: mapper_ok_def pool_ok_def pool_get_def list_all_iff valid_option_def split: option.split
      dest!: map_of_SomeD)

lemma yields_generate: "yields (mapper_ok env) (generate_message env g n) (valid_option env)"
proof (induction n)
  case (Suc n)
  then show ?case
    by (auto intro!: yields_sbind[OF ok.yields_exe(1)] yields_option yields_then[OF keeps_ok_pool(2)] yields_sret)
qed (simp add: yields_sret)

lemma yields_mutate: "yields (mapper_ok env) (mutate_message env g n) (valid_option env)"
proof (induction n)
  case (Suc n)
  then show ?case by (auto intro!: yields_sbind[OF ok.yields_exe(2)] yields_option yields_sret)
qed (simp add: yields_sret)

definition valid_messages :: "'w mapper_env \<Rightarrow> (string \<times> message_obj) list \<Rightarrow> bool" where
  "valid_messages env ms \<longleftrightarrow> list_all (\<lambda>(t, m). valid_bytes env (snd m)) ms"

lemma yields_deliver:
  "valid_option env msg \<Longrightarrow> yields (mapper_ok env) (deliver_message kind c msg) (valid_messages env)"
  unfolding deliver_message_def
  by (auto simp: valid_messages_def intro!: yields_option yields_then keeping yields_sret)

lemma yields_generate_request: "yields (mapper_ok env) (generate_request env cache mode req) (valid_messages env)"
proof -
  have body: "yields (mapper_ok env)
      (sbind (sget (\<lambda>st. if cache then pool_get t n st else None)) (\<lambda>cached.
       sbind (case cached of Some m \<Rightarrow> sret (Some m) | None \<Rightarrow> generate_message env g EXEC_RETRY_LIMIT) (\<lambda>msg.
         deliver_message ''generator'' g msg))) (valid_messages env)" for t n g
    by (rule yields_sbind[where Q = "valid_option env"])
      (auto intro!: yields_sget pool_get_valid yields_sbind[where Q = "valid_option env"] yields_option
        yields_generate yields_sret yields_deliver)
  show ?thesis unfolding generate_request_def select_generator_def
    by (intro yields_then keeping yields_if keeps_ok_pool yields_sattempt body yields_sret)
      (simp_all add: valid_messages_def)
qed

lemma yields_select_generators: "yields (mapper_ok env) (select_generators env cache mode reqs) (valid_messages env)"
proof (induction reqs)
  case Nil
  then show ?case by (simp add: yields_def valid_messages_def)
next
  case (Cons req reqs)
  have "select_generators env cache mode (req # reqs) =
     sbind (generate_request env cache mode req) (\<lambda>ms.
     sbind (select_generators env cache mode reqs) (\<lambda>rest. sret (ms @ rest)))"
    by (simp add: fun_eq_iff)
  then show ?case
    by (auto simp: valid_messages_def intro!: yields_sbind[OF yields_generate_request] yields_sbind[OF Cons] yields_sret)
qed

lemma yields_mutate_request: "yields (mapper_ok env) (mutate_request env mode req) (valid_messages env)"
proof -
  have "yields (mapper_ok env) (sbind (select_mutator req mode) (\<lambda>m.
      sbind (pool_setdefault (cp_msg_type m)) (\<lambda>_.
        sattempt [] (sbind (mutate_message env m EXEC_RETRY_LIMIT) (deliver_message ''mutator'' m))))) (valid_messages env)"
    unfolding select_mutator_def
    by (intro yields_then[OF keeps_ok_select] yields_then[OF keeps_ok_pool(1)] yields_sattempt
        yields_sbind[OF yields_mutate] yields_deliver) (simp_all add: valid_messages_def)
  then show ?thesis unfolding mutate_request_def
    by (intro yields_then[OF keeps_basic(3)] yields_sbind[where Q = "valid_messages env"] yields_if
        yields_select_generators) (simp_all add: yields_sret valid_messages_def)
qed

lemma yields_select_mutators: "yields (mapper_ok env) (select_mutators env mode reqs) (valid_messages env)"
proof (induction reqs)
  case Nil
  then show ?case by (simp add: yields_def valid_messages_def)
next
  case (Cons req reqs)
  have "select_mutators env mode (req # reqs) =
     sbind (mutate_request env mode req) (\<lambda>ms.
     sbind (select_mutators env mode reqs) (\<lambda>rest. sret (ms @ rest)))"
    by (simp add: fun_eq_iff)
  then show ?case
    by (auto simp: valid_messages_def intro!: yields_sbind[OF yields_mutate_request] yields_sbind[OF Cons] yields_sret)
qed

section \<open>Every run of calls\<close>

lemma keeps_ok_update_parser [keeping]: "keeps (mapper_ok env) (update_parser env msg)"
  unfolding update_parser_def parser_evo_def equip_parser_def write_file_def new_component_def
  by (intro keeping keeps_ok_modify; simp)

lemma mapper_ok_run: "mapper_ok env st \<Longrightarrow> mapper_ok env (mapper_run env calls st)"
proof -
  have evolution: "keeps (mapper_ok env) (record_component_evolution kind ts label)" for kind ts label
    unfolding record_component_evolution_def by (intro keeping keeps_ok_modify) simp
  have select: "keeps (mapper_ok env) (select_generators env cache mode reqs)"
    "keeps (mapper_ok env) (select_mutators env mode reqs)" for cache mode reqs
    using yields_select_generators[of env] yields_select_mutators[of env] by (auto simp: yields_def keeps_def)
  have step: "mapper_ok env (mapper_step env st call)" if "mapper_ok env st" for st call
    using that select evolution keeps_ok_consume[of env] keeps_ok_remember[of env] keeps_ok_repair[of env]
      keeps_ok_update_parser[of env]
    by (cases call) (simp_all add: mapper_step_def keeps_def)
  show "mapper_ok env st \<Longrightarrow> mapper_ok env (mapper_run env calls st)"
    unfolding mapper_run_def by (induction calls arbitrary: st) (simp_all add: step)
qed

lemma new_mapper_ok: "new_mapper p = Inr st \<Longrightarrow> mapper_ok env st"
  by (auto simp: new_mapper_def initialize_component_evolution_rounds_def smodify_def Let_def mapper_ok_defs
      pool_ok_def provenance_ok_def plant.defs mapper.defs split: if_splits)


section \<open>The selected version\<close>

lemma find_rev_latest: "find P (rev xs) = Some x \<Longrightarrow> \<exists>ys zs. xs = ys @ x # zs \<and> P x \<and> list_all (\<lambda>z. \<not> P z) zs"
proof (induction xs rule: rev_induct)
  case (snoc y xs)
  show ?case
  proof (cases "P y")
    case True
    with snoc.prems show ?thesis by (intro exI[of _ xs] exI[of _ "[]"]) simp
  next
    case False
    with snoc obtain ys zs where "xs = ys @ x # zs" "P x" "list_all (\<lambda>z. \<not> P z) zs" by auto
    with False show ?thesis by (intro exI[of _ ys] exI[of _ "zs @ [y]"]) simp
  qed
qed simp

text \<open>
  Selection does not change the mapper.  In mode \<open>new\<close> it picks the latest version that is not
  quarantined, and the first one when all are; it raises a KeyError for an unknown type and an
  IndexError for one without versions.
\<close>

theorem select_version_latest:
  "snd (select_version kind t ''new'' st) = st \<and>
   (case map_of (get_versions kind st) t of
      None \<Rightarrow> fst (select_version kind t ''new'' st) = Inl KeyError
    | Some [] \<Rightarrow> fst (select_version kind t ''new'' st) = Inl IndexError
    | Some (v # vs) \<Rightarrow>
        (case fst (select_version kind t ''new'' st) of
           Inl e \<Rightarrow> False
         | Inr c \<Rightarrow>
             if list_all (\<lambda>c. component_quarantined kind t (cp_name c) st) (v # vs) then c = v
             else \<not> component_quarantined kind t (cp_name c) st \<and>
               (\<exists>older newer. v # vs = older @ c # newer \<and>
                  list_all (\<lambda>c'. component_quarantined kind t (cp_name c') st) newer)))"
proof (cases "map_of (get_versions kind st) t")
  case None
  then show ?thesis by (simp add: select_version_def action_defs)
next
  case (Some cs)
  let ?P = "\<lambda>c. \<not> component_quarantined kind t (cp_name c) st"
  show ?thesis
  proof (cases cs)
    case Nil
    with Some show ?thesis by (simp add: select_version_def action_defs py_index_def)
  next
    case (Cons v vs)
    show ?thesis
    proof (cases "find ?P (rev (v # vs))")
      case None
      then have "list_all (\<lambda>c. component_quarantined kind t (cp_name c) st) (v # vs)"
        by (auto simp: find_None_iff list_all_iff)
      with Some Cons None show ?thesis
        by (simp add: select_version_def action_defs py_index_def del: rev.simps)
    next
      case hit: (Some c)
      from find_rev_latest[OF hit] obtain older newer where
        "v # vs = older @ c # newer" "?P c" "list_all (\<lambda>c'. component_quarantined kind t (cp_name c') st) newer"
        by auto
      note split = this
      have sel: "select_version kind t ''new'' st = (Inr c, st)"
        using Some Cons hit by (simp add: select_version_def action_defs del: rev.simps)
      have "\<not> list_all (\<lambda>c. component_quarantined kind t (cp_name c) st) (v # vs)"
        unfolding split(1) using split(2) by simp
      then show ?thesis
        unfolding Some Cons option.case list.case sel fst_conv snd_conv sum.case using split
        by (simp only: if_False simp_thms) blast
    qed
  qed
qed

section \<open>A cached selection repeats\<close>

text \<open>Since \<open>s0\<close> only failed executions changed the versions or the quarantine, and the pool is the same.\<close>

definition since :: "'w mapper \<Rightarrow> 'w mapper \<Rightarrow> bool" where
  "since s0 st \<longleftrightarrow> prefix (mp_failures s0) (mp_failures st) \<and> mp_pool st = mp_pool s0 \<and>
     (mp_failures st = mp_failures s0 \<longrightarrow>
        pl_generators st = pl_generators s0 \<and> mp_quarantined st = mp_quarantined s0)"

lemma keeps_since_repair: "keeps (since s0) (repair_runtime_component e k t v code error input)"
proof -
  have "since s0 (snd (repair_runtime_component e k t v code error input st))" if since: "since s0 st" for st
  proof (cases "repair_key e k code error")
    case (Inl x)
    then show ?thesis using since by (simp add: repair_runtime_component_def action_defs)
  next
    case (Inr key)
    let ?f = "mp_failures st @ [(key, (k, t, v))]"
    let ?st1 = "st\<lparr>mp_failures := ?f, mp_quarantined := set_add (k, t, v) (mp_quarantined st)\<rparr>"
    have longer: "prefix (mp_failures s0) ?f" "?f \<noteq> mp_failures s0"
      using since by (auto simp: since_def prefix_def)
    show ?thesis
    proof (cases "map_of (mp_repair_cache st) key")
      case (Some r)
      then show ?thesis using Inr longer since by (simp add: repair_runtime_component_def action_defs since_def)
    next
      case None
      obtain r st2 where c: "call_producer_repair e k t code error input ?st1 = (r, st2)" by force
      have "plant.more st2 = plant.more ?st1" using producer_repair_more[OF c] by simp
      then have "mp_failures st2 = ?f" "mp_pool st2 = mp_pool st" by (cases st2; cases st; simp)+
      moreover have "\<exists>r'. r = Inr r'" using producer_repair_more[OF c] by simp
      ultimately show ?thesis using Inr None c longer since
        by (auto simp: repair_runtime_component_def action_defs since_def)
    qed
  qed
  then show ?thesis by (simp add: keeps_def)
qed

interpretation since: execution_invariant "since s0" for s0
  by unfold_locales (rule keeps_since_repair | simp add: since_def)+

lemma since_refl [simp]: "since s s"
  by (simp add: since_def)

lemma since_exe: "exe_generator env g s = (r, s') \<Longrightarrow> since s s'"
  using yieldsD[OF since.yields_exe(1)] since_refl by blast

text \<open>What a request keeps in cache mode: entries of the pool, and all else unless something failed.\<close>

definition pool_grows :: "'w mapper \<Rightarrow> 'w mapper \<Rightarrow> bool" where
  "pool_grows s0 st \<longleftrightarrow> prefix (mp_failures s0) (mp_failures st) \<and>
     (\<forall>t n m. pool_get t n s0 = Some m \<longrightarrow> pool_get t n st = Some m) \<and>
     (mp_failures st = mp_failures s0 \<longrightarrow>
        pl_generators st = pl_generators s0 \<and> mp_quarantined st = mp_quarantined s0)"

lemma pool_grows_refl [simp]: "pool_grows s s"
  by (simp add: pool_grows_def)

lemma pool_grows_trans: "pool_grows a b \<Longrightarrow> pool_grows b c \<Longrightarrow> pool_grows a c"
  unfolding pool_grows_def
  by (elim conjE, intro conjI impI) (auto dest: prefix_order.antisym elim: prefix_order.trans)

lemma since_pool_grows: "since a b \<Longrightarrow> pool_grows a b"
  by (simp add: since_def pool_grows_def pool_get_def)

lemma pool_get_put: "map_of (mp_pool s) t = Some d \<Longrightarrow>
   pool_put t n m s = (Inr (), s\<lparr>mp_pool := dict_put t (dict_put n m d) (mp_pool s)\<rparr>)"
  by (simp add: pool_put_def action_defs)

lemma exe_generator_returns: "\<exists>msg. fst (exe_generator env g s) = Inr msg"
  by (simp add: exe_generator_def sattempt_def split: prod.split sum.split)

lemma generate_message_grows:
  assumes "map_of (mp_pool s) (cp_msg_type g) \<noteq> None" "pool_get (cp_msg_type g) (cp_name g) s = None"
  shows "\<exists>msg s'. generate_message env g k s = (Inr msg, s') \<and> pool_grows s s' \<and>
    (case msg of None \<Rightarrow> True | Some m \<Rightarrow> pool_get (cp_msg_type g) (cp_name g) s' = Some m)"
  using assms
proof (induction k arbitrary: s)
  case 0
  then show ?case by (simp add: sret_def)
next
  case (Suc k)
  obtain m1 s1 where x: "exe_generator env g s = (Inr m1, s1)"
    using exe_generator_returns[of env g s] by (metis prod.collapse)
  note s1 = since_exe[OF x]
  show ?case
  proof (cases m1)
    case None
    have "map_of (mp_pool s1) (cp_msg_type g) \<noteq> None" "pool_get (cp_msg_type g) (cp_name g) s1 = None"
      using Suc.prems s1 by (simp_all add: since_def pool_get_def)
    from Suc.IH[OF this] obtain msg s' where "generate_message env g k s1 = (Inr msg, s')" "pool_grows s1 s'"
      "case msg of None \<Rightarrow> True | Some m \<Rightarrow> pool_get (cp_msg_type g) (cp_name g) s' = Some m" by blast
    with x None since_pool_grows[OF s1] pool_grows_trans show ?thesis by (simp add: sbind_def) blast
  next
    case (Some m)
    from Suc.prems(1) s1 obtain d where d: "map_of (mp_pool s1) (cp_msg_type g) = Some d"
      by (auto simp: since_def)
    have "generate_message env g (Suc k) s =
        (Inr (Some m), s1\<lparr>mp_pool := dict_put (cp_msg_type g) (dict_put (cp_name g) m d) (mp_pool s1)\<rparr>)"
      using x Some pool_get_put[OF d] by (simp add: sbind_def sret_def)
    moreover have "pool_grows s (s1\<lparr>mp_pool := dict_put (cp_msg_type g) (dict_put (cp_name g) m d) (mp_pool s1)\<rparr>)"
      using Suc.prems(2) s1 d by (auto simp: pool_grows_def since_def pool_get_def split: option.splits)
    moreover have "pool_get (cp_msg_type g) (cp_name g)
        (s1\<lparr>mp_pool := dict_put (cp_msg_type g) (dict_put (cp_name g) m d) (mp_pool s1)\<rparr>) = Some m"
      by (simp add: pool_get_def)
    ultimately show ?thesis by auto
  qed
qed

text \<open>Nothing but the provenance, and an empty entry of the pool, has changed.\<close>

definition quiet :: "'w mapper \<Rightarrow> 'w mapper \<Rightarrow> bool" where
  "quiet a b \<longleftrightarrow> pl_world b = pl_world a \<and> pl_generators b = pl_generators a \<and>
     mp_quarantined b = mp_quarantined a \<and> mp_failures b = mp_failures a \<and> (\<forall>t n. pool_get t n b = pool_get t n a)"

lemma quiet_grows: "quiet a b \<Longrightarrow> pool_grows a b"
  by (simp add: quiet_def pool_grows_def)

lemma quiet_refl [simp]: "quiet a a"
  by (simp add: quiet_def)

lemma quiet_trans: "quiet a b \<Longrightarrow> quiet b c \<Longrightarrow> quiet a c"
  by (simp add: quiet_def)

lemma pool_setdefault_quiet:
  "\<exists>s'. pool_setdefault t s = (Inr (), s') \<and> quiet s s' \<and> map_of (mp_pool s') t \<noteq> None"
  by (auto simp: pool_setdefault_def smodify_def quiet_def pool_get_def map_of_dict_setdefault split: option.split)

lemma deliver_quiet:
  "\<exists>s'. deliver_message kind c msg s =
     (Inr (case msg of None \<Rightarrow> [] | Some m \<Rightarrow> [(cp_msg_type c, m)]), s') \<and> quiet s s'"
  by (auto simp: deliver_message_def remember_message_provenance_def action_defs quiet_def pool_get_def Let_def
      split: option.split)

definition known_request :: "'w mapper \<Rightarrow> string \<Rightarrow> bool" where
  "known_request s req \<longleftrightarrow> req \<noteq> ''-'' \<and> req \<in> fst ` set (pl_generators s)"

lemma select_version_state: "snd (select_version kind t mode s) = s"
  by (simp add: select_version_def action_defs split: option.split)

lemma select_generator_cong:
  "pl_generators a = pl_generators b \<Longrightarrow> mp_quarantined a = mp_quarantined b \<Longrightarrow>
     fst (select_generator t mode a) = fst (select_generator t mode b)"
  by (simp add: select_generator_def select_version_def get_versions_def component_quarantined_def action_defs
      split: option.split)

lemma generate_request_known:
  assumes "known_request s req" "fst (select_generator req mode s) = Inr g"
  shows "\<exists>s1. quiet s s1 \<and> map_of (mp_pool s1) (cp_msg_type g) \<noteq> None \<and>
    generate_request env True mode req s =
      sattempt [] (sbind (sget (pool_get (cp_msg_type g) (cp_name g))) (\<lambda>cached.
       sbind (case cached of Some m \<Rightarrow> sret (Some m) | None \<Rightarrow> generate_message env g EXEC_RETRY_LIMIT)
         (deliver_message ''generator'' g))) s1"
proof -
  from pool_setdefault_quiet[of "cp_msg_type g" s] obtain s1 where
    s1: "pool_setdefault (cp_msg_type g) s = (Inr (), s1)" "quiet s s1" "map_of (mp_pool s1) (cp_msg_type g) \<noteq> None" by blast
  have sel: "select_generator req mode s = (Inr g, s)"
    using assms(2) select_version_state[of "''generator''" req mode s] by (simp add: select_generator_def prod_eq_iff)
  have "generate_request env True mode req s =
      sattempt [] (sbind (sget (\<lambda>st. pool_get (cp_msg_type g) (cp_name g) st)) (\<lambda>cached.
       sbind (case cached of Some m \<Rightarrow> sret (Some m) | None \<Rightarrow> generate_message env g EXEC_RETRY_LIMIT)
         (\<lambda>msg. deliver_message ''generator'' g msg))) s1"
    using assms(1) sel s1(1) by (simp add: generate_request_def known_request_def sbind_def sget_def)
  with s1 show ?thesis by blast
qed

lemma generate_request_grows:
  assumes "known_request s req" "fst (select_generator req mode s) = Inr g"
  shows "\<exists>ms s'. generate_request env True mode req s = (Inr ms, s') \<and> pool_grows s s' \<and>
    (ms = [] \<or> (\<exists>m. ms = [(cp_msg_type g, m)] \<and> pool_get (cp_msg_type g) (cp_name g) s' = Some m))"
proof -
  from generate_request_known[OF assms, of env] obtain s1 where s1: "quiet s s1" "map_of (mp_pool s1) (cp_msg_type g) \<noteq> None"
    "generate_request env True mode req s =
      sattempt [] (sbind (sget (pool_get (cp_msg_type g) (cp_name g))) (\<lambda>cached.
       sbind (case cached of Some m \<Rightarrow> sret (Some m) | None \<Rightarrow> generate_message env g EXEC_RETRY_LIMIT)
         (deliver_message ''generator'' g))) s1" by blast
  obtain msg s2 where s2: "(case pool_get (cp_msg_type g) (cp_name g) s1 of Some m \<Rightarrow> sret (Some m)
      | None \<Rightarrow> generate_message env g EXEC_RETRY_LIMIT) s1 = (Inr msg, s2)" "pool_grows s1 s2"
      "case msg of None \<Rightarrow> True | Some m \<Rightarrow> pool_get (cp_msg_type g) (cp_name g) s2 = Some m"
  proof (cases "pool_get (cp_msg_type g) (cp_name g) s1")
    case None
    from generate_message_grows[OF s1(2) None, of env EXEC_RETRY_LIMIT] that None show ?thesis by auto
  next
    case (Some m)
    with that[of "Some m" s1] show ?thesis by (simp add: sret_def)
  qed
  from deliver_quiet[of "''generator''" g msg s2] obtain s3 where
    s3: "deliver_message ''generator'' g msg s2 = (Inr (case msg of None \<Rightarrow> [] | Some m \<Rightarrow> [(cp_msg_type g, m)]), s3)"
    "quiet s2 s3" by blast
  have "generate_request env True mode req s = (Inr (case msg of None \<Rightarrow> [] | Some m \<Rightarrow> [(cp_msg_type g, m)]), s3)"
    using s1(3) s2(1) s3(1) by (simp add: sattempt_def sbind_def sget_def)
  moreover have "pool_grows s s3"
    using quiet_grows[OF s1(1)] s2(2) quiet_grows[OF s3(2)] pool_grows_trans by blast
  ultimately show ?thesis using s2(3) s3(2) by (cases msg) (auto simp: quiet_def)
qed

text \<open>A second request finds the message of the first in the pool.\<close>

lemma generate_request_repeats:
  assumes "known_request s req" "fst (select_generator req mode s) = Inr g"
    "pool_get (cp_msg_type g) (cp_name g) s = Some m"
  shows "\<exists>s'. generate_request env True mode req s = (Inr [(cp_msg_type g, m)], s') \<and> quiet s s'"
proof -
  from generate_request_known[OF assms(1,2), of env] obtain s1 where s1: "quiet s s1"
    "generate_request env True mode req s =
      sattempt [] (sbind (sget (pool_get (cp_msg_type g) (cp_name g))) (\<lambda>cached.
       sbind (case cached of Some m \<Rightarrow> sret (Some m) | None \<Rightarrow> generate_message env g EXEC_RETRY_LIMIT)
         (deliver_message ''generator'' g))) s1" by blast
  from deliver_quiet[of "''generator''" g "Some m" s1] obtain s3 where
    "deliver_message ''generator'' g (Some m) s1 = (Inr [(cp_msg_type g, m)], s3)" "quiet s1 s3" by auto
  moreover have "pool_get (cp_msg_type g) (cp_name g) s1 = Some m" using assms(3) s1(1) by (simp add: quiet_def)
  ultimately have "generate_request env True mode req s = (Inr [(cp_msg_type g, m)], s3)"
    using s1(2) by (simp add: sattempt_def sbind_def sget_def sret_def)
  moreover have "quiet s s3" using s1(1) \<open>quiet s1 s3\<close> by (rule quiet_trans)
  ultimately show ?thesis by blast
qed

lemma generate_request_unknown: "\<not> known_request s req \<Longrightarrow> generate_request env cache mode req s = (Inr [], s)"
  by (auto simp: generate_request_def known_request_def sbind_def sget_def sret_def)

lemma generate_request_error:
  assumes "known_request s req" "fst (select_generator req mode s) = Inl e"
  shows "fst (generate_request env cache mode req s) = Inl e"
proof -
  have "select_generator req mode s = (Inl e, s)"
    using assms(2) select_version_state[of "''generator''" req mode s] by (simp add: select_generator_def prod_eq_iff)
  then show ?thesis using assms(1) by (simp add: generate_request_def known_request_def sbind_def sget_def)
qed

lemma generate_request_step:
  assumes "generate_request env True mode req s = (Inr ms, s')"
  shows "pool_grows s s' \<and> length ms \<le> (if known_request s req then 1 else 0)"
proof (cases "known_request s req")
  case False
  with assms show ?thesis by (simp add: generate_request_unknown)
next
  case True
  show ?thesis
  proof (cases "fst (select_generator req mode s)")
    case (Inl e)
    with assms generate_request_error[OF True this, of env True] show ?thesis by simp
  next
    case (Inr g)
    from generate_request_grows[OF True Inr, of env] assms True show ?thesis by auto
  qed
qed

lemma select_generators_Cons:
  assumes "select_generators env cache mode (req # reqs) s = (Inr ms, s')"
  obtains m1 s1 rest where "generate_request env cache mode req s = (Inr m1, s1)"
    "select_generators env cache mode reqs s1 = (Inr rest, s')" "ms = m1 @ rest"
  using assms by (auto elim!: sbind_InrE simp: sret_def)

lemma same_setup:
  assumes "pool_grows a b" "pool_grows b c" "mp_failures c = mp_failures a"
  shows "mp_failures b = mp_failures a \<and> pl_generators b = pl_generators a \<and> mp_quarantined b = mp_quarantined a"
  using assms unfolding pool_grows_def by (metis prefix_order.antisym)

lemma known_request_cong: "pl_generators a = pl_generators b \<Longrightarrow> known_request a = known_request b"
  by (simp add: known_request_def fun_eq_iff)

lemma select_generators_grows:
  "select_generators env True mode reqs s = (Inr ms, s') \<Longrightarrow> pool_grows s s' \<and>
     (mp_failures s' = mp_failures s \<longrightarrow> length ms \<le> length (filter (known_request s) reqs))"
proof (induction reqs arbitrary: s ms)
  case (Cons req reqs)
  from select_generators_Cons[OF Cons.prems] obtain m1 s1 rest where
    r: "generate_request env True mode req s = (Inr m1, s1)"
    "select_generators env True mode reqs s1 = (Inr rest, s')" "ms = m1 @ rest" by metis
  note g1 = generate_request_step[OF r(1)]
  note g2 = Cons.IH[OF r(2)]
  show ?case
  proof (intro conjI impI)
    show "pool_grows s s'" using g1 g2 pool_grows_trans by blast
    assume "mp_failures s' = mp_failures s"
    with same_setup[OF conjunct1[OF g1] conjunct1[OF g2] this] g2
    have "length rest \<le> length (filter (known_request s) reqs)"
      by (metis known_request_cong)
    with g1 show "length ms \<le> length (filter (known_request s) (req # reqs))"
      by (auto simp: r(3) split: if_splits)
  qed
qed simp

lemma select_generators_again:
  "select_generators env True mode reqs s = (Inr ms, s') \<Longrightarrow> mp_failures s' = mp_failures s \<Longrightarrow>
   length ms = length (filter (known_request s) reqs) \<Longrightarrow>
   pl_generators s2 = pl_generators s \<Longrightarrow> mp_quarantined s2 = mp_quarantined s \<Longrightarrow>
   (\<And>t n m. pool_get t n s' = Some m \<Longrightarrow> pool_get t n s2 = Some m) \<Longrightarrow>
   \<exists>s3. select_generators env True mode reqs s2 = (Inr ms, s3) \<and> quiet s2 s3"
proof (induction reqs arbitrary: s ms s2)
  case (Cons req reqs)
  from select_generators_Cons[OF Cons.prems(1)] obtain m1 s1 rest where
    r: "generate_request env True mode req s = (Inr m1, s1)"
    "select_generators env True mode reqs s1 = (Inr rest, s')" "ms = m1 @ rest" by metis
  note g1 = generate_request_step[OF r(1)]
  note g2 = select_generators_grows[OF r(2)]
  from same_setup[OF conjunct1[OF g1] conjunct1[OF g2] Cons.prems(2)]
  have same: "mp_failures s1 = mp_failures s" "pl_generators s1 = pl_generators s" "mp_quarantined s1 = mp_quarantined s" by auto
  have known: "known_request s1 = known_request s" "known_request s2 = known_request s"
    by (rule known_request_cong[OF same(2)]) (rule known_request_cong[OF Cons.prems(4)])
  have len: "length m1 = (if known_request s req then 1 else 0)"
    "length rest = length (filter (known_request s1) reqs)"
    using g1 g2 Cons.prems(2,3) same r(3) known by (auto split: if_splits)
  obtain s3 where s3: "generate_request env True mode req s2 = (Inr m1, s3)" "quiet s2 s3"
  proof (cases "known_request s req")
    case False
    then show ?thesis using that[of s2] len(1) known by (simp add: generate_request_unknown)
  next
    case True
    obtain g where g: "fst (select_generator req mode s) = Inr g"
    proof (cases "fst (select_generator req mode s)")
      case (Inl e)
      from generate_request_error[OF True this, of env True] show ?thesis using r(1) by simp
    qed blast
    from generate_request_grows[OF True g, of env] r(1) len(1) True obtain m where
      m: "m1 = [(cp_msg_type g, m)]" "pool_get (cp_msg_type g) (cp_name g) s1 = Some m" by auto
    have "pool_get (cp_msg_type g) (cp_name g) s' = Some m"
      using g2 m(2) unfolding pool_grows_def by blast
    then have "pool_get (cp_msg_type g) (cp_name g) s2 = Some m" by (rule Cons.prems(6))
    moreover have "fst (select_generator req mode s2) = Inr g"
      using g select_generator_cong[OF Cons.prems(4,5)] by simp
    ultimately show ?thesis
      using generate_request_repeats[of s2 req mode g m env] True known m(1) that by auto
  qed
  have "\<exists>s4. select_generators env True mode reqs s3 = (Inr rest, s4) \<and> quiet s3 s4"
    using Cons.IH[OF r(2) _ len(2), of s3] Cons.prems(2,4,5,6) same s3(2) by (simp add: quiet_def)
  then obtain s4 where s4: "select_generators env True mode reqs s3 = (Inr rest, s4)" "quiet s3 s4" by blast
  have "select_generators env True mode (req # reqs) s2 = (Inr ms, s4)"
    using s3(1) s4(1) r(3) by (simp add: sbind_def sret_def)
  with quiet_trans[OF s3(2) s4(2)] show ?case by blast
qed simp

text \<open>
  In cache mode a selection repeats: if no execution failed and every known request gave a
  message, the same requests give the same messages again, without running any code, changing a
  version or the pool.  This is what makes the answers of the learner's queries comparable.
\<close>

theorem cached_selection_repeats:
  assumes "select_generators env True mode reqs s = (Inr ms, s')" "mp_failures s' = mp_failures s"
    and "length ms = length (filter (known_request s) reqs)"
  shows "\<exists>s3. select_generators env True mode reqs s' = (Inr ms, s3) \<and> quiet s' s3"
proof -
  from select_generators_grows[OF assms(1)] assms(2) have
    "pl_generators s' = pl_generators s" "mp_quarantined s' = mp_quarantined s" by (auto simp: pool_grows_def)
  from select_generators_again[OF assms this] show ?thesis by blast
qed

text \<open>
  A worker that answers with the bytes of a counter, except for the source \<open>broken\<close>, and a model
  that has no repair.
\<close>

definition sample_producer :: "(string \<times> nat) producer_env" where
  "sample_producer = \<lparr>pe_gen_root = ''g'', pe_mut_root = ''m'', pe_par_root = ''p'', pe_chk_root = ''c'',
     pe_obs_root = ''o'', pe_contract = ''1'', pe_retry_limit = 1, pe_sha256 = \<lambda>b. [],
     pe_inside = \<lambda>base path. True, pe_state_field = \<lambda>w. ''code'', pe_ir_sha = \<lambda>t w. [],
     pe_repair_code = \<lambda>code error fname w. (Llm_error ''no idea'', w),
     pe_validate = \<lambda>code fname component samples w. (None, w)\<rparr>"

definition sample_mapper_env :: "(string \<times> nat) mapper_env" where
  "sample_mapper_env = \<lparr>me_producer = sample_producer, me_best_root = None, me_legacy_obs_root = ''o'',
     me_max_bytes = 100, me_spec_knowledge = False, me_observer_enabled = False, me_alive = \<lambda>w. True,
     me_spawn = \<lambda>w. (True, w), me_send = \<lambda>code fname args w. (True, (code, snd w)), me_poll = \<lambda>w. (True, w),
     me_recv = \<lambda>w. (Some (if fst w = ''broken'' then Reply_error ''boom''
                            else Reply_ok (Py_bytes (snd w, [of_nat (snd w)]))), (fst w, snd w + 1)),
     me_stop = \<lambda>conn proc w. w, me_evidence = \<lambda>input. ''null'', me_parser_evolution = \<lambda>msg w. (None, w)\<rparr>"

definition sample_mapper :: "string \<Rightarrow> (string \<times> nat) mapper" where
  "sample_mapper second = \<lparr>pl_generators = [(''USER'', [sample_version 0, sample_version 1])], pl_mutators = [],
     pl_checkers = [], pl_observers = [], pl_parsers = [sample_version 0],
     pl_files = [(''g/USER/id0.py'', ''good''), (''g/USER/id1.py'', second)],
     pl_type_paths = [], pl_manifest = [], pl_next_id = 2, pl_attempts = 0, pl_world = ([], 5),
     mp_pool = [(''USER'', [(''id0'', (1, [1]))])], mp_quarantined = [],
     mp_last_good = [((''generator'', ''USER''), sample_version 0)], mp_repair_cache = [], mp_rounds = [],
     mp_provenance = [], mp_failures = [], mp_repairs = [], mp_uses = [], mp_cur_parser = sample_version 0,
     mp_conn = True, mp_proc = True\<rparr>"

lemmas sample_defs = sample_producer_def sample_mapper_env_def sample_mapper_def sample_version_def sample_slug sample_names

lemmas mapper_eval = generate_request_def select_generator_def select_version_def get_versions_def
  component_quarantined_def pool_setdefault_def pool_get_def pool_put_def deliver_message_def sattempt_def
  remember_message_provenance_def exe_generator_def g_path_def component_path_def component_type_dir_def
  is_file_def py_file_def read_source_def execute_message_component_def run_dynamic_code_result_def
  ensure_dynamic_worker_def receive_reply_def ask_def good_message_def valid_bytes_def remember_good_def
  dict_setdefault_def Let_def action_defs

lemma three_retries: "EXEC_RETRY_LIMIT = Suc (Suc (Suc 0))"
  by (simp add: EXEC_RETRY_LIMIT_def)

theorem cached_selection_repeats_witness:
  "\<exists>s' s3. select_generators sample_mapper_env True ''new'' [''USER''] (sample_mapper ''good'') =
       (Inr [(''USER'', (5, [5]))], s') \<and>
     select_generators sample_mapper_env True ''new'' [''USER''] s' = (Inr [(''USER'', (5, [5]))], s3) \<and> quiet s' s3"
proof -
  let ?r = "select_generators sample_mapper_env True ''new'' [''USER''] (sample_mapper ''good'')"
  obtain s' where s': "?r = (Inr [(''USER'', (5, [5]))], s')" "mp_failures s' = mp_failures (sample_mapper ''good'')"
    by (simp add: sample_defs mapper_eval three_retries)
  have "length [(''USER'', (5 :: nat, [5 :: byte]))] = length (filter (known_request (sample_mapper ''good'')) [''USER''])"
    by (simp add: known_request_def sample_mapper_def)
  from cached_selection_repeats[OF s' this] s'(1) show ?thesis by blast
qed

end
