(* ===== verification/Crash_Detection.thy ===== *)
theory Crash_Detection imports Prelude begin

text \<open>
  How the executor tells a crash from an orderly exit (\<open>voltron/executor/executor.py\<close>, the
  constants of lines 33 to 66, \<open>_is_crash\<close> and the parsing of listener tables).

  The patterns of the code are regular expressions searched for anywhere in the output, without
  regard to case.  They are values of \<open>re\<close>; \<open>re_search\<close> decides by derivatives whether one occurs,
  and \<open>re_search_iff\<close> relates that to the language of the expression.  A character is one byte of
  the decoded output, so the Unicode cases of \<open>\s\<close>, \<open>\w\<close> and of case folding are not covered.
\<close>

section \<open>Regular expressions\<close>

datatype re =
    Void
  | Eps
  | One "char \<Rightarrow> bool"
  | Seq re re
  | Alt re re
  | Star re

inductive in_lang :: "string \<Rightarrow> re \<Rightarrow> bool" where
  eps: "in_lang [] Eps"
| one: "p c \<Longrightarrow> in_lang [c] (One p)"
| seq: "in_lang u r \<Longrightarrow> in_lang v s \<Longrightarrow> in_lang (u @ v) (Seq r s)"
| alt1: "in_lang u r \<Longrightarrow> in_lang u (Alt r s)"
| alt2: "in_lang u s \<Longrightarrow> in_lang u (Alt r s)"
| star0: "in_lang [] (Star r)"
| star1: "in_lang u r \<Longrightarrow> in_lang v (Star r) \<Longrightarrow> in_lang (u @ v) (Star r)"

inductive_simps in_lang_simps [simp]:
  "in_lang u Void" "in_lang u Eps" "in_lang u (One p)" "in_lang u (Seq r s)" "in_lang u (Alt r s)"

primrec nullable :: "re \<Rightarrow> bool" where
  "nullable Void = False"
| "nullable Eps = True"
| "nullable (One p) = False"
| "nullable (Seq r s) = (nullable r \<and> nullable s)"
| "nullable (Alt r s) = (nullable r \<or> nullable s)"
| "nullable (Star r) = True"

primrec deriv :: "char \<Rightarrow> re \<Rightarrow> re" where
  "deriv c Void = Void"
| "deriv c Eps = Void"
| "deriv c (One p) = (if p c then Eps else Void)"
| "deriv c (Seq r s) = (if nullable r then Alt (Seq (deriv c r) s) (deriv c s) else Seq (deriv c r) s)"
| "deriv c (Alt r s) = Alt (deriv c r) (deriv c s)"
| "deriv c (Star r) = Seq (deriv c r) (Star r)"

text \<open>A match of a prefix, as \<open>re.match\<close>, and one anywhere, as \<open>re.search\<close>.\<close>

fun re_match :: "re \<Rightarrow> string \<Rightarrow> bool" where
  "re_match r [] = nullable r"
| "re_match r (c # cs) = (nullable r \<or> re_match (deriv c r) cs)"

fun re_search :: "re \<Rightarrow> string \<Rightarrow> bool" where
  "re_search r [] = nullable r"
| "re_search r (c # cs) = (re_match r (c # cs) \<or> re_search r cs)"

lemma nullable_iff: "nullable r \<longleftrightarrow> in_lang [] r"
  by (induction r) (auto intro: star0)

lemma star_Cons: "in_lang w (Star r) \<Longrightarrow> w = c # cs \<Longrightarrow>
    \<exists>u v. cs = u @ v \<and> in_lang (c # u) r \<and> in_lang v (Star r)"
proof (induction w "Star r" arbitrary: c cs rule: in_lang.induct)
  case (star1 u v)
  show ?case
  proof (cases u)
    case Nil
    with star1 show ?thesis by auto
  next
    case (Cons d u')
    with star1 show ?thesis by auto
  qed
qed simp_all

lemma deriv_iff: "in_lang cs (deriv c r) \<longleftrightarrow> in_lang (c # cs) r"
proof (induction r arbitrary: cs)
  case (Seq r s)
  have "in_lang (c # cs) (Seq r s) \<longleftrightarrow>
      (\<exists>u v. cs = u @ v \<and> in_lang (c # u) r \<and> in_lang v s) \<or> (in_lang [] r \<and> in_lang (c # cs) s)"
    by (auto simp: Cons_eq_append_conv append_eq_Cons_conv)
  with Seq show ?case by (auto simp: nullable_iff)
next
  case (Star r)
  have "in_lang (c # cs) (Star r) \<longleftrightarrow> (\<exists>u v. cs = u @ v \<and> in_lang (c # u) r \<and> in_lang v (Star r))"
    using star_Cons star1[of "c # u" r for u] by (auto simp del: append_Cons simp: append_Cons[symmetric])
  with Star show ?case by auto
qed auto

lemma re_match_iff: "re_match r w \<longleftrightarrow> (\<exists>u v. w = u @ v \<and> in_lang u r)"
proof (induction w arbitrary: r)
  case (Cons c cs)
  then show ?case by (auto simp: nullable_iff deriv_iff Cons_eq_append_conv)
qed (auto simp: nullable_iff)

lemma re_search_iff: "re_search r w \<longleftrightarrow> (\<exists>t u v. w = t @ u @ v \<and> in_lang u r)"
proof (induction w)
  case (Cons c cs)
  have "re_search r (c # cs) \<longleftrightarrow>
      (\<exists>u v. c # cs = u @ v \<and> in_lang u r) \<or> (\<exists>t u v. cs = t @ u @ v \<and> in_lang u r)"
    by (simp add: Cons re_match_iff)
  also have "\<dots> \<longleftrightarrow> (\<exists>t u v. c # cs = t @ u @ v \<and> in_lang u r)"
    by (metis append_Cons append_Nil append_eq_Cons_conv)
  finally show ?case .
qed (auto simp: nullable_iff)

section \<open>The patterns\<close>

text \<open>Building blocks, all of them without regard to case.\<close>

definition same_letter :: "char \<Rightarrow> char \<Rightarrow> bool" where
  "same_letter c d \<longleftrightarrow> lower_c c = lower_c d"

definition literal :: "string \<Rightarrow> re" where
  "literal s = foldr (\<lambda>c r. Seq (One (same_letter c)) r) s Eps"

definition plus :: "re \<Rightarrow> re" where
  "plus r = Seq r (Star r)"

definition none_of :: "char \<Rightarrow> re" where
  "none_of c = One (\<lambda>d. d \<noteq> c)"

definition digit :: re where
  "digit = One is_digit_c"

definition spaces :: re where
  "spaces = Star (One is_space_c)"

abbreviation newline :: char where
  "newline \<equiv> CHR 0x0A"

fun in_order :: "re list \<Rightarrow> re" where
  "in_order [] = Eps"
| "in_order (r # rs) = Seq r (in_order rs)"

text \<open>\<open>At_line r\<close> is \<open>r\<close> after the start of the text or a line feed and any spaces.\<close>

datatype pattern = Anywhere re | At_line re

definition pattern_found :: "pattern \<Rightarrow> string \<Rightarrow> bool" where
  "pattern_found p s =
     (case p of
        Anywhere r \<Rightarrow> re_search r s
      | At_line r \<Rightarrow> re_match (Seq spaces r) s \<or>
          re_search (Seq (One (\<lambda>c. c = newline)) (Seq spaces r)) s)"

definition runtime_exception_patterns :: "pattern list" where
  "runtime_exception_patterns =
     [Anywhere (literal ''Traceback (most recent call last):''),
      Anywhere (literal ''Fatal Python error:''),
      Anywhere (in_order [literal ''unhandled exception in '', Alt (literal ''asyncio'') (literal ''thread'')]),
      Anywhere (in_order [literal ''Exception in thread \"'', plus (none_of (CHR 0x22)), literal ''\"'']),
      Anywhere (literal ''A fatal error has been detected by the Java Runtime Environment''),
      Anywhere (in_order [literal ''Internal Error ('', Star (none_of newline), literal ''), pid='',
        plus digit, literal '', tid='', plus digit]),
      At_line (literal ''Unhandled exception.''),
      At_line (literal ''Unhandled Exception:''),
      Anywhere (literal ''FATAL UNHANDLED EXCEPTION:''),
      At_line (literal ''panic:''),
      Anywhere (in_order [literal ''thread '', literal [CHR 0x27], plus (none_of (CHR 0x27)),
        literal (CHR 0x27 # '' panicked at'')]),
      Anywhere (Alt (literal ''uncaught exception'')
        (in_order [literal ''uncaught '', Star (One is_word_c), literal ''error''])),
      Anywhere (literal ''PHP Fatal error:'')]"

definition asan_crash_markers :: "string list" where
  "asan_crash_markers =
     [''ERROR: AddressSanitizer'', ''AddressSanitizer:'', ''SUMMARY: AddressSanitizer'',
      ''LeakSanitizer'', ''UndefinedBehaviorSanitizer'', ''Sanitizer CHECK failed'', ''DEADLYSIGNAL'']"

definition crash_signals :: "int list" where
  "crash_signals = [-6, -11, -4, -8]"

definition crash_exit_codes :: "int list" where
  "crash_exit_codes = map (\<lambda>s. 128 + \<bar>s\<bar>) crash_signals"

text \<open>\<open>marker in output\<close>\<close>

fun contains :: "string \<Rightarrow> string \<Rightarrow> bool" where
  "contains [] m = (m = [])"
| "contains (c # cs) m = (take (length m) (c # cs) = m \<or> contains cs m)"

definition is_crash :: "int option \<Rightarrow> string \<Rightarrow> string \<Rightarrow> bool" where
  "is_crash return_code out err =
     (case return_code of
        None \<Rightarrow> False
      | Some rc \<Rightarrow>
          if rc \<in> set crash_signals \<or> rc \<in> set crash_exit_codes then True
          else if rc = 0 then False
          else (let output = out @ [newline] @ err in
                list_ex (contains output) asan_crash_markers \<or>
                list_ex (\<lambda>p. pattern_found p output) runtime_exception_patterns))"

section \<open>What the decision means\<close>

text \<open>The words of a pattern; an \<open>At_line\<close> occurrence starts the text or follows a line feed.\<close>

definition pattern_occurs :: "pattern \<Rightarrow> string \<Rightarrow> bool" where
  "pattern_occurs p s \<longleftrightarrow>
     (case p of
        Anywhere r \<Rightarrow> \<exists>t u v. s = t @ u @ v \<and> in_lang u r
      | At_line r \<Rightarrow> \<exists>t sp u v. s = t @ sp @ u @ v \<and> (t = [] \<or> last t = newline) \<and>
          list_all is_space_c sp \<and> in_lang u r)"

lemma in_lang_spaces: "in_lang w spaces \<longleftrightarrow> list_all is_space_c w"
proof
  assume "list_all is_space_c w"
  then show "in_lang w spaces"
  proof (induction w)
    case (Cons c cs)
    then have "in_lang ([c] @ cs) (Star (One is_space_c))"
      by (intro star1) (simp_all add: spaces_def)
    then show ?case by (simp add: spaces_def)
  qed (simp add: spaces_def star0)
next
  have "in_lang w r \<Longrightarrow> r = spaces \<Longrightarrow> list_all is_space_c w" for r
    by (induction rule: in_lang.induct) (auto simp: spaces_def)
  then show "in_lang w spaces \<Longrightarrow> list_all is_space_c w" by blast
qed

lemma split_word:
  "(\<exists>w v. s = w @ v \<and> (\<exists>a b. w = a @ b \<and> P a \<and> Q b)) \<longleftrightarrow> (\<exists>a b v. s = a @ b @ v \<and> P a \<and> Q b)"
  by (metis append_assoc)

lemma split_word_after:
  "(\<exists>t w v. s = t @ w @ v \<and> (\<exists>a b. w = n # a @ b \<and> P a \<and> Q b)) \<longleftrightarrow>
     (\<exists>t a b v. s = t @ [n] @ a @ b @ v \<and> P a \<and> Q b)"
  by (metis append_assoc append_Cons append_Nil)

lemma pattern_found_iff: "pattern_found p s \<longleftrightarrow> pattern_occurs p s"
proof (cases p)
  case (Anywhere r)
  then show ?thesis by (simp add: pattern_found_def pattern_occurs_def re_search_iff)
next
  case (At_line r)
  have split: "in_lang w (Seq spaces r) \<longleftrightarrow> (\<exists>sp u. w = sp @ u \<and> list_all is_space_c sp \<and> in_lang u r)"
    "in_lang w (Seq (One (\<lambda>c. c = newline)) (Seq spaces r)) \<longleftrightarrow>
      (\<exists>sp u. w = newline # sp @ u \<and> list_all is_space_c sp \<and> in_lang u r)" for w
    by (auto simp: in_lang_spaces)
  have "re_match (Seq spaces r) s \<longleftrightarrow> (\<exists>sp u v. s = sp @ u @ v \<and> list_all is_space_c sp \<and> in_lang u r)"
    unfolding re_match_iff split by (rule split_word)
  moreover have "re_search (Seq (One (\<lambda>c. c = newline)) (Seq spaces r)) s \<longleftrightarrow>
      (\<exists>t sp u v. s = t @ [newline] @ sp @ u @ v \<and> list_all is_space_c sp \<and> in_lang u r)"
    unfolding re_search_iff split by (rule split_word_after)
  ultimately have "pattern_found p s \<longleftrightarrow> (\<exists>sp u v. s = sp @ u @ v \<and> list_all is_space_c sp \<and> in_lang u r) \<or>
      (\<exists>t sp u v. s = t @ [newline] @ sp @ u @ v \<and> list_all is_space_c sp \<and> in_lang u r)"
    by (simp add: At_line pattern_found_def)
  also have "\<dots> \<longleftrightarrow> (\<exists>t sp u v. s = t @ sp @ u @ v \<and> (t = [] \<or> last t = newline) \<and>
      list_all is_space_c sp \<and> in_lang u r)"
  proof
    assume "\<exists>t sp u v. s = t @ sp @ u @ v \<and> (t = [] \<or> last t = newline) \<and> list_all is_space_c sp \<and> in_lang u r"
    then obtain t sp u v where s: "s = t @ sp @ u @ v" "t = [] \<or> last t = newline"
      "list_all is_space_c sp" "in_lang u r" by blast
    show "(\<exists>sp u v. s = sp @ u @ v \<and> list_all is_space_c sp \<and> in_lang u r) \<or>
      (\<exists>t sp u v. s = t @ [newline] @ sp @ u @ v \<and> list_all is_space_c sp \<and> in_lang u r)"
    proof (cases t rule: rev_cases)
      case Nil
      with s show ?thesis by auto
    next
      case (snoc t' c)
      with s have "s = t' @ [newline] @ sp @ u @ v" by simp
      with s show ?thesis by blast
    qed
  next
    assume "(\<exists>sp u v. s = sp @ u @ v \<and> list_all is_space_c sp \<and> in_lang u r) \<or>
      (\<exists>t sp u v. s = t @ [newline] @ sp @ u @ v \<and> list_all is_space_c sp \<and> in_lang u r)"
    then show "\<exists>t sp u v. s = t @ sp @ u @ v \<and> (t = [] \<or> last t = newline) \<and> list_all is_space_c sp \<and> in_lang u r"
    proof
      assume "\<exists>sp u v. s = sp @ u @ v \<and> list_all is_space_c sp \<and> in_lang u r"
      then obtain sp u v where "s = [] @ sp @ u @ v" "list_all is_space_c sp" "in_lang u r" by auto
      then show ?thesis by blast
    next
      assume "\<exists>t sp u v. s = t @ [newline] @ sp @ u @ v \<and> list_all is_space_c sp \<and> in_lang u r"
      then obtain t sp u v where
        "s = (t @ [newline]) @ sp @ u @ v" "list_all is_space_c sp" "in_lang u r" by auto
      then show ?thesis using last_snoc[of t newline] by blast
    qed
  qed
  finally show ?thesis by (simp add: At_line pattern_occurs_def)
qed

lemma contains_iff: "contains s m \<longleftrightarrow> (\<exists>t v. s = t @ m @ v)"
proof (induction s)
  case (Cons c cs)
  have "take (length m) (c # cs) = m \<longleftrightarrow> (\<exists>v. c # cs = m @ v)"
    by (metis append_eq_conv_conj append_take_drop_id)
  with Cons show ?case by (metis append_Cons append_Nil append_eq_Cons_conv contains.simps(2))
qed auto

text \<open>
  C32. A process counts as crashed exactly if it was killed by one of the four crash signals, seen as
  a negative status or as 128 plus the signal, or ended with a non-zero status and left a sanitizer
  marker or a text of one of the runtime exception patterns in its output.  A running process and a
  clean exit never count, whatever they printed.
\<close>

theorem is_crash_decides:
  "is_crash return_code out err =
     (\<exists>rc. return_code = Some rc \<and>
       (rc \<in> {-4, -6, -8, -11, 132, 134, 136, 139} \<or>
        rc \<noteq> 0 \<and> ((\<exists>m t v. m \<in> set asan_crash_markers \<and> out @ [newline] @ err = t @ m @ v) \<or>
                  (\<exists>p. p \<in> set runtime_exception_patterns \<and> pattern_occurs p (out @ [newline] @ err)))))"
proof (cases return_code)
  case (Some rc)
  have signals: "rc \<in> set crash_signals \<or> rc \<in> set crash_exit_codes \<longleftrightarrow> rc \<in> {-4, -6, -8, -11, 132, 134, 136, 139}"
    by (auto simp: crash_signals_def crash_exit_codes_def)
  have markers: "list_ex (contains o') asan_crash_markers \<longleftrightarrow> (\<exists>m t v. m \<in> set asan_crash_markers \<and> o' = t @ m @ v)" for o'
    by (auto simp: list_ex_iff contains_iff)
  have patterns: "list_ex (\<lambda>p. pattern_found p o') runtime_exception_patterns \<longleftrightarrow>
      (\<exists>p. p \<in> set runtime_exception_patterns \<and> pattern_occurs p o')" for o'
    by (auto simp: list_ex_iff pattern_found_iff)
  show ?thesis unfolding is_crash_def Some Let_def option.case signals markers patterns by auto
qed (simp add: is_crash_def)

end
