(* ===== verification/Listeners.thy ===== *)
theory Listeners imports Python_Text begin

text \<open>
  Finding and killing the processes that listen on the target's port
  (\<open>voltron/executor/executor.py\<close>: \<open>_parse_listener_output\<close>, \<open>_find_listener_pids\<close>,
  \<open>kill_listeners\<close>).  The output of \<open>ss\<close> and \<open>netstat\<close> and the effect of a signal are arguments.  Numbers of more
  than 4300 digits, which \<open>int\<close> refuses, do not occur in such a table.
\<close>

section \<open>Text\<close>

definition rstrip_commas :: "string \<Rightarrow> string" where
  "rstrip_commas s = rev (dropWhile (\<lambda>c. c = CHR '','') (rev s))"

section \<open>One line of a listener table\<close>

text \<open>A colon and the digits that end the text, \<open>:(\d+)$\<close>.\<close>

definition endpoint_port :: "string \<Rightarrow> nat option" where
  "endpoint_port s =
     (let digits = rev (takeWhile is_digit_c (rev s)); rest = rev (dropWhile is_digit_c (rev s))
      in if digits \<noteq> [] \<and> rest \<noteq> [] \<and> last rest = CHR '':'' then Some (read_nat digits) else None)"

text \<open>
  \<open>re.findall\<close> of \<open>\bpid=(\d+)\<close> and of \<open>\b(\d+)/[^\s]+\<close>: the flag says whether the character before is
  a word character.
\<close>

function find_ss_pids :: "bool \<Rightarrow> string \<Rightarrow> nat list" where
  "find_ss_pids before [] = []"
| "find_ss_pids before (c # cs) =
     (let digits = takeWhile is_digit_c (drop 4 (c # cs))
      in if \<not> before \<and> take 4 (c # cs) = ''pid='' \<and> digits \<noteq> []
         then read_nat digits # find_ss_pids True (drop (4 + length digits) (c # cs))
         else find_ss_pids (is_word_c c) cs)"
  by pat_completeness auto
termination by (relation "measure (\<lambda>(b, s). length s)") auto

function find_netstat_pids :: "bool \<Rightarrow> string \<Rightarrow> nat list" where
  "find_netstat_pids before [] = []"
| "find_netstat_pids before (c # cs) =
     (let digits = takeWhile is_digit_c (c # cs); rest = drop (length digits) (c # cs);
          name = takeWhile (\<lambda>d. \<not> is_space_c d) (drop 1 rest)
      in if \<not> before \<and> digits \<noteq> [] \<and> take 1 rest = ''/'' \<and> name \<noteq> []
         then read_nat digits # find_netstat_pids (is_word_c (last name)) (drop (1 + length name) rest)
         else find_netstat_pids (is_word_c c) cs)"
  by pat_completeness auto
termination by (relation "measure (\<lambda>(b, s). length s)") (auto simp: min_def)

definition listener_line :: "nat \<Rightarrow> string \<Rightarrow> string \<Rightarrow> bool" where
  "listener_line port tool line =
     (let tokens = py_split line; local_index = (if tool = ''ss'' then 4 else 3)
      in local_index < length tokens \<and>
         endpoint_port (rstrip_commas (tokens ! local_index)) = Some port)"

definition line_pids :: "string \<Rightarrow> string \<Rightarrow> nat list" where
  "line_pids tool line =
     (if tool = ''ss'' then find_ss_pids False line
      else if tool = ''netstat'' then find_netstat_pids False line else [])"

section \<open>The table\<close>

fun parse_listener_lines :: "nat \<Rightarrow> string \<Rightarrow> string list \<Rightarrow> nat list \<times> bool \<Rightarrow> nat list \<times> bool" where
  "parse_listener_lines port tool [] acc = acc"
| "parse_listener_lines port tool (line # lines) (pids, found) =
     parse_listener_lines port tool lines
       (if listener_line port tool line
        then (foldl (\<lambda>s p. set_add p s) pids (line_pids tool line), True) else (pids, found))"

definition parse_listener_output :: "string \<Rightarrow> nat \<Rightarrow> string \<Rightarrow> nat list \<times> bool" where
  "parse_listener_output output port tool = parse_listener_lines port tool (py_splitlines output) ([], False)"

text \<open>What running one of the tools gives: it is missing or raises, or it ends.\<close>

datatype tool_answer = Tool_missing | Tool_ran int string string

text \<open>The first tool whose answer can be used, \<open>ss\<close> before \<open>netstat\<close>.\<close>

fun first_listing :: "nat \<Rightarrow> (string \<times> tool_answer) list \<Rightarrow> nat list \<times> bool" where
  "first_listing port [] = ([], False)"
| "first_listing port ((tool, Tool_missing) # answers) = first_listing port answers"
| "first_listing port ((tool, Tool_ran code out err) # answers) =
     (if code \<noteq> 0 \<or> (py_strip err \<noteq> [] \<and> py_strip out = []) then first_listing port answers
      else parse_listener_output out port tool)"

definition find_listener_pids :: "tool_answer \<Rightarrow> tool_answer \<Rightarrow> nat \<Rightarrow> nat list \<times> bool" where
  "find_listener_pids ss netstat port = first_listing port [(''ss'', ss), (''netstat'', netstat)]"

text \<open>The processes that get a \<open>SIGKILL\<close>, in order; a pid up to 1 and the own one are refused.\<close>

definition kill_listeners :: "nat \<Rightarrow> nat list \<times> bool \<Rightarrow> nat list" where
  "kill_listeners own listing =
     (case listing of (pids, found) \<Rightarrow>
        if \<not> found \<or> pids = [] then [] else filter (\<lambda>p. \<not> (p \<le> 1 \<or> p = own)) (sort pids))"

section \<open>What is killed\<close>

lemma parse_listener_lines_spec:
  "parse_listener_lines port tool lines (pids, found) = (pids', found') \<Longrightarrow>
     set pids' = set pids \<union> \<Union> (set ` line_pids tool ` {l \<in> set lines. listener_line port tool l}) \<and>
     (found' \<longleftrightarrow> found \<or> (\<exists>l \<in> set lines. listener_line port tool l)) \<and>
     (distinct pids \<longrightarrow> distinct pids')"
proof (induction lines arbitrary: pids found)
  case (Cons line lines)
  show ?case
  proof (cases "listener_line port tool line")
    case True
    with Cons.prems Cons.IH[of "foldl (\<lambda>s p. set_add p s) pids (line_pids tool line)" True]
    show ?thesis by (auto simp: foldl_set_add foldl_set_add_distinct)
  next
    case False
    with Cons.prems Cons.IH[of pids found] show ?thesis by auto
  qed
qed simp

text \<open>A port is read exactly when the endpoint ends in a colon and digits.\<close>

lemma endpoint_port_iff:
  "endpoint_port s = Some p \<longleftrightarrow>
     (\<exists>host digits. s = host @ '':'' @ digits \<and> digits \<noteq> [] \<and> list_all is_digit_c digits \<and> read_nat digits = p)"
proof
  let ?digits = "rev (takeWhile is_digit_c (rev s))" and ?rest = "rev (dropWhile is_digit_c (rev s))"
  assume "endpoint_port s = Some p"
  then have e: "?digits \<noteq> []" "?rest \<noteq> []" "last ?rest = CHR '':''" "read_nat ?digits = p"
    by (auto simp: endpoint_port_def Let_def split: if_splits)
  have "s = ?rest @ ?digits" by (metis rev_append rev_rev_ident takeWhile_dropWhile_id)
  also have "?rest = butlast ?rest @ '':''" using e(2,3) append_butlast_last_id[of ?rest] by simp
  finally have "s = butlast ?rest @ '':'' @ ?digits" by simp
  moreover have "list_all is_digit_c ?digits" by (auto simp: list_all_iff dest: set_takeWhileD)
  ultimately show "\<exists>host digits. s = host @ '':'' @ digits \<and> digits \<noteq> [] \<and> list_all is_digit_c digits \<and>
      read_nat digits = p" using e by blast
next
  assume "\<exists>host digits. s = host @ '':'' @ digits \<and> digits \<noteq> [] \<and> list_all is_digit_c digits \<and> read_nat digits = p"
  then obtain host digits where s: "s = host @ '':'' @ digits" "digits \<noteq> []" "list_all is_digit_c digits"
    "read_nat digits = p" by blast
  have colon: "\<not> is_digit_c (CHR '':'')" by (simp add: is_digit_c_def code_of_def)
  have "takeWhile is_digit_c (rev s) = rev digits" "dropWhile is_digit_c (rev s) = '':'' @ rev host"
    using s colon by (simp_all add: takeWhile_append dropWhile_append list_all_iff)
  with s show "endpoint_port s = Some p" by (simp add: endpoint_port_def)
qed


end
