(* ===== verification/Receiving.thy ===== *)
theory Receiving imports Mapper Plausibility Metrics Conversation begin

text \<open>
  The network side of the executor (\<open>voltron/executor/executor.py\<close>): sending a message, receiving a
  batch, framing and parsing it, and the repair of a parser that fails on a response.

  The state holds the mapper and the analyzer that the executor works on; \<open>on_mapper\<close> runs a method
  of the mapper.  A parser function is given by its source: \<open>xe_parse\<close> is what running a source on a
  response gives, and \<open>xe_load\<close> whether executing it defines a callable \<open>packet_parser\<close>.  A poll
  loop sees a finite list of ticks (whether the run was stopped, the time left, and what \<open>poll\<close>
  returned); a receive loop sees a finite list of polls with what \<open>recv\<close> then gave.  Text is the
  list of its UTF-8 bytes.
\<close>

section \<open>Text of a parsed type\<close>

definition hex_low :: "nat \<Rightarrow> char" where
  "hex_low n = ''0123456789abcdef'' ! n"

definition cont_b :: "byte \<Rightarrow> bool" where
  "cont_b b \<longleftrightarrow> 128 \<le> b \<and> b \<le> 191"

text \<open>The length of the UTF-8 sequence that a byte string starts with, 0 when there is none.\<close>

definition utf8_len :: "bytes \<Rightarrow> nat" where
  "utf8_len bs =
     (case bs of
        [] \<Rightarrow> 0
      | b # cs \<Rightarrow>
          let b1 = (if cs = [] then 0 else cs ! 0);
              tail = (\<lambda>n. n \<le> length cs \<and> list_all cont_b (take n cs)) in
          if b \<le> 127 then 1
          else if 194 \<le> b \<and> b \<le> 223 \<and> tail 1 then 2
          else if 224 \<le> b \<and> b \<le> 239 \<and> tail 2 \<and> (b = 224 \<longrightarrow> 160 \<le> b1) \<and> (b = 237 \<longrightarrow> b1 \<le> 159) then 3
          else if 240 \<le> b \<and> b \<le> 244 \<and> tail 3 \<and> (b = 240 \<longrightarrow> 144 \<le> b1) \<and> (b = 244 \<longrightarrow> b1 \<le> 143) then 4
          else 0)"

definition text_of :: "bytes \<Rightarrow> string" where
  "text_of bs = map (\<lambda>b. char_of (unat b)) bs"

definition escaped_byte :: "byte \<Rightarrow> string" where
  "escaped_byte b = [CHR 0x5C, CHR ''x'', hex_low (unat b div 16), hex_low (unat b mod 16)]"

text \<open>\<open>decode('utf-8', errors='backslashreplace')\<close>\<close>

function decode_text :: "bytes \<Rightarrow> string" where
  "decode_text [] = []"
| "decode_text (b # bs) =
     (let n = utf8_len (b # bs)
      in if n = 0 then escaped_byte b @ decode_text bs
         else text_of (take n (b # bs)) @ decode_text (drop n (b # bs)))"
  by pat_completeness auto
termination by (relation "measure length") auto

text \<open>A string as \<open>json.dumps\<close> writes it when it keeps non-ASCII characters.\<close>

definition json_char :: "char \<Rightarrow> string" where
  "json_char c =
     (let n = code_of c in
      if c = CHR 0x22 then [CHR 0x5C, CHR 0x22]
      else if c = CHR 0x5C then [CHR 0x5C, CHR 0x5C]
      else if n = 10 then [CHR 0x5C, CHR ''n'']
      else if n = 13 then [CHR 0x5C, CHR ''r'']
      else if n = 9 then [CHR 0x5C, CHR ''t'']
      else if n = 12 then [CHR 0x5C, CHR ''f'']
      else if n = 8 then [CHR 0x5C, CHR ''b'']
      else if n < 32 then CHR 0x5C # ''u00'' @ [hex_low (n div 16), hex_low (n mod 16)]
      else [c])"

definition json_string :: "string \<Rightarrow> string" where
  "json_string s = [CHR 0x22] @ concat (map json_char s) @ [CHR 0x22]"

fun json_items :: "string list \<Rightarrow> string" where
  "json_items [] = []"
| "json_items [s] = json_string s"
| "json_items (s # ss) = json_string s @ '','' @ json_items ss"

definition json_array :: "string list \<Rightarrow> string" where
  "json_array ss = ''['' @ json_items ss @ '']''"

section \<open>State\<close>

record parsed_frame =
  pf_batch :: nat
  pf_index :: nat
  pf_start :: nat
  pf_end :: nat
  pf_type :: string
  pf_status :: string
  pf_error :: "string option"
  pf_datagrams :: "(nat \<times> nat \<times> nat) list"
  pf_data :: bytes

datatype parser_answer = Parser_bytes bytes | Parser_other string | Parser_raised string string

record poll_event =
  pv_err :: bool
  pv_hup :: bool
  pv_in :: bool
  pv_out :: bool

record poll_tick =
  pt_stopped :: bool
  pt_remaining :: int
  pt_event :: "poll_event option"

datatype recv_answer = Recv_chunk bytes | Recv_raised

record 'w executor_env =
  xe_mapper :: "'w mapper_env"
  xe_pro_name :: string
  xe_transport :: string
  xe_sha256 :: "bytes \<Rightarrow> string"
  xe_io :: bool
  xe_send_time :: int
  xe_parse :: "string \<Rightarrow> bytes \<Rightarrow> 'w \<Rightarrow> parser_answer \<times> 'w"
  xe_load :: "string \<Rightarrow> 'w \<Rightarrow> bool \<times> 'w"
  xe_traceback :: "string \<Rightarrow> string \<Rightarrow> string"
  xe_should_stop :: "'w \<Rightarrow> bool \<times> 'w"
  xe_socket_open :: "'w \<Rightarrow> bool \<times> 'w"
  xe_ticks :: "int \<Rightarrow> 'w \<Rightarrow> poll_tick list \<times> 'w"
  xe_reads :: "'w \<Rightarrow> (poll_tick list \<times> recv_answer) list \<times> 'w"
  xe_send :: "bytes \<Rightarrow> 'w \<Rightarrow> bool \<times> 'w"

record 'w receiver =
  rx_mapper :: "'w mapper"
  rx_analyzer :: analyzer
  rx_parser_code :: string
  rx_parser_version :: string
  rx_good_parser :: "(string \<times> string) option"
  rx_degraded :: bool
  rx_fallbacks :: nat
  rx_ignored_inputs :: "(string \<times> string) list"
  rx_failed_inputs :: "(string \<times> string) list"
  rx_failure_status :: string
  rx_batch :: nat
  rx_frames :: "parsed_frame list"
  rx_prefetched :: "bytes option"
  rx_operation :: string

type_synonym ('w, 'z, 'a) receiving = "(exc, ('w, 'z) receiver_scheme, 'a) action"

definition on_mapper :: "('w, 'a) mapped \<Rightarrow> ('w, 'z, 'a) receiving" where
  "on_mapper m st = (case m (rx_mapper st) of (r, mp) \<Rightarrow> (r, st\<lparr>rx_mapper := mp\<rparr>))"

text \<open>A question to the environment.\<close>

definition xask :: "('w \<Rightarrow> 'a \<times> 'w) \<Rightarrow> ('w, 'z, 'a) receiving" where
  "xask f = on_mapper (ask f)"

definition repair_error :: exc where
  "repair_error = RuntimeError ''RuntimeComponentRepairError''"

section \<open>Polling and sending\<close>

text \<open>\<open>None\<close>: the run was stopped; \<open>Some None\<close>: the time ran out.\<close>

fun poll_loop :: "poll_tick list \<Rightarrow> poll_event option option" where
  "poll_loop [] = Some None"
| "poll_loop (t # ts) =
     (if pt_stopped t then None
      else if pt_remaining t \<le> 0 then Some None
      else case pt_event t of Some e \<Rightarrow> Some (Some e) | None \<Rightarrow> poll_loop ts)"

definition poll_with_stop :: "'w executor_env \<Rightarrow> int \<Rightarrow> ('w, 'z, poll_event option option) receiving" where
  "poll_with_stop env timeout_ms =
     sbind (xask (xe_should_stop env)) (\<lambda>stopped.
     if stopped then sret None
     else if timeout_ms \<le> 0 then sret (Some None)
     else sbind (xask (xe_ticks env timeout_ms)) (\<lambda>ticks. sret (poll_loop ticks)))"

definition net_send :: "'w executor_env \<Rightarrow> bytes \<Rightarrow> ('w, 'z, bool \<times> bytes option) receiving" where
  "net_send env msg =
     sbind (xask (xe_socket_open env)) (\<lambda>usable.
     if \<not> usable then sret (False, None)
     else sbind (xask (xe_should_stop env)) (\<lambda>stopped.
     if stopped then sret (False, None)
     else if xe_transport env \<noteq> ''tcp'' \<and> xe_transport env \<noteq> ''udp'' then sret (False, None)
     else sbind (poll_with_stop env (xe_send_time env)) (\<lambda>events.
     case events of
       None \<Rightarrow> sret (False, None)
     | Some None \<Rightarrow> sret (False, None)
     | Some (Some e) \<Rightarrow>
         if xe_transport env = ''tcp'' \<and> (pv_err e \<or> pv_hup e) then sret (False, None)
         else if pv_out e
         then sbind (xask (xe_send env msg)) (\<lambda>sent. sret (if sent then (True, Some msg) else (False, None)))
         else sret (False, None))))"

section \<open>The parser\<close>

definition load_parser :: "'w executor_env \<Rightarrow> Equipment.component \<Rightarrow> ('w, 'z, unit) receiving" where
  "load_parser env p =
     sbind (sattempt None (sbind (on_mapper (read_source (p_path (xe_mapper env) p))) (\<lambda>code. sret (Some code))))
       (\<lambda>source.
     case source of
       None \<Rightarrow> slift (Inl repair_error)
     | Some code \<Rightarrow>
         sbind (xask (xe_load env code)) (\<lambda>loaded.
         if loaded then smodify (\<lambda>st. st\<lparr>rx_parser_code := code, rx_parser_version := cp_name p\<rparr>)
         else slift (Inl repair_error)))"

definition PARSER_FAILURE_RESPONSE :: bytes where
  "PARSER_FAILURE_RESPONSE = ascii ''PARSE_FAILURE''"

definition empty_answer :: string where
  "empty_answer = ''packet_parser returned empty bytes for the runtime response''"

text \<open>The exception that a call of the parser ends in, if its answer is not one.\<close>

definition parser_exception :: "parser_answer \<Rightarrow> (string \<times> string) option" where
  "parser_exception answer =
     (case answer of
        Parser_bytes b \<Rightarrow> (if b = [] then Some (''ValueError'', empty_answer) else None)
      | Parser_other t \<Rightarrow> Some (''TypeError'', ''packet_parser must return bytes; got '' @ t)
      | Parser_raised kind message \<Rightarrow> Some (kind, message))"

definition run_parser :: "'w executor_env \<Rightarrow> string \<Rightarrow> bytes \<Rightarrow> ('w, 'z, parser_answer) receiving" where
  "run_parser env code response = xask (xe_parse env code response)"

text \<open>A replay inside the guarded block: an exception of the parser leaves the block.\<close>

definition replay_parser :: "'w executor_env \<Rightarrow> string \<Rightarrow> bytes \<Rightarrow> ('w, 'z, bytes option) receiving" where
  "replay_parser env code response =
     sbind (run_parser env code response) (\<lambda>answer.
     case answer of
       Parser_bytes b \<Rightarrow> sret (if b = [] then None else Some b)
     | Parser_other t \<Rightarrow> sret None
     | Parser_raised kind message \<Rightarrow> slift (Inl (RuntimeError kind)))"

definition record_ignored_parser_input :: "'w executor_env \<Rightarrow> bytes \<Rightarrow> string \<Rightarrow> ('w, 'z, unit) receiving" where
  "record_ignored_parser_input env response version =
     smodify (\<lambda>st. st\<lparr>rx_ignored_inputs := set_add (version, xe_sha256 env response) (rx_ignored_inputs st)\<rparr>)"

definition set_ui_operation :: "string \<Rightarrow> ('w, 'z, unit) receiving" where
  "set_ui_operation operation = smodify (\<lambda>st. st\<lparr>rx_operation := operation\<rparr>)"

text \<open>The repaired parser is loaded and must answer the same response.\<close>

definition repair_parser :: "'w executor_env \<Rightarrow> string \<Rightarrow> bytes \<Rightarrow> ('w, 'z, bytes option) receiving" where
  "repair_parser env error response =
     sbind (sget (\<lambda>st. (rx_parser_version st, rx_parser_code st))) (\<lambda>(version, code).
     sbind (on_mapper (repair_runtime_component (xe_mapper env) ''parser'' ''__all__'' version code error (Some response)))
       (\<lambda>repaired.
     case repaired of
       None \<Rightarrow> sret None
     | Some (parser, new_code) \<Rightarrow>
         sbind (smodify (\<lambda>st. st\<lparr>rx_mapper := (rx_mapper st)\<lparr>mp_cur_parser := parser\<rparr>\<rparr>)) (\<lambda>_.
         sbind (load_parser env parser) (\<lambda>_.
         sbind (sget rx_parser_code) (\<lambda>current.
         sbind (replay_parser env current response) (\<lambda>replayed.
         case replayed of
           None \<Rightarrow> sret None
         | Some b \<Rightarrow> sbind (smodify (\<lambda>st. st\<lparr>rx_good_parser := Some (rx_parser_code st, rx_parser_version st)\<rparr>))
             (\<lambda>_. sret (Some b))))))))"

text \<open>The parser that last worked, unless it is the one that failed.\<close>

definition roll_back_parser :: "'w executor_env \<Rightarrow> string \<Rightarrow> string \<Rightarrow> bytes \<Rightarrow> ('w, 'z, bytes option) receiving" where
  "roll_back_parser env failed_code failed_version response =
     sbind (sget rx_good_parser) (\<lambda>fallback.
     case fallback of
       None \<Rightarrow> sret None
     | Some (code, version) \<Rightarrow>
         if version \<noteq> failed_version \<or> code \<noteq> failed_code
         then sbind (replay_parser env code response) (\<lambda>replayed.
              case replayed of
                None \<Rightarrow> sret None
              | Some b \<Rightarrow> sbind (smodify (\<lambda>st. st\<lparr>rx_parser_code := code, rx_parser_version := version\<rparr>))
                  (\<lambda>_. sret (Some b)))
         else sret None)"

definition recover_parser :: "'w executor_env \<Rightarrow> string \<Rightarrow> bytes \<Rightarrow> bool \<Rightarrow> ('w, 'z, bytes) receiving" where
  "recover_parser env error response show_fuzz_ui =
     sbind (if show_fuzz_ui then set_ui_operation ''Repairing parser from runtime failure'' else sret ()) (\<lambda>_.
     sbind (sget (\<lambda>st. (rx_parser_code st, rx_parser_version st))) (\<lambda>(failed_code, failed_version).
     sbind (sget (\<lambda>st. (failed_version, xe_sha256 env response) \<notin> set (rx_failed_inputs st))) (\<lambda>repair_allowed.
     sbind (smodify (\<lambda>st. st\<lparr>rx_failed_inputs := set_add (failed_version, xe_sha256 env response) (rx_failed_inputs st)\<rparr>))
       (\<lambda>_.
     sbind (sattempt None
              (sbind (if repair_allowed then repair_parser env error response else sret None) (\<lambda>repaired.
               case repaired of Some b \<Rightarrow> sret (Some b)
               | None \<Rightarrow> roll_back_parser env failed_code failed_version response))) (\<lambda>recovered.
     sbind (if show_fuzz_ui then set_ui_operation [] else sret ()) (\<lambda>_.
     case recovered of
       Some b \<Rightarrow> sret b
     | None \<Rightarrow>
         if response \<noteq> []
         then sbind (smodify (\<lambda>st. st\<lparr>rx_degraded := True, rx_fallbacks := rx_fallbacks st + 1\<rparr>))
                (\<lambda>_. sret PARSER_FAILURE_RESPONSE)
         else slift (Inl repair_error)))))))"

definition invoke_parser_with_repair :: "'w executor_env \<Rightarrow> bytes \<Rightarrow> bool \<Rightarrow> ('w, 'z, bytes) receiving" where
  "invoke_parser_with_repair env response show_fuzz_ui =
     sbind (smodify (\<lambda>st. st\<lparr>rx_failure_status := ''parse_failure''\<rparr>)) (\<lambda>_.
     sbind (sget rx_parser_code) (\<lambda>code.
     sbind (run_parser env code response) (\<lambda>answer.
     case parser_exception answer of
       None \<Rightarrow>
         sbind (smodify (\<lambda>st. st\<lparr>rx_good_parser := Some (rx_parser_code st, rx_parser_version st)\<rparr>)) (\<lambda>_.
           sret (case answer of Parser_bytes b \<Rightarrow> b | _ \<Rightarrow> []))
     | Some (kind, message) \<Rightarrow>
         if kind = ''ValueError'' \<and> message = empty_answer \<and>
            pl_status (classify_response_plausibility (xe_pro_name env) response) = ''invalid'' \<and> response \<noteq> []
         then
           sbind (smodify (\<lambda>st. st\<lparr>rx_failure_status := ''ignored_invalid''\<rparr>)) (\<lambda>_.
           sbind (sget rx_parser_version) (\<lambda>version.
           sbind (record_ignored_parser_input env response version) (\<lambda>_.
             sret PARSER_FAILURE_RESPONSE)))
         else recover_parser env (kind @ '': '' @ message @ [CHR 0x0A] @ xe_traceback env kind message)
                response show_fuzz_ui)))"

section \<open>Frames of a receive batch\<close>

definition parse_tcp_response :: "'w executor_env \<Rightarrow> bytes \<Rightarrow> bool \<Rightarrow> ('w, 'z, string) receiving" where
  "parse_tcp_response env buf show_fuzz_ui =
     sbind (invoke_parser_with_repair env buf show_fuzz_ui) (\<lambda>b. sret (decode_text b))"

definition parse_failure :: string where
  "parse_failure = decode_text PARSER_FAILURE_RESPONSE"

definition overlapping :: "(nat \<times> nat \<times> nat) list \<Rightarrow> response_frame \<Rightarrow> (nat \<times> nat \<times> nat) list" where
  "overlapping datagrams frame =
     filter (\<lambda>(i, a, b). offset_start frame < b \<and> a < offset_end frame) datagrams"

definition parse_frame ::
    "'w executor_env \<Rightarrow> nat \<Rightarrow> bool \<Rightarrow> (nat \<times> nat \<times> nat) list \<Rightarrow> nat \<times> response_frame \<Rightarrow> ('w, 'z, parsed_frame) receiving" where
  "parse_frame env batch show_fuzz_ui datagrams indexed =
     (case indexed of (index, frame) \<Rightarrow>
       let incomplete = framing_status frame \<noteq> ''framed'' in
       sbind (if incomplete then sret parse_failure
              else parse_tcp_response env (fr_data frame) show_fuzz_ui) (\<lambda>response_type.
       sbind (sget rx_failure_status) (\<lambda>failure_status.
         sret \<lparr>pf_batch = batch, pf_index = index, pf_start = offset_start frame, pf_end = offset_end frame,
               pf_type = response_type,
               pf_status = (if incomplete then ''framing_incomplete''
                            else if response_type = parse_failure then failure_status else ''parsed''),
               pf_error = framing_error frame, pf_datagrams = overlapping datagrams frame,
               pf_data = fr_data frame\<rparr>)))"

fun parse_frames ::
    "'w executor_env \<Rightarrow> nat \<Rightarrow> bool \<Rightarrow> (nat \<times> nat \<times> nat) list \<Rightarrow> (nat \<times> response_frame) list \<Rightarrow>
       ('w, 'z, parsed_frame list) receiving" where
  "parse_frames env batch show_fuzz_ui datagrams [] st = (Inr [], st)"
| "parse_frames env batch show_fuzz_ui datagrams (f # fs) st =
     sbind (parse_frame env batch show_fuzz_ui datagrams f) (\<lambda>g.
     sbind (parse_frames env batch show_fuzz_ui datagrams fs) (\<lambda>gs. sret (g # gs))) st"

text \<open>The frames of the last batch are replaced only when all were parsed.\<close>

definition parse_response_frames ::
    "'w executor_env \<Rightarrow> bytes \<Rightarrow> bool \<Rightarrow> (nat \<times> nat \<times> nat) list \<Rightarrow> ('w, 'z, parsed_frame list) receiving" where
  "parse_response_frames env buf show_fuzz_ui datagrams =
     sbind (smodify (\<lambda>st. st\<lparr>rx_batch := rx_batch st + 1\<rparr>)) (\<lambda>_.
     sbind (sget rx_batch) (\<lambda>batch.
     sbind (slift (split_response_frames (xe_pro_name env) buf)) (\<lambda>frames.
     sbind (parse_frames env batch show_fuzz_ui datagrams (enumerate 0 frames)) (\<lambda>parsed.
     sbind (smodify (\<lambda>st. st\<lparr>rx_frames := parsed\<rparr>)) (\<lambda>_. sret parsed)))))"

definition is_parsed :: "parsed_frame \<Rightarrow> bool" where
  "is_parsed f \<longleftrightarrow> pf_status f = ''parsed''"

definition response_batch_result :: "parsed_frame list \<Rightarrow> string result" where
  "response_batch_result frames =
     (let semantic = filter is_parsed frames
      in if semantic \<noteq> [] then Inr (pf_type (last semantic))
         else if frames \<noteq> [] then Inr (pf_type (last frames)) else Inl IndexError)"

text \<open>The one output symbol of a batch.\<close>

definition model_response_symbol :: "parsed_frame list \<Rightarrow> string \<Rightarrow> string" where
  "model_response_symbol frames fallback =
     (let semantic = map pf_type (filter is_parsed frames)
      in if length semantic \<le> 1 then (case semantic of [] \<Rightarrow> fallback | t # ts \<Rightarrow> t)
         else json_array semantic)"

section \<open>Receiving\<close>

text \<open>\<open>try\<close> whose handler re-raises the errors of a parser repair and answers any other exception.\<close>

definition sguard :: "'a \<Rightarrow> ('w, 'z, 'a) receiving \<Rightarrow> ('w, 'z, 'a) receiving" where
  "sguard d m st =
     (case m st of
        (Inl e, st') \<Rightarrow> (if e = repair_error then Inl e else Inr d, st')
      | (Inr x, st') \<Rightarrow> (Inr x, st'))"

datatype drained = Drain_stopped | Drain_raised | Drained bytes "(nat \<times> nat \<times> nat) list"

text \<open>The loop that reads until nothing more comes; the offsets are those of the datagrams.\<close>

fun drain :: "(poll_tick list \<times> recv_answer) list \<Rightarrow> bytes \<Rightarrow> (nat \<times> nat \<times> nat) list \<Rightarrow> drained" where
  "drain [] buf offsets = Drained buf offsets"
| "drain ((ticks, answer) # reads) buf offsets =
     (case poll_loop ticks of
        None \<Rightarrow> Drain_stopped
      | Some None \<Rightarrow> Drained buf offsets
      | Some (Some e) \<Rightarrow>
          (case answer of
             Recv_raised \<Rightarrow> Drain_raised
           | Recv_chunk chunk \<Rightarrow>
               if chunk = [] then Drained buf offsets
               else drain reads (buf @ chunk)
                      (offsets @ [(length offsets, length buf, length buf + length chunk)])))"

definition read_batch ::
    "'w executor_env \<Rightarrow> bool \<Rightarrow> ('w, 'z, string option \<times> bytes option) receiving" where
  "read_batch env show_fuzz_ui =
     sbind (xask (xe_reads env)) (\<lambda>reads.
     case drain reads [] [] of
       Drain_stopped \<Rightarrow> sret (None, None)
     | Drain_raised \<Rightarrow> slift (Inl (RuntimeError ''OSError''))
     | Drained buf offsets \<Rightarrow>
         if buf = [] then sret (Some ''RCLOSED'', None)
         else
           sbind (parse_response_frames env buf show_fuzz_ui (if xe_transport env = ''udp'' then offsets else []))
             (\<lambda>frames.
           sbind (slift (response_batch_result frames)) (\<lambda>code. sret (Some code, Some buf))))"

definition max_timeout_ms :: int where
  "max_timeout_ms = 3000"

definition net_recv ::
    "'w executor_env \<Rightarrow> int \<Rightarrow> bool \<Rightarrow> ('w, 'z, string option \<times> bytes option) receiving" where
  "net_recv env poll_timeout_ms show_fuzz_ui =
     sbind (xask (xe_socket_open env)) (\<lambda>usable.
     if \<not> usable then sret (None, None)
     else sbind (xask (xe_should_stop env)) (\<lambda>stopped.
     if stopped then sret (None, None)
     else if xe_transport env \<noteq> ''tcp'' \<and> xe_transport env \<noteq> ''udp'' then sret (None, None)
     else sguard (None, None)
       (sbind (poll_with_stop env (if xe_transport env = ''udp'' then 100
                 else if poll_timeout_ms \<noteq> 0 then poll_timeout_ms else max_timeout_ms)) (\<lambda>events.
        case events of
          None \<Rightarrow> sret (None, None)
        | Some None \<Rightarrow> sret (Some ''TIMEOUT'', None)
        | Some (Some e) \<Rightarrow>
            if xe_transport env = ''tcp'' \<and> pv_err e then sret (Some ''POLLERR'', None)
            else if pv_in e then read_batch env show_fuzz_ui
            else sret (None, None)))))"

definition receive_initial_response ::
    "'w executor_env \<Rightarrow> int \<Rightarrow> bool \<Rightarrow> ('w, 'z, string option \<times> bytes option) receiving" where
  "receive_initial_response env poll_timeout_ms show_fuzz_ui =
     sbind (sget rx_prefetched) (\<lambda>prefetched.
     sbind (smodify (\<lambda>st. st\<lparr>rx_prefetched := None\<rparr>)) (\<lambda>_.
     case prefetched of
       None \<Rightarrow> net_recv env poll_timeout_ms show_fuzz_ui
     | Some buf \<Rightarrow>
         sbind (parse_response_frames env buf show_fuzz_ui []) (\<lambda>frames.
         sbind (slift (response_batch_result frames)) (\<lambda>code. sret (Some code, Some buf)))))"

end
