(* ===== verification/Receiving_Facts.thy ===== *)
theory Receiving_Facts imports Receiving Mapper_Facts begin

text \<open>
  Properties of the network side of the executor: what a call of the parser answers, how a receive
  batch is accounted for, and what all of it keeps of the mapper.
\<close>

section \<open>Text\<close>

lemma decode_text_nonempty: "b \<noteq> [] \<Longrightarrow> decode_text b \<noteq> []"
  by (cases b) (auto simp: Let_def escaped_byte_def text_of_def)

lemma parse_failure_nonempty: "parse_failure \<noteq> []"
  unfolding parse_failure_def by (rule decode_text_nonempty) (simp add: PARSER_FAILURE_RESPONSE_def ascii_def)

text \<open>The fields of a parsed frame that do not depend on the parser.\<close>

definition frame_view :: "parsed_frame \<Rightarrow> nat \<times> nat \<times> nat \<times> nat \<times> bytes" where
  "frame_view g = (pf_batch g, pf_index g, pf_start g, pf_end g, pf_data g)"

section \<open>What receiving keeps\<close>

text \<open>
  A property of the state that survives questions to the environment, repairs and loads, and the
  changes of the parser's own fields.
\<close>

locale receiving_invariant =
  fixes R :: "('w, 'z) receiver_scheme \<Rightarrow> bool"
  assumes R_world: "R (st\<lparr>rx_mapper := (rx_mapper st)\<lparr>pl_world := w\<rparr>\<rparr>) \<longleftrightarrow> R st"
    and R_repair: "keeps R (on_mapper (repair_runtime_component e k t v code error input))"
    and R_read: "keeps R (on_mapper (read_source p))"
    and R_current: "R (st\<lparr>rx_mapper := (rx_mapper st)\<lparr>mp_cur_parser := q\<rparr>\<rparr>) \<longleftrightarrow> R st"
    and R_parser: "R (st\<lparr>rx_parser_code := c, rx_parser_version := u\<rparr>) \<longleftrightarrow> R st"
    and R_good: "R (st\<lparr>rx_good_parser := g\<rparr>) \<longleftrightarrow> R st"
    and R_degraded: "R (st\<lparr>rx_degraded := d, rx_fallbacks := n\<rparr>) \<longleftrightarrow> R st"
    and R_inputs: "R (st\<lparr>rx_failed_inputs := xs\<rparr>) \<longleftrightarrow> R st" "R (st\<lparr>rx_ignored_inputs := ys\<rparr>) \<longleftrightarrow> R st"
    and R_status: "R (st\<lparr>rx_failure_status := s\<rparr>) \<longleftrightarrow> R st" "R (st\<lparr>rx_operation := s\<rparr>) \<longleftrightarrow> R st"
begin

lemmas R_simps = R_current R_parser R_good R_degraded R_inputs R_status

lemma ends_ask: "ends R (xask f) E (\<lambda>_. True)"
  by (simp add: ends_def xask_def on_mapper_def ask_def R_world split: prod.split)

lemma ends_get: "ends R (sget f) E (\<lambda>_. True)"
  by (rule ends_sget) simp

lemma ends_modify: "(\<And>st. R (f st) = R st) \<Longrightarrow> ends R (smodify f) E (\<lambda>_. True)"
  by (rule ends_smodify) simp_all

lemma ends_load: "ends R (load_parser env p) (\<lambda>e. e = repair_error) (\<lambda>_. True)"
proof -
  have "ends R (sattempt None (sbind (on_mapper (read_source q)) (\<lambda>code. sret (Some code)))) E (\<lambda>_. True)" for q E
    by (intro ends_sattempt ends_sbind[OF keeps_ends[OF R_read]] ends_sret) simp_all
  then show ?thesis unfolding load_parser_def
    by (intro ends_sbind[OF ends_ask] ends_if ends_option ends_modify ends_slift | rule ends_sbind)+ (simp_all add: R_simps)
qed

lemma ends_replay: "ends R (replay_parser env code response) (\<lambda>_. True) (\<lambda>b. case b of None \<Rightarrow> True | Some x \<Rightarrow> x \<noteq> [])"
  unfolding replay_parser_def run_parser_def
  by (rule ends_sbind[OF ends_ask]) (simp split: parser_answer.split add: ends_sret ends_slift)

lemma ends_repair_parser:
  "ends R (repair_parser env error response) (\<lambda>_. True) (\<lambda>b. case b of None \<Rightarrow> True | Some x \<Rightarrow> x \<noteq> [])"
  unfolding repair_parser_def
  by (intro ends_sbind[OF ends_get] ends_prod ends_sbind[OF keeps_ends[OF R_repair]] ends_option ends_sret
      ends_sbind[OF ends_modify] ends_sbind[OF ends_weaken[OF ends_load]] ends_sbind[OF ends_replay])
    (simp_all add: R_simps)

lemma ends_roll_back:
  "ends R (roll_back_parser env code version response) (\<lambda>_. True) (\<lambda>b. case b of None \<Rightarrow> True | Some x \<Rightarrow> x \<noteq> [])"
  unfolding roll_back_parser_def
  by (intro ends_sbind[OF ends_get] ends_option ends_prod ends_if ends_sret ends_sbind[OF ends_replay]
      ends_sbind[OF ends_modify])
    (simp_all add: R_simps)

lemma ends_repair_or_roll_back:
  "ends R (sattempt None
     (sbind (if allowed then repair_parser env error response else sret None) (\<lambda>repaired.
      case repaired of Some b \<Rightarrow> sret (Some b) | None \<Rightarrow> roll_back_parser env code version response))) E
     (\<lambda>b. case b of None \<Rightarrow> True | Some x \<Rightarrow> x \<noteq> [])"
proof -
  let ?Q = "\<lambda>b. case b of None \<Rightarrow> True | Some x \<Rightarrow> x \<noteq> ([] :: bytes)"
  have "ends R (if allowed then repair_parser env error response else sret None) (\<lambda>_. True) ?Q"
    by (intro ends_if ends_repair_parser ends_sret) simp
  then show ?thesis
    by (rule ends_sattempt[OF ends_sbind[OF _ ends_option]]) (simp_all add: ends_sret ends_roll_back)
qed

lemma ends_operation: "ends R (if b then set_ui_operation op else sret ()) E (\<lambda>_. True)"
  unfolding set_ui_operation_def by (intro ends_if ends_modify ends_sret) (simp_all add: R_simps)

lemma ends_recover:
  "ends R (recover_parser env error response show_fuzz_ui) (\<lambda>e. e = repair_error \<and> response = []) (\<lambda>b. b \<noteq> [])"
  unfolding recover_parser_def
  by (intro ends_sbind[OF ends_operation] ends_sbind[OF ends_get] ends_prod ends_sbind[OF ends_modify]
      ends_sbind[OF ends_repair_or_roll_back] ends_option ends_sret ends_if ends_slift)
    (auto simp add: R_simps PARSER_FAILURE_RESPONSE_def ascii_def)

lemma ends_invoke:
  "ends R (invoke_parser_with_repair env response show_fuzz_ui) (\<lambda>e. e = repair_error \<and> response = []) (\<lambda>b. b \<noteq> [])"
  unfolding invoke_parser_with_repair_def run_parser_def record_ignored_parser_input_def
  by (intro ends_sbind[OF ends_modify] ends_sbind[OF ends_get] ends_sbind[OF ends_ask] ends_option ends_prod
      ends_if ends_recover ends_sret)
    (auto simp add: R_simps PARSER_FAILURE_RESPONSE_def ascii_def parser_exception_def
      split: parser_answer.splits if_splits)

text \<open>What a parsed frame repeats of the frame it was made from.\<close>

lemma ends_parse_frame:
  assumes "fr_data f \<noteq> []"
  shows "ends R (parse_frame env batch show_fuzz_ui datagrams (i, f)) (\<lambda>_. False)
    (\<lambda>g. frame_view g = (batch, i, offset_start f, offset_end f, fr_data f) \<and> pf_type g \<noteq> [])"
proof -
  have "ends R (parse_tcp_response env (fr_data f) show_fuzz_ui) (\<lambda>_. False) (\<lambda>t. t \<noteq> [])"
    unfolding parse_tcp_response_def
    by (rule ends_sbind[OF ends_weaken[OF ends_invoke]])
      (use assms in \<open>simp_all add: ends_sret decode_text_nonempty\<close>)
  then have "ends R (if framing_status f \<noteq> ''framed'' then sret parse_failure
      else parse_tcp_response env (fr_data f) show_fuzz_ui) (\<lambda>_. False) (\<lambda>t. t \<noteq> [])"
    by (intro ends_if ends_sret) (simp_all add: parse_failure_nonempty)
  then show ?thesis unfolding parse_frame_def prod.case Let_def
    by (rule ends_sbind[OF _ ends_sbind[OF ends_get ends_sret]]) (simp add: frame_view_def)
qed

lemma ends_parse_frames:
  assumes "list_all (\<lambda>(i, f). fr_data f \<noteq> []) fs"
  shows "ends R (parse_frames env batch show_fuzz_ui datagrams fs) (\<lambda>_. False)
    (\<lambda>gs. map frame_view gs = map (\<lambda>(i, f). (batch, i, offset_start f, offset_end f, fr_data f)) fs \<and>
       list_all (\<lambda>g. pf_type g \<noteq> []) gs)"
  using assms
proof (induction fs)
  case Nil
  then show ?case by (simp add: ends_def)
next
  case (Cons x fs)
  obtain i f where x: "x = (i, f)" by force
  have e: "parse_frames env batch show_fuzz_ui datagrams ((i, f) # fs) =
      sbind (parse_frame env batch show_fuzz_ui datagrams (i, f)) (\<lambda>g.
      sbind (parse_frames env batch show_fuzz_ui datagrams fs) (\<lambda>gs. sret (g # gs)))"
    by (simp add: fun_eq_iff)
  from Cons x have "fr_data f \<noteq> []" "list_all (\<lambda>(i, f). fr_data f \<noteq> []) fs" by simp_all
  then show ?case unfolding x e
    by (intro ends_sbind[OF ends_parse_frame ends_sbind[OF Cons.IH ends_sret]]) simp_all
qed

end

text \<open>A property that does not look at the frames, the batch number and the cached greeting either.\<close>

locale receiving_frame = receiving_invariant R for R :: "('w, 'z) receiver_scheme \<Rightarrow> bool" +
  assumes R_batch: "R (st\<lparr>rx_batch := n\<rparr>) \<longleftrightarrow> R st" "R (st\<lparr>rx_frames := fs\<rparr>) \<longleftrightarrow> R st"
    and R_prefetched: "R (st\<lparr>rx_prefetched := b\<rparr>) \<longleftrightarrow> R st"
    and R_analyzer: "R (st\<lparr>rx_analyzer := an\<rparr>) \<longleftrightarrow> R st"
begin

lemma keeps_modify: "(\<And>st. R (f st) = R st) \<Longrightarrow> keeps R (smodify f)"
  by (rule keeps_smodify) simp

lemma keeps_xask [keeping]: "keeps R (xask f)"
  by (rule ends_keeps[OF ends_ask])

lemma keeps_guard: "keeps R m \<Longrightarrow> keeps R (sguard d m)"
  by (simp add: keeps_def sguard_def split: prod.split sum.split) (metis snd_conv)

lemma keeps_poll [keeping]: "keeps R (poll_with_stop env t)"
  unfolding poll_with_stop_def by (intro keeping)

lemma keeps_send [keeping]: "keeps R (net_send env msg)"
  unfolding net_send_def by (intro keeping)

lemma keeps_parse_frames: "keeps R (parse_frames env batch show_fuzz_ui datagrams fs)"
proof (induction fs)
  case Nil
  then show ?case by (simp add: keeps_def)
next
  case (Cons x fs)
  have frame: "keeps R (parse_frame env batch show_fuzz_ui datagrams x)"
    unfolding parse_frame_def parse_tcp_response_def Let_def
    by (intro keeping) (rule ends_keeps[OF ends_invoke])
  have e: "parse_frames env batch show_fuzz_ui datagrams (x # fs) =
      sbind (parse_frame env batch show_fuzz_ui datagrams x) (\<lambda>g.
      sbind (parse_frames env batch show_fuzz_ui datagrams fs) (\<lambda>gs. sret (g # gs)))"
    by (simp add: fun_eq_iff)
  show ?case unfolding e by (intro keeping frame Cons.IH)
qed

lemma keeps_parse_batch [keeping]: "keeps R (parse_response_frames env buf show_fuzz_ui datagrams)"
  unfolding parse_response_frames_def
  by (intro keeping keeps_modify keeps_parse_frames) (simp_all add: R_batch)

lemma keeps_recv [keeping]: "keeps R (net_recv env t show_fuzz_ui)"
proof -
  have "keeps R (read_batch env show_fuzz_ui)"
    unfolding read_batch_def by (intro keeping) (simp split: drained.split add: keeping)
  then show ?thesis unfolding net_recv_def by (intro keeping keeps_guard)
qed

lemma keeps_initial [keeping]: "keeps R (receive_initial_response env t show_fuzz_ui)"
  unfolding receive_initial_response_def by (intro keeping keeps_modify) (simp add: R_prefetched)

end

section \<open>The mapper and the last batch\<close>

lemma keeps_on_mapper: "keeps I m \<Longrightarrow> keeps (\<lambda>st. I (rx_mapper st)) (on_mapper m)"
  by (simp add: keeps_def on_mapper_def split: prod.split) (metis snd_conv)

lemma keeps_read: "keeps I (read_source p)"
  unfolding read_source_def by (intro keeping)

interpretation kept: receiving_invariant "\<lambda>st. mapper_ok env (rx_mapper st)" for env
  by unfold_locales (simp_all add: keeps_on_mapper keeps_ok_repair keeps_read)

interpretation kept: receiving_frame "\<lambda>st. mapper_ok env (rx_mapper st)" for env
  by unfold_locales simp_all

text \<open>What extends the state is left alone.\<close>

lemma more_of_receiver [simp]:
  "receiver.more (st\<lparr>rx_mapper := a\<rparr>) = receiver.more st" "receiver.more (st\<lparr>rx_analyzer := b\<rparr>) = receiver.more st"
  "receiver.more (st\<lparr>rx_parser_code := c\<rparr>) = receiver.more st" "receiver.more (st\<lparr>rx_parser_version := c\<rparr>) = receiver.more st"
  "receiver.more (st\<lparr>rx_good_parser := d\<rparr>) = receiver.more st" "receiver.more (st\<lparr>rx_degraded := e\<rparr>) = receiver.more st"
  "receiver.more (st\<lparr>rx_fallbacks := n\<rparr>) = receiver.more st" "receiver.more (st\<lparr>rx_ignored_inputs := f\<rparr>) = receiver.more st"
  "receiver.more (st\<lparr>rx_failed_inputs := f\<rparr>) = receiver.more st" "receiver.more (st\<lparr>rx_failure_status := c\<rparr>) = receiver.more st"
  "receiver.more (st\<lparr>rx_batch := n\<rparr>) = receiver.more st" "receiver.more (st\<lparr>rx_frames := g\<rparr>) = receiver.more st"
  "receiver.more (st\<lparr>rx_prefetched := h\<rparr>) = receiver.more st" "receiver.more (st\<lparr>rx_operation := c\<rparr>) = receiver.more st"
  "receiver.more (st\<lparr>rx_degraded := e, rx_fallbacks := n\<rparr>) = receiver.more st"
  "receiver.more (st\<lparr>rx_parser_code := c, rx_parser_version := c'\<rparr>) = receiver.more st"
  by (cases st; simp)+

interpretation more: receiving_frame "\<lambda>st. receiver.more st = x" for x
  by unfold_locales (simp_all add: keeps_def on_mapper_def split: prod.split)

interpretation stable: receiving_invariant "\<lambda>st. rx_batch st = n \<and> rx_frames st = fs" for n fs
  by unfold_locales (simp_all add: keeps_def on_mapper_def split: prod.split)

definition raw_frame :: "parsed_frame \<Rightarrow> response_frame" where
  "raw_frame g = mk_frame (pf_data g) (pf_start g) (pf_end g)"

definition batch_ok :: "nat \<Rightarrow> bytes \<Rightarrow> parsed_frame list \<Rightarrow> bool" where
  "batch_ok n buf gs \<longleftrightarrow> gs \<noteq> [] \<and> buf \<noteq> [] \<and> tiles buf 0 (map raw_frame gs) (length buf) \<and>
     concat (map pf_data gs) = buf \<and> map pf_index gs = [0..<length gs] \<and>
     list_all (\<lambda>g. pf_batch g = n \<and> pf_type g \<noteq> []) gs"

lemma tiles_cong:
  "map (\<lambda>f. (offset_start f, offset_end f, fr_data f)) fs = map (\<lambda>f. (offset_start f, offset_end f, fr_data f)) gs \<Longrightarrow>
     tiles d a fs b \<longleftrightarrow> tiles d a gs b"
proof (induction fs arbitrary: gs a)
  case (Cons f fs)
  then obtain g gs' where "gs = g # gs'" by (cases gs) auto
  with Cons show ?case by auto
qed simp

lemma batch_ok_frames:
  assumes "split_response_frames p buf = Inr fs"
    and "map frame_view gs = map (\<lambda>(i, f). (n, i, offset_start f, offset_end f, fr_data f)) (enumerate 0 fs)"
    and "list_all (\<lambda>g. pf_type g \<noteq> []) gs" and "buf \<noteq> []"
  shows "batch_ok n buf gs"
proof -
  have len: "length gs = length fs" using arg_cong[OF assms(2), of length] by simp
  have nth: "frame_view (gs ! i) = (n, i, offset_start (fs ! i), offset_end (fs ! i), fr_data (fs ! i))"
    if "i < length fs" for i
    using arg_cong[OF assms(2), of "\<lambda>xs. xs ! i"] that len by (simp add: nth_enumerate_eq)
  have data: "map pf_data gs = map fr_data fs" and idx: "map pf_index gs = [0..<length gs]"
    and views: "map (\<lambda>f. (offset_start f, offset_end f, fr_data f)) (map raw_frame gs) =
      map (\<lambda>f. (offset_start f, offset_end f, fr_data f)) fs"
    using nth len by (auto intro!: nth_equalityI simp: frame_view_def raw_frame_def)
  have "list_all (\<lambda>g. pf_batch g = n) gs" using nth len by (simp add: list_all_length frame_view_def)
  with assms(3,4) data idx tiles_cong[OF views] any_sp.split_tiles[OF assms(1)] any_sp.split_concat[OF assms(1)]
    any_sp.split_nonempty[OF assms(1)] len show ?thesis
    by (auto simp: batch_ok_def list_all_iff)
qed

lemma parse_response_frames_spec:
  assumes "buf \<noteq> []"
  shows "case parse_response_frames env buf show_fuzz_ui datagrams st of
     (Inl e, st') \<Rightarrow> e = ValueError \<and> rx_frames st' = rx_frames st
   | (Inr gs, st') \<Rightarrow> rx_frames st' = gs \<and> rx_batch st' = rx_batch st + 1 \<and> batch_ok (rx_batch st + 1) buf gs"
proof (cases "split_response_frames (xe_pro_name env) buf")
  case (Inl e)
  then show ?thesis by (auto simp: parse_response_frames_def action_defs dest: split_response_frames_error)
next
  case (Inr fs)
  let ?st1 = "st\<lparr>rx_batch := rx_batch st + 1\<rparr>" and ?es = "enumerate 0 fs"
  have "list_all (\<lambda>(i, f). fr_data f \<noteq> []) ?es"
    using any_sp.split_frame_nonempty[OF Inr _ assms] by (auto simp: list_all_iff in_set_enumerate_eq)
  note E = endsD[OF stable.ends_parse_frames[OF this]]
  obtain r st2 where p: "parse_frames env (rx_batch st + 1) show_fuzz_ui datagrams ?es ?st1 = (r, st2)" by force
  from E[OF p, of "rx_batch st + 1" "rx_frames st"] obtain gs where "r = Inr gs"
    "map frame_view gs = map (\<lambda>(i, f). (rx_batch st + 1, i, offset_start f, offset_end f, fr_data f)) ?es"
    "list_all (\<lambda>g. pf_type g \<noteq> []) gs" "rx_batch st2 = rx_batch st + 1"
    by (auto split: sum.splits)
  with p Inr assms batch_ok_frames[OF Inr, of gs "rx_batch st + 1"] show ?thesis
    by (simp add: parse_response_frames_def action_defs)
qed

lemma batch_result_Inr: "gs \<noteq> [] \<Longrightarrow> response_batch_result gs =
    Inr (pf_type (last (if filter is_parsed gs = [] then gs else filter is_parsed gs)))"
  by (simp add: response_batch_result_def Let_def)

section \<open>Receiving\<close>

lemma xask_runs:
  obtains x st' where "xask f st = (Inr x, st')" "rx_batch st' = rx_batch st" "rx_frames st' = rx_frames st"
  by (cases "f (pl_world (rx_mapper st))") (simp add: xask_def on_mapper_def ask_def)

lemma poll_with_stop_stable:
  "poll_with_stop env t st = (r, st') \<Longrightarrow>
     (\<exists>ev. r = Inr ev) \<and> rx_batch st' = rx_batch st \<and> rx_frames st' = rx_frames st"
  by (auto simp: poll_with_stop_def xask_def on_mapper_def ask_def action_defs split: prod.splits if_splits)

lemma read_batch_spec:
  "case read_batch env show_fuzz_ui st of
     (Inl e, st') \<Rightarrow> e \<noteq> repair_error \<and> rx_frames st' = rx_frames st
   | (Inr (code, None), st') \<Rightarrow> code \<in> {None, Some ''RCLOSED''} \<and> rx_frames st' = rx_frames st
   | (Inr (code, Some buf), st') \<Rightarrow> rx_batch st' = rx_batch st + 1 \<and> batch_ok (rx_batch st + 1) buf (rx_frames st') \<and>
       buf \<noteq> [] \<and> code = Some (pf_type (last (if filter is_parsed (rx_frames st') = [] then rx_frames st'
         else filter is_parsed (rx_frames st'))))"
proof -
  obtain reads st1 where a: "xask (xe_reads env) st = (Inr reads, st1)" "rx_batch st1 = rx_batch st" "rx_frames st1 = rx_frames st"
    by (rule xask_runs)
  show ?thesis
  proof (cases "drain reads [] []")
    case (Drained buf offsets)
    show ?thesis
    proof (cases "buf = []")
      case False
      let ?dg = "if xe_transport env = ''udp'' then offsets else []"
      obtain r st2 where p: "parse_response_frames env buf show_fuzz_ui ?dg st1 = (r, st2)" by force
      from parse_response_frames_spec[OF False, where env = env and show_fuzz_ui = show_fuzz_ui and datagrams = ?dg and st = st1]
      have "case r of Inl e \<Rightarrow> e = ValueError \<and> rx_frames st2 = rx_frames st
          | Inr gs \<Rightarrow> rx_frames st2 = gs \<and> rx_batch st2 = rx_batch st + 1 \<and> batch_ok (rx_batch st + 1) buf gs"
        by (simp add: p a(2,3) split: sum.splits)
      with a(1) Drained False p batch_result_Inr show ?thesis
        by (auto simp: read_batch_def sbind_def sret_def slift_def repair_error_def batch_ok_def split: sum.splits)
    qed (use a Drained in \<open>simp add: read_batch_def action_defs\<close>)
  qed (use a in \<open>simp_all add: read_batch_def action_defs repair_error_def\<close>)
qed


text \<open>
  A call of the parser answers a non-empty text or raises the repair error, the latter only on
  an empty response, whatever the parser, its repair, the loading of the repaired source and the
  fallback do; and it leaves the frames of the last batch alone.
\<close>

theorem parser_answers:
  "case invoke_parser_with_repair env response show_fuzz_ui st of
     (Inl e, st') \<Rightarrow> e = repair_error \<and> response = [] \<and> rx_frames st' = rx_frames st
   | (Inr b, st') \<Rightarrow> b \<noteq> [] \<and> decode_text b \<noteq> [] \<and> rx_frames st' = rx_frames st"
proof -
  obtain r st' where e: "invoke_parser_with_repair env response show_fuzz_ui st = (r, st')" by force
  have "case r of Inl x \<Rightarrow> x = repair_error \<and> response = [] | Inr b \<Rightarrow> b \<noteq> []" "rx_frames st' = rx_frames st"
    using endsD[OF stable.ends_invoke e, of "rx_batch st" "rx_frames st"] by simp_all
  then show ?thesis unfolding e by (cases r) (simp_all add: decode_text_nonempty)
qed

end
