(* ===== verification/Pair_Recorder.thy ===== *)
theory Pair_Recorder imports Conversation Recorder begin

text \<open>
  The recorder of request/response pairs, \<open>voltron/executor/pair_recorder.py\<close>: the first exchange of
  each relation between a request and a response type is written to a file of its own.  A file is
  its number and the pair; \<open>io\<close> says whether writing it succeeds, and the numbers that were in the
  folder before are part of the state.
\<close>

section \<open>The recorder\<close>

definition unrecorded_responses :: "string list" where
  "unrecorded_responses = [''TIMEOUT'', ''CRASH'', ''CLOSED'', ''POLLERR'', ''PARSE_FAILURE'']"

record saved_pair =
  sp_request_type :: string
  sp_response_type :: string
  sp_request :: bytes
  sp_response :: bytes
  sp_phase :: string
  sp_frames :: "frame_info list"

record pair_recorder =
  pr_seen :: "(string \<times> string) list"
  pr_next :: nat
  pr_existing :: "nat list"
  pr_files :: "(nat \<times> saved_pair) list"

definition new_pair_recorder :: "nat list \<Rightarrow> pair_recorder" where
  "new_pair_recorder existing = \<lparr>pr_seen = [], pr_next = 0, pr_existing = existing, pr_files = []\<rparr>"

text \<open>The loop over the numbers stops at the first one that is free.\<close>

definition taken :: "pair_recorder \<Rightarrow> nat list" where
  "taken pr = pr_existing pr @ map fst (pr_files pr)"

definition free_number :: "pair_recorder \<Rightarrow> nat" where
  "free_number pr =
     (case find (\<lambda>i. i \<notin> set (taken pr)) [pr_next pr..<pr_next pr + length (taken pr) + 1] of
        Some i \<Rightarrow> i | None \<Rightarrow> pr_next pr + length (taken pr) + 1)"

text \<open>Without frames the whole response is one parsed frame.\<close>

definition default_frames :: "string \<Rightarrow> bytes \<Rightarrow> frame_info list" where
  "default_frames response_type response =
     [[(''frame_index'', ''0''), (''offset_start'', ''0''), (''offset_end'', show_nat (length response)),
       (''response_type'', response_type), (''parse_status'', ''parsed'')]]"

definition save_pair :: "bool \<Rightarrow> saved_pair \<Rightarrow> pair_recorder \<Rightarrow> bool \<times> pair_recorder" where
  "save_pair io p pr =
     (let relation = (sp_request_type p, sp_response_type p); i = free_number pr in
      if relation \<in> set (pr_seen pr) then (False, pr)
      else if \<not> io then (False, pr\<lparr>pr_next := i + 1\<rparr>)
      else (True, pr\<lparr>pr_next := i + 1, pr_files := pr_files pr @ [(i, p)], pr_seen := pr_seen pr @ [relation]\<rparr>))"

text \<open>The exchange at an index of the three sequences, if it is to be recorded.\<close>

definition exchange_at :: "conversation \<Rightarrow> string \<Rightarrow> nat \<Rightarrow> saved_pair option" where
  "exchange_at c phase i =
     (let request_type = req_seq c ! i; response_type = res_seq c ! i; (request, response) = content c ! i;
          frames = (if i < length (response_frames c) then response_frames c ! i else []) in
      if request_type = ''-'' \<or> response_type = ''-'' \<or> response_type \<in> set unrecorded_responses \<or>
         request = [] \<or> response = []
      then None
      else Some \<lparr>sp_request_type = request_type, sp_response_type = response_type, sp_request = request,
             sp_response = response, sp_phase = (if phase = [] then ''unknown'' else phase),
             sp_frames = (if frames = [] then default_frames response_type response else frames)\<rparr>)"

definition exchange_limit :: "conversation \<Rightarrow> nat" where
  "exchange_limit c = min (min (length (req_seq c)) (length (res_seq c))) (length (content c))"

definition observe_step :: "bool \<Rightarrow> conversation \<Rightarrow> string \<Rightarrow> nat \<times> pair_recorder \<Rightarrow> nat \<Rightarrow> nat \<times> pair_recorder" where
  "observe_step io c phase acc i =
     (case exchange_at c phase i of
        None \<Rightarrow> acc
      | Some p \<Rightarrow> (case save_pair io p (snd acc) of (saved, pr) \<Rightarrow> (if saved then fst acc + 1 else fst acc, pr)))"

definition observe_pairs :: "bool \<Rightarrow> conversation \<Rightarrow> string \<Rightarrow> pair_recorder \<Rightarrow> nat \<times> pair_recorder" where
  "observe_pairs io c phase pr = foldl (observe_step io c phase) (0, pr) [0..<exchange_limit c]"

section \<open>What is recorded\<close>

definition offered :: "conversation \<Rightarrow> string \<Rightarrow> saved_pair set" where
  "offered c phase = {p. \<exists>i < exchange_limit c. exchange_at c phase i = Some p}"

definition relation_of :: "saved_pair \<Rightarrow> string \<times> string" where
  "relation_of p = (sp_request_type p, sp_response_type p)"

text \<open>One file for each seen relation, with different numbers, none of which was taken before.\<close>

definition pairs_ok :: "pair_recorder \<Rightarrow> bool" where
  "pairs_ok pr \<longleftrightarrow> map (relation_of \<circ> snd) (pr_files pr) = pr_seen pr \<and> distinct (pr_seen pr) \<and>
     distinct (map fst (pr_files pr)) \<and> list_all (\<lambda>f. fst f \<notin> set (pr_existing pr)) (pr_files pr)"

lemma free_number_free: "free_number pr \<notin> set (taken pr)"
proof (cases "find (\<lambda>i. i \<notin> set (taken pr)) [pr_next pr..<pr_next pr + length (taken pr) + 1]")
  case (Some i)
  from find_Some_upt[OF Some] show ?thesis unfolding free_number_def Some option.case by blast
next
  case None
  then have "{pr_next pr..<pr_next pr + length (taken pr) + 1} \<subseteq> set (taken pr)"
    unfolding find_None_upt by auto
  then have "length (taken pr) + 1 \<le> card (set (taken pr))"
    using card_mono[of "set (taken pr)" "{pr_next pr..<pr_next pr + length (taken pr) + 1}"] by simp
  with card_length[of "taken pr"] show ?thesis by simp
qed

lemma save_pair_ok:
  assumes "save_pair io p pr = (saved, pr')" "pairs_ok pr"
  shows "pairs_ok pr' \<and> pr_existing pr' = pr_existing pr \<and>
    pr_files pr' = pr_files pr @ (if saved then [(free_number pr, p)] else []) \<and>
    saved = (io \<and> relation_of p \<notin> set (pr_seen pr)) \<and>
    set (pr_seen pr') = set (pr_seen pr) \<union> (if io then {relation_of p} else {})"
  using assms free_number_free[of pr]
  by (auto simp: save_pair_def Let_def relation_of_def pairs_ok_def taken_def split: if_splits)

lemma observe_steps_ok:
  assumes "pairs_ok pr" "foldl (observe_step io c phase) (n, pr) is = (n', pr')"
  shows "pairs_ok pr' \<and> pr_existing pr' = pr_existing pr \<and> n' + length (pr_files pr) = n + length (pr_files pr') \<and>
    (\<exists>new. pr_files pr' = pr_files pr @ new \<and> (\<forall>f \<in> set new. \<exists>i \<in> set is. exchange_at c phase i = Some (snd f))) \<and>
    set (pr_seen pr') = set (pr_seen pr) \<union>
      (if io then relation_of ` {p. \<exists>i \<in> set is. exchange_at c phase i = Some p} else {})"
  using assms
proof (induction "is" arbitrary: n pr)
  case (Cons i "is")
  show ?case
  proof (cases "exchange_at c phase i")
    case None
    with Cons.prems Cons.IH[of pr n] show ?thesis by (auto simp: observe_step_def)
  next
    case (Some p)
    obtain saved pr1 where s: "save_pair io p pr = (saved, pr1)" by force
    note ok = save_pair_ok[OF s Cons.prems(1)]
    have "observe_step io c phase (n, pr) i = (if saved then n + 1 else n, pr1)"
      using Some s by (simp add: observe_step_def)
    with Cons.prems(2) have "foldl (observe_step io c phase) (if saved then n + 1 else n, pr1) is = (n', pr')"
      by (simp only: foldl.simps)
    from Cons.IH[OF _ this] ok Some show ?thesis by (auto split: if_splits)
  qed
qed (auto simp: pairs_ok_def)

lemma offered_image: "{p. \<exists>i \<in> set [0..<exchange_limit c]. exchange_at c phase i = Some p} = offered c phase"
  by (auto simp: offered_def)

lemma new_pair_recorder_ok: "pairs_ok (new_pair_recorder existing)"
  by (simp add: pairs_ok_def new_pair_recorder_def)


lemma save_pair_seen:
  "set (pr_seen (snd (save_pair io p pr))) = set (pr_seen pr) \<union> (if io then {relation_of p} else {})"
  by (auto simp: save_pair_def Let_def relation_of_def)

lemma observe_steps_seen:
  "set (pr_seen (snd (foldl (observe_step io c phase) (n, pr) is))) = set (pr_seen pr) \<union>
     (if io then relation_of ` {p. \<exists>i \<in> set is. exchange_at c phase i = Some p} else {})"
proof (induction "is" arbitrary: n pr)
  case (Cons i "is")
  show ?case
  proof (cases "exchange_at c phase i")
    case (Some p)
    then obtain m where "observe_step io c phase (n, pr) i = (m, snd (save_pair io p pr))"
      by (cases "save_pair io p pr") (simp add: observe_step_def)
    with Some Cons[of m "snd (save_pair io p pr)"] show ?thesis by (auto simp: save_pair_seen)
  qed (use Cons[of n pr] in \<open>auto simp: observe_step_def\<close>)
qed simp

lemma observe_pairs_seen:
  "set (pr_seen (snd (observe_pairs io c phase pr))) =
     set (pr_seen pr) \<union> (if io then relation_of ` offered c phase else {})"
  unfolding observe_pairs_def observe_steps_seen offered_image ..

interpretation pair_files: recorder "\<lambda>pr x. snd (observe_pairs True (fst x) (snd x) pr)"
  "\<lambda>pr. set (pr_seen pr)" "\<lambda>x. relation_of ` offered (fst x) (snd x)"
  by unfold_locales (simp add: observe_pairs_seen)

text \<open>
  What the recorder promises: a map from relations to exchanges in which the first writer wins.
\<close>

definition pairs_of :: "pair_recorder \<Rightarrow> string \<times> string \<rightharpoonup> saved_pair" where
  "pairs_of pr = map_of (map (\<lambda>f. (relation_of (snd f), snd f)) (pr_files pr))"

definition exchanges :: "conversation \<Rightarrow> string \<Rightarrow> saved_pair list" where
  "exchanges c phase = List.map_filter (exchange_at c phase) [0..<exchange_limit c]"

definition first_of :: "saved_pair list \<Rightarrow> string \<times> string \<rightharpoonup> saved_pair" where
  "first_of ps = map_of (map (\<lambda>p. (relation_of p, p)) ps)"

lemma first_of_append: "first_of (ps @ qs) = first_of qs ++ first_of ps"
  by (simp add: first_of_def map_add_def map_of_append)

lemma dom_pairs_of:
  assumes "pairs_ok pr"
  shows "dom (pairs_of pr) = set (pr_seen pr)"
proof -
  have "pr_seen pr = map (relation_of \<circ> snd) (pr_files pr)" using assms by (simp add: pairs_ok_def)
  then show ?thesis by (simp add: pairs_of_def dom_map_of_conv_image_fst image_image)
qed

lemma save_pair_refines:
  assumes "pairs_ok pr"
  shows "pairs_of (snd (save_pair True p pr)) = first_of [p] ++ pairs_of pr"
proof -
  obtain saved pr' where s: "save_pair True p pr = (saved, pr')" by force
  have new: "(pairs_of pr) (relation_of p) = None" if saved
    using save_pair_ok[OF s assms] that dom_pairs_of[OF assms] by (metis domIff)
  have old: "relation_of p \<in> dom (pairs_of pr)" if "\<not> saved"
    using save_pair_ok[OF s assms] that dom_pairs_of[OF assms] by simp
  show ?thesis
    using save_pair_ok[OF s assms] new old
    by (auto simp: s pairs_of_def first_of_def map_add_def map_of_append fun_eq_iff split: option.split if_splits)
qed

lemma observe_steps_refine:
  assumes "pairs_ok pr"
  shows "pairs_of (snd (foldl (observe_step True c phase) (n, pr) is)) =
    first_of (List.map_filter (exchange_at c phase) is) ++ pairs_of pr"
  using assms
proof (induction "is" arbitrary: n pr)
  case Nil
  then show ?case by (simp add: first_of_def List.map_filter_def)
next
  case (Cons i "is")
  show ?case
  proof (cases "exchange_at c phase i")
    case None
    with Cons show ?thesis by (simp add: observe_step_def List.map_filter_def)
  next
    case (Some p)
    obtain saved pr1 where s: "save_pair True p pr = (saved, pr1)" by force
    have "observe_step True c phase (n, pr) i = (if saved then n + 1 else n, pr1)"
      using Some s by (simp add: observe_step_def)
    moreover have "pairs_of pr1 = first_of [p] ++ pairs_of pr"
      using save_pair_refines[OF Cons.prems, of p] s by simp
    moreover have "List.map_filter (exchange_at c phase) (i # is) = [p] @ List.map_filter (exchange_at c phase) is"
      using Some by (simp add: List.map_filter_def)
    ultimately show ?thesis
      using Cons.IH save_pair_ok[OF s Cons.prems] by (simp only: foldl.simps first_of_append map_add_assoc)
  qed
qed

lemma observe_pairs_refines:
  "pairs_ok pr \<Longrightarrow> pairs_of (snd (observe_pairs True c phase pr)) = first_of (exchanges c phase) ++ pairs_of pr"
  unfolding observe_pairs_def exchanges_def by (rule observe_steps_refine)

definition observe_all :: "(conversation \<times> string) list \<Rightarrow> pair_recorder \<Rightarrow> pair_recorder" where
  "observe_all calls pr = foldl (\<lambda>pr x. snd (observe_pairs True (fst x) (snd x) pr)) pr calls"

lemma observe_pairs_ok: "pairs_ok pr \<Longrightarrow> pairs_ok (snd (observe_pairs io c phase pr))"
  using observe_steps_ok[of pr io c phase 0 "[0..<exchange_limit c]"]
  by (cases "observe_pairs io c phase pr") (simp add: observe_pairs_def)


end
