(* ===== verification/Interaction.thy ===== *)
theory Interaction imports Receiving Crash_Detection Pair_Recorder begin

text \<open>
  One interaction with the target (\<open>voltron/executor/executor.py\<close>): start of the target and its
  readiness, with retries; the exchange of a message sequence; crash handling; saving of seeds; and
  the release of socket and process.

  The state extends that of \<open>Receiving\<close> by the counters of the analyzer that only the executor
  writes and by the executor's own sets.  The target process, the sockets, the remote monitor, the
  lifecycle scripts and the verdicts of checker and compliance review are the record \<open>session_env\<close>.
  A message is never \<open>None\<close>, as its type in the code says.
\<close>

section \<open>State\<close>

record traffic =
  tr_req :: nat
  tr_res :: nat
  tr_paths :: nat
  tr_crashes :: nat
  tr_timeouts :: nat
  tr_rclosed :: nat
  tr_batches :: nat
  tr_frames :: nat
  tr_multi :: nat
  tr_ignored :: nat
  tr_failures :: nat
  tr_non_compliant :: nat
  tr_launches :: nat
  tr_retries :: nat
  tr_early_exits :: nat
  tr_socket_timeouts :: nat
  tr_readiness_failures :: nat

text \<open>What one round of waiting for the target's socket sees.\<close>

record connect_tick =
  ct_stopped :: bool
  ct_connected :: bool
  ct_target_gone :: bool

text \<open>One round of the readiness check: its time budget and stop test, its result and the banner read.\<close>

record ready_tick =
  rt_in_time :: bool
  rt_ready :: bool
  rt_banner :: "bytes option"
  rt_stopped :: bool

record sut_status =
  ss_state :: string
  ss_returncode :: "int option"
  ss_stdout :: string
  ss_stderr :: string
  ss_logs :: string

record 'w session_env =
  sx_exec :: "'w executor_env"
  sx_remote :: bool
  sx_mode :: string
  sx_retry_limit :: int
  sx_required :: int
  sx_adapter :: bool
  sx_skip_setup :: bool
  sx_compliance :: bool
  sx_setup :: "'w \<Rightarrow> bool \<times> 'w"
  sx_request_stop :: "string \<Rightarrow> 'w \<Rightarrow> 'w"
  sx_monitor_start :: "'w \<Rightarrow> 'w"
  sx_free_port :: "'w \<Rightarrow> bool \<times> 'w"
  sx_launch :: "'w \<Rightarrow> bool \<times> 'w"
  sx_wait :: "'w \<Rightarrow> bool \<times> 'w"
  sx_process_poll :: "'w \<Rightarrow> int option \<times> 'w"
  sx_process_output :: "'w \<Rightarrow> (string \<times> string) \<times> 'w"
  sx_connects :: "'w \<Rightarrow> connect_tick list \<times> 'w"
  sx_ready :: "'w \<Rightarrow> ready_tick list \<times> 'w"
  sx_evidence :: "'w \<Rightarrow> sut_status \<times> 'w"
  sx_release :: "bool \<Rightarrow> bool \<Rightarrow> bool \<Rightarrow> 'w \<Rightarrow> 'w"
  sx_check :: "string \<Rightarrow> string \<Rightarrow> bytes \<Rightarrow> 'w \<Rightarrow> bool \<times> 'w"
  sx_review :: "string \<Rightarrow> string \<Rightarrow> bytes \<Rightarrow> bytes \<Rightarrow> 'w \<Rightarrow> string option \<times> 'w"

record 'w session = "'w receiver" +
  se_traffic :: traffic
  se_environment :: string
  se_interactions :: nat
  se_process :: bool
  se_socket :: bool
  se_remote :: bool
  se_crashes :: "(string, bytes list) dict"
  se_saved :: "string list"
  se_seeds :: "(conversation \<times> bool) list"
  se_checked :: "string list"
  se_reviewed :: "string list"
  se_pairs :: pair_recorder

type_synonym ('w, 'a) interacting = "(exc, 'w session, 'a) action"

definition count :: "(traffic \<Rightarrow> traffic) \<Rightarrow> ('w, unit) interacting" where
  "count f = smodify (\<lambda>st. st\<lparr>se_traffic := f (se_traffic st)\<rparr>)"

definition tell :: "('w \<Rightarrow> 'w) \<Rightarrow> ('w, unit) interacting" where
  "tell f = xask (\<lambda>w. ((), f w))"

definition analyze :: "(analyzer \<Rightarrow> analyzer) \<Rightarrow> ('w, unit) interacting" where
  "analyze f = smodify (\<lambda>st. st\<lparr>rx_analyzer := f (rx_analyzer st)\<rparr>)"

definition should_stop :: "'w session_env \<Rightarrow> ('w, bool) interacting" where
  "should_stop env = xask (xe_should_stop (sx_exec env))"

section \<open>Lifecycle of the target\<close>

text \<open>The setup hook runs once; a failed setup is remembered.\<close>

definition initialize_environment :: "'w session_env \<Rightarrow> ('w, bool) interacting" where
  "initialize_environment env =
     sbind (sget se_environment) (\<lambda>state.
     if state = ''succeeded'' then sret True
     else if state = ''failed'' then sret False
     else
       sbind (if sx_remote env \<or> sx_mode env = ''replay'' \<or> sx_skip_setup env then sret True
              else xask (sx_setup env)) (\<lambda>success.
       sbind (smodify (\<lambda>st. st\<lparr>se_environment := if success then ''succeeded'' else ''failed''\<rparr>)) (\<lambda>_.
       sbind (if success then sret () else tell (sx_request_stop env ''sut_failure'')) (\<lambda>_. sret success))))"

definition track_active :: "bool \<Rightarrow> bool \<Rightarrow> bool \<Rightarrow> ('w, unit) interacting" where
  "track_active proc sock remote =
     smodify (\<lambda>st. st\<lparr>se_process := proc, se_socket := sock, se_remote := remote\<rparr>)"

definition stop_sut :: "'w session_env \<Rightarrow> ('w, unit) interacting" where
  "stop_sut env =
     sbind (sget (\<lambda>st. (se_process st, se_socket st, se_remote st))) (\<lambda>(proc, sock, remote).
     sbind (smodify (\<lambda>st. st\<lparr>se_process := False, se_socket := False, se_remote := False, rx_prefetched := None\<rparr>))
       (\<lambda>_. tell (sx_release env proc sock remote)))"

text \<open>Up to 100 launches; a process that ends within the grace period is started again.\<close>

primrec launch_loop :: "'w session_env \<Rightarrow> nat \<Rightarrow> ('w, bool \<times> bool) interacting" where
  "launch_loop env 0 = sret (False, True)"
| "launch_loop env (Suc n) =
     sbind (xask (sx_launch env)) (\<lambda>launched.
     if \<not> launched then sret (False, False)
     else
       sbind (xask (sx_wait env)) (\<lambda>stopped.
       if stopped then sbind (tell (sx_release env True False False)) (\<lambda>_. sret (False, False))
       else
         sbind (xask (sx_process_poll env)) (\<lambda>code.
         if code = None then sret (True, True) else launch_loop env n)))"

definition LAUNCH_LIMIT :: nat where
  "LAUNCH_LIMIT = 100"

definition start_sut :: "'w session_env \<Rightarrow> ('w, bool \<times> bool) interacting" where
  "start_sut env =
     sbind (should_stop env) (\<lambda>stopped.
     if stopped then sret (False, False)
     else if sx_remote env then sbind (tell (sx_monitor_start env)) (\<lambda>_. sret (True, False))
     else
       sbind (xask (sx_free_port env)) (\<lambda>free.
       if \<not> free then sret (False, False) else launch_loop env LAUNCH_LIMIT))"

text \<open>
  The wait for a connection: in the remote case a dead target ends it, in the local case its exit.
  When the ticks are over the time was up.
\<close>

fun connect_loop :: "connect_tick list \<Rightarrow> bool \<times> string" where
  "connect_loop [] = (False, ''timeout'')"
| "connect_loop (t # ts) =
     (if ct_stopped t then (False, ''stopped'')
      else if ct_connected t then (True, [])
      else if ct_target_gone t then (False, ''gone'')
      else connect_loop ts)"

definition wait_for_socket :: "'w session_env \<Rightarrow> ('w, bool) interacting" where
  "wait_for_socket env =
     sbind (xask (sx_connects env)) (\<lambda>ticks.
     case connect_loop ticks of (linked, why) \<Rightarrow>
       sbind (if why = ''timeout'' then count (\<lambda>t. t\<lparr>tr_socket_timeouts := tr_socket_timeouts t + 1\<rparr>)
              else if why = ''gone'' \<and> \<not> sx_remote env
              then count (\<lambda>t. t\<lparr>tr_early_exits := tr_early_exits t + 1\<rparr>) else sret ()) (\<lambda>_.
         sret linked))"

text \<open>
  \<open>required\<close> consecutive successes; the state passed along is the number of successes so far, the
  number of failures and the banner that the active-socket adapter cached.
\<close>

fun ready_loop :: "nat \<Rightarrow> ready_tick list \<Rightarrow> nat \<Rightarrow> nat \<Rightarrow> bytes option \<Rightarrow> bool \<times> nat \<times> bytes option" where
  "ready_loop required [] ok failures banner = (False, failures, banner)"
| "ready_loop required (t # ts) ok failures banner =
     (if \<not> rt_in_time t then (False, failures, banner)
      else
        let banner' = (case rt_banner t of None \<Rightarrow> banner | Some b \<Rightarrow> Some b) in
        if rt_ready t
        then (if required \<le> ok + 1 then (True, failures, banner')
              else if rt_stopped t then (False, failures, banner')
              else ready_loop required ts (ok + 1) failures banner')
        else (if rt_stopped t then (False, failures + 1, banner')
              else ready_loop required ts 0 (failures + 1) banner'))"

definition wait_for_readiness :: "'w session_env \<Rightarrow> ('w, bool) interacting" where
  "wait_for_readiness env =
     sbind (xask (sx_ready env)) (\<lambda>ticks.
     sbind (sget rx_prefetched) (\<lambda>cached.
     let required = (if sx_adapter env then 1 else nat (max 1 (sx_required env))) in
     case ready_loop required ticks 0 0 cached of (ready, failures, banner) \<Rightarrow>
       sbind (smodify (\<lambda>st. st\<lparr>rx_prefetched := banner\<rparr>)) (\<lambda>_.
       sbind (count (\<lambda>t. t\<lparr>tr_readiness_failures := tr_readiness_failures t + failures\<rparr>)) (\<lambda>_. sret ready))))"

text \<open>
  The attempts to bring the target up; \<open>n\<close> are left.  The answer is whether a process runs locally,
  or \<open>None\<close> when no attempt gave a ready socket.
\<close>

primrec lifecycle_loop :: "'w session_env \<Rightarrow> bool \<Rightarrow> nat \<Rightarrow> ('w, bool option) interacting" where
  "lifecycle_loop env retried 0 = sret None"
| "lifecycle_loop env retried (Suc n) =
     sbind (count (\<lambda>t. t\<lparr>tr_launches := tr_launches t + 1,
              tr_retries := tr_retries t + (if retried then 1 else 0)\<rparr>)) (\<lambda>_.
     sbind (start_sut env) (\<lambda>(started, proc).
     sbind (if started
            then sbind (track_active proc False (sx_remote env)) (\<lambda>_. wait_for_socket env)
            else sret False) (\<lambda>linked.
     sbind (if linked
            then sbind (track_active proc True (sx_remote env)) (\<lambda>_. wait_for_readiness env)
            else sret False) (\<lambda>ready.
     if ready then sret (Some proc)
     else
       sbind (stop_sut env) (\<lambda>_.
       if n = 0 then sret None
       else
         sbind (xask (sx_wait env)) (\<lambda>stopped.
         if stopped then sret None else lifecycle_loop env True n))))))"

section \<open>Saving a conversation\<close>

definition length_field :: "nat \<Rightarrow> bytes" where
  "length_field n = to_bytes_big 8 n"

definition digest_text :: "string \<Rightarrow> bytes" where
  "digest_text s = length_field (length (ascii s)) @ ascii s"

definition digest_texts :: "string list \<Rightarrow> bytes" where
  "digest_texts ss = length_field (length ss) @ concat (map digest_text ss)"

definition digest_pair :: "bytes \<times> bytes \<Rightarrow> bytes" where
  "digest_pair p = length_field (length (fst p)) @ fst p @ length_field (length (snd p)) @ snd p"

text \<open>What the digest of a seed is taken of.\<close>

definition seed_bytes :: "conversation \<Rightarrow> bool \<Rightarrow> bytes" where
  "seed_bytes cons crash =
     ascii ''crash='' @ ascii (if crash then ''1'' else ''0'') @ [0] @
     digest_texts (req_seq cons) @ digest_texts (res_seq cons) @
     length_field (length (content cons)) @ concat (map digest_pair (content cons))"

definition save_cons :: "'w session_env \<Rightarrow> conversation \<Rightarrow> bool \<Rightarrow> ('w, bool) interacting" where
  "save_cons env cons crash =
     (let digest = xe_sha256 (sx_exec env) (seed_bytes cons crash) in
      sbind (sget (\<lambda>st. digest \<in> set (se_saved st))) (\<lambda>known.
      if known then sret False
      else
        sbind (smodify (\<lambda>st. st\<lparr>se_saved := se_saved st @ [digest], se_seeds := se_seeds st @ [(cons, crash)]\<rparr>))
          (\<lambda>_. sret True)))"

section \<open>Crashes\<close>

text \<open>A crash that was already seen leaves the conversation as it is.\<close>

definition handle_crash ::
    "'w session_env \<Rightarrow> conversation \<Rightarrow> string \<Rightarrow> bytes \<Rightarrow> bool \<Rightarrow> ('w, conversation) interacting" where
  "handle_crash env cons msg_type msg request_recorded =
     sbind (sget (\<lambda>st. case map_of (se_crashes st) msg_type of None \<Rightarrow> False | Some ms \<Rightarrow> msg \<in> set ms)) (\<lambda>known.
     if known then sret cons
     else
       sbind (smodify (\<lambda>st. st\<lparr>se_crashes :=
         (let d = dict_setdefault msg_type [] (se_crashes st); old = the (map_of d msg_type)
          in dict_put msg_type (old @ [msg]) d)\<rparr>)) (\<lambda>_.
       let cons' = (if \<not> request_recorded \<and> msg_type \<noteq> ''-'' \<and> msg \<noteq> []
                    then add_data (add_state cons msg_type ''CRASH'') msg [] None
                    else add_data (add_state cons ''-'' ''CRASH'') [] [] None) in
       sbind (count (\<lambda>t. t\<lparr>tr_crashes := tr_crashes t + 1\<rparr>)) (\<lambda>_.
       sbind (if sx_mode env \<noteq> ''replay'' then save_cons env cons' True else sret False) (\<lambda>_.
         sret cons'))))"

definition join_lines :: "string \<Rightarrow> string \<Rightarrow> string" where
  "join_lines a b = (if a = [] then b else if b = [] then a else a @ [newline] @ b)"

definition remote_crashed :: "sut_status \<Rightarrow> bool" where
  "remote_crashed status =
     (let out = ss_stdout status; err = join_lines (ss_stderr status) (ss_logs status);
          code = (if ss_returncode status = None \<and> (out \<noteq> [] \<or> err \<noteq> []) then Some 1 else ss_returncode status)
      in if ss_state status = ''UNREACHABLE'' then False
         else if ss_state status = ''EXITED'' then is_crash code out err
         else ss_state status = ''CRASHED'')"

definition crash_detected :: "'w session_env \<Rightarrow> bool \<Rightarrow> ('w, bool) interacting" where
  "crash_detected env proc =
     (if sx_remote env then sbind (xask (sx_evidence env)) (\<lambda>status. sret (remote_crashed status))
      else if \<not> proc then sret False
      else
        sbind (xask (sx_process_poll env)) (\<lambda>code.
        case code of
          None \<Rightarrow> sret False
        | Some rc \<Rightarrow>
            sbind (if rc \<noteq> 0 then xask (sx_process_output env) else sret ([], [])) (\<lambda>(out, err).
              sret (is_crash (Some rc) out err))))"

definition handle_crash_if_detected ::
    "'w session_env \<Rightarrow> bool \<Rightarrow> conversation \<Rightarrow> string \<Rightarrow> bytes \<Rightarrow> bool \<Rightarrow>
       ('w, bool \<times> conversation) interacting" where
  "handle_crash_if_detected env proc cons msg_type msg request_recorded =
     sbind (crash_detected env proc) (\<lambda>crashed.
     if crashed
     then sbind (handle_crash env cons msg_type msg request_recorded) (\<lambda>cons'. sret (True, cons'))
     else sret (False, cons))"

section \<open>Checks of a response\<close>

text \<open>Each response type is checked once; the verdict of the components is the environment's.\<close>

definition check_response_during_fuzzing ::
    "'w session_env \<Rightarrow> string \<Rightarrow> string \<Rightarrow> bytes \<Rightarrow> bool \<Rightarrow> ('w, bool) interacting" where
  "check_response_during_fuzzing env request_type response_type response enabled =
     (if \<not> enabled then sret True
      else
        sbind (sget (\<lambda>st. response_type \<in> set (se_checked st))) (\<lambda>known.
        if known then sret True
        else
          sbind (smodify (\<lambda>st. st\<lparr>se_checked := se_checked st @ [response_type]\<rparr>)) (\<lambda>_.
            xask (sx_check env request_type response_type response))))"

text \<open>The review of a rejected response; a verdict is \<open>None\<close> when the review raised.\<close>

definition handle_nonconforming_response ::
    "'w session_env \<Rightarrow> conversation \<Rightarrow> string \<Rightarrow> ('w, unit) interacting" where
  "handle_nonconforming_response env cons response_type =
     (if \<not> sx_compliance env \<or> content cons = [] \<or> req_seq cons = [] then sret ()
      else
        let (request, response) = last (content cons); request_type = last (req_seq cons) in
        if response = [] then sret ()
        else
          sbind (sget (\<lambda>st. response_type \<in> set (se_reviewed st))) (\<lambda>known.
          if known then sret ()
          else
            sbind (smodify (\<lambda>st. st\<lparr>se_reviewed := se_reviewed st @ [response_type]\<rparr>)) (\<lambda>_.
            sbind (xask (sx_review env request_type response_type request response)) (\<lambda>verdict.
              if verdict = Some ''saved_non_compliant''
              then count (\<lambda>t. t\<lparr>tr_non_compliant := tr_non_compliant t + 1\<rparr>) else sret ()))))"

section \<open>The exchange\<close>

record exchange =
  xc_cons :: conversation
  xc_last_type :: string
  xc_last_msg :: bytes
  xc_recorded :: bool
  xc_last_recv :: string

datatype round_end = Next exchange | Break exchange

definition frame_metadata :: "parsed_frame \<Rightarrow> frame_info" where
  "frame_metadata f =
     [(''recv_batch_id'', show_nat (pf_batch f)), (''frame_index'', show_nat (pf_index f)),
      (''offset_start'', show_nat (pf_start f)), (''offset_end'', show_nat (pf_end f)),
      (''response_type'', pf_type f), (''parse_status'', pf_status f),
      (''framing_error'', case pf_error f of None \<Rightarrow> [] | Some e \<Rightarrow> e)]"

definition component_of :: "provenance \<Rightarrow> Metrics.component" where
  "component_of p = \<lparr>co_request_type = pv_request_type p, co_kind = pv_kind p, co_version = pv_version p,
     co_evolve_round = pv_evolve_round p\<rparr>"

text \<open>The three ends of a connection: recorded with their symbol unless the target crashed.\<close>

definition connection_lost ::
    "'w session_env \<Rightarrow> bool \<Rightarrow> exchange \<Rightarrow> string \<Rightarrow> bytes \<Rightarrow> string \<Rightarrow> (traffic \<Rightarrow> traffic) \<Rightarrow>
       ('w, round_end) interacting" where
  "connection_lost env proc lp msg_type msg symbol f =
     sbind (handle_crash_if_detected env proc (xc_cons lp) msg_type msg False) (\<lambda>(crashed, cons').
     if crashed then sret (Break (lp\<lparr>xc_cons := cons'\<rparr>))
     else
       sbind (count f) (\<lambda>_.
         sret (Break (lp\<lparr>xc_cons := add_data (add_state cons' msg_type symbol) msg [] None, xc_recorded := True\<rparr>))))"

definition note_batch :: "nat \<Rightarrow> ('w, unit) interacting" where
  "note_batch n =
     count (\<lambda>t. t\<lparr>tr_batches := tr_batches t + 1, tr_frames := tr_frames t + n,
                tr_multi := tr_multi t + (if 1 < n then 1 else 0)\<rparr>)"

text \<open>
  A batch that the parser could not classify: its data is kept; the request gets a symbol only when
  the parser failed, not when all frames were ignored as implausible.
\<close>

definition unparsed_response ::
    "exchange \<Rightarrow> string \<Rightarrow> bytes \<Rightarrow> bytes option \<Rightarrow> parsed_frame list \<Rightarrow> string \<Rightarrow> ('w, round_end) interacting" where
  "unparsed_response lp msg_type msg resp_data frames code =
     (let ignored = frames \<noteq> [] \<and> list_all (\<lambda>f. pf_status f = ''ignored_invalid'') frames;
          resp = (case resp_data of None \<Rightarrow> [] | Some d \<Rightarrow> d);
          cons' = add_data (xc_cons lp) msg resp (Some (map frame_metadata frames)) in
      sbind (note_batch (length frames)) (\<lambda>_.
      if ignored
      then sbind (count (\<lambda>t. t\<lparr>tr_ignored := tr_ignored t + 1\<rparr>)) (\<lambda>_.
             sret (Next (lp\<lparr>xc_cons := cons', xc_recorded := True\<rparr>)))
      else sbind (count (\<lambda>t. t\<lparr>tr_failures := tr_failures t + 1\<rparr>)) (\<lambda>_.
             sret (Next (lp\<lparr>xc_cons := add_state cons' msg_type code, xc_recorded := True\<rparr>)))))"

text \<open>Each semantic frame counts as a response and as a transition from the one before.\<close>

fun note_responses :: "'w session_env \<Rightarrow> string \<Rightarrow> string list \<Rightarrow> ('w, string) interacting" where
  "note_responses env last_recv [] st = (Inr last_recv, st)"
| "note_responses env last_recv (t # ts) st =
     sbind (count (\<lambda>tr. tr\<lparr>tr_res := tr_res tr + 1\<rparr>)) (\<lambda>_.
     sbind (analyze (res_types_update (xe_io (sx_exec env)) t)) (\<lambda>_.
     sbind (analyze (resp_trans_update (xe_io (sx_exec env)) (last_recv @ ''/'' @ t))) (\<lambda>_.
       note_responses env t ts))) st"

definition parsed_response ::
    "'w session_env \<Rightarrow> bool \<Rightarrow> provenance list \<Rightarrow> exchange \<Rightarrow> string \<Rightarrow> bytes \<Rightarrow> bytes option \<Rightarrow>
       parsed_frame list \<Rightarrow> string \<Rightarrow> ('w, round_end) interacting" where
  "parsed_response env run_checker components lp msg_type msg resp_data frames code =
     (let types = (case map pf_type (filter is_parsed frames) of [] \<Rightarrow> [code] | ts \<Rightarrow> ts);
          resp = (case resp_data of None \<Rightarrow> [] | Some d \<Rightarrow> d);
          cons' = add_state (add_data (xc_cons lp) msg resp (Some (map frame_metadata frames))) msg_type
                    (model_response_symbol frames code) in
      sbind (sget rx_parser_version) (\<lambda>version.
      sbind (analyze (set_state_snapshot_components (map component_of components) msg_type version)) (\<lambda>_.
      sbind (case resp_data of None \<Rightarrow> sret True
             | Some d \<Rightarrow> check_response_during_fuzzing env msg_type code d run_checker) (\<lambda>is_valid.
      sbind (note_batch (length types)) (\<lambda>_.
      sbind (note_responses env (xc_last_recv lp) types) (\<lambda>last_recv.
      sbind (if is_valid then sret () else handle_nonconforming_response env cons' code) (\<lambda>_.
        sret (Next (lp\<lparr>xc_cons := cons', xc_recorded := True, xc_last_recv := last_recv\<rparr>)))))))))"

definition handle_reply ::
    "'w session_env \<Rightarrow> bool \<Rightarrow> bool \<Rightarrow> provenance list \<Rightarrow> exchange \<Rightarrow> string \<Rightarrow> bytes \<Rightarrow>
       string option \<times> bytes option \<Rightarrow> ('w, round_end) interacting" where
  "handle_reply env proc run_checker components lp msg_type msg reply =
     (case reply of
        (None, resp_data) \<Rightarrow> sret (Next lp)
      | (Some code, resp_data) \<Rightarrow>
          if code = ''POLLERR'' then connection_lost env proc lp msg_type msg ''POLLERR''
               (\<lambda>t. t\<lparr>tr_rclosed := tr_rclosed t + 1\<rparr>)
          else if code = ''TIMEOUT'' then connection_lost env proc lp msg_type msg ''TIMEOUT''
               (\<lambda>t. t\<lparr>tr_timeouts := tr_timeouts t + 1\<rparr>)
          else if code = ''RCLOSED'' then connection_lost env proc lp msg_type msg ''CLOSED''
               (\<lambda>t. t\<lparr>tr_rclosed := tr_rclosed t + 1\<rparr>)
          else
            sbind (sget rx_frames) (\<lambda>frames.
            if code = parse_failure then unparsed_response lp msg_type msg resp_data frames code
            else parsed_response env run_checker components lp msg_type msg resp_data frames code))"

definition send_and_receive ::
    "'w session_env \<Rightarrow> bool \<Rightarrow> int \<Rightarrow> bool \<Rightarrow> provenance list \<Rightarrow> exchange \<Rightarrow> string \<Rightarrow> bytes \<Rightarrow>
       ('w, round_end) interacting" where
  "send_and_receive env proc poll_wait_ms run_checker components lp msg_type msg =
     sbind (net_send (sx_exec env) msg) (\<lambda>(flag, req_data).
     if flag \<and> req_data \<noteq> None \<and> req_data \<noteq> Some []
     then
       sbind (count (\<lambda>t. t\<lparr>tr_req := tr_req t + 1\<rparr>)) (\<lambda>_.
       sbind (analyze (req_types_update msg_type)) (\<lambda>_.
       sbind (net_recv (sx_exec env) poll_wait_ms run_checker)
         (handle_reply env proc run_checker components (lp\<lparr>xc_recorded := False\<rparr>) msg_type msg)))
     else
       sbind (handle_crash_if_detected env proc (xc_cons lp) msg_type msg False) (\<lambda>(crashed, cons').
         sret (Break (lp\<lparr>xc_cons := cons'\<rparr>))))"

definition exchange_round ::
    "'w session_env \<Rightarrow> bool \<Rightarrow> int \<Rightarrow> bool \<Rightarrow> provenance list \<Rightarrow> exchange \<Rightarrow> string \<Rightarrow> bytes \<Rightarrow>
       ('w, round_end) interacting" where
  "exchange_round env proc poll_wait_ms run_checker components lp msg_type msg =
     sbind (should_stop env) (\<lambda>stopped.
     if stopped then sret (Break lp)
     else
       sbind (if sx_remote env then sret None else xask (sx_process_poll env)) (\<lambda>exited.
       if exited \<noteq> None
       then
         sbind (handle_crash_if_detected env proc (xc_cons lp) (xc_last_type lp) (xc_last_msg lp) (xc_recorded lp))
           (\<lambda>(crashed, cons').
           sret (Break (lp\<lparr>xc_cons := (if crashed then cons' else add_data (add_state cons' msg_type ''CLOSED'') msg [] None)\<rparr>)))
       else send_and_receive env proc poll_wait_ms run_checker components
              (lp\<lparr>xc_last_type := msg_type, xc_last_msg := msg\<rparr>) msg_type msg))"

fun exchange_loop ::
    "'w session_env \<Rightarrow> bool \<Rightarrow> int \<Rightarrow> bool \<Rightarrow> provenance list \<Rightarrow> nat \<Rightarrow> (string \<times> bytes) list \<Rightarrow> exchange \<Rightarrow>
       ('w, exchange) interacting" where
  "exchange_loop env proc poll_wait_ms run_checker provs i [] lp st = (Inr lp, st)"
| "exchange_loop env proc poll_wait_ms run_checker provs i ((msg_type, msg) # msgs) lp st =
     sbind (exchange_round env proc poll_wait_ms run_checker (take (i + 1) provs) lp msg_type msg) (\<lambda>e.
     case e of
       Next lp' \<Rightarrow> exchange_loop env proc poll_wait_ms run_checker provs (i + 1) msgs lp'
     | Break lp' \<Rightarrow> sret lp') st"

text \<open>The greeting of the target, if there is one, is the first exchange.\<close>

definition greet ::
    "'w session_env \<Rightarrow> bool \<Rightarrow> string option \<times> bytes option \<Rightarrow> ('w, exchange) interacting" where
  "greet env run_checker reply =
     (let start = (\<lambda>cons recv. \<lparr>xc_cons = cons, xc_last_type = ''-'', xc_last_msg = [], xc_recorded = True,
            xc_last_recv = recv\<rparr>) in
      case reply of
        (Some code, Some data) \<Rightarrow>
          if code \<noteq> [] \<and> data \<noteq> []
          then
            sbind (sget rx_parser_version) (\<lambda>version.
            sbind (analyze (set_state_snapshot_components [] ''-'' version)) (\<lambda>_.
            sbind (check_response_during_fuzzing env ''-'' code data run_checker) (\<lambda>is_valid.
            sbind (sget rx_frames) (\<lambda>frames.
            let cons = add_data (add_state new_conversation ''-'' (model_response_symbol frames code)) [] data None in
            sbind (if is_valid then sret () else handle_nonconforming_response env cons code) (\<lambda>_.
            sbind (analyze (res_types_update (xe_io (sx_exec env)) code)) (\<lambda>_.
            sbind (analyze (resp_trans_update (xe_io (sx_exec env)) (''-/'' @ code))) (\<lambda>_.
              sret (start cons code))))))))
          else sret (start (add_data (add_state new_conversation ''-'' ''-'') [] [] None) ''-'')
      | _ \<Rightarrow> sret (start (add_data (add_state new_conversation ''-'' ''-'') [] [] None) ''-''))"

definition interact_once ::
    "'w session_env \<Rightarrow> (string \<times> message_obj) list \<Rightarrow> int \<Rightarrow> bool \<Rightarrow> ('w, conversation option) interacting" where
  "interact_once env msg_seq poll_wait_ms run_checker =
     sbind (should_stop env) (\<lambda>stopped.
     if stopped then sret None
     else
       sbind (initialize_environment env) (\<lambda>prepared.
       if \<not> prepared then sret None
       else
         sbind (smodify (\<lambda>st. st\<lparr>se_interactions := se_interactions st + 1, rx_prefetched := None\<rparr>)) (\<lambda>_.
         sbind (sattempt [] (on_mapper (consume_message_provenance msg_seq))) (\<lambda>provs.
         sbind (lifecycle_loop env False (nat (max 1 (sx_retry_limit env)))) (\<lambda>up.
         case up of
           None \<Rightarrow> sbind (tell (sx_request_stop env ''sut_failure'')) (\<lambda>_. sret None)
         | Some proc \<Rightarrow>
             sbind (receive_initial_response (sx_exec env) 100 run_checker) (\<lambda>reply.
             sbind (should_stop env) (\<lambda>stopped'.
             if stopped' then sbind (stop_sut env) (\<lambda>_. sret None)
             else
               sbind (greet env run_checker reply) (\<lambda>lp0.
               sbind (exchange_loop env proc poll_wait_ms run_checker provs 0
                        (map (\<lambda>(t, m). (t, snd m)) msg_seq) lp0) (\<lambda>lp.
               sbind (count (\<lambda>t. t\<lparr>tr_paths := tr_paths t + 1\<rparr>)) (\<lambda>_.
               sbind (handle_crash_if_detected env proc (xc_cons lp) (xc_last_type lp) (xc_last_msg lp)
                        (xc_recorded lp)) (\<lambda>(crashed, cons').
               sbind (stop_sut env) (\<lambda>_. sret (Some cons')))))))))))))"

text \<open>The phase under which pairs are recorded.\<close>

definition pair_phase :: "analyzer \<Rightarrow> string" where
  "pair_phase an = (case an_active_phase an of None \<Rightarrow> an_stage an | Some p \<Rightarrow> if p = [] then an_stage an else p)"

definition record_pairs :: "'w session_env \<Rightarrow> conversation option \<Rightarrow> ('w, unit) interacting" where
  "record_pairs env result =
     (case result of
        None \<Rightarrow> sret ()
      | Some cons \<Rightarrow> smodify (\<lambda>st. st\<lparr>se_pairs :=
          snd (observe_pairs (xe_io (sx_exec env)) cons (pair_phase (rx_analyzer st)) (se_pairs st))\<rparr>))"

text \<open>\<open>finally\<close>: socket and process are released however the interaction ends.\<close>

definition interact ::
    "'w session_env \<Rightarrow> (string \<times> message_obj) list \<Rightarrow> int \<Rightarrow> bool \<Rightarrow> ('w, conversation option) interacting" where
  "interact env msg_seq poll_wait_ms run_checker st =
     (case sbind (interact_once env msg_seq poll_wait_ms run_checker)
             (\<lambda>result. sbind (record_pairs env result) (\<lambda>_. sret result)) st of
        (r, st') \<Rightarrow> (r, snd (stop_sut env st')))"

text \<open>A new executor loads the parser of the mapper; \<open>existing\<close> are the pair files of earlier runs.\<close>

definition no_traffic :: traffic where
  "no_traffic = \<lparr>tr_req = 0, tr_res = 0, tr_paths = 0, tr_crashes = 0, tr_timeouts = 0, tr_rclosed = 0, tr_batches = 0,
     tr_frames = 0, tr_multi = 0, tr_ignored = 0, tr_failures = 0, tr_non_compliant = 0, tr_launches = 0,
     tr_retries = 0, tr_early_exits = 0, tr_socket_timeouts = 0, tr_readiness_failures = 0\<rparr>"

definition fresh_session :: "nat list \<Rightarrow> 'w mapper \<Rightarrow> analyzer \<Rightarrow> 'w session" where
  "fresh_session existing mp an =
     \<lparr>rx_mapper = mp, rx_analyzer = an, rx_parser_code = [], rx_parser_version = [], rx_good_parser = None,
      rx_degraded = False, rx_fallbacks = 0, rx_ignored_inputs = [], rx_failed_inputs = [], rx_failure_status = [],
      rx_batch = 0, rx_frames = [], rx_prefetched = None, rx_operation = [], se_traffic = no_traffic,
      se_environment = ''not_started'', se_interactions = 0, se_process = False, se_socket = False, se_remote = False,
      se_crashes = [], se_saved = [], se_seeds = [], se_checked = [], se_reviewed = [],
      se_pairs = new_pair_recorder existing\<rparr>"

definition new_session :: "'w session_env \<Rightarrow> nat list \<Rightarrow> 'w mapper \<Rightarrow> analyzer \<Rightarrow> 'w session result" where
  "new_session env existing mp an =
     (case load_parser (sx_exec env) (mp_cur_parser mp) (fresh_session existing mp an) of
        (Inl e, st) \<Rightarrow> Inl e
      | (Inr _, st) \<Rightarrow> Inr st)"

text \<open>Interactions and calls on the mapper, in any order.\<close>

datatype session_call =
    Call_interact "(string \<times> message_obj) list" int bool
  | Call_save conversation
  | Call_mapper mapper_call

definition session_step :: "'w session_env \<Rightarrow> 'w session \<Rightarrow> session_call \<Rightarrow> 'w session" where
  "session_step env st call =
     (case call of
        Call_interact msg_seq poll_wait_ms run_checker \<Rightarrow> snd (interact env msg_seq poll_wait_ms run_checker st)
      | Call_save cons \<Rightarrow> snd (save_cons env cons False st)
      | Call_mapper c \<Rightarrow> st\<lparr>rx_mapper := mapper_step (xe_mapper (sx_exec env)) (rx_mapper st) c\<rparr>)"

definition session_run :: "'w session_env \<Rightarrow> session_call list \<Rightarrow> 'w session \<Rightarrow> 'w session" where
  "session_run env calls st = foldl (session_step env) st calls"

end
