(* ===== verification/Interaction_Facts.thy ===== *)
theory Interaction_Facts imports Interaction Receiving_Facts begin

text \<open>
  Properties of one interaction: what it keeps of the state, that it releases the target however it
  ends, and how the sequences of the conversation it returns relate to each other.
\<close>

section \<open>Results that depend on the state\<close>

text \<open>\<open>leads P m Q\<close>: from a state in \<open>P\<close> the action raises or its result and final state satisfy \<open>Q\<close>.\<close>

definition leads :: "('s \<Rightarrow> bool) \<Rightarrow> ('e, 's, 'a) action \<Rightarrow> ('a \<Rightarrow> 's \<Rightarrow> bool) \<Rightarrow> bool" where
  "leads P m Q \<longleftrightarrow> (\<forall>s. P s \<longrightarrow> (case m s of (Inl e, t) \<Rightarrow> True | (Inr x, t) \<Rightarrow> Q x t))"

lemma leadsD: "leads P m Q \<Longrightarrow> m s = (Inr x, t) \<Longrightarrow> P s \<Longrightarrow> Q x t"
  unfolding leads_def by fastforce

lemma leadsI: "(\<And>s x t. P s \<Longrightarrow> m s = (Inr x, t) \<Longrightarrow> Q x t) \<Longrightarrow> leads P m Q"
  by (auto simp: leads_def split: prod.split sum.split)

lemma leads_sbind: "leads P m Q \<Longrightarrow> (\<And>x. leads (Q x) (k x) R) \<Longrightarrow> leads P (sbind m k) R"
  by (rule leadsI) (elim sbind_InrE, metis leadsD)

lemma leads_keeps: "keeps P m \<Longrightarrow> leads P m (\<lambda>_. P)"
  by (rule leadsI) (rule keepsD)

lemma leads_then: "keeps P m \<Longrightarrow> (\<And>x. leads P (k x) R) \<Longrightarrow> leads P (sbind m k) R"
  by (rule leads_sbind[OF leads_keeps])

lemma leads_sret: "(\<And>s. P s \<Longrightarrow> Q x s) \<Longrightarrow> leads P (sret x) Q"
  by (simp add: leads_def sret_def)

lemma leads_smodify: "(\<And>s. P s \<Longrightarrow> Q () (f s)) \<Longrightarrow> leads P (smodify f) Q"
  by (simp add: leads_def smodify_def)

lemma leads_if: "(c \<Longrightarrow> leads P a Q) \<Longrightarrow> (\<not> c \<Longrightarrow> leads P b Q) \<Longrightarrow> leads P (if c then a else b) Q"
  by simp

lemma leads_prod: "(\<And>x y. c = (x, y) \<Longrightarrow> leads P (f x y) Q) \<Longrightarrow> leads P (case c of (x, y) \<Rightarrow> f x y) Q"
  by (simp split: prod.split)

lemma leads_option:
  "leads P a Q \<Longrightarrow> (\<And>x. leads P (b x) Q) \<Longrightarrow> leads P (case c of None \<Rightarrow> a | Some x \<Rightarrow> b x) Q"
  by (simp split: option.split)

section \<open>What an interaction keeps\<close>

text \<open>
  A property of the state that no step of an interaction touches, but for crashes, the counter of
  ignored batches and the recorded pairs.
\<close>

locale session_frame = receiving_frame R for R :: "'w session \<Rightarrow> bool" +
  fixes env :: "'w session_env"
  assumes R_lifecycle: "R (st\<lparr>se_environment := e\<rparr>) \<longleftrightarrow> R st" "R (st\<lparr>se_interactions := n\<rparr>) \<longleftrightarrow> R st"
    and R_active: "R (st\<lparr>se_process := b1, se_socket := b2, se_remote := b3\<rparr>) \<longleftrightarrow> R st"
    and R_responses: "R (st\<lparr>se_checked := cs\<rparr>) \<longleftrightarrow> R st" "R (st\<lparr>se_reviewed := rs\<rparr>) \<longleftrightarrow> R st"
    and R_traffic: "tr_ignored t' = tr_ignored (se_traffic st) \<Longrightarrow> tr_crashes t' = tr_crashes (se_traffic st) \<Longrightarrow>
      R (st\<lparr>se_traffic := t'\<rparr>) \<longleftrightarrow> R st"
    and R_provenance: "keeps R (on_mapper (consume_message_provenance msgs))"
    and R_crash: "keeps R (handle_crash env cons msg_type msg recorded)"
begin

lemma keeps_count: "(\<And>t. tr_ignored (f t) = tr_ignored t \<and> tr_crashes (f t) = tr_crashes t) \<Longrightarrow> keeps R (count f)"
  unfolding count_def by (rule keeps_modify) (simp add: R_traffic)

lemma keeps_asks [keeping]: "keeps R (should_stop env)" "keeps R (tell g)" "keeps R (analyze h)"
  unfolding should_stop_def tell_def analyze_def
  by (intro keeping) (intro keeping, rule keeps_modify, simp add: R_analyzer)

lemma keeps_environment [keeping]: "keeps R (initialize_environment env)"
  unfolding initialize_environment_def by (intro keeping keeps_modify) (simp_all add: R_lifecycle)

lemma keeps_track [keeping]: "keeps R (track_active proc sock remote)"
  unfolding track_active_def by (rule keeps_modify) (simp add: R_active)

lemma keeps_stop [keeping]: "keeps R (stop_sut env)"
  unfolding stop_sut_def by (intro keeping keeps_modify) (simp add: R_active R_prefetched)

lemma keeps_launch [keeping]: "keeps R (launch_loop env n)"
  by (induction n) (simp_all add: keeping)

lemma keeps_start [keeping]: "keeps R (start_sut env)"
  unfolding start_sut_def by (intro keeping)

lemma keeps_wait_socket [keeping]: "keeps R (wait_for_socket env)"
  unfolding wait_for_socket_def by (intro keeping keeps_count) simp_all

lemma keeps_wait_ready [keeping]: "keeps R (wait_for_readiness env)"
  unfolding wait_for_readiness_def Let_def
  by (intro keeping keeps_count keeps_modify) (simp_all add: R_prefetched)

lemma keeps_lifecycle [keeping]: "keeps R (lifecycle_loop env retried n)"
proof (induction n arbitrary: retried)
  case (Suc n)
  show ?case unfolding lifecycle_loop.simps by (intro keeping keeps_count Suc.IH) simp
qed (simp add: keeping)

lemma keeps_detected [keeping]: "keeps R (crash_detected env proc)"
  unfolding crash_detected_def by (intro keeping)

lemma keeps_crash [keeping]: "keeps R (handle_crash_if_detected env proc cons msg_type msg recorded)"
  unfolding handle_crash_if_detected_def by (intro keeping R_crash)

lemma keeps_check [keeping]: "keeps R (check_response_during_fuzzing env t r b enabled)"
  unfolding check_response_during_fuzzing_def by (intro keeping keeps_modify) (simp add: R_responses)

lemma keeps_review [keeping]: "keeps R (handle_nonconforming_response env cons r)"
  unfolding handle_nonconforming_response_def Let_def
  by (intro keeping keeps_modify keeps_count) (simp_all add: R_responses)

lemma keeps_note [keeping]: "keeps R (note_batch n)"
  unfolding note_batch_def by (rule keeps_count) simp

lemma keeps_note_responses [keeping]: "keeps R (note_responses env last_recv ts)"
proof (induction ts arbitrary: last_recv)
  case Nil
  then show ?case by (simp add: keeps_def)
next
  case (Cons t ts)
  have "note_responses env last_recv (t # ts) =
      sbind (count (\<lambda>tr. tr\<lparr>tr_res := tr_res tr + 1\<rparr>)) (\<lambda>_.
      sbind (analyze (res_types_update (xe_io (sx_exec env)) t)) (\<lambda>_.
      sbind (analyze (resp_trans_update (xe_io (sx_exec env)) (last_recv @ ''/'' @ t))) (\<lambda>_.
        note_responses env t ts)))"
    by (simp add: fun_eq_iff)
  then show ?case by (simp only:) (intro keeping keeps_count Cons.IH, simp)
qed

lemma keeps_parsed [keeping]: "keeps R (parsed_response env run_checker comps lp msg_type msg d frames code)"
  unfolding parsed_response_def Let_def by (intro keeping)

lemma keeps_lost [keeping]:
  "(\<And>t. tr_ignored (f t) = tr_ignored t \<and> tr_crashes (f t) = tr_crashes t) \<Longrightarrow>
     keeps R (connection_lost env proc lp msg_type msg symbol f)"
  unfolding connection_lost_def by (intro keeping keeps_count)

lemma keeps_greet [keeping]: "keeps R (greet env run_checker reply)"
  unfolding greet_def Let_def by (simp split: prod.split option.split) (intro conjI allI impI keeping)

end

text \<open>A property that neither an ignored batch nor the recording of pairs touches is kept throughout.\<close>

locale session_invariant = session_frame R env for R :: "'w session \<Rightarrow> bool" and env +
  assumes R_ignored: "R (st\<lparr>se_traffic := (se_traffic st)\<lparr>tr_ignored := n\<rparr>\<rparr>) \<longleftrightarrow> R st"
    and R_pairs: "keeps R (record_pairs env result)"
begin

lemma keeps_unparsed [keeping]: "keeps R (unparsed_response lp msg_type msg d frames code)"
proof -
  have "keeps R (count (\<lambda>t. t\<lparr>tr_ignored := tr_ignored t + 1\<rparr>))"
    unfolding count_def by (rule keeps_modify) (simp add: R_ignored)
  moreover have "keeps R (count (\<lambda>t. t\<lparr>tr_failures := tr_failures t + 1\<rparr>))"
    by (rule keeps_count) simp
  ultimately show ?thesis unfolding unparsed_response_def Let_def by (intro keeping)
qed

lemma keeps_reply [keeping]: "keeps R (handle_reply env proc run_checker comps lp msg_type msg reply)"
  unfolding handle_reply_def by (simp split: prod.split option.split) (intro conjI allI impI keeping, simp_all)

lemma keeps_round [keeping]: "keeps R (exchange_round env proc poll_wait run_checker comps lp msg_type msg)"
  unfolding exchange_round_def send_and_receive_def by (intro keeping keeps_count) simp

lemma keeps_exchange [keeping]: "keeps R (exchange_loop env proc poll_wait run_checker provs i msgs lp)"
proof (induction msgs arbitrary: i lp)
  case Nil
  then show ?case by (simp add: keeps_def)
next
  case (Cons x msgs)
  obtain t m where x: "x = (t, m)" by force
  have "exchange_loop env proc poll_wait run_checker provs i ((t, m) # msgs) lp =
      sbind (exchange_round env proc poll_wait run_checker (take (i + 1) provs) lp t m) (\<lambda>e.
      case e of Next lp' \<Rightarrow> exchange_loop env proc poll_wait run_checker provs (i + 1) msgs lp' | Break lp' \<Rightarrow> sret lp')"
    by (rule ext) (simp only: exchange_loop.simps)
  moreover have "keeps R (case e of Next lp' \<Rightarrow> exchange_loop env proc poll_wait run_checker provs (i + 1) msgs lp'
      | Break lp' \<Rightarrow> sret lp')" for e
    by (cases e) (simp_all add: Cons.IH keeping)
  ultimately show ?case unfolding x by (simp only:) (intro keeping)
qed

lemma keeps_once [keeping]: "keeps R (interact_once env msgs poll_wait run_checker)"
  unfolding interact_once_def
  by (intro keeping keeps_modify keeps_count R_provenance) (simp_all add: R_lifecycle R_prefetched)

lemma keeps_interact: "keeps R (interact env msgs poll_wait run_checker)"
proof -
  let ?m = "sbind (interact_once env msgs poll_wait run_checker)
      (\<lambda>result. sbind (record_pairs env result) (\<lambda>_. sret result))"
  have m: "keeps R ?m" by (intro keeping R_pairs)
  have "interact env msgs poll_wait run_checker st = (fst (?m st), snd (stop_sut env (snd (?m st))))" for st
    by (simp add: interact_def split_beta)
  with m keeps_stop show ?thesis by (simp add: keeps_def)
qed

end

section \<open>The mapper, the ledger of seeds and crashes, and the pairs\<close>

interpretation kept: session_invariant "\<lambda>st. mapper_ok (xe_mapper (sx_exec env)) (rx_mapper st)" env for env
proof unfold_locales
  fix cons msg_type msg recorded
  show "keeps (\<lambda>st. mapper_ok (xe_mapper (sx_exec env)) (rx_mapper st)) (handle_crash env cons msg_type msg recorded)"
    unfolding handle_crash_def save_cons_def count_def Let_def
    by (intro keeping keeps_smodify) simp_all
next
  fix result
  show "keeps (\<lambda>st. mapper_ok (xe_mapper (sx_exec env)) (rx_mapper st)) (record_pairs env result)"
    unfolding record_pairs_def by (intro keeping keeps_smodify) simp
qed (simp_all add: keeps_on_mapper keeping)

text \<open>
  Every saved seed is recorded under its digest, no digest twice; a crashing message is recorded once
  under its type, and the counter of crashes counts exactly these; the pair files are those of
  \<open>pairs_ok\<close>.
\<close>

definition ledger_ok :: "'w session_env \<Rightarrow> 'w session \<Rightarrow> bool" where
  "ledger_ok env st \<longleftrightarrow>
     se_saved st = map (\<lambda>(c, crash). xe_sha256 (sx_exec env) (seed_bytes c crash)) (se_seeds st) \<and> distinct (se_saved st) \<and>
     distinct (map fst (se_crashes st)) \<and> list_all (\<lambda>e. distinct (snd e)) (se_crashes st) \<and>
     tr_crashes (se_traffic st) = sum_list (map (\<lambda>e. length (snd e)) (se_crashes st)) \<and> pairs_ok (se_pairs st)"

lemma dict_put_old:
  "map_of d k = Some v \<Longrightarrow> distinct (map fst d) \<Longrightarrow>
     sum_list (map (\<lambda>e. length (snd e)) (dict_put k w d)) + length v = sum_list (map (\<lambda>e. length (snd e)) d) + length w"
  by (induction k w d rule: dict_put.induct) (auto split: if_splits)

lemma dict_put_all: "list_all P d \<Longrightarrow> P (k, v) \<Longrightarrow> list_all P (dict_put k v d)"
  by (induction k v d rule: dict_put.induct) auto

lemma dict_put_distinct: "distinct (map fst d) \<Longrightarrow> distinct (map fst (dict_put k v d))"
  by (simp add: keys_dict_put set_add_def)

definition crash_entry :: "string \<Rightarrow> bytes \<Rightarrow> (string, bytes list) dict \<Rightarrow> (string, bytes list) dict" where
  "crash_entry t m d = (let d' = dict_setdefault t [] d in dict_put t (the (map_of d' t) @ [m]) d')"

lemma crash_entry_ok:
  assumes "distinct (map fst d)" "list_all (\<lambda>e. distinct (snd e)) d"
    and "\<not> (case map_of d t of None \<Rightarrow> False | Some ms \<Rightarrow> m \<in> set ms)"
  shows "distinct (map fst (crash_entry t m d)) \<and> list_all (\<lambda>e. distinct (snd e)) (crash_entry t m d) \<and>
    sum_list (map (\<lambda>e. length (snd e)) (crash_entry t m d)) = Suc (sum_list (map (\<lambda>e. length (snd e)) d))"
proof -
  define d' where "d' = dict_setdefault t [] d"
  obtain ms where ms: "map_of d' t = Some ms" "distinct ms" "m \<notin> set ms"
    using assms(2,3)
    by (auto simp: d'_def dict_setdefault_def list_all_iff map_add_def split: option.splits dest!: map_of_SomeD)
  have d': "distinct (map fst d')" "list_all (\<lambda>e. distinct (snd e)) d'"
    "sum_list (map (\<lambda>e. length (snd e)) d') = sum_list (map (\<lambda>e. length (snd e)) d)"
    using assms(1,2) by (auto simp: d'_def dict_setdefault_def map_of_eq_None_iff split: option.split)
  have "crash_entry t m d = dict_put t (ms @ [m]) d'"
    by (simp add: crash_entry_def d'_def[symmetric] ms(1))
  with dict_put_old[OF ms(1) d'(1), of "ms @ [m]"] ms d' show ?thesis
    by (simp add: dict_put_all dict_put_distinct)
qed

lemma keeps_ledger_save [keeping]: "keeps (ledger_ok env) (save_cons env cons crash)"
  by (auto simp: keeps_def save_cons_def ledger_ok_def action_defs Let_def)

lemma keeps_ledger_crash: "keeps (ledger_ok env) (handle_crash env cons msg_type msg recorded)"
proof -
  have eq: "handle_crash env cons msg_type msg recorded =
     sbind (sget (\<lambda>st. case map_of (se_crashes st) msg_type of None \<Rightarrow> False | Some ms \<Rightarrow> msg \<in> set ms)) (\<lambda>known.
     if known then sret cons
     else
       let cons' = (if \<not> recorded \<and> msg_type \<noteq> ''-'' \<and> msg \<noteq> []
                    then add_data (add_state cons msg_type ''CRASH'') msg [] None
                    else add_data (add_state cons ''-'' ''CRASH'') [] [] None) in
       sbind (smodify (\<lambda>st. st\<lparr>se_crashes := crash_entry msg_type msg (se_crashes st),
           se_traffic := (se_traffic st)\<lparr>tr_crashes := tr_crashes (se_traffic st) + 1\<rparr>\<rparr>)) (\<lambda>_.
       sbind (if sx_mode env \<noteq> ''replay'' then save_cons env cons' True else sret False) (\<lambda>_. sret cons')))"
    by (simp add: handle_crash_def crash_entry_def Let_def count_def sbind_def smodify_def sget_def sret_def fun_eq_iff)
  have tail: "keeps (ledger_ok env) (sbind (if b then save_cons env c True else sret False) (\<lambda>_. sret c))" for b c
    by (intro keeping)
  show ?thesis unfolding keeps_def
  proof (intro allI impI)
    fix st assume ok: "ledger_ok env st"
    show "ledger_ok env (snd (handle_crash env cons msg_type msg recorded st))"
    proof (cases "case map_of (se_crashes st) msg_type of None \<Rightarrow> False | Some ms \<Rightarrow> msg \<in> set ms")
      case True
      with ok show ?thesis by (simp add: eq sbind_def sget_def sret_def)
    next
      case False
      let ?st = "st\<lparr>se_crashes := crash_entry msg_type msg (se_crashes st),
           se_traffic := (se_traffic st)\<lparr>tr_crashes := tr_crashes (se_traffic st) + 1\<rparr>\<rparr>"
      from ok crash_entry_ok[OF _ _ False] have "ledger_ok env ?st" by (auto simp: ledger_ok_def)
      with False show ?thesis
        using tail[unfolded keeps_def, rule_format, of ?st]
        by (simp add: eq Let_def sbind_def[of "sget _"] sbind_def[of "smodify _"] sget_def smodify_def)
    qed
  qed
qed

lemma keeps_ledger_mapper: "keeps (ledger_ok env) (on_mapper m)"
  by (auto simp: keeps_def on_mapper_def ledger_ok_def split: prod.split)

interpretation ledger: session_invariant "ledger_ok env" env for env
proof unfold_locales
  fix result
  show "keeps (ledger_ok env) (record_pairs env result)"
    unfolding record_pairs_def
    by (intro keeping keeps_smodify) (auto simp: ledger_ok_def observe_pairs_ok)
qed (simp_all add: keeps_ledger_crash keeps_ledger_mapper, simp_all add: ledger_ok_def)

section \<open>The sequences of a conversation\<close>

text \<open>
  Exchanges and types are added in pairs, but for an ignored batch, whose exchange has no types.
  \<open>n\<close> is the number of ignored batches before the interaction.
\<close>

definition ignored :: "'w session \<Rightarrow> nat" where
  "ignored st = tr_ignored (se_traffic st)"

definition shaped :: "string set \<Rightarrow> nat \<Rightarrow> conversation \<Rightarrow> 'w session \<Rightarrow> bool" where
  "shaped A n c st \<longleftrightarrow> length (req_seq c) = length (res_seq c) \<and> length (content c) = length (response_frames c) \<and>
     length (content c) + n = length (req_seq c) + ignored st \<and> req_seq c \<noteq> [] \<and> set (req_seq c) \<subseteq> A"

lemmas shaped_defs = shaped_def add_state_def add_data_def new_conversation_def

lemma shaped_both:
  "shaped A n c st \<Longrightarrow> t \<in> A \<Longrightarrow> shaped A n (add_data (add_state c t r) m d fs) st"
  "shaped A n c st \<Longrightarrow> t \<in> A \<Longrightarrow> shaped A n (add_state (add_data c m d fs) t r) st"
  by (simp_all add: shaped_defs)

lemma keeps_shaped_mapper: "keeps (shaped A n c) (on_mapper m)"
  by (simp add: keeps_def on_mapper_def shaped_def ignored_def split: prod.split)

lemma keeps_shaped_save [keeping]: "keeps (shaped A n c) (save_cons env cons crash)"
  unfolding save_cons_def Let_def by (intro keeping keeps_smodify) (simp add: shaped_def ignored_def)

lemma keeps_shaped_crash: "keeps (shaped A n c) (handle_crash env cons msg_type msg recorded)"
  unfolding handle_crash_def count_def Let_def
  by (intro keeping keeps_smodify) (simp_all add: shaped_def ignored_def)

interpretation aligned: session_frame "shaped A n c" env for A n c env
  by unfold_locales (simp_all add: keeps_shaped_mapper keeps_shaped_crash, simp_all add: shaped_def ignored_def)

definition end_cons :: "round_end \<Rightarrow> conversation" where
  "end_cons e = (case e of Next lp \<Rightarrow> xc_cons lp | Break lp \<Rightarrow> xc_cons lp)"

lemma end_cons_simps [simp]: "end_cons (Next lp) = xc_cons lp" "end_cons (Break lp) = xc_cons lp"
  by (simp_all add: end_cons_def)

lemma crash_shape:
  assumes "{''-'', msg_type} \<subseteq> A"
  shows "leads (shaped A n cons) (handle_crash_if_detected env proc cons msg_type msg recorded)
    (\<lambda>(crashed, cons') st. shaped A n cons' st)"
proof -
  have "leads (shaped A n cons) (handle_crash env cons msg_type msg recorded) (\<lambda>cons' st. shaped A n cons' st)"
    unfolding handle_crash_def Let_def count_def
    using assms
    by (intro leads_then keeping leads_if leads_sret)
       (auto simp: shaped_both intro!: keeps_smodify keeping, simp_all add: shaped_def ignored_def)
  then show ?thesis unfolding handle_crash_if_detected_def
    by (intro leads_then leads_if leads_sbind[of _ "handle_crash env cons msg_type msg recorded"] aligned.keeps_detected)
      (auto intro!: leads_sret)
qed

lemma lost_shape:
  assumes "{''-'', msg_type} \<subseteq> A" and "\<And>t. tr_ignored (f t) = tr_ignored t \<and> tr_crashes (f t) = tr_crashes t"
  shows "leads (shaped A n (xc_cons lp)) (connection_lost env proc lp msg_type msg symbol f)
    (\<lambda>e st. shaped A n (end_cons e) st)"
  unfolding connection_lost_def
proof (rule leads_sbind[OF crash_shape[OF assms(1)]], clarify)
  fix crashed cons'
  show "leads (shaped A n cons')
     (if crashed then sret (Break (lp\<lparr>xc_cons := cons'\<rparr>))
      else sbind (count f) (\<lambda>_.
        sret (Break (lp\<lparr>xc_cons := add_data (add_state cons' msg_type symbol) msg [] None, xc_recorded := True\<rparr>))))
     (\<lambda>e st. shaped A n (end_cons e) st)"
    using assms by (intro leads_if leads_then aligned.keeps_count leads_sret) (simp_all add: shaped_both)
qed

lemma unparsed_shape:
  assumes "msg_type \<in> A"
  shows "leads (shaped A n (xc_cons lp)) (unparsed_response lp msg_type msg d frames code)
    (\<lambda>e st. shaped A n (end_cons e) st)"
  using assms
  by (auto intro!: leadsI simp: subset_iff unparsed_response_def note_batch_def count_def action_defs Let_def shaped_defs
      ignored_def split: if_splits)

lemma parsed_shape:
  assumes "msg_type \<in> A"
  shows "leads (shaped A n (xc_cons lp)) (parsed_response env run_checker comps lp msg_type msg d frames code)
    (\<lambda>e st. shaped A n (end_cons e) st)"
  unfolding parsed_response_def Let_def
  by (intro leads_then keeping leads_sret) (simp add: shaped_both assms)

lemma reply_shape:
  assumes "{''-'', msg_type} \<subseteq> A"
  shows "leads (shaped A n (xc_cons lp)) (handle_reply env proc run_checker comps lp msg_type msg reply)
    (\<lambda>e st. shaped A n (end_cons e) st)"
proof -
  obtain code d where reply: "reply = (code, d)" by force
  show ?thesis
  proof (cases code)
    case (Some c)
    have "leads (shaped A n (xc_cons lp))
       (sbind (sget rx_frames) (\<lambda>frames.
          if c = parse_failure then unparsed_response lp msg_type msg d frames c
          else parsed_response env run_checker comps lp msg_type msg d frames c))
       (\<lambda>e st. shaped A n (end_cons e) st)"
      using assms by (intro leads_then keeping leads_if unparsed_shape parsed_shape) simp_all
    with assms show ?thesis
      unfolding handle_reply_def reply Some by (simp add: lost_shape)
  qed (simp add: handle_reply_def reply leads_sret)
qed

lemma round_shape:
  assumes "{''-'', msg_type, xc_last_type lp} \<subseteq> A"
  shows "leads (shaped A n (xc_cons lp)) (exchange_round env proc poll_wait run_checker comps lp msg_type msg)
    (\<lambda>e st. shaped A n (end_cons e) st)"
proof -
  have send: "leads (shaped A n (xc_cons lp')) (send_and_receive env proc poll_wait run_checker comps lp' msg_type msg)
      (\<lambda>e st. shaped A n (end_cons e) st)" if "xc_cons lp' = xc_cons lp" for lp'
  proof -
    have reply: "leads (shaped A n (xc_cons lp'))
       (handle_reply env proc run_checker comps (lp'\<lparr>xc_recorded := False\<rparr>) msg_type msg x)
       (\<lambda>e st. shaped A n (end_cons e) st)" for x
      using reply_shape[of msg_type A n "lp'\<lparr>xc_recorded := False\<rparr>" env proc run_checker comps msg x] assms by simp
    have crash: "leads (shaped A n (xc_cons lp'))
       (sbind (handle_crash_if_detected env proc (xc_cons lp') msg_type msg False)
         (\<lambda>(crashed, cons'). sret (Break (lp'\<lparr>xc_cons := cons'\<rparr>))))
       (\<lambda>e st. shaped A n (end_cons e) st)"
      using assms by (intro leads_sbind[OF crash_shape]) (auto intro!: leads_sret)
    show ?thesis unfolding send_and_receive_def
      by (intro leads_then[OF aligned.keeps_send] leads_then[OF aligned.keeps_count] leads_then[OF aligned.keeps_asks(3)]
          leads_then[OF aligned.keeps_recv] leads_prod leads_if reply crash) simp
  qed
  have gone: "leads (shaped A n (xc_cons lp))
       (sbind (handle_crash_if_detected env proc (xc_cons lp) (xc_last_type lp) (xc_last_msg lp) (xc_recorded lp))
         (\<lambda>(crashed, cons').
           sret (Break (lp\<lparr>xc_cons := (if crashed then cons' else add_data (add_state cons' msg_type ''CLOSED'') msg [] None)\<rparr>))))
       (\<lambda>e st. shaped A n (end_cons e) st)"
    using assms by (intro leads_sbind[OF crash_shape]) (auto intro!: leads_sret simp: shaped_both)
  have exited: "keeps (shaped A n (xc_cons lp)) (if b then sret None else xask (sx_process_poll env))" for b
    by (intro keeping)
  have sent: "leads (shaped A n (xc_cons lp)) (send_and_receive env proc poll_wait run_checker comps
      (lp\<lparr>xc_last_type := msg_type, xc_last_msg := msg\<rparr>) msg_type msg) (\<lambda>e st. shaped A n (end_cons e) st)"
    using send[of "lp\<lparr>xc_last_type := msg_type, xc_last_msg := msg\<rparr>"] by simp
  show ?thesis unfolding exchange_round_def
    by (intro leads_then[OF aligned.keeps_asks(1)] leads_then[OF exited] leads_if gone sent leads_sret) simp
qed

text \<open>The type of the last message sent is one of the sequence, or the greeting's.\<close>

lemma round_last_type:
  "exchange_round env proc poll_wait run_checker comps lp msg_type msg st = (Inr e, st') \<Longrightarrow>
     case e of Next lp' \<Rightarrow> xc_last_type lp' = msg_type | Break lp' \<Rightarrow> xc_last_type lp' \<in> {msg_type, xc_last_type lp}"
  by (auto simp: exchange_round_def send_and_receive_def handle_reply_def connection_lost_def unparsed_response_def
      parsed_response_def sret_def Let_def split: if_splits option.splits prod.splits elim!: sbind_InrE)

lemma loop_shape:
  assumes "{''-'', xc_last_type lp} \<union> fst ` set msgs \<subseteq> A"
  shows "leads (shaped A n (xc_cons lp)) (exchange_loop env proc poll_wait run_checker provs i msgs lp)
    (\<lambda>lp' st. shaped A n (xc_cons lp') st \<and> xc_last_type lp' \<in> A)"
  using assms
proof (induction msgs arbitrary: i lp)
  case Nil
  then show ?case by (simp add: leads_def)
next
  case (Cons x msgs)
  obtain t m where x: "x = (t, m)" by force
  show ?case
  proof (rule leadsI)
    fix st lp2 st2
    assume ok: "shaped A n (xc_cons lp) st"
      and run: "exchange_loop env proc poll_wait run_checker provs i (x # msgs) lp st = (Inr lp2, st2)"
    from run[unfolded x exchange_loop.simps] obtain e st1 where
      e: "exchange_round env proc poll_wait run_checker (take (i + 1) provs) lp t m st = (Inr e, st1)"
      and rest: "(case e of Next lp' \<Rightarrow> exchange_loop env proc poll_wait run_checker provs (i + 1) msgs lp'
        | Break lp' \<Rightarrow> sret lp') st1 = (Inr lp2, st2)"
      by (rule sbind_InrE)
    have "{''-'', t, xc_last_type lp} \<subseteq> A" using Cons.prems x by auto
    from leadsD[OF round_shape[OF this] e ok] have ok1: "shaped A n (end_cons e) st1" .
    show "shaped A n (xc_cons lp2) st2 \<and> xc_last_type lp2 \<in> A"
    proof (cases e)
      case (Next lp')
      have "{''-'', xc_last_type lp'} \<union> fst ` set msgs \<subseteq> A"
        using Cons.prems round_last_type[OF e] x by (auto simp: Next)
      from leadsD[OF Cons.IH[OF this]] rest ok1 show ?thesis by (simp add: Next)
    next
      case (Break lp')
      with rest ok1 round_last_type[OF e] Cons.prems x show ?thesis by (auto simp: sret_def)
    qed
  qed
qed

interpretation untouched: session_frame "\<lambda>st. ignored st = n" env for n env
proof unfold_locales
  fix cons msg_type msg recorded
  show "keeps (\<lambda>st. ignored st = n) (handle_crash env cons msg_type msg recorded)"
    unfolding handle_crash_def save_cons_def count_def Let_def
    by (intro keeping keeps_smodify) (simp_all add: ignored_def)
qed (simp_all add: keeps_def on_mapper_def ignored_def split: prod.split)

lemma greet_shape:
  assumes "''-'' \<in> A"
  shows "leads (\<lambda>st. ignored st = n) (greet env run_checker reply)
    (\<lambda>lp st. shaped A n (xc_cons lp) st \<and> xc_last_type lp = ''-'')"
proof -
  have start: "shaped A n (add_data (add_state new_conversation ''-'' r) [] d None) st" if "ignored st = n" for r d st
    using that assms by (simp add: shaped_defs)
  obtain code d where reply: "reply = (code, d)" by force
  show ?thesis unfolding greet_def Let_def reply prod.case
    by (intro leads_option leads_if leads_then[OF untouched.keeps_asks(3)] leads_then[OF untouched.keeps_check]
        leads_then[OF keeps_if[OF keeps_basic(1) untouched.keeps_review]]
        leads_then[OF keeps_basic(3)] leads_sret)
      (simp_all add: start)
qed

lemma leads_pure: "(b \<Longrightarrow> leads P m Q) \<Longrightarrow> leads (\<lambda>s. P s \<and> b) m Q"
  by (auto simp: leads_def)

lemma once_shape:
  assumes A_def: "A = insert ''-'' (fst ` set msg_seq)"
  shows "leads (\<lambda>st. ignored st = n) (interact_once env msg_seq poll_wait run_checker)
    (\<lambda>result st. case result of None \<Rightarrow> True | Some c \<Rightarrow> shaped A n c st)"
proof -
  let ?Q = "\<lambda>result st. case result of None \<Rightarrow> True | Some c \<Rightarrow> shaped A n c st"
  let ?msgs = "map (\<lambda>(t, m). (t, snd m)) msg_seq"
  have types: "fst ` set ?msgs = fst ` set msg_seq" by force
  have none: "leads P (sret None) ?Q" for P :: "'a session \<Rightarrow> bool"
    by (simp add: leads_sret)
  have finish: "leads (\<lambda>st. shaped A n (xc_cons lp) st \<and> xc_last_type lp \<in> A)
     (sbind (count (\<lambda>t. t\<lparr>tr_paths := tr_paths t + 1\<rparr>)) (\<lambda>_.
      sbind (handle_crash_if_detected env proc (xc_cons lp) (xc_last_type lp) (xc_last_msg lp) (xc_recorded lp))
        (\<lambda>(crashed, cons'). sbind (stop_sut env) (\<lambda>_. sret (Some cons'))))) ?Q" for lp proc
  proof (rule leads_pure)
    assume "xc_last_type lp \<in> A"
    then have "{''-'', xc_last_type lp} \<subseteq> A" by (simp add: A_def)
    note crash = crash_shape[OF this]
    show "leads (shaped A n (xc_cons lp))
     (sbind (count (\<lambda>t. t\<lparr>tr_paths := tr_paths t + 1\<rparr>)) (\<lambda>_.
      sbind (handle_crash_if_detected env proc (xc_cons lp) (xc_last_type lp) (xc_last_msg lp) (xc_recorded lp))
        (\<lambda>(crashed, cons'). sbind (stop_sut env) (\<lambda>_. sret (Some cons'))))) ?Q"
      by (intro leads_then[OF aligned.keeps_count] leads_sbind[OF crash])
        (auto intro!: leads_then[OF aligned.keeps_stop] leads_sret)
  qed
  have loop: "leads (\<lambda>st. shaped A n (xc_cons lp0) st \<and> xc_last_type lp0 = ''-'')
     (exchange_loop env proc poll_wait run_checker provs 0 ?msgs lp0)
     (\<lambda>lp st. shaped A n (xc_cons lp) st \<and> xc_last_type lp \<in> A)" for lp0 proc provs
    by (rule leads_pure, rule loop_shape, unfold types) (auto simp: A_def)
  have greeting: "leads (\<lambda>st. ignored st = n) (greet env run_checker reply)
    (\<lambda>lp st. shaped A n (xc_cons lp) st \<and> xc_last_type lp = ''-'')" for reply
    by (rule greet_shape) (simp add: A_def)
  have begins: "keeps (\<lambda>st. ignored st = n) (smodify (\<lambda>st. st\<lparr>se_interactions := se_interactions st + 1, rx_prefetched := None\<rparr>))"
    by (rule keeps_smodify) (simp add: ignored_def)
  have provs: "keeps (\<lambda>st. ignored st = n) (sattempt [] (on_mapper (consume_message_provenance msg_seq)))"
    by (intro keeping untouched.R_provenance)
  show ?thesis unfolding interact_once_def
    by (intro leads_then[OF untouched.keeps_asks(1)] leads_then[OF untouched.keeps_asks(2)]
        leads_then[OF untouched.keeps_environment] leads_then[OF begins] leads_then[OF provs]
        leads_then[OF untouched.keeps_lifecycle] leads_then[OF untouched.keeps_initial]
        leads_then[OF untouched.keeps_stop] leads_if leads_option none
        leads_sbind[OF greeting] leads_sbind[OF loop] finish)
qed

section \<open>Whole interactions\<close>

lemma stop_sut_releases:
  "stop_sut env st = (r, st') \<Longrightarrow>
     r = Inr () \<and> \<not> se_process st' \<and> \<not> se_socket st' \<and> \<not> se_remote st' \<and> rx_prefetched st' = None"
  by (auto simp: stop_sut_def tell_def xask_def on_mapper_def ask_def action_defs split: prod.splits)

lemma interact_shaped:
  assumes "interact env msg_seq poll_wait_ms run_checker st = (Inr (Some c), st')"
  shows "shaped (insert ''-'' (fst ` set msg_seq)) (ignored st) c st'"
proof -
  let ?A = "insert ''-'' (fst ` set msg_seq)" and ?n = "ignored st"
  from assms obtain st1 where
    m: "sbind (interact_once env msg_seq poll_wait_ms run_checker)
      (\<lambda>result. sbind (record_pairs env result) (\<lambda>_. sret result)) st = (Inr (Some c), st1)"
    and st': "st' = snd (stop_sut env st1)"
    by (auto simp: interact_def split: prod.splits)
  from m obtain st0 where once: "interact_once env msg_seq poll_wait_ms run_checker st = (Inr (Some c), st0)"
    and rec: "record_pairs env (Some c) st0 = (Inr (), st1)"
    by (auto simp: sret_def elim!: sbind_InrE)
  have pairs: "keeps (shaped ?A ?n c) (record_pairs env result)" for result
    unfolding record_pairs_def by (intro keeping keeps_smodify) (simp add: shaped_def ignored_def)
  from leadsD[OF once_shape[OF refl] once] have "shaped ?A ?n c st0" by simp
  then have "shaped ?A ?n c st1" by (rule keepsD[OF pairs rec])
  then show ?thesis unfolding st' by (rule keepsD[OF aligned.keeps_stop prod.collapse[symmetric]])
qed


lemma session_run_keeps:
  assumes "\<And>msgs t b. keeps R (interact env msgs t b)" "\<And>c. keeps R (save_cons env c False)"
    and "\<And>st c. R st \<Longrightarrow> R (st\<lparr>rx_mapper := mapper_step (xe_mapper (sx_exec env)) (rx_mapper st) c\<rparr>)" "R st"
  shows "R (session_run env calls st)"
  using assms(4)
proof (induction calls arbitrary: st)
  case (Cons call calls)
  have "R (session_step env st call)"
    using Cons.prems assms(1-3) by (cases call) (auto simp: session_step_def keeps_def)
  with Cons.IH show ?case by (simp add: session_run_def)
qed (simp add: session_run_def)

lemma new_session_ok:
  assumes "new_session env existing mp an = Inr st"
  shows "mapper_ok (xe_mapper (sx_exec env)) mp \<Longrightarrow> mapper_ok (xe_mapper (sx_exec env)) (rx_mapper st)"
    and "ledger_ok env st"
proof -
  obtain u where load: "load_parser (sx_exec env) (mp_cur_parser mp) (fresh_session existing mp an) = (Inr u, st)"
    using assms by (auto simp: new_session_def split: prod.splits sum.splits)
  have "rx_mapper (fresh_session existing mp an) = mp" by (simp add: fresh_session_def)
  then show "mapper_ok (xe_mapper (sx_exec env)) (rx_mapper st)" if "mapper_ok (xe_mapper (sx_exec env)) mp"
    using keepsD[OF ends_keeps[OF kept.ends_load] load, of "xe_mapper (sx_exec env)"] that by simp
  have "ledger_ok env (fresh_session existing mp an)"
    by (simp add: ledger_ok_def fresh_session_def no_traffic_def new_pair_recorder_ok)
  then show "ledger_ok env st" by (rule keepsD[OF ends_keeps[OF ledger.ends_load] load])
qed

lemma ledger_okD:
  assumes "ledger_ok env st"
  shows "se_saved st = map (\<lambda>(c, crash). xe_sha256 (sx_exec env) (seed_bytes c crash)) (se_seeds st)"
    and "distinct (se_saved st)"
    and "tr_crashes (se_traffic st) = sum_list (map (\<lambda>e. length (snd e)) (se_crashes st))"
    and "distinct (map fst (se_crashes st))" and "list_all (\<lambda>e. distinct (snd e)) (se_crashes st)"
    and "map (relation_of \<circ> snd) (pr_files (se_pairs st)) = pr_seen (se_pairs st)" and "distinct (pr_seen (se_pairs st))"
  using assms unfolding ledger_ok_def pairs_ok_def by blast+

lemma mapper_okD:
  assumes "mapper_ok env mp"
  shows "distinct (map fst (mp_repairs mp))" and "set (mp_quarantined mp) = snd ` set (mp_failures mp)"
  using assms by (simp_all add: mapper_ok_defs)

lemma ledger_ok_mapper: "ledger_ok env st \<Longrightarrow> ledger_ok env (st\<lparr>rx_mapper := mp\<rparr>)"
  by (auto simp: ledger_ok_def)


section \<open>Two consequences of how exchanges are recorded\<close>

text \<open>
  A crash is recorded in the conversation only the first time: when the same message makes the target
  crash again, the call answers that it crashed, but the conversation stays as it was.
\<close>

lemma repeated_crash_unrecorded:
  "\<exists>cons1 st1. handle_crash env cons msg_type msg recorded st = (Inr cons1, st1) \<and>
     (cons1 = cons \<or> res_seq cons1 = res_seq cons @ [''CRASH'']) \<and>
     handle_crash env cons' msg_type msg recorded' st1 = (Inr cons', st1)"
  by (auto simp: handle_crash_def save_cons_def count_def action_defs Let_def dict_setdefault_def add_data_def add_state_def
      map_of_dict_put split: option.split)

text \<open>
  The exchange of an ignored batch has no types, so the types of the next exchange stand at its index:
  the recorder stores them with the request and the response of the ignored batch.
\<close>

lemma ignored_batch_shifts_pairs:
  "case unparsed_response lp t1 m1 (Some d1) [f] code st of
     (Inr (Next lp1), st1) \<Rightarrow>
       (case parsed_response env False comps lp1 t2 m2 (Some d2) frames code2 st1 of
          (Inr (Next lp2), st2) \<Rightarrow>
            let n = length (content (xc_cons lp)); c = xc_cons lp2; symbol = model_response_symbol frames code2 in
            pf_status f = ''ignored_invalid'' \<and> length (req_seq (xc_cons lp)) = n \<and> length (res_seq (xc_cons lp)) = n \<longrightarrow>
            content c ! n = (m1, d1) \<and> req_seq c ! n = t2 \<and> res_seq c ! n = symbol
        | _ \<Rightarrow> False)
   | _ \<Rightarrow> False"
proof -
  have counted: "\<exists>x st'. note_responses env lr ts st = (Inr x, st')" for lr ts st
    by (induction ts arbitrary: lr st) (auto simp: count_def analyze_def action_defs)
  show ?thesis
    by (auto simp: unparsed_response_def parsed_response_def note_batch_def count_def analyze_def action_defs Let_def
        check_response_during_fuzzing_def add_data_def add_state_def nth_append split: prod.split sum.split)
      (use counted in \<open>metis sum.distinct(1) prod.inject\<close>)+
qed

end
