(* ===== verification/Membership.thy ===== *)
theory Membership imports Interaction_Facts Seed_Retention Partial_Guidance begin

text \<open>
  The membership oracle (\<open>voltron/learner/mem_oracle.py\<close>) and the query of the equivalence oracle
  (\<open>voltron/learner/equ_oracle.py\<close>): a word is turned into messages by the mapper, sent by the
  executor, and what came back is shown to the seed retention, the partial-trace recorder and the
  threshold.  The state joins the executor's session with these three.
\<close>

record ('w, 'tab) mem_oracle =
  oc_session :: "'w session"
  oc_retention :: seed_policy
  oc_trace :: "'tab partial_graph option"
  oc_threshold :: "learning_threshold option"

type_synonym ('w, 'tab, 'a) asking = "(exc, ('w, 'tab) mem_oracle, 'a) action"

definition on_session :: "('w, 'a) interacting \<Rightarrow> ('w, 'tab, 'a) asking" where
  "on_session m oc = (case m (oc_session oc) of (r, st) \<Rightarrow> (r, oc\<lparr>oc_session := st\<rparr>))"

definition state_counts :: "('w, 'tab, nat \<times> nat) asking" where
  "state_counts = sget (\<lambda>oc. let an = rx_analyzer (oc_session oc) in (res_types_num an, resp_trans_num an))"

text \<open>The retention sees how much the counters of the analyzer grew during the interaction.\<close>

definition retain :: "'w session_env \<Rightarrow> conversation \<Rightarrow> nat \<times> nat \<Rightarrow> ('w, 'tab, unit) asking" where
  "retain env cons before =
     sbind state_counts (\<lambda>after.
     sbind (sget (\<lambda>oc. seed_observe (oc_retention oc) cons (int (snd after) - int (snd before))
              (int (fst after) - int (fst before)))) (\<lambda>(policy, novelty).
     sbind (smodify (\<lambda>oc. oc\<lparr>oc_retention := policy\<rparr>)) (\<lambda>_.
     if interesting novelty then sbind (on_session (save_cons env cons False)) (\<lambda>_. sret ()) else sret ())))"

text \<open>The threshold is only there together with a recorder.\<close>

definition guide :: "conversation \<Rightarrow> ('w, 'tab, unit) asking" where
  "guide cons = smodify (\<lambda>oc.
     case oc_trace oc of
       None \<Rightarrow> oc
     | Some g \<Rightarrow>
         (case trace_observe g cons of (g', grew) \<Rightarrow>
           oc\<lparr>oc_trace := Some g',
              oc_threshold := map_option (\<lambda>t. fst (threshold_observe t g' grew)) (oc_threshold oc)\<rparr>))"

primrec query_loop :: "'w session_env \<Rightarrow> string list \<Rightarrow> nat \<Rightarrow> ('w, 'tab, string list option) asking" where
  "query_loop env w 0 = sret None"
| "query_loop env w (Suc n) =
     sbind (on_session (on_mapper (select_generators (xe_mapper (sx_exec env)) True ''new'' w))) (\<lambda>msg_seq.
     sbind state_counts (\<lambda>before.
     sbind (on_session (interact env msg_seq 5000 False)) (\<lambda>result.
     case result of
       None \<Rightarrow> query_loop env w n
     | Some cons \<Rightarrow>
         sbind (retain env cons before) (\<lambda>_.
         sbind (guide cons) (\<lambda>_. sret (Some (res_seq cons)))))))"

definition membership_query :: "'w session_env \<Rightarrow> string list \<Rightarrow> ('w, 'tab, string list option) asking" where
  "membership_query env w = query_loop env w 3"

definition equivalence_query :: "'w session_env \<Rightarrow> string list \<Rightarrow> ('w, 'tab, (bytes \<times> bytes) list option) asking" where
  "equivalence_query env w =
     sbind (on_session (on_mapper (select_generators (xe_mapper (sx_exec env)) False ''new'' w))) (\<lambda>msg_seq.
     sbind state_counts (\<lambda>before.
     sbind (on_session (interact env msg_seq 5000 False)) (\<lambda>result.
     case result of
       None \<Rightarrow> sret None
     | Some cons \<Rightarrow> sbind (retain env cons before) (\<lambda>_. sret (Some (content cons))))))"

section \<open>What a query keeps\<close>

lemma keeps_on_session: "keeps I m \<Longrightarrow> keeps (\<lambda>oc. I (oc_session oc)) (on_session m)"
  by (simp add: keeps_def on_session_def split: prod.split) (metis snd_conv)

text \<open>
  An invariant of the session that every method of the executor and the mapper keeps is kept by the
  oracles: they touch the session only through these.
\<close>

locale oracle_invariant =
  fixes R :: "'w session \<Rightarrow> bool" and env :: "'w session_env"
  assumes R_interact: "keeps R (interact env msgs t b)"
    and R_save: "keeps R (save_cons env cons crash)"
    and R_select: "keeps R (on_mapper (select_generators (xe_mapper (sx_exec env)) cache mode w))"
begin

lemma keeps_retain: "keeps (\<lambda>oc. R (oc_session oc)) (retain env cons before)"
  unfolding retain_def state_counts_def
  by (intro keeping keeps_smodify keeps_on_session R_save) simp

lemma keeps_guide: "keeps (\<lambda>oc. R (oc_session oc)) (guide cons)"
  unfolding guide_def by (rule keeps_smodify) (simp split: option.split prod.split)

lemma keeps_query: "keeps (\<lambda>oc. R (oc_session oc)) (query_loop env w n)"
proof (induction n)
  case (Suc n)
  show ?case unfolding query_loop.simps state_counts_def
    by (intro keeping keeps_on_session R_interact R_select keeps_retain keeps_guide Suc.IH)
qed (simp add: keeping)

lemma keeps_membership: "keeps (\<lambda>oc. R (oc_session oc)) (membership_query env w)"
  unfolding membership_query_def by (rule keeps_query)

lemma keeps_equivalence: "keeps (\<lambda>oc. R (oc_session oc)) (equivalence_query env w)"
  unfolding equivalence_query_def state_counts_def
  by (intro keeping keeps_on_session R_interact R_select keeps_retain)

end

interpretation mapper_of: oracle_invariant "\<lambda>st. mapper_ok (xe_mapper (sx_exec env)) (rx_mapper st)" env for env
proof unfold_locales
  fix msgs t b
  show "keeps (\<lambda>st. mapper_ok (xe_mapper (sx_exec env)) (rx_mapper st)) (interact env msgs t b)"
    by (rule kept.keeps_interact)
next
  fix cons crash
  show "keeps (\<lambda>st. mapper_ok (xe_mapper (sx_exec env)) (rx_mapper st)) (save_cons env cons crash)"
    unfolding save_cons_def Let_def by (intro keeping keeps_smodify) simp
next
  fix cache mode w
  have "keeps (mapper_ok (xe_mapper (sx_exec env))) (select_generators (xe_mapper (sx_exec env)) cache mode w)"
    using yields_select_generators[of "xe_mapper (sx_exec env)"] by (auto simp: yields_def keeps_def)
  then show "keeps (\<lambda>st. mapper_ok (xe_mapper (sx_exec env)) (rx_mapper st))
      (on_mapper (select_generators (xe_mapper (sx_exec env)) cache mode w))"
    by (rule keeps_on_mapper)
qed

interpretation ledger_of: oracle_invariant "ledger_ok env" env for env
  by unfold_locales (simp_all add: ledger.keeps_interact keeps_ledger_save keeps_ledger_mapper)

interpretation released: oracle_invariant "\<lambda>st. \<not> se_process st \<and> \<not> se_socket st \<and> \<not> se_remote st" env for env
proof unfold_locales
  fix msgs t b
  show "keeps (\<lambda>st. \<not> se_process st \<and> \<not> se_socket st \<and> \<not> se_remote st) (interact env msgs t b)"
    by (simp add: keeps_def interact_def split_beta stop_sut_releases[OF prod.collapse[symmetric]])
next
  fix cons crash
  show "keeps (\<lambda>st. \<not> se_process st \<and> \<not> se_socket st \<and> \<not> se_remote st) (save_cons env cons crash)"
    unfolding save_cons_def Let_def by (intro keeping keeps_smodify) simp
qed (simp add: keeps_def on_mapper_def split: prod.split)

section \<open>What a query records\<close>

lemma on_session_stable:
  "on_session m oc = (r, oc') \<Longrightarrow>
     oc_retention oc' = oc_retention oc \<and> oc_trace oc' = oc_trace oc \<and> oc_threshold oc' = oc_threshold oc"
  by (auto simp: on_session_def split: prod.splits)

definition seed_known :: "'w session_env \<Rightarrow> conversation \<Rightarrow> 'w session \<Rightarrow> bool" where
  "seed_known env cons st \<longleftrightarrow> xe_sha256 (sx_exec env) (seed_bytes cons False) \<in> set (se_saved st)"

lemma retain_runs:
  obtains t r oc' where "retain env cons before oc = (Inr (), oc')"
    and "oc_retention oc' = fst (seed_observe (oc_retention oc) cons t r)"
    and "oc_trace oc' = oc_trace oc" and "oc_threshold oc' = oc_threshold oc"
    and "if interesting (snd (seed_observe (oc_retention oc) cons t r)) then seed_known env cons (oc_session oc') else True"
proof -
  let ?an = "rx_analyzer (oc_session oc)"
  let ?t = "int (resp_trans_num ?an) - int (snd before)" and ?r = "int (res_types_num ?an) - int (fst before)"
  obtain p n where o1: "seed_observe (oc_retention oc) cons ?t ?r = (p, n)" by force
  have "\<exists>oc'. retain env cons before oc = (Inr (), oc')"
    by (cases "interesting n")
      (auto simp: retain_def state_counts_def on_session_def save_cons_def action_defs Let_def o1)
  then obtain oc' where run: "retain env cons before oc = (Inr (), oc')" ..
  then show ?thesis
    by (intro that[of oc' ?t ?r])
      (auto simp: retain_def state_counts_def on_session_def save_cons_def action_defs Let_def o1 seed_known_def split: if_splits)
qed

text \<open>What a query that answered has shown to the guidance.\<close>

definition shown :: "'w session_env \<Rightarrow> ('w, 'tab) mem_oracle \<Rightarrow> ('w, 'tab) mem_oracle \<Rightarrow> conversation \<Rightarrow> bool" where
  "shown env oc oc' c \<longleftrightarrow>
     (\<exists>t r. oc_retention oc' = fst (seed_observe (oc_retention oc) c t r) \<and>
       (if interesting (snd (seed_observe (oc_retention oc) c t r)) then seed_known env c (oc_session oc') else True)) \<and>
     oc_trace oc' = map_option (\<lambda>g. fst (trace_observe g c)) (oc_trace oc)"

lemma query_loop_shows:
  "case query_loop env w n oc of
     (Inr (Some rs), oc') \<Rightarrow> \<exists>c. rs = res_seq c \<and> rs \<noteq> [] \<and> length rs = length (req_seq c) \<and> shown env oc oc' c
   | (_, oc') \<Rightarrow> oc_retention oc' = oc_retention oc \<and> oc_trace oc' = oc_trace oc \<and> oc_threshold oc' = oc_threshold oc"
proof (induction n arbitrary: oc)
  case 0
  then show ?case by (simp add: sret_def)
next
  case (Suc n)
  obtain r1 oc1 where s1: "on_session (on_mapper (select_generators (xe_mapper (sx_exec env)) True ''new'' w)) oc = (r1, oc1)"
    by force
  note st1 = on_session_stable[OF s1]
  show ?case
  proof (cases r1)
    case (Inl e)
    with s1 st1 show ?thesis by (simp add: sbind_def)
  next
    case msgs: (Inr msg_seq)
    obtain r2 oc2 where s2: "on_session (interact env msg_seq 5000 False) oc1 = (r2, oc2)" by force
    note st2 = on_session_stable[OF s2]
    consider (raised) e where "r2 = Inl e" | (failed) "r2 = Inr None" | (answered) c where "r2 = Inr (Some c)"
      by (metis option.exhaust sum.exhaust)
    then show ?thesis
    proof cases
      case raised
      with s1 msgs s2 st1 st2 show ?thesis by (simp add: sbind_def state_counts_def sget_def)
    next
      case failed
      with s1 msgs s2 have "query_loop env w (Suc n) oc = query_loop env w n oc2"
        by (simp add: sbind_def state_counts_def sget_def)
      moreover have "shown env oc2 = shown env oc"
        using st1 st2 by (simp add: shown_def fun_eq_iff)
      ultimately show ?thesis
        using Suc.IH[of oc2] st1 st2 by (auto split: prod.split sum.split option.split)
    next
      case (answered c)
      from s2 answered obtain st2 where i: "interact env msg_seq 5000 False (oc_session oc1) = (Inr (Some c), st2)"
        by (auto simp: on_session_def split: prod.splits)
      from interact_shaped[OF this] have c: "res_seq c \<noteq> []" "length (res_seq c) = length (req_seq c)"
        by (auto simp: shaped_def)
      let ?before = "(res_types_num (rx_analyzer (oc_session oc1)), resp_trans_num (rx_analyzer (oc_session oc1)))"
      obtain t r oc3 where ret: "retain env c ?before oc2 = (Inr (), oc3)"
        "oc_retention oc3 = fst (seed_observe (oc_retention oc2) c t r)" "oc_trace oc3 = oc_trace oc2"
        "if interesting (snd (seed_observe (oc_retention oc2) c t r)) then seed_known env c (oc_session oc3) else True"
        by (rule retain_runs)
      obtain oc4 where g: "guide c oc3 = (Inr (), oc4)" "oc_session oc4 = oc_session oc3" "oc_retention oc4 = oc_retention oc3"
        "oc_trace oc4 = map_option (\<lambda>g. fst (trace_observe g c)) (oc_trace oc3)"
        by (auto simp: guide_def smodify_def split: option.split prod.split)
      have "query_loop env w (Suc n) oc = (Inr (Some (res_seq c)), oc4)"
        using s1 msgs s2 answered ret(1) g(1) by (simp add: sbind_def state_counts_def sget_def sret_def Let_def)
      moreover have "shown env oc oc4 c"
        unfolding shown_def using ret(2-4) g(2-4) st1 st2 by (metis (no_types))
      ultimately show ?thesis using c by auto
    qed
  qed
qed


end
