(* ===== verification/Response_Queue.thy ===== *)
theory Response_Queue imports Prelude begin

text \<open>
  Response components on demand (\<open>voltron/synthesizer/synthesizer.py\<close>): the component keys of a
  response type, and the queue in which a background thread generates missing checkers and
  observers.  A component is any value; \<open>current\<close> says whether its metadata fit a key.  Sets are
  lists without duplicates.

  The methods run under a lock, so a call of \<open>request_response_components\<close> is one step; the worker
  takes a key, generates, and records the result in steps of their own, and between finding the
  queue empty and its end it still counts as alive.
\<close>

section \<open>Component keys of a response type\<close>

text \<open>\<open>(?<!\d)([1-5])\d{2}(?!\d)\<close>; the flag says whether a digit stands before.\<close>

fun family_digit :: "bool \<Rightarrow> string \<Rightarrow> char option" where
  "family_digit after_digit (a # b # c # rest) =
     (if \<not> after_digit \<and> a \<in> set ''12345'' \<and> is_digit_c b \<and> is_digit_c c \<and>
         (case rest of [] \<Rightarrow> True | x # _ \<Rightarrow> \<not> is_digit_c x)
      then Some a else family_digit (is_digit_c a) (b # c # rest))"
| "family_digit after_digit _ = None"

definition response_family :: "string \<Rightarrow> string option" where
  "response_family t = (case family_digit False t of None \<Rightarrow> None | Some d \<Rightarrow> Some (d # ''xx''))"

definition response_component_candidates :: "string \<Rightarrow> string list" where
  "response_component_candidates t =
     py_set ([t] @ (case response_family t of None \<Rightarrow> [] | Some f \<Rightarrow> if f \<noteq> t then [f] else []) @ [''__all__''])"

section \<open>The queue\<close>

datatype worker =
    No_worker
  | Taking
  | Generating string
  | Recording string bool
  | Leaving
  | Ended

record 'c component_queue =
  cq_checkers :: "(string, 'c list) dict"
  cq_observers :: "(string, 'c list) dict"
  cq_pending :: "string list"
  cq_failures :: "string list"
  cq_queue :: "string list"
  cq_worker :: worker

record 'c queue_config =
  qc_lazy :: bool
  qc_observer_enabled :: bool
  qc_current :: "'c \<Rightarrow> string \<Rightarrow> bool"

definition new_queue :: "(string, 'c list) dict \<Rightarrow> (string, 'c list) dict \<Rightarrow> 'c component_queue" where
  "new_queue checkers observers =
     \<lparr>cq_checkers = checkers, cq_observers = observers, cq_pending = [], cq_failures = [], cq_queue = [],
      cq_worker = No_worker\<rparr>"

definition versions_of :: "string \<Rightarrow> (string, 'c list) dict \<Rightarrow> 'c list" where
  "versions_of key d = (case map_of d key of None \<Rightarrow> [] | Some vs \<Rightarrow> vs)"

definition dict_pop :: "'k \<Rightarrow> ('k, 'v) dict \<Rightarrow> ('k, 'v) dict" where
  "dict_pop k d = filter (\<lambda>e. fst e \<noteq> k) d"

text \<open>A key whose last version is absent or outdated is missing, and its versions are forgotten.\<close>

definition missing_type :: "'c queue_config \<Rightarrow> string \<Rightarrow> (string, 'c list) dict \<Rightarrow> bool \<times> (string, 'c list) dict" where
  "missing_type cfg key d =
     (let vs = versions_of key d in
      if vs \<noteq> [] \<and> qc_current cfg (last vs) key then (False, d) else (True, dict_pop key d))"

definition request_key :: "'c queue_config \<Rightarrow> 'c component_queue \<Rightarrow> string \<Rightarrow> 'c component_queue" where
  "request_key cfg st key =
     (let (checker_missing, cs) = missing_type cfg key (cq_checkers st);
          (observer_missing, os) = (if qc_observer_enabled cfg then missing_type cfg key (cq_observers st)
                                    else (False, cq_observers st));
          st' = st\<lparr>cq_checkers := cs, cq_observers := os\<rparr> in
      if \<not> checker_missing \<and> \<not> observer_missing \<or> key \<in> set (cq_pending st) \<or> key \<in> set (cq_failures st) then st'
      else st'\<lparr>cq_pending := cq_pending st @ [key], cq_queue := cq_queue st @ [key]\<rparr>)"

definition unrequested_types :: "string list" where
  "unrequested_types = [''UNKNOWN'', ''UNKOWN'', ''TIMEOUT'', ''CRASH'', ''CLOSED'', ''RCLOSED'', ''POLLERR'']"

definition is_alive :: "worker \<Rightarrow> bool" where
  "is_alive w \<longleftrightarrow> w \<noteq> No_worker \<and> w \<noteq> Ended"

definition skipped :: "'c queue_config \<Rightarrow> string \<Rightarrow> bool" where
  "skipped cfg t \<longleftrightarrow> map upper_c t \<in> set unrequested_types \<or> \<not> qc_lazy cfg"

definition request_response_components :: "'c queue_config \<Rightarrow> string \<Rightarrow> 'c component_queue \<Rightarrow> 'c component_queue" where
  "request_response_components cfg t st =
     (if skipped cfg t then st
      else
        let st' = foldl (request_key cfg) st (butlast (response_component_candidates t)) in
        if cq_pending st' \<noteq> [] \<and> \<not> is_alive (cq_worker st') then st'\<lparr>cq_worker := Taking\<rparr> else st')"

text \<open>
  What generating a key does: \<open>cs\<close> and \<open>os\<close> are the versions that checker and observer generation
  published, \<open>raised\<close> says that one of them raised.
\<close>

definition put_generated :: "string \<Rightarrow> 'c list \<Rightarrow> (string, 'c list) dict \<Rightarrow> (string, 'c list) dict" where
  "put_generated key vs d = (if versions_of key d \<noteq> [] \<or> vs = [] then d else dict_put key vs d)"

definition generate_key :: "'c queue_config \<Rightarrow> string \<Rightarrow> 'c list \<Rightarrow> 'c list \<Rightarrow> bool \<Rightarrow> 'c component_queue \<Rightarrow> 'c component_queue" where
  "generate_key cfg key cs os raised st =
     (let checkers = put_generated key cs (cq_checkers st);
          observers = (if qc_observer_enabled cfg then put_generated key os (cq_observers st) else cq_observers st);
          failed = (raised \<or> versions_of key checkers = [] \<or> qc_observer_enabled cfg \<and> versions_of key observers = []) in
      st\<lparr>cq_checkers := checkers, cq_observers := observers, cq_worker := Recording key failed\<rparr>)"

definition record_key :: "string \<Rightarrow> bool \<Rightarrow> 'c component_queue \<Rightarrow> 'c component_queue" where
  "record_key key failed st =
     st\<lparr>cq_failures := (if failed then set_add key (cq_failures st) else cq_failures st),
        cq_pending := filter (\<lambda>k. k \<noteq> key) (cq_pending st), cq_worker := Taking\<rparr>"

inductive worker_step :: "'c queue_config \<Rightarrow> 'c component_queue \<Rightarrow> 'c component_queue \<Rightarrow> bool" for cfg where
  take: "cq_worker st = Taking \<Longrightarrow> cq_queue st = key # rest \<Longrightarrow>
    worker_step cfg st (st\<lparr>cq_queue := rest, cq_worker := Generating key\<rparr>)"
| empty: "cq_worker st = Taking \<Longrightarrow> cq_queue st = [] \<Longrightarrow> worker_step cfg st (st\<lparr>cq_worker := Leaving\<rparr>)"
| generate: "cq_worker st = Generating key \<Longrightarrow> worker_step cfg st (generate_key cfg key cs os raised st)"
| finish: "cq_worker st = Recording key failed \<Longrightarrow> worker_step cfg st (record_key key failed st)"
| leave: "cq_worker st = Leaving \<Longrightarrow> worker_step cfg st (st\<lparr>cq_worker := Ended\<rparr>)"

text \<open>Other parts publish versions at any time.\<close>

inductive queue_step :: "'c queue_config \<Rightarrow> 'c component_queue \<Rightarrow> 'c component_queue \<Rightarrow> bool" for cfg where
  request: "queue_step cfg st (request_response_components cfg t st)"
| work: "worker_step cfg st st' \<Longrightarrow> queue_step cfg st st'"
| publish: "queue_step cfg st (st\<lparr>cq_checkers := cs, cq_observers := os\<rparr>)"

inductive queue_reachable :: "'c queue_config \<Rightarrow> 'c component_queue \<Rightarrow> bool" for cfg where
  init: "queue_reachable cfg (new_queue cs os)"
| step: "queue_reachable cfg st \<Longrightarrow> queue_step cfg st st' \<Longrightarrow> queue_reachable cfg st'"

inductive_cases worker_stepE: "worker_step cfg st st'"
inductive_cases queue_stepE: "queue_step cfg st st'"

section \<open>The queue and its bookkeeping agree\<close>

definition in_work :: "worker \<Rightarrow> string list" where
  "in_work w = (case w of Generating key \<Rightarrow> [key] | Recording key _ \<Rightarrow> [key] | _ \<Rightarrow> [])"

definition tidy :: "'c component_queue \<Rightarrow> bool" where
  "tidy st \<longleftrightarrow> set (cq_pending st) = set (in_work (cq_worker st) @ cq_queue st) \<and> distinct (cq_pending st) \<and>
     distinct (in_work (cq_worker st) @ cq_queue st) \<and> set (cq_pending st) \<inter> set (cq_failures st) = {}"

definition queue_ok :: "'c component_queue \<Rightarrow> bool" where
  "queue_ok st \<longleftrightarrow> tidy st \<and> (cq_worker st = No_worker \<longrightarrow> cq_pending st = [])"

lemmas queue_ok_defs = queue_ok_def tidy_def

lemma request_key_ok: "tidy st \<Longrightarrow> tidy (request_key cfg st key) \<and> cq_worker (request_key cfg st key) = cq_worker st"
  by (auto simp: request_key_def tidy_def Let_def split: prod.split if_splits)

lemma request_keys_ok:
  "tidy st \<Longrightarrow> tidy (foldl (request_key cfg) st keys) \<and> cq_worker (foldl (request_key cfg) st keys) = cq_worker st"
  by (induction keys arbitrary: st) (simp_all add: request_key_ok)

lemma tidy_starts: "tidy st \<Longrightarrow> \<not> is_alive (cq_worker st) \<Longrightarrow> tidy (st\<lparr>cq_worker := Taking\<rparr>)"
  by (cases "cq_worker st") (auto simp: tidy_def in_work_def is_alive_def)

lemma request_ok: "queue_ok st \<Longrightarrow> queue_ok (request_response_components cfg t st)"
  using request_keys_ok[of st cfg "butlast (response_component_candidates t)"]
  by (auto simp: queue_ok_def request_response_components_def Let_def tidy_starts is_alive_def)

lemma worker_step_ok: "worker_step cfg st st' \<Longrightarrow> queue_ok st \<Longrightarrow> queue_ok st'"
  by (induction rule: worker_step.induct)
    (auto simp: queue_ok_defs in_work_def generate_key_def record_key_def Let_def)

lemma queue_step_ok: "queue_step cfg st st' \<Longrightarrow> queue_ok st \<Longrightarrow> queue_ok st'"
  by (induction rule: queue_step.induct) (auto simp: request_ok worker_step_ok, auto simp: queue_ok_defs)

lemma queue_reachable_ok: "queue_reachable cfg st \<Longrightarrow> queue_ok st"
  by (induction rule: queue_reachable.induct) (auto simp: queue_step_ok, auto simp: queue_ok_defs new_queue_def in_work_def)

section \<open>The queue is drained\<close>

abbreviation worker_run :: "'c queue_config \<Rightarrow> 'c component_queue \<Rightarrow> 'c component_queue \<Rightarrow> bool" where
  "worker_run cfg \<equiv> (worker_step cfg)\<^sup>*\<^sup>*"

lemma recorded_runs:
  "cq_worker st = Recording key failed \<Longrightarrow> worker_run cfg st (record_key key failed st)"
  by (rule r_into_rtranclp) (rule worker_step.finish)

lemma generated_runs:
  assumes "cq_worker st = Generating key"
  shows "\<exists>st'. worker_run cfg st st' \<and> cq_worker st' = Taking \<and> cq_queue st' = cq_queue st"
proof -
  let ?st1 = "generate_key cfg key [] [] False st"
  obtain failed where f: "cq_worker ?st1 = Recording key failed" "cq_queue ?st1 = cq_queue st"
    by (simp add: generate_key_def Let_def)
  have "worker_run cfg st ?st1" using worker_step.generate[OF assms] by (rule r_into_rtranclp)
  then have "worker_run cfg st (record_key key failed ?st1)"
    using recorded_runs[OF f(1)] by (rule rtranclp_trans)
  then show ?thesis using f(2) by (intro exI[of _ "record_key key failed ?st1"]) (simp add: record_key_def)
qed

lemma taking_drains:
  "cq_worker st = Taking \<Longrightarrow> \<exists>st'. worker_run cfg st st' \<and> cq_worker st' = Ended \<and> cq_queue st' = []"
proof (induction "cq_queue st" arbitrary: st)
  case Nil
  let ?st1 = "st\<lparr>cq_worker := Leaving\<rparr>"
  have "worker_step cfg st ?st1" using worker_step.empty Nil by metis
  moreover have "worker_step cfg ?st1 (?st1\<lparr>cq_worker := Ended\<rparr>)" by (rule worker_step.leave) simp
  ultimately have "worker_run cfg st (?st1\<lparr>cq_worker := Ended\<rparr>)" by (meson rtranclp.rtrancl_refl rtranclp.rtrancl_into_rtrancl)
  then show ?case using Nil by (intro exI[of _ "?st1\<lparr>cq_worker := Ended\<rparr>"]) simp
next
  case (Cons key rest)
  let ?st1 = "st\<lparr>cq_queue := rest, cq_worker := Generating key\<rparr>"
  have "worker_step cfg st ?st1" using worker_step.take Cons.hyps(2)[symmetric] Cons.prems by metis
  moreover obtain st2 where 2: "worker_run cfg ?st1 st2" "cq_worker st2 = Taking" "cq_queue st2 = rest"
    using generated_runs[of ?st1 key cfg] by auto
  moreover from Cons.hyps(1)[of st2] 2 obtain st3 where
    3: "worker_run cfg st2 st3" "cq_worker st3 = Ended" "cq_queue st3 = []" by auto
  ultimately have "worker_run cfg st st3" by (meson converse_rtranclp_into_rtranclp rtranclp_trans)
  with 3 show ?case by blast
qed

lemma alive_drains:
  assumes "is_alive (cq_worker st)" "cq_worker st \<noteq> Leaving"
  shows "\<exists>st'. worker_run cfg st st' \<and> cq_worker st' = Ended \<and> cq_queue st' = []"
proof -
  have "\<exists>st1. worker_run cfg st st1 \<and> cq_worker st1 = Taking"
  proof (cases "cq_worker st")
    case (Generating key)
    from generated_runs[OF this] show ?thesis by blast
  next
    case (Recording key failed)
    from recorded_runs[OF this] show ?thesis by (intro exI[of _ "record_key key failed st"]) (simp add: record_key_def)
  qed (use assms in \<open>auto simp: is_alive_def\<close>)
  then show ?thesis using taking_drains by (metis rtranclp_trans)
qed

lemma worker_run_ok: "worker_run cfg st st' \<Longrightarrow> queue_ok st \<Longrightarrow> queue_ok st'"
  by (induction rule: rtranclp_induct) (auto simp: worker_step_ok)

section \<open>Properties\<close>


text \<open>The wake-up that is lost: a request while the worker is about to end leaves its keys to the next one.\<close>

definition lazy_config :: "nat queue_config" where
  "lazy_config = \<lparr>qc_lazy = True, qc_observer_enabled = False, qc_current = (\<lambda>_ _. True)\<rparr>"

definition queue_after :: "string list \<Rightarrow> string list \<Rightarrow> string list \<Rightarrow> worker \<Rightarrow> nat component_queue" where
  "queue_after pending failures q w =
     \<lparr>cq_checkers = [], cq_observers = [], cq_pending = pending, cq_failures = failures, cq_queue = q, cq_worker = w\<rparr>"

lemma requests_simp:
  "request_response_components lazy_config ''OK'' (queue_after [] [] [] No_worker) = queue_after [''OK''] [] [''OK''] Taking"
  "request_response_components lazy_config ''NO'' (queue_after [] [''OK''] [] Leaving) =
     queue_after [''NO''] [''OK''] [''NO''] Leaving"
  by (simp_all add: request_response_components_def lazy_config_def queue_after_def skipped_def unrequested_types_def
      response_component_candidates_def response_family_def py_set_def set_add_def request_key_def missing_type_def
      versions_of_def dict_pop_def is_alive_def Let_def upper_c_def code_of_def)

lemma wakeup_lost:
  "queue_reachable lazy_config (queue_after [''NO''] [''OK''] [''NO''] Ended)"
proof -
  note next_state = queue_reachable.step[where cfg = lazy_config]
  have "queue_reachable lazy_config (queue_after [] [] [] No_worker)"
    using queue_reachable.init[of lazy_config "[]" "[]"] by (simp add: new_queue_def queue_after_def)
  then have "queue_reachable lazy_config (queue_after [''OK''] [] [''OK''] Taking)"
    by (rule next_state) (metis queue_step.request requests_simp(1))
  then have "queue_reachable lazy_config (queue_after [''OK''] [] [] (Generating ''OK''))"
    by (rule next_state) (use worker_step.take[of "queue_after [''OK''] [] [''OK''] Taking"] in
      \<open>auto intro!: queue_step.work simp: queue_after_def\<close>)
  then have "queue_reachable lazy_config (queue_after [''OK''] [] [] (Recording ''OK'' True))"
    by (rule next_state) (use worker_step.generate[of "queue_after [''OK''] [] [] (Generating ''OK'')" "''OK''" lazy_config "[]" "[]" True]
      in \<open>auto intro!: queue_step.work simp: queue_after_def generate_key_def put_generated_def lazy_config_def\<close>)
  then have "queue_reachable lazy_config (queue_after [] [''OK''] [] Taking)"
    by (rule next_state) (use worker_step.finish[of "queue_after [''OK''] [] [] (Recording ''OK'' True)" "''OK''" True] in
      \<open>auto intro!: queue_step.work simp: queue_after_def record_key_def set_add_def\<close>)
  then have "queue_reachable lazy_config (queue_after [] [''OK''] [] Leaving)"
    by (rule next_state) (use worker_step.empty[of "queue_after [] [''OK''] [] Taking"] in
      \<open>auto intro!: queue_step.work simp: queue_after_def\<close>)
  then have "queue_reachable lazy_config (queue_after [''NO''] [''OK''] [''NO''] Leaving)"
    by (rule next_state) (metis queue_step.request requests_simp(2))
  then show ?thesis
    by (rule next_state) (use worker_step.leave[of "queue_after [''NO''] [''OK''] [''NO''] Leaving"] in
      \<open>auto intro!: queue_step.work simp: queue_after_def\<close>)
qed


end
