(* ===== verification/Response_Components.thy ===== *)
theory Response_Components
  imports Receiving Response_Queue "HOL-Library.List_Lexorder" "HOL-Library.Char_ord"
begin

text \<open>
  Checkers and observers of responses, as the executor uses them (\<open>voltron/executor/executor.py\<close>):
  loading, selection by type, family and protocol, evaluation and observation in the worker
  process, background repair, evolution of an observer, and the files of invalid responses.

  A loaded component is its source; the dictionaries of callables in the code are always empty.  What
  the producer and its threads publish between two calls is \<open>re_request\<close>, a change of the mapper.  The
  file of an invalid response is a record, its marker the digest of its key.  Observing can call
  itself through the reload of components; \<open>re_depth\<close> is the number of nested calls that Python's
  recursion limit allows.
\<close>

section \<open>State\<close>

record checker_evaluation =
  ce_status :: string
  ce_scope :: string
  ce_component :: "string option"
  ce_error :: string

record observation_result =
  or_semantic :: string
  or_raw :: string
  or_scope :: string
  or_component :: "string option"
  or_provisional :: bool
  or_error :: string

record repair_job =
  rj_component :: string
  rj_type :: string
  rj_source :: string
  rj_error :: string
  rj_input :: bytes

record invalid_record =
  iv_request_type :: string
  iv_response_type :: string
  iv_observation :: string
  iv_request :: bytes
  iv_response :: bytes

record usage_counts =
  uc_status :: "(string, nat) dict"
  uc_checker_scope :: "(string, nat) dict"
  uc_observer_scope :: "(string, nat) dict"
  uc_types :: "string list"
  uc_provisional :: nat

datatype verdict = Non_compliant | Compliant | Other_verdict

type_synonym exchange_key = "string \<times> string \<times> string"

record 'w responder =
  rs_mapper :: "'w mapper"
  rs_checkers :: "(string, string) dict"
  rs_observers :: "(string, string \<times> string) dict"
  rs_jobs :: "repair_job list"
  rs_checked :: "string list"
  rs_reviewed :: "string list"
  rs_samples :: "(exchange_key, bytes) dict"
  rs_reviewed_samples :: "(exchange_key, bytes) dict"
  rs_reviews :: "(exchange_key, bool) dict"
  rs_failures :: "string list list"
  rs_evidence :: "(exchange_key, checker_evaluation \<times> observation_result) dict"
  rs_last :: "checker_evaluation option"
  rs_usage :: usage_counts
  rs_invalid :: "invalid_record list"
  rs_markers :: "string list"
  rs_non_compliant :: nat

record 'w response_env =
  re_mapper :: "'w mapper_env"
  re_sha256 :: "bytes \<Rightarrow> string"
  re_observer_enabled :: bool
  re_compliance :: bool
  re_depth :: nat
  re_request :: "string \<Rightarrow> 'w mapper \<Rightarrow> 'w mapper"
  re_defines :: "string \<Rightarrow> string \<Rightarrow> bool"
  re_equivalent :: "string \<Rightarrow> bytes \<Rightarrow> bytes \<Rightarrow> 'w \<Rightarrow> bool option \<times> 'w"
  re_evolve_observer :: "string \<Rightarrow> bytes list \<Rightarrow> 'w mapper \<Rightarrow> bool option \<times> 'w mapper"
  re_evolve_checker :: "string \<Rightarrow> bytes \<Rightarrow> 'w mapper \<Rightarrow> bool option \<times> 'w mapper"
  re_review :: "string \<Rightarrow> string \<Rightarrow> bytes \<Rightarrow> bytes \<Rightarrow> 'w \<Rightarrow> verdict option \<times> 'w"
  re_usage_io :: "'w \<Rightarrow> bool \<times> 'w"
  re_save_io :: "'w \<Rightarrow> bool \<times> 'w"

type_synonym ('w, 'a) reviewing = "(exc, 'w responder, 'a) action"

definition on_equip :: "('w, 'a) mapped \<Rightarrow> ('w, 'a) reviewing" where
  "on_equip m st = (case m (rs_mapper st) of (r, mp) \<Rightarrow> (r, st\<lparr>rs_mapper := mp\<rparr>))"

definition inquire :: "('w \<Rightarrow> 'a \<times> 'w) \<Rightarrow> ('w, 'a) reviewing" where
  "inquire f = on_equip (ask f)"

section \<open>Loading and selection\<close>

text \<open>A source that cannot be read or defines none of the functions is left out.\<close>

definition load_source ::
    "'w response_env \<Rightarrow> ('w, string) mapped \<Rightarrow> string list \<Rightarrow> ('w, (string \<times> string) option) reviewing" where
  "load_source env path names =
     sattempt None (sbind (on_equip (sbind path read_source)) (\<lambda>code.
       sret (case find (re_defines env code) names of None \<Rightarrow> None | Some name \<Rightarrow> Some (code, name))))"

fun load_sources ::
    "'w response_env \<Rightarrow> (Equipment.component \<Rightarrow> ('w, string) mapped) \<Rightarrow> string list \<Rightarrow> (string, Equipment.component) dict \<Rightarrow>
       ('w, (string, string \<times> string) dict) reviewing" where
  "load_sources env path names [] st = (Inr [], st)"
| "load_sources env path names ((t, c) # cs) st =
     sbind (load_source env (path c) names) (\<lambda>source.
     sbind (load_sources env path names cs) (\<lambda>rest.
       sret (case source of None \<Rightarrow> rest | Some s \<Rightarrow> (t, s) # rest))) st"

definition load_checkers :: "'w response_env \<Rightarrow> (string, Equipment.component) dict \<Rightarrow> ('w, unit) reviewing" where
  "load_checkers env equipped =
     sbind (smodify (\<lambda>st. st\<lparr>rs_checkers := []\<rparr>)) (\<lambda>_.
     sbind (load_sources env (c_path (re_mapper env)) [''packet_checker''] equipped) (\<lambda>sources.
       smodify (\<lambda>st. st\<lparr>rs_checkers := map (\<lambda>(t, code, name). (t, code)) sources\<rparr>)))"

definition load_observers :: "'w response_env \<Rightarrow> (string, Equipment.component) dict \<Rightarrow> ('w, unit) reviewing" where
  "load_observers env equipped =
     sbind (smodify (\<lambda>st. st\<lparr>rs_observers := []\<rparr>)) (\<lambda>_.
     sbind (load_sources env (o_path (re_mapper env)) [''packet_observer'', ''packet_hasher''] equipped) (\<lambda>sources.
       smodify (\<lambda>st. st\<lparr>rs_observers := sources\<rparr>)))"

definition candidates :: "string \<Rightarrow> string list" where
  "candidates t = py_set ([t] @ (case response_family t of None \<Rightarrow> [] | Some f \<Rightarrow> [f]) @ [''__all__''])"

definition component_scope :: "string \<Rightarrow> string option \<Rightarrow> string" where
  "component_scope t c =
     (case c of None \<Rightarrow> ''raw'' | Some k \<Rightarrow> if k = t then ''exact'' else if k = ''__all__'' then ''generic'' else ''family'')"

text \<open>\<open>next(candidate for candidate in \<dots> if candidate in sources)\<close>\<close>

definition select_component :: "string \<Rightarrow> (string, 'b) dict \<Rightarrow> string option" where
  "select_component t sources = find (\<lambda>c. c \<in> fst ` set sources) (candidates t)"

definition component_is_quarantined :: "'w response_env \<Rightarrow> string \<Rightarrow> string \<Rightarrow> 'w mapper \<Rightarrow> bool" where
  "component_is_quarantined env component component_type mp =
     (case map_of (if component = ''checker'' then equip_checkers mp else equip_observers (re_mapper env) mp) component_type of
        None \<Rightarrow> False
      | Some c \<Rightarrow> component_quarantined component component_type (cp_name c) mp)"

section \<open>Background repair\<close>

definition job_key :: "'w response_env \<Rightarrow> repair_job \<Rightarrow> exchange_key" where
  "job_key env j = (rj_component j, rj_type j, re_sha256 env (ascii (rj_source j)))"

definition schedule_repair :: "'w response_env \<Rightarrow> repair_job \<Rightarrow> ('w, unit) reviewing" where
  "schedule_repair env j =
     smodify (\<lambda>st. if job_key env j \<in> job_key env ` set (rs_jobs st) then st else st\<lparr>rs_jobs := rs_jobs st @ [j]\<rparr>)"

text \<open>The thread of a job: whatever happens, the key is free again at its end.\<close>

definition repair_in_background :: "'w response_env \<Rightarrow> repair_job \<Rightarrow> ('w, unit) reviewing" where
  "repair_in_background env j =
     sbind (sattempt ()
       (sbind (sget (\<lambda>st. map_of (if rj_component j = ''checker'' then equip_checkers (rs_mapper st)
                 else equip_observers (re_mapper env) (rs_mapper st)) (rj_type j))) (\<lambda>metadata.
        let version = (case metadata of None \<Rightarrow> ''unknown'' | Some c \<Rightarrow> cp_name c) in
        sbind (on_equip (repair_runtime_component (re_mapper env) (rj_component j) (rj_type j) version
                 (rj_source j) (rj_error j) (Some (rj_input j)))) (\<lambda>result.
        if result = None then sret ()
        else
          sbind (sget rs_mapper) (\<lambda>mp.
          if rj_component j = ''checker'' then load_checkers env (equip_checkers mp)
          else load_observers env (equip_observers (re_mapper env) mp)))))) (\<lambda>_.
       smodify (\<lambda>st. st\<lparr>rs_jobs := filter (\<lambda>k. job_key env k \<noteq> job_key env j) (rs_jobs st)\<rparr>))"

section \<open>Observation\<close>

definition note_sampled :: "string \<Rightarrow> ('w, unit) reviewing" where
  "note_sampled t = smodify (\<lambda>st.
     let seen = (\<lambda>d. \<exists>e \<in> set d. fst (snd (fst e)) = t) in
     st\<lparr>rs_checked := (if seen (rs_samples st) then set_add t (rs_checked st) else rs_checked st),
        rs_reviewed := (if seen (rs_reviewed_samples st) then set_add t (rs_reviewed st) else rs_reviewed st)\<rparr>)"

text \<open>
  The observation of every persisted invalid response of the type is renewed; a failure leaves the
  record as it was, but the markers, made anew, are only those of the other records.
\<close>

definition reobserve_record ::
    "(string \<Rightarrow> bytes \<Rightarrow> ('w, string) reviewing) \<Rightarrow> string \<Rightarrow> invalid_record \<Rightarrow> ('w, invalid_record \<times> bool) reviewing" where
  "reobserve_record observe t v =
     (if iv_response_type v = t
      then sattempt (v, False) (sbind (observe t (iv_response v)) (\<lambda>d. sret (v\<lparr>iv_observation := d\<rparr>, True)))
      else sret (v, True))"

fun reobserve_records ::
    "(string \<Rightarrow> bytes \<Rightarrow> ('w, string) reviewing) \<Rightarrow> string \<Rightarrow> invalid_record list \<Rightarrow> ('w, (invalid_record \<times> bool) list) reviewing" where
  "reobserve_records observe t [] st = (Inr [], st)"
| "reobserve_records observe t (v # vs) st =
     sbind (reobserve_record observe t v) (\<lambda>v'. sbind (reobserve_records observe t vs) (\<lambda>vs'. sret (v' # vs'))) st"

definition marker_of :: "'w response_env \<Rightarrow> string \<times> string \<times> string \<Rightarrow> string" where
  "marker_of env key = re_sha256 env (ascii (json_array [fst key, fst (snd key), snd (snd key)]))"

definition invalid_key :: "invalid_record \<Rightarrow> string \<times> string \<times> string" where
  "invalid_key v = (iv_request_type v, iv_response_type v, iv_observation v)"

definition reobserve_persisted ::
    "'w response_env \<Rightarrow> (string \<Rightarrow> bytes \<Rightarrow> ('w, string) reviewing) \<Rightarrow> string \<Rightarrow> ('w, unit) reviewing" where
  "reobserve_persisted env observe t =
     sbind (sget rs_invalid) (\<lambda>vs.
     sbind (reobserve_records observe t vs) (\<lambda>vs'.
       smodify (\<lambda>st. st\<lparr>rs_invalid := map fst vs',
         rs_markers := py_set (map (\<lambda>(v, ok). marker_of env (invalid_key v)) (filter snd vs'))\<rparr>)))"

definition request_and_refresh ::
    "'w response_env \<Rightarrow> (string \<Rightarrow> bytes \<Rightarrow> ('w, string) reviewing) \<Rightarrow> string \<Rightarrow> ('w, unit) reviewing" where
  "request_and_refresh env observe t =
     sbind (smodify (\<lambda>st. st\<lparr>rs_mapper := re_request env t (rs_mapper st)\<rparr>)) (\<lambda>_.
     sbind (sget (\<lambda>st. (equip_checkers (rs_mapper st), fst ` set (rs_checkers st)))) (\<lambda>(equipped, loaded).
     sbind (if fst ` set equipped \<noteq> loaded then load_checkers env equipped else sret ()) (\<lambda>_.
     if \<not> re_observer_enabled env then sret ()
     else
       sbind (sget (\<lambda>st. (equip_observers (re_mapper env) (rs_mapper st), fst ` set (rs_observers st)))) (\<lambda>(obs, old).
       if fst ` set obs = old then sret ()
       else
         sbind (load_observers env obs) (\<lambda>_.
         if t \<in> fst ` set obs - old
         then sbind (note_sampled t) (\<lambda>_. reobserve_persisted env observe t)
         else sret ())))))"

definition valid_observer_digest :: "py_value \<Rightarrow> string option" where
  "valid_observer_digest v =
     (case v of Py_str s \<Rightarrow> (if length s = 64 \<and> set s \<subseteq> set ''0123456789abcdef'' then Some s else None) | _ \<Rightarrow> None)"

definition raw_observation :: "'w response_env \<Rightarrow> bytes \<Rightarrow> string option \<Rightarrow> bool \<Rightarrow> string \<Rightarrow> observation_result" where
  "raw_observation env response component provisional error =
     \<lparr>or_semantic = re_sha256 env response, or_raw = re_sha256 env response, or_scope = ''raw'',
      or_component = component, or_provisional = provisional, or_error = error\<rparr>"

definition run_observer :: "'w response_env \<Rightarrow> string \<Rightarrow> bytes \<Rightarrow> string \<Rightarrow> string \<times> string \<Rightarrow> ('w, observation_result) reviewing" where
  "run_observer env t response component source =
     sbind (on_equip (run_dynamic_code_result (re_mapper env) (fst source) (snd source) [response])) (\<lambda>execution.
     case (if dr_status execution = ''ok'' then valid_observer_digest (dr_value execution) else None) of
       Some digest \<Rightarrow>
         sret \<lparr>or_semantic = digest, or_raw = re_sha256 env response, or_scope = component_scope t (Some component),
               or_component = Some component, or_provisional = component_scope t (Some component) \<noteq> ''exact'', or_error = []\<rparr>
     | None \<Rightarrow>
         let error = (if dr_error execution = []
                      then ''invalid_return: packet_observer must return lowercase SHA-256'' else dr_error execution) in
         sbind (schedule_repair env \<lparr>rj_component = ''observer'', rj_type = component, rj_source = fst source,
                  rj_error = error, rj_input = response\<rparr>) (\<lambda>_.
           sret (raw_observation env response (Some component) True error)))"

definition observe_with ::
    "'w response_env \<Rightarrow> (string \<Rightarrow> bytes \<Rightarrow> ('w, string) reviewing) \<Rightarrow> string \<Rightarrow> bytes \<Rightarrow> ('w, observation_result) reviewing" where
  "observe_with env observe t response =
     sbind (request_and_refresh env observe t) (\<lambda>_.
     if \<not> re_observer_enabled env then sret (raw_observation env response None False ''observer disabled'')
     else
       sbind (sget rs_observers) (\<lambda>sources.
       case select_component t sources of
         None \<Rightarrow> sret (raw_observation env response None True ''no observer available'')
       | Some component \<Rightarrow>
           sbind (sget (\<lambda>st. component_is_quarantined env ''observer'' component (rs_mapper st))) (\<lambda>quarantined.
           if quarantined
           then sret (raw_observation env response (Some component) True ''observer version is quarantined'')
           else run_observer env t response component (the (map_of sources component)))))"

definition recursion_error :: exc where
  "recursion_error = RuntimeError ''RecursionError''"

primrec observe_depth :: "'w response_env \<Rightarrow> nat \<Rightarrow> string \<Rightarrow> bytes \<Rightarrow> ('w, observation_result) reviewing" where
  "observe_depth env 0 = (\<lambda>t response. slift (Inl recursion_error))"
| "observe_depth env (Suc n) =
     observe_with env (\<lambda>t response. sbind (observe_depth env n t response) (\<lambda>ob. sret (or_semantic ob)))"

definition observe_response_result :: "'w response_env \<Rightarrow> string \<Rightarrow> bytes \<Rightarrow> ('w, observation_result) reviewing" where
  "observe_response_result env = observe_depth env (re_depth env)"

definition observe_response :: "'w response_env \<Rightarrow> string \<Rightarrow> bytes \<Rightarrow> ('w, string) reviewing" where
  "observe_response env t response = sbind (observe_response_result env t response) (\<lambda>ob. sret (or_semantic ob))"

section \<open>Evolution of an observer\<close>

definition historical_samples :: "string \<Rightarrow> 'w responder \<Rightarrow> bytes list" where
  "historical_samples t st =
     py_set (map snd (filter (\<lambda>e. fst (snd (fst e)) = t) (rs_samples st)) @
       map iv_response (filter (\<lambda>v. iv_response_type v = t) (rs_invalid st)))"

fun group_samples ::
    "'w response_env \<Rightarrow> string \<Rightarrow> bytes list \<Rightarrow> (string, bytes list) dict \<Rightarrow> ('w, (string, bytes list) dict) reviewing" where
  "group_samples env t [] d st = (Inr d, st)"
| "group_samples env t (b # bs) d st =
     sbind (observe_response env t b) (\<lambda>digest.
       let old = (case map_of d digest of None \<Rightarrow> [] | Some xs \<Rightarrow> xs) in
       group_samples env t bs (dict_put digest (old @ [b]) d)) st"

text \<open>The verdict on a pair of responses is asked for once, in either order.\<close>

definition compare_responses :: "'w response_env \<Rightarrow> string \<Rightarrow> bytes \<Rightarrow> bytes \<Rightarrow> ('w, bool) reviewing" where
  "compare_responses env t old_response new_response =
     (let a = re_sha256 env old_response; b = re_sha256 env new_response in
      sbind (sget (\<lambda>st. case map_of (rs_reviews st) (t, a, b) of
                None \<Rightarrow> map_of (rs_reviews st) (t, b, a) | Some v \<Rightarrow> Some v)) (\<lambda>known.
      case known of
        Some v \<Rightarrow> sret v
      | None \<Rightarrow>
          sbind (inquire (re_equivalent env t old_response new_response)) (\<lambda>answer.
          case answer of
            None \<Rightarrow> slift (Inl (RuntimeError ''comparison failed''))
          | Some v \<Rightarrow> sbind (smodify (\<lambda>st. st\<lparr>rs_reviews := dict_put (t, a, b) v (rs_reviews st)\<rparr>)) (\<lambda>_. sret v))))"

fun equivalent_samples ::
    "'w response_env \<Rightarrow> string \<Rightarrow> bytes \<Rightarrow> string \<Rightarrow> (string \<times> bytes list) list \<Rightarrow> ('w, bytes list) reviewing" where
  "equivalent_samples env t response digest [] st = (Inr [], st)"
| "equivalent_samples env t response digest ((old_digest, samples) # rest) st =
     (if old_digest = digest then equivalent_samples env t response digest rest st
      else
        sbind (compare_responses env t (hd samples) response) (\<lambda>same.
        sbind (equivalent_samples env t response digest rest) (\<lambda>more.
          sret (if same then samples @ more else more))) st)"

definition evolve_and_observe :: "'w response_env \<Rightarrow> string \<Rightarrow> bytes \<Rightarrow> bytes list \<Rightarrow> ('w, string option) reviewing" where
  "evolve_and_observe env t response samples =
     sbind (sget rs_mapper) (\<lambda>mp.
     case re_evolve_observer env t samples mp of
       (answer, mp') \<Rightarrow>
         sbind (smodify (\<lambda>st. st\<lparr>rs_mapper := mp'\<rparr>)) (\<lambda>_.
         case answer of
           None \<Rightarrow> slift (Inl (RuntimeError ''observer evolution failed''))
         | Some False \<Rightarrow> sret None
         | Some True \<Rightarrow>
             sbind (sget (\<lambda>st. equip_observers (re_mapper env) (rs_mapper st))) (\<lambda>equipped.
             sbind (load_observers env equipped) (\<lambda>_.
             sbind (note_sampled t) (\<lambda>_.
             sbind (reobserve_persisted env (observe_response env) t) (\<lambda>_.
             sbind (observe_response env t response) (\<lambda>d. sret (Some d))))))))"

definition observe_with_evolution :: "'w response_env \<Rightarrow> string \<Rightarrow> bytes \<Rightarrow> ('w, string) reviewing" where
  "observe_with_evolution env t response =
     (if \<not> re_observer_enabled env then sret (re_sha256 env response)
      else
        sbind (observe_response env t response) (\<lambda>digest.
        sbind (sget (\<lambda>st. t \<in> fst ` set (rs_observers st))) (\<lambda>exact.
        if \<not> exact then sret digest
        else
          sbind (sget (historical_samples t)) (\<lambda>previous.
          sbind (group_samples env t previous []) (\<lambda>groups.
          if previous = [] \<or> digest \<in> fst ` set groups then sret digest
          else
            sbind (sattempt [] (equivalent_samples env t response digest groups)) (\<lambda>equivalent.
            if equivalent = [] then sret digest
            else
              let samples = py_set (equivalent @ [response]); failure_key = sort (map (re_sha256 env) samples) in
              sbind (sget (\<lambda>st. failure_key \<in> set (rs_failures st))) (\<lambda>failed.
              if failed then sret digest
              else
                sbind (sattempt None (evolve_and_observe env t response samples)) (\<lambda>evolved.
                case evolved of
                  Some d \<Rightarrow> sret d
                | None \<Rightarrow> sbind (smodify (\<lambda>st. st\<lparr>rs_failures := set_add failure_key (rs_failures st)\<rparr>))
                    (\<lambda>_. sret digest)))))))))"

section \<open>Evaluation\<close>

definition evaluation :: "string \<Rightarrow> string \<Rightarrow> string option \<Rightarrow> string \<Rightarrow> checker_evaluation" where
  "evaluation status scope component error =
     \<lparr>ce_status = status, ce_scope = scope, ce_component = component, ce_error = error\<rparr>"

definition checker_failure :: "dynamic_result option \<Rightarrow> string option" where
  "checker_failure execution =
     (case execution of
        None \<Rightarrow> Some ''BrokenPipeError: [Errno 32] Broken pipe''
      | Some r \<Rightarrow>
          if dr_status r \<noteq> ''ok''
          then Some (''RuntimeError: '' @ (if dr_error r = [] then ''checker execution failed or timed out'' else dr_error r))
          else (case dr_value r of Py_bool _ \<Rightarrow> None | _ \<Rightarrow> Some ''TypeError: packet_checker must return bool''))"

definition run_checker :: "'w response_env \<Rightarrow> string \<Rightarrow> bytes \<Rightarrow> string \<Rightarrow> string \<Rightarrow> ('w, checker_evaluation) reviewing" where
  "run_checker env t response component source =
     (let scope = component_scope t (Some component) in
      sbind (sattempt None (sbind (on_equip (run_dynamic_code_result (re_mapper env) source ''packet_checker'' [response]))
               (\<lambda>r. sret (Some r)))) (\<lambda>execution.
      case checker_failure execution of
        Some error \<Rightarrow>
          sbind (schedule_repair env \<lparr>rj_component = ''checker'', rj_type = component, rj_source = source,
                   rj_error = error, rj_input = response\<rparr>) (\<lambda>_.
            sret (evaluation ''unchecked'' scope (Some component) error))
      | None \<Rightarrow>
          sret (if dr_value (the execution) = Py_bool True
                then evaluation (if scope = ''exact'' then ''compliant'' else ''uncertain'') scope (Some component) []
                else evaluation ''non_compliant'' scope (Some component) [])))"

definition evaluate_response :: "'w response_env \<Rightarrow> string \<Rightarrow> bytes \<Rightarrow> ('w, checker_evaluation) reviewing" where
  "evaluate_response env t response =
     sbind (request_and_refresh env (observe_response env) t) (\<lambda>_.
     sbind (sget rs_checkers) (\<lambda>sources.
     case select_component t sources of
       None \<Rightarrow> sret (evaluation ''unchecked'' ''none'' None ''no checker available'')
     | Some component \<Rightarrow>
         sbind (sget (\<lambda>st. component_is_quarantined env ''checker'' component (rs_mapper st))) (\<lambda>quarantined.
         if quarantined
         then sret (evaluation ''unchecked'' (component_scope t (Some component)) (Some component)
                ''checker version is quarantined'')
         else run_checker env t response component (the (map_of sources component)))))"

definition check_response :: "'w response_env \<Rightarrow> string \<Rightarrow> bytes \<Rightarrow> ('w, bool) reviewing" where
  "check_response env t response =
     sbind (evaluate_response env t response) (\<lambda>e.
     sbind (smodify (\<lambda>st. st\<lparr>rs_last := Some e\<rparr>)) (\<lambda>_. sret (ce_status e \<noteq> ''non_compliant'')))"

definition count_in :: "string \<Rightarrow> (string, nat) dict \<Rightarrow> (string, nat) dict" where
  "count_in k d = dict_put k ((case map_of d k of None \<Rightarrow> 0 | Some n \<Rightarrow> n) + 1) d"

text \<open>The counts follow the line that was written; a failed write leaves them.\<close>

definition record_usage ::
    "'w response_env \<Rightarrow> string \<Rightarrow> checker_evaluation \<Rightarrow> observation_result \<Rightarrow> ('w, unit) reviewing" where
  "record_usage env t e ob =
     sbind (inquire (re_usage_io env)) (\<lambda>written.
     if written
     then smodify (\<lambda>st. let u = rs_usage st in st\<lparr>rs_usage :=
       \<lparr>uc_status = count_in (ce_status e) (uc_status u), uc_checker_scope = count_in (ce_scope e) (uc_checker_scope u),
        uc_observer_scope = count_in (or_scope ob) (uc_observer_scope u), uc_types = set_add t (uc_types u),
        uc_provisional = uc_provisional u + (if or_provisional ob then 1 else 0)\<rparr>\<rparr>)
     else sret ())"

definition check_exchange :: "'w response_env \<Rightarrow> string \<Rightarrow> string \<Rightarrow> bytes \<Rightarrow> bool \<Rightarrow> ('w, bool) reviewing" where
  "check_exchange env request_type t response enabled =
     (if \<not> enabled then sret True
      else
        sbind (sget (\<lambda>st. t \<in> set (rs_checked st))) (\<lambda>known.
        if known then sret True
        else
          sbind (smodify (\<lambda>st. st\<lparr>rs_checked := set_add t (rs_checked st)\<rparr>)) (\<lambda>_.
          sbind (observe_with_evolution env t response) (\<lambda>_.
          sbind (observe_response_result env t response) (\<lambda>ob.
          let key = (request_type, t, re_sha256 env response) in
          sbind (smodify (\<lambda>st. st\<lparr>rs_samples := dict_put key response (rs_samples st)\<rparr>)) (\<lambda>_.
          sbind (check_response env t response) (\<lambda>valid.
          sbind (sget rs_last) (\<lambda>e.
          sbind (smodify (\<lambda>st. st\<lparr>rs_evidence := dict_put key (the e, ob) (rs_evidence st)\<rparr>)) (\<lambda>_.
          sbind (record_usage env t (the e) ob) (\<lambda>_. sret valid))))))))))"

section \<open>Invalid responses\<close>

definition save_invalid_response :: "'w response_env \<Rightarrow> conversation \<Rightarrow> string \<Rightarrow> ('w, bool) reviewing" where
  "save_invalid_response env cons t =
     (if content cons = [] \<or> req_seq cons = [] then sret False
      else
        let (request, response) = last (content cons); request_type = last (req_seq cons) in
        sbind (observe_response env t response) (\<lambda>observation.
        let key = (request_type, t, observation); marker = marker_of env key in
        sbind (sget (\<lambda>st. key \<in> invalid_key ` set (rs_invalid st) \<or> marker \<in> set (rs_markers st))) (\<lambda>known.
        if known then sret False
        else
          sbind (inquire (re_save_io env)) (\<lambda>written.
          if written
          then sbind (smodify (\<lambda>st. st\<lparr>rs_invalid := rs_invalid st @ [\<lparr>iv_request_type = request_type,
                   iv_response_type = t, iv_observation = observation, iv_request = request, iv_response = response\<rparr>],
                 rs_markers := rs_markers st @ [marker]\<rparr>)) (\<lambda>_. sret True)
          else sret False))))"

text \<open>The review of a rejected response, once for each type, and what follows its verdict.\<close>

definition review_exchange :: "'w response_env \<Rightarrow> conversation \<Rightarrow> string \<Rightarrow> ('w, unit) reviewing" where
  "review_exchange env cons t =
     (if \<not> re_compliance env \<or> content cons = [] \<or> req_seq cons = [] then sret ()
      else
        let (request, response) = last (content cons); request_type = last (req_seq cons) in
        if response = [] then sret ()
        else
          sbind (sget (\<lambda>st. t \<in> set (rs_reviewed st))) (\<lambda>known.
          if known then sret ()
          else
            sbind (smodify (\<lambda>st. st\<lparr>rs_reviewed := set_add t (rs_reviewed st),
              rs_reviewed_samples := dict_put (request_type, t, re_sha256 env response) response (rs_reviewed_samples st)\<rparr>)) (\<lambda>_.
            sbind (inquire (re_review env request_type t request response)) (\<lambda>verdict.
            case verdict of
              None \<Rightarrow> sret ()
            | Some Non_compliant \<Rightarrow>
                sbind (save_invalid_response env cons t) (\<lambda>saved.
                if saved then smodify (\<lambda>st. st\<lparr>rs_non_compliant := rs_non_compliant st + 1\<rparr>) else sret ())
            | Some Compliant \<Rightarrow>
                sattempt () (sbind (sget rs_mapper) (\<lambda>mp.
                  case re_evolve_checker env t response mp of
                    (answer, mp') \<Rightarrow>
                      sbind (smodify (\<lambda>st. st\<lparr>rs_mapper := mp'\<rparr>)) (\<lambda>_.
                      case answer of
                        None \<Rightarrow> slift (Inl (RuntimeError ''checker evolution failed''))
                      | Some published \<Rightarrow>
                          sbind (sget (\<lambda>st. equip_checkers (rs_mapper st))) (\<lambda>equipped.
                            if published then load_checkers env equipped else sret ()))))
            | Some Other_verdict \<Rightarrow> sret ()))))"

end
