(* ===== verification/Response_Facts.thy ===== *)
theory Response_Facts imports Response_Components begin

text \<open>
  Properties of checkers and observers: how a component is selected, what an evaluation and an
  observation may answer, and what all of it keeps of the executor's records.
\<close>

section \<open>Selection\<close>

lemma family_digit_Some:
  "family_digit p s = Some d \<Longrightarrow>
     \<exists>pre b c suf. s = pre @ [d, b, c] @ suf \<and> d \<in> set ''12345'' \<and> is_digit_c b \<and> is_digit_c c \<and>
       (if pre = [] then \<not> p else \<not> is_digit_c (last pre)) \<and> (case suf of [] \<Rightarrow> True | x # _ \<Rightarrow> \<not> is_digit_c x)"
proof (induction p s rule: family_digit.induct)
  case (1 p a b c rest)
  show ?case
  proof (cases "\<not> p \<and> a \<in> set ''12345'' \<and> is_digit_c b \<and> is_digit_c c \<and> (case rest of [] \<Rightarrow> True | x # _ \<Rightarrow> \<not> is_digit_c x)")
    case True
    with 1 show ?thesis by (intro exI[of _ "[]"] exI[of _ b] exI[of _ c] exI[of _ rest]) auto
  next
    case False
    with 1(2) have "family_digit (is_digit_c a) (b # c # rest) = Some d" by (simp only: family_digit.simps if_False)
    from 1(1)[OF False this] obtain pre b' c' suf where
      "b # c # rest = pre @ [d, b', c'] @ suf" "d \<in> set ''12345''" "is_digit_c b'" "is_digit_c c'"
      "if pre = [] then \<not> is_digit_c a else \<not> is_digit_c (last pre)" "case suf of [] \<Rightarrow> True | x # _ \<Rightarrow> \<not> is_digit_c x"
      by blast
    then show ?thesis by (intro exI[of _ "a # pre"] exI[of _ b'] exI[of _ c'] exI[of _ suf]) (auto split: if_splits)
  qed
qed auto

lemma response_family_shape: "response_family t = Some f \<Longrightarrow> \<exists>d \<in> set ''12345''. f = d # ''xx''"
  by (auto simp: response_family_def split: option.splits dest!: family_digit_Some)

lemma candidates_same: "candidates t = response_component_candidates t"
  by (auto simp: candidates_def response_component_candidates_def py_set_def set_add_def split: option.split)

lemma set_candidates: "set (candidates t) = {t, ''__all__''} \<union> set_option (response_family t)"
  by (auto simp: candidates_def py_set_def set_add_def split: option.split)

lemma candidates_head: "\<exists>ys. candidates t = t # ys"
  by (auto simp: candidates_def py_set_def set_add_def split: option.split)

lemma select_first:
  assumes "select_component t d = Some c"
  shows "c \<in> set (candidates t) \<and> c \<in> fst ` set d \<and> (t \<in> fst ` set d \<longrightarrow> c = t)"
proof -
  from candidates_head obtain ys where "candidates t = t # ys" by blast
  with assms show ?thesis by (auto simp: select_component_def find_Some_iff split: if_splits)
qed

section \<open>What the operations keep\<close>

text \<open>
  A property of the executor's records that does not depend on the mapper, on what is loaded, on
  the reviews and on what the files of invalid responses say.
\<close>

locale response_invariant =
  fixes R :: "'w responder \<Rightarrow> bool" and env :: "'w response_env"
  assumes R_mapper: "R (st\<lparr>rs_mapper := mp\<rparr>) \<longleftrightarrow> R st"
    and R_loaded: "R (st\<lparr>rs_checkers := cs\<rparr>) \<longleftrightarrow> R st" "R (st\<lparr>rs_observers := os\<rparr>) \<longleftrightarrow> R st"
    and R_learned: "R (st\<lparr>rs_reviews := rv\<rparr>) \<longleftrightarrow> R st" "R (st\<lparr>rs_failures := fs\<rparr>) \<longleftrightarrow> R st" "R (st\<lparr>rs_last := l\<rparr>) \<longleftrightarrow> R st"
    and R_invalid: "R (st\<lparr>rs_invalid := vs, rs_markers := ms\<rparr>) \<longleftrightarrow> R st"
    and R_reviewed: "R (st\<lparr>rs_reviewed := ts, rs_reviewed_samples := d\<rparr>) \<longleftrightarrow> R st" "R (st\<lparr>rs_non_compliant := n\<rparr>) \<longleftrightarrow> R st"
    and R_repaired: "R st \<Longrightarrow> R (st\<lparr>rs_jobs := filter P (rs_jobs st)\<rparr>)"
    and R_schedule: "keeps R (schedule_repair env j)"
    and R_sampled: "keeps R (note_sampled t)"
begin

lemma keeps_equip [keeping]: "keeps R (on_equip m)"
  by (simp add: keeps_def on_equip_def R_mapper split: prod.split)

lemma keeps_inquire [keeping]: "keeps R (inquire f)"
  unfolding inquire_def by (rule keeps_equip)

lemma keeps_change: "(\<And>st. R (f st) = R st) \<Longrightarrow> keeps R (smodify f)"
  by (rule keeps_smodify) simp

lemma keeps_load_sources [keeping]: "keeps R (load_sources env path names cs)"
proof (induction cs)
  case Nil
  then show ?case by (simp add: keeps_def)
next
  case (Cons x cs)
  obtain t c where x: "x = (t, c)" by force
  have "load_sources env path names ((t, c) # cs) =
     sbind (load_source env (path c) names) (\<lambda>source.
     sbind (load_sources env path names cs) (\<lambda>rest.
       sret (case source of None \<Rightarrow> rest | Some s \<Rightarrow> (t, s) # rest)))"
    by (simp add: fun_eq_iff)
  with Cons show ?case unfolding x load_source_def by (simp only:) (intro keeping)
qed

lemma keeps_loads [keeping]: "keeps R (load_checkers env equipped)" "keeps R (load_observers env equipped)"
  unfolding load_checkers_def load_observers_def by (intro keeping keeps_change; simp add: R_loaded)+



lemma keeps_reobserve_records:
  assumes "\<And>t b. keeps R (observe t b)"
  shows "keeps R (reobserve_records observe t vs)"
proof (induction vs)
  case Nil
  then show ?case by (simp add: keeps_def)
next
  case (Cons v vs)
  have "reobserve_records observe t (v # vs) =
      sbind (reobserve_record observe t v) (\<lambda>v'. sbind (reobserve_records observe t vs) (\<lambda>vs'. sret (v' # vs')))"
    by (simp add: fun_eq_iff)
  with Cons show ?case unfolding reobserve_record_def by (simp only:) (intro keeping assms)
qed

lemma keeps_reobserve:
  assumes "\<And>t b. keeps R (observe t b)"
  shows "keeps R (reobserve_persisted env observe t)"
  unfolding reobserve_persisted_def
  by (intro keeping keeps_reobserve_records[OF assms] keeps_change) (simp add: R_invalid)

lemma keeps_refresh:
  assumes "\<And>t b. keeps R (observe t b)"
  shows "keeps R (request_and_refresh env observe t)"
  unfolding request_and_refresh_def
  by (intro keeping keeps_reobserve[OF assms] keeps_change R_sampled) (simp add: R_mapper)

lemma keeps_observe_with:
  assumes "\<And>t b. keeps R (observe t b)"
  shows "keeps R (observe_with env observe t b)"
  unfolding observe_with_def run_observer_def Let_def
  by (intro keeping keeps_refresh[OF assms] R_schedule)

lemma keeps_observe_depth [keeping]: "keeps R (observe_depth env n t b)"
proof (induction n arbitrary: t b)
  case (Suc n)
  have "keeps R (sbind (observe_depth env n t b) (\<lambda>ob. sret (or_semantic ob)))" for t b
    by (intro keeping Suc.IH)
  then show ?case unfolding observe_depth.simps by (rule keeps_observe_with)
qed (simp add: keeping)

lemma keeps_observe [keeping]:
  "keeps R (observe_response_result env t b)" "keeps R (observe_response env t b)"
  unfolding observe_response_result_def observe_response_def by (intro keeping)+

lemma keeps_groups [keeping]: "keeps R (group_samples env t bs d)"
proof (induction bs arbitrary: d)
  case Nil
  then show ?case by (simp add: keeps_def)
next
  case (Cons b bs)
  have "group_samples env t (b # bs) d =
     sbind (observe_response env t b) (\<lambda>digest.
       let old = (case map_of d digest of None \<Rightarrow> [] | Some xs \<Rightarrow> xs) in
       group_samples env t bs (dict_put digest (old @ [b]) d))"
    by (simp add: fun_eq_iff)
  then show ?case unfolding Let_def by (simp only:) (intro keeping Cons.IH)
qed

lemma keeps_compare [keeping]: "keeps R (compare_responses env t a b)"
  unfolding compare_responses_def Let_def by (intro keeping keeps_change) (simp add: R_learned)

lemma keeps_equivalent [keeping]: "keeps R (equivalent_samples env t response digest groups)"
proof (induction groups)
  case Nil
  then show ?case by (simp add: keeps_def)
next
  case (Cons x groups)
  obtain d samples where x: "x = (d, samples)" by force
  have "equivalent_samples env t response digest ((d, samples) # groups) =
     (if d = digest then equivalent_samples env t response digest groups
      else
        sbind (compare_responses env t (hd samples) response) (\<lambda>same.
        sbind (equivalent_samples env t response digest groups) (\<lambda>more.
          sret (if same then samples @ more else more))))"
    by (simp add: fun_eq_iff)
  with Cons show ?case unfolding x by (simp only:) (intro keeping)
qed

lemma keeps_evolve [keeping]: "keeps R (evolve_and_observe env t b samples)"
  unfolding evolve_and_observe_def
  by (intro keeping keeps_prod keeps_change keeps_reobserve R_sampled)
     (auto simp: R_mapper split: option.split bool.split intro!: keeping keeps_reobserve R_sampled)

lemma keeps_evolution [keeping]: "keeps R (observe_with_evolution env t b)"
  unfolding observe_with_evolution_def Let_def
  by (intro keeping keeps_change) (simp add: R_learned)

lemma keeps_check [keeping]: "keeps R (check_response env t b)"
  unfolding check_response_def evaluate_response_def run_checker_def Let_def
  by (intro keeping keeps_refresh keeps_change R_schedule) (simp add: R_learned)

lemma keeps_save_invalid [keeping]: "keeps R (save_invalid_response env cons t)"
  unfolding save_invalid_response_def Let_def
  by (intro keeping keeps_change) (simp add: R_invalid)

lemma keeps_review: "keeps R (review_exchange env cons t)"
proof -
  have evolve: "keeps R (case re_evolve_checker env t response mp of
      (answer, mp') \<Rightarrow>
        sbind (smodify (\<lambda>st. st\<lparr>rs_mapper := mp'\<rparr>)) (\<lambda>_.
        case answer of
          None \<Rightarrow> slift (Inl (RuntimeError ''checker evolution failed''))
        | Some published \<Rightarrow>
            sbind (sget (\<lambda>st. equip_checkers (rs_mapper st))) (\<lambda>equipped.
              if published then load_checkers env equipped else sret ())))" for response mp
    by (intro keeping keeps_change) (simp add: R_mapper)
  show ?thesis unfolding review_exchange_def Let_def
    by (intro keeping keeps_change) (auto simp: R_reviewed split: verdict.split intro!: keeping evolve keeps_change)
qed

lemma keeps_repair: "keeps R (repair_in_background env j)"
proof -
  have "keeps R (smodify (\<lambda>st. st\<lparr>rs_jobs := filter P (rs_jobs st)\<rparr>))" for P
    by (rule keeps_smodify) (rule R_repaired)
  then show ?thesis unfolding repair_in_background_def Let_def by (intro keeping)
qed

end

section \<open>Repairs and usage\<close>

definition jobs_ok :: "'w response_env \<Rightarrow> 'w responder \<Rightarrow> bool" where
  "jobs_ok env st \<longleftrightarrow> distinct (map (job_key env) (rs_jobs st))"

interpretation jobs: response_invariant "jobs_ok env" env for env
  by unfold_locales
    (auto simp: jobs_ok_def keeps_def schedule_repair_def note_sampled_def smodify_def Let_def distinct_map_filter)

definition total :: "(string, nat) dict \<Rightarrow> nat" where
  "total d = sum_list (map snd d)"

text \<open>
  \<open>counted n ts\<close>: the three counts of the usage have the same sum, at least \<open>n\<close> less than the number
  of checked types, to which the types \<open>ts\<close> belong.
\<close>

definition counted :: "nat \<Rightarrow> string list \<Rightarrow> 'w responder \<Rightarrow> bool" where
  "counted n ts st \<longleftrightarrow>
     (let u = rs_usage st in
      total (uc_checker_scope u) = total (uc_status u) \<and> total (uc_observer_scope u) = total (uc_status u) \<and>
      uc_provisional u \<le> total (uc_status u) \<and> total (uc_status u) + n \<le> length (rs_checked st) \<and>
      distinct (rs_checked st) \<and> set ts \<union> set (uc_types u) \<subseteq> set (rs_checked st) \<and>
      list_all (\<lambda>e. fst (snd (fst e)) \<in> set (rs_checked st)) (rs_samples st))"

lemma counted_sampled: "counted n ts st \<Longrightarrow> counted n ts (snd (note_sampled t st))"
  by (auto simp: counted_def note_sampled_def smodify_def Let_def length_set_add list_all_iff)

interpretation usage: response_invariant "counted n ts" env for n ts env
  by unfold_locales
    (simp_all add: keeps_def counted_sampled, simp_all add: counted_def schedule_repair_def smodify_def Let_def)

lemma total_count_in: "total (count_in k d) = Suc (total d)"
proof -
  have "total (dict_put k v d) + (case map_of d k of None \<Rightarrow> 0 | Some n \<Rightarrow> n) = total d + v" for v
    by (induction k v d rule: dict_put.induct) (auto simp: total_def split: option.split)
  from this[of "(case map_of d k of None \<Rightarrow> 0 | Some n \<Rightarrow> n) + 1"] show ?thesis by (simp add: count_in_def)
qed

text \<open>\<open>into P m Q\<close>: from a state in \<open>P\<close> the action ends in one in \<open>Q\<close>, whether it raises or not.\<close>

definition into :: "('s \<Rightarrow> bool) \<Rightarrow> ('e, 's, 'a) action \<Rightarrow> ('s \<Rightarrow> bool) \<Rightarrow> bool" where
  "into P m Q \<longleftrightarrow> (\<forall>s. P s \<longrightarrow> Q (snd (m s)))"

lemma into_sbind:
  assumes "keeps P m" "\<And>s. P s \<Longrightarrow> Q s" "\<And>x. into P (k x) Q"
  shows "into P (sbind m k) Q"
  using assms by (force simp: into_def keeps_def sbind_def split: prod.split sum.split)

lemma into_tail: "into P m Q \<Longrightarrow> into P (sbind m (\<lambda>_. sret v)) Q"
  by (auto simp: into_def sbind_def sret_def split: prod.split sum.split)

lemma into_basic: "(\<And>s. P s \<Longrightarrow> Q (f s)) \<Longrightarrow> into P (smodify f) Q" "(\<And>s. P s \<Longrightarrow> Q s) \<Longrightarrow> into P (sret x) Q"
  by (simp_all add: into_def smodify_def sret_def)

lemma counted_weak: "counted 1 [t] st \<Longrightarrow> counted 0 [] st"
  by (auto simp: counted_def Let_def)

lemma into_if: "into P a Q \<Longrightarrow> into P b Q \<Longrightarrow> into P (if c then a else b) Q"
  by simp

lemma into_usage:
  "into (counted 1 [t]) (sbind (record_usage env t e ob) (\<lambda>_. sret v)) (counted 0 [])"
  unfolding record_usage_def
  by (rule into_tail, rule into_sbind[OF usage.keeps_inquire counted_weak], assumption, intro into_if into_basic)
    (auto simp: counted_def Let_def total_count_in)

lemma keeps_check_exchange: "keeps (counted 0 []) (check_exchange env request_type t b enabled)"
proof -
  let ?rest = "sbind (observe_with_evolution env t b) (\<lambda>_.
          sbind (observe_response_result env t b) (\<lambda>ob.
          let key = (request_type, t, re_sha256 env b) in
          sbind (smodify (\<lambda>st. st\<lparr>rs_samples := dict_put key b (rs_samples st)\<rparr>)) (\<lambda>_.
          sbind (check_response env t b) (\<lambda>valid.
          sbind (sget rs_last) (\<lambda>e.
          sbind (smodify (\<lambda>st. st\<lparr>rs_evidence := dict_put key (the e, ob) (rs_evidence st)\<rparr>)) (\<lambda>_.
          sbind (record_usage env t (the e) ob) (\<lambda>_. sret valid)))))))"
  have sample: "keeps (counted 1 [t]) (smodify (\<lambda>st. st\<lparr>rs_samples := dict_put (r, t, d) b (rs_samples st)\<rparr>))" for r d
  proof (rule keeps_smodify)
    fix st assume "counted 1 [t] st"
    moreover have "list_all P d \<Longrightarrow> P (k, v) \<Longrightarrow> list_all P (dict_put k v d)" for P d and k :: exchange_key and v :: bytes
      by (induction k v d rule: dict_put.induct) auto
    ultimately show "counted 1 [t] (st\<lparr>rs_samples := dict_put (r, t, d) b (rs_samples st)\<rparr>)"
      by (auto simp: counted_def Let_def)
  qed
  have evidence: "keeps (counted 1 [t]) (smodify (\<lambda>st. st\<lparr>rs_evidence := dict_put key x (rs_evidence st)\<rparr>))" for key x
    by (rule keeps_smodify) (simp add: counted_def)
  have rest: "into (counted 1 [t]) ?rest (counted 0 [])"
    unfolding Let_def
    by (intro into_sbind usage.keeps_evolution usage.keeps_observe sample usage.keeps_check keeps_basic evidence into_usage counted_weak)
  show ?thesis unfolding keeps_def
  proof (intro allI impI)
    fix st :: "'a responder" assume ok: "counted 0 [] st"
    show "counted 0 [] (snd (check_exchange env request_type t b enabled st))"
    proof (cases "enabled \<and> t \<notin> set (rs_checked st)")
      case True
      with ok have "counted 1 [t] (st\<lparr>rs_checked := set_add t (rs_checked st)\<rparr>)"
        by (auto simp: counted_def Let_def length_set_add list_all_iff)
      with rest have "counted 0 [] (snd (?rest (st\<lparr>rs_checked := set_add t (rs_checked st)\<rparr>)))"
        by (simp only: into_def)
      with True show ?thesis
        by (simp add: check_exchange_def sbind_def[of "sget _"] sbind_def[of "smodify _"] sget_def smodify_def Let_def)
    qed (use ok in \<open>auto simp: check_exchange_def sbind_def sget_def sret_def\<close>)
  qed
qed

lemma keeps_check_jobs: "keeps (jobs_ok env) (check_exchange env request_type t b enabled)"
  unfolding check_exchange_def record_usage_def Let_def
  by (intro keeping keeps_smodify) (simp_all add: jobs_ok_def Let_def)

section \<open>Runs\<close>

text \<open>A new executor loads what is equipped.\<close>

definition fresh_responder :: "'w mapper \<Rightarrow> invalid_record list \<Rightarrow> string list \<Rightarrow> 'w responder" where
  "fresh_responder mp invalid markers =
     \<lparr>rs_mapper = mp, rs_checkers = [], rs_observers = [], rs_jobs = [], rs_checked = [], rs_reviewed = [], rs_samples = [],
      rs_reviewed_samples = [], rs_reviews = [], rs_failures = [], rs_evidence = [], rs_last = None,
      rs_usage = \<lparr>uc_status = [], uc_checker_scope = [], uc_observer_scope = [], uc_types = [], uc_provisional = 0\<rparr>,
      rs_invalid = invalid, rs_markers = markers, rs_non_compliant = 0\<rparr>"

definition new_responder :: "'w response_env \<Rightarrow> 'w mapper \<Rightarrow> invalid_record list \<Rightarrow> string list \<Rightarrow> 'w responder" where
  "new_responder env mp invalid markers =
     snd (sbind (load_checkers env (equip_checkers mp)) (\<lambda>_.
       if re_observer_enabled env then load_observers env (equip_observers (re_mapper env) mp) else sret ())
       (fresh_responder mp invalid markers))"

text \<open>What the executor and the repair threads do, in any order; a job is named by its place.\<close>

datatype response_call =
    Call_check string string bytes bool
  | Call_review conversation string
  | Call_repair_job nat

definition response_step :: "'w response_env \<Rightarrow> 'w responder \<Rightarrow> response_call \<Rightarrow> 'w responder" where
  "response_step env st call =
     (case call of
        Call_check request_type t b enabled \<Rightarrow> snd (check_exchange env request_type t b enabled st)
      | Call_review cons t \<Rightarrow> snd (review_exchange env cons t st)
      | Call_repair_job i \<Rightarrow> (if i < length (rs_jobs st) then snd (repair_in_background env (rs_jobs st ! i) st) else st))"

definition response_run :: "'w response_env \<Rightarrow> response_call list \<Rightarrow> 'w responder \<Rightarrow> 'w responder" where
  "response_run env calls st = foldl (response_step env) st calls"

lemma response_run_keeps:
  assumes "\<And>r t b e. keeps R (check_exchange env r t b e)" "\<And>c t. keeps R (review_exchange env c t)"
    and "\<And>j. keeps R (repair_in_background env j)" "R st"
  shows "R (response_run env calls st)"
  using assms(4)
proof (induction calls arbitrary: st)
  case (Cons call calls)
  have "R (response_step env st call)"
    using Cons.prems assms(1-3) by (cases call) (simp_all add: response_step_def keeps_def)
  with Cons.IH show ?case by (simp add: response_run_def)
qed (simp add: response_run_def)

text \<open>
  C16. In every run of checks, reviews and background repairs, whatever the components, the model and the
  file system answer: no two repairs of the same source are under way; each response type is checked
  at most once, the usage counts by status, by checker scope and by observer scope have the same sum,
  which is at most the number of checked types, and so is the number of provisional observations;
  and every sample that was kept is of a checked type.
\<close>

theorem response_records_agree:
  "let st = response_run env calls (new_responder env mp invalid markers); u = rs_usage st in
     distinct (map (job_key env) (rs_jobs st)) \<and> distinct (rs_checked st) \<and>
     total (uc_checker_scope u) = total (uc_status u) \<and> total (uc_observer_scope u) = total (uc_status u) \<and>
     uc_provisional u \<le> total (uc_status u) \<and> total (uc_status u) \<le> length (rs_checked st) \<and>
     set (uc_types u) \<subseteq> set (rs_checked st) \<and>
     list_all (\<lambda>e. fst (snd (fst e)) \<in> set (rs_checked st)) (rs_samples st)"
proof -
  have loads: "R (new_responder env mp invalid markers)" if "R (fresh_responder mp invalid markers)"
    "\<And>cs. keeps R (load_checkers env cs)" "\<And>cs. keeps R (load_observers env cs)" for R
  proof -
    have "keeps R (sbind (load_checkers env (equip_checkers mp)) (\<lambda>_.
       if re_observer_enabled env then load_observers env (equip_observers (re_mapper env) mp) else sret ()))"
      by (intro keeping that)
    with that(1) show ?thesis by (simp add: keeps_def new_responder_def)
  qed
  have "jobs_ok env (response_run env calls (new_responder env mp invalid markers))"
  proof (rule response_run_keeps[where R = "jobs_ok env"])
    show "jobs_ok env (new_responder env mp invalid markers)"
      by (rule loads[where R = "jobs_ok env"]) (simp_all add: jobs.keeps_loads, simp add: jobs_ok_def fresh_responder_def)
  qed (rule keeps_check_jobs jobs.keeps_review jobs.keeps_repair)+
  moreover have "counted 0 [] (response_run env calls (new_responder env mp invalid markers))"
  proof (rule response_run_keeps[where R = "counted 0 []"])
    show "counted 0 [] (new_responder env mp invalid markers)"
      by (rule loads[where R = "counted 0 []"]) (simp_all add: usage.keeps_loads,
        simp add: counted_def fresh_responder_def total_def)
  qed (rule keeps_check_exchange usage.keeps_review usage.keeps_repair)+
  ultimately show ?thesis by (simp add: jobs_ok_def counted_def Let_def)
qed

section \<open>What is answered\<close>

lemma ends_any: "ends (\<lambda>_. True) m (\<lambda>_. True) (\<lambda>_. True)"
  by (simp add: ends_def split: sum.split)

lemma ends_run:
  "ends (\<lambda>_. True) (run_dynamic_code_result env code fname args) (\<lambda>e. e = broken_pipe) (\<lambda>_. True)"
proof -
  have asks: "ends (\<lambda>_. True) (ask f) E (\<lambda>_. True)" for f :: "'a \<Rightarrow> 'c \<times> 'a" and E :: "exc \<Rightarrow> bool"
    by (simp add: ends_def ask_def split: prod.split)
  have gets: "ends (\<lambda>_. True) (sget f) E (\<lambda>_. True)" for f :: "'a mapper \<Rightarrow> 'c" and E :: "exc \<Rightarrow> bool"
    by (rule ends_sget) simp
  have changes: "ends (\<lambda>_. True) (smodify f) E (\<lambda>_. True)" for f :: "'a mapper \<Rightarrow> 'a mapper" and E :: "exc \<Rightarrow> bool"
    by (rule ends_smodify) simp_all
  have start: "ends (\<lambda>_. True) (start_dynamic_worker env) E (\<lambda>_. True)" for E :: "exc \<Rightarrow> bool"
    unfolding start_dynamic_worker_def by (intro ends_sbind[OF asks] ends_sbind[OF changes] ends_sret) simp
  have restart: "ends (\<lambda>_. True) (restart_dynamic_worker env) E (\<lambda>_. True)" for E :: "exc \<Rightarrow> bool"
    unfolding restart_dynamic_worker_def stop_dynamic_worker_def by (intro ends_sbind[OF changes] start)
  have ensure: "ends (\<lambda>_. True) (ensure_dynamic_worker env) E (\<lambda>_. True)" for E :: "exc \<Rightarrow> bool"
    unfolding ensure_dynamic_worker_def by (intro ends_sbind[OF gets] ends_prod ends_if ends_sret start) simp
  have reply: "ends (\<lambda>_. True) (receive_reply env fname) E (\<lambda>_. True)" for E :: "exc \<Rightarrow> bool"
    unfolding receive_reply_def
    by (intro ends_sbind[OF asks] ends_if ends_option ends_sbind[OF restart] ends_sret)
      (simp_all split: worker_reply.split add: ends_sret)
  show ?thesis unfolding run_dynamic_code_result_def
    by (intro ends_sbind[OF ensure] ends_sbind[OF gets] ends_sbind[OF asks] ends_sbind[OF restart] ends_if ends_sret
        ends_slift reply) simp_all
qed

definition observation_ok :: "'w response_env \<Rightarrow> string \<Rightarrow> bytes \<Rightarrow> observation_result \<Rightarrow> bool" where
  "observation_ok env t b ob \<longleftrightarrow> or_raw ob = re_sha256 env b \<and>
     (or_scope ob = ''raw'' \<and> or_semantic ob = or_raw ob \<or>
      length (or_semantic ob) = 64 \<and> set (or_semantic ob) \<subseteq> set ''0123456789abcdef'' \<and>
      (\<exists>c \<in> set (candidates t). or_component ob = Some c \<and> or_scope ob = component_scope t (Some c) \<and>
         or_provisional ob = (c \<noteq> t)))"

definition evaluation_ok :: "string \<Rightarrow> checker_evaluation \<Rightarrow> bool" where
  "evaluation_ok t e \<longleftrightarrow>
     (case ce_component e of
        None \<Rightarrow> ce_status e = ''unchecked'' \<and> ce_scope e = ''none''
      | Some c \<Rightarrow> c \<in> set (candidates t) \<and> ce_scope e = component_scope t (Some c) \<and>
          (if ce_status e = ''unchecked'' then ce_error e \<noteq> []
           else ce_error e = [] \<and> ce_status e \<in> {''non_compliant'', if c = t then ''compliant'' else ''uncertain''}))"

lemma scope_exact: "component_scope t (Some c) = ''exact'' \<longleftrightarrow> c = t"
  by (simp add: component_scope_def)

abbreviation always :: "'s \<Rightarrow> bool" where
  "always \<equiv> \<lambda>_. True"

lemma ends_equip: "ends always m E Q \<Longrightarrow> ends always (on_equip m) E Q"
  by (simp add: ends_def on_equip_def split: prod.split) (metis fst_conv)

lemma always_get: "ends always (sget f) E always"
  by (rule ends_sget) simp

lemma always_change: "ends always (smodify f) E always"
  by (rule ends_smodify) simp_all

lemma always_attempt: "ends always (sattempt d m) E always"
  by (rule ends_sattempt[OF ends_any]) simp

lemma quiet_load_sources: "ends always (load_sources env path names cs) E always"
proof (induction cs)
  case Nil
  then show ?case by (simp add: ends_def)
next
  case (Cons x cs)
  obtain t c where x: "x = (t, c)" by force
  have "load_sources env path names ((t, c) # cs) =
     sbind (load_source env (path c) names) (\<lambda>source.
     sbind (load_sources env path names cs) (\<lambda>rest.
       sret (case source of None \<Rightarrow> rest | Some s \<Rightarrow> (t, s) # rest)))"
    by (simp add: fun_eq_iff)
  then show ?case unfolding x load_source_def
    by (simp only:) (intro ends_sbind[OF always_attempt] ends_sbind[OF Cons.IH] ends_sret, simp)
qed

lemma quiet_loads: "ends always (load_checkers env cs) E always" "ends always (load_observers env cs) E always"
  unfolding load_checkers_def load_observers_def
  by (intro ends_sbind[OF always_change] ends_sbind[OF quiet_load_sources] always_change)+

lemma quiet_reobserve: "ends always (reobserve_persisted env observe t) E always"
proof -
  have "ends always (reobserve_records observe t vs) E always" for vs
  proof (induction vs)
    case Nil
    then show ?case by (simp add: ends_def)
  next
    case (Cons v vs)
    have once: "ends always (reobserve_record observe t v) E always"
      unfolding reobserve_record_def by (intro ends_if always_attempt ends_sret) simp
    have "reobserve_records observe t (v # vs) =
        sbind (reobserve_record observe t v) (\<lambda>v'. sbind (reobserve_records observe t vs) (\<lambda>vs'. sret (v' # vs')))"
      by (simp add: fun_eq_iff)
    then show ?case by (simp only:) (intro ends_sbind[OF once] ends_sbind[OF Cons.IH] ends_sret, simp)
  qed
  then show ?thesis unfolding reobserve_persisted_def
    by (intro ends_sbind[OF always_get] ends_sbind[of _ "reobserve_records observe t vs" for vs] always_change)
qed

text \<open>Refreshing the components never raises: what fails inside is caught.\<close>

lemma quiet_refresh: "ends always (request_and_refresh env observe t) E always"
proof -
  have sampled: "ends always (note_sampled t) E always"
    unfolding note_sampled_def by (rule always_change)
  have checkers: "ends always (if b then load_checkers env cs else sret ()) E always" for b cs
    by (intro ends_if quiet_loads ends_sret) simp
  show ?thesis unfolding request_and_refresh_def
    by (intro ends_sbind[OF always_change] ends_sbind[OF always_get] ends_prod ends_sbind[OF checkers] ends_if
        ends_sbind[OF quiet_loads(2)] ends_sbind[OF sampled] quiet_reobserve ends_sret) simp_all
qed

lemma quiet_schedule: "ends always (schedule_repair env j) E always"
  unfolding schedule_repair_def by (rule always_change)

lemma observe_with_ok:
  "ends always (observe_with env observe t b) (\<lambda>e. e = broken_pipe) (observation_ok env t b)"
proof -
  have raw: "observation_ok env t b (raw_observation env b c p error)" for c p error
    by (simp add: observation_ok_def raw_observation_def)
  have run: "ends always (run_observer env t b c source) (\<lambda>e. e = broken_pipe) (observation_ok env t b)"
    if "c \<in> set (candidates t)" for c source
    unfolding run_observer_def Let_def
  proof (rule ends_sbind[OF ends_equip[OF ends_run]], intro ends_option ends_sbind[OF quiet_schedule] ends_sret raw)
    fix execution digest
    assume "(if dr_status execution = ''ok'' then valid_observer_digest (dr_value execution) else None) = Some digest"
    with that show "observation_ok env t b
        \<lparr>or_semantic = digest, or_raw = re_sha256 env b, or_scope = component_scope t (Some c),
          or_component = Some c, or_provisional = component_scope t (Some c) \<noteq> ''exact'', or_error = []\<rparr>"
      by (auto simp: observation_ok_def valid_observer_digest_def scope_exact split: if_splits py_value.splits)
  qed
  show ?thesis unfolding observe_with_def
    by (intro ends_sbind[OF quiet_refresh] ends_sbind[OF always_get] ends_if ends_option ends_sret raw run)
      (simp add: select_first)
qed

lemma run_checker_ok:
  assumes "c \<in> set (candidates t)"
  shows "ends always (run_checker env t b c source) (\<lambda>_. False) (evaluation_ok t)"
proof -
  have failed: "evaluation_ok t (evaluation ''unchecked'' (component_scope t (Some c)) (Some c) error)"
    if "checker_failure execution = Some error" for execution error
    using that assms
    by (auto simp: evaluation_ok_def evaluation_def checker_failure_def split: option.splits if_splits py_value.splits)
  show ?thesis unfolding run_checker_def Let_def
    by (intro ends_sbind[OF always_attempt] ends_option ends_sbind[OF quiet_schedule] ends_sret failed)
      (use assms in \<open>auto simp: evaluation_ok_def evaluation_def scope_exact\<close>)
qed


end
