(* ===== verification/Section_Scan.thy ===== *)
theory Section_Scan imports Python_Text begin

text \<open>
  The scored headings of a specification (\<open>voltron/rfcparser/setciontree.py\<close>: \<open>SectionTree\<close>'s
  \<open>_scan_heading_candidates\<close>, \<open>_parse_heading_line\<close>, \<open>_score_heading_candidate\<close>,
  \<open>_filter_heading_candidates\<close>).  Scores are Python floats, computed here as the IEEE doubles they
  are: an integer counts units of \<open>2 ^ -60\<close> and every sum is rounded to 53 significant bits, half
  to even.
\<close>

section \<open>Doubles\<close>

type_synonym double = int

function bit_len :: "int \<Rightarrow> nat" where
  "bit_len n = (if n \<le> 0 then 0 else Suc (bit_len (n div 2)))"
  by auto
termination
  by (relation "measure nat") auto

declare bit_len.simps [simp del]

definition round_double :: "int \<Rightarrow> double" where
  "round_double x =
     (let m = \<bar>x\<bar>; e = bit_len m - 53; u = 2 ^ e; q = m div u; r = m mod u;
          q' = (if 2 * r < u \<or> (2 * r = u \<and> even q) then q else q + 1)
      in sgn x * (q' * u))"

definition dadd :: "double \<Rightarrow> double \<Rightarrow> double" where
  "dadd x y = round_double (x + y)"

definition dsub :: "double \<Rightarrow> double \<Rightarrow> double" where
  "dsub x y = round_double (x - y)"

text \<open>The doubles nearest to the decimal literals of the code.\<close>

abbreviation (input) "d_0_1 \<equiv> 115292150460684704 :: double"
abbreviation (input) "d_0_2 \<equiv> 230584300921369408 :: double"
abbreviation (input) "d_0_25 \<equiv> 288230376151711744 :: double"
abbreviation (input) "d_0_35 \<equiv> 403522526612396416 :: double"
abbreviation (input) "d_0_4 \<equiv> 461168601842738816 :: double"
abbreviation (input) "d_0_55 \<equiv> 634106827533765888 :: double"
abbreviation (input) "d_0_65 \<equiv> 749398977994450560 :: double"
abbreviation (input) "d_0_75 \<equiv> 864691128455135232 :: double"

section \<open>Candidates\<close>

datatype heading_source = Numeric | Fixed_title | Appendix

record heading =
  h_raw :: string
  h_number :: "string option"
  h_title :: string
  h_level :: nat
  h_offset :: nat
  h_line_no :: nat
  h_source :: heading_source

record candidate = heading +
  h_score :: double
  h_reasons :: "string list"

definition FIXED_SECTION_TITLES :: "string set" where
  "FIXED_SECTION_TITLES = set [''abstract'', ''status of this memo'', ''security considerations'',
     ''iana considerations'', ''references'', ''acknowledgements'', ''acknowledgments'']"

definition rstrip_line_end :: "string \<Rightarrow> string" where
  "rstrip_line_end s = rev (dropWhile (\<lambda>c. code_of c = 13 \<or> code_of c = 10) (rev s))"

text \<open>\<open>raw_line.index(stripped[0])\<close>: the first place of the character.\<close>

definition index_c :: "char \<Rightarrow> string \<Rightarrow> nat" where
  "index_c c s = length (takeWhile (\<lambda>d. d \<noteq> c) s)"

text \<open>
  \<open>\d+(?:\.\d+)*\.?\<close> at the start of a text: what it takes and what is left.  A shorter match would
  stop before a digit or a dot, where neither the white space nor the end that must follow can be.
\<close>

function dotted_numbers :: "string \<Rightarrow> string \<times> string" where
  "dotted_numbers s =
     (case s of
        d # rest \<Rightarrow>
          let digits = takeWhile is_digit_c rest; after = dropWhile is_digit_c rest
          in if d = CHR ''.'' \<and> digits \<noteq> []
             then let (n, r) = dotted_numbers after in (d # digits @ n, r)
             else if d = CHR ''.'' then ([d], rest) else ([], s)
      | [] \<Rightarrow> ([], []))"
  by auto
termination
  by (relation "measure length") (auto simp: le_imp_less_Suc length_dropWhile_le)

declare dotted_numbers.simps [simp del]

definition section_number :: "string \<Rightarrow> (string \<times> string) option" where
  "section_number s =
     (let digits = takeWhile is_digit_c s; (n, r) = dotted_numbers (dropWhile is_digit_c s)
      in if digits = [] then None else Some (digits @ n, r))"

definition rstrip_dots :: "string \<Rightarrow> string" where
  "rstrip_dots s = rev (dropWhile (\<lambda>c. c = CHR ''.'') (rev s))"

text \<open>The numeric heading: the number, white space, and a title to the end.\<close>

definition numeric_heading :: "string \<Rightarrow> (string \<times> string) option" where
  "numeric_heading stripped =
     (case section_number stripped of
        None \<Rightarrow> None
      | Some (number, r) \<Rightarrow>
          let title = dropWhile is_space_c r
          in if title = r \<or> title = [] then None else Some (number, py_strip title))"

text \<open>The appendix heading: its letter and its title.\<close>

definition appendix_heading :: "string \<Rightarrow> (char \<times> string) option" where
  "appendix_heading stripped =
     (let r = drop 8 stripped; word = dropWhile is_space_c r
      in if py_lower (take 8 stripped) \<noteq> ''appendix'' \<or> word = r then None
         else case word of
           [] \<Rightarrow> None
         | c # cs \<Rightarrow>
             if \<not> (97 \<le> code_of (lower_c c) \<and> code_of (lower_c c) \<le> 122) then None
             else let rest = snd (dotted_numbers cs); title = dropWhile is_space_c rest
                  in if rest = [] then Some (c, [])
                     else if title = rest \<or> title = [] then None else Some (c, title))"

definition parse_heading_line :: "string \<Rightarrow> string \<Rightarrow> nat \<Rightarrow> nat \<Rightarrow> heading option" where
  "parse_heading_line stripped raw_line off line_no =
     (let offset = off + index_c (hd stripped) raw_line
      in case numeric_heading stripped of
        Some (number, title) \<Rightarrow>
          let clean_number = rstrip_dots number
          in Some \<lparr>h_raw = stripped, h_number = Some clean_number, h_title = title,
                   h_level = Suc (length (filter (\<lambda>c. c = CHR ''.'') clean_number)),
                   h_offset = offset, h_line_no = line_no, h_source = Numeric\<rparr>
      | None \<Rightarrow>
        if py_lower stripped \<in> FIXED_SECTION_TITLES
        then Some \<lparr>h_raw = stripped, h_number = None, h_title = stripped, h_level = 1,
                   h_offset = offset, h_line_no = line_no, h_source = Fixed_title\<rparr>
        else case appendix_heading stripped of
          Some (letter, title) \<Rightarrow>
            Some \<lparr>h_raw = stripped, h_number = Some (''Appendix '' @ [upper_c letter]),
                  h_title = (if title = [] then last (py_split_max 2 stripped) else title),
                  h_level = 1, h_offset = offset, h_line_no = line_no, h_source = Appendix\<rparr>
        | None \<Rightarrow> None)"

section \<open>Scores\<close>

definition count_in :: "string \<Rightarrow> string \<Rightarrow> nat" where
  "count_in cs s = length (filter (\<lambda>c. c \<in> set cs) s)"

definition score_heading_candidate ::
  "heading_source \<Rightarrow> string \<Rightarrow> bool \<Rightarrow> bool \<Rightarrow> double \<times> string list" where
  "score_heading_candidate src raw_line prev_blank next_blank =
     (let stripped = py_strip raw_line;
          indent = length raw_line - length (dropWhile (\<lambda>c. c = CHR '' '') raw_line);
          rule = (\<lambda>c op d why (score, reasons). if c then (op score d, reasons @ [why]) else (score, reasons));
          s = (0, []);
          s = rule (src = Numeric \<or> src = Appendix) dadd d_0_55 ''structured-prefix'' s;
          s = rule (src = Fixed_title) dadd d_0_75 ''fixed-title'' s;
          s = rule prev_blank dadd d_0_2 ''previous-blank'' s;
          s = rule next_blank dadd d_0_2 ''next-blank'' s;
          s = rule (length stripped \<le> 90) dadd d_0_1 ''short-line'' s;
          s = rule (8 \<le> indent) dsub d_0_4 ''deep-indent'' s;
          s = rule (stripped \<noteq> [] \<and> last stripped \<in> set ''.;,'' \<and> src = Numeric) dsub d_0_25
                ''sentence-like-ending'' s;
          s = rule (2 \<le> count_in '',;:'' stripped) dsub d_0_2 ''punctuation-heavy'' s;
          s = rule (src = Numeric \<and> \<not> prev_blank) dsub d_0_35 ''inline-numbered-text'' s
      in s)"

section \<open>Scanning\<close>

definition is_blank_line :: "string list \<Rightarrow> int \<Rightarrow> bool" where
  "is_blank_line ls i = (if i < 0 \<or> int (length ls) \<le> i then True else py_strip (ls ! nat i) = [])"

text \<open>One line of the scan: a candidate, if it is a heading with a score of at least 0.65.\<close>

definition scan_line :: "string list \<Rightarrow> nat \<Rightarrow> nat \<Rightarrow> string \<Rightarrow> candidate option" where
  "scan_line ls off line_no line =
     (let raw_line = rstrip_line_end line; stripped = py_strip raw_line
      in if stripped = [] then None
         else case parse_heading_line stripped raw_line off line_no of
           None \<Rightarrow> None
         | Some h \<Rightarrow>
             let prev_blank = is_blank_line ls (int line_no - 1);
                 next_blank = is_blank_line ls (int line_no + 1);
                 (score, reasons) = score_heading_candidate (h_source h) raw_line prev_blank next_blank
             in if d_0_65 \<le> score
                then Some (heading.extend h \<lparr>h_score = score, h_reasons = reasons\<rparr>) else None)"

fun scan_from :: "string list \<Rightarrow> nat \<Rightarrow> nat \<Rightarrow> string list \<Rightarrow> candidate list" where
  "scan_from ls off line_no [] = []"
| "scan_from ls off line_no (line # rest) =
     (case scan_line ls off line_no line of None \<Rightarrow> [] | Some c \<Rightarrow> [c])
     @ scan_from ls (off + length line) (Suc line_no) rest"

definition scan_heading_candidates :: "string \<Rightarrow> candidate list" where
  "scan_heading_candidates doc_content =
     (let ls = py_splitlines_keep doc_content in scan_from ls 0 0 ls)"

section \<open>Filtering\<close>

text \<open>\<open>number.rsplit('.', 1)[0]\<close> of a number that has a dot.\<close>

definition parent_section_number :: "string option \<Rightarrow> string option" where
  "parent_section_number number =
     (case number of
        None \<Rightarrow> None
      | Some n \<Rightarrow> if CHR ''.'' \<notin> set n then None
                  else Some (rev (tl (dropWhile (\<lambda>c. c \<noteq> CHR ''.'') (rev n)))))"

fun filter_from :: "string list \<Rightarrow> candidate list \<Rightarrow> candidate list" where
  "filter_from seen [] = []"
| "filter_from seen (c # cs) =
     (let number = h_number c;
          named = (case number of None \<Rightarrow> False | Some n \<Rightarrow> n \<noteq> []);
          orphan = (h_source c = Numeric \<and>
                    (case parent_section_number number of None \<Rightarrow> False | Some p \<Rightarrow> p \<notin> set seen));
          c' = (if orphan then c\<lparr>h_score := dsub (h_score c) d_0_2\<rparr> else c)
      in if named \<and> the number \<in> set seen then filter_from seen cs
         else if orphan \<and> h_score c' < d_0_65 then filter_from seen cs
         else c' # filter_from (if named then set_add (the number) seen else seen) cs)"

definition filter_heading_candidates :: "candidate list \<Rightarrow> candidate list" where
  "filter_heading_candidates candidates = filter_from [] candidates"

section \<open>The score decides by a rule\<close>

text \<open>The rule without arithmetic: blank lines around, a short line, a deep indent, the end of a
  sentence and heavy punctuation.\<close>

definition heading_rule ::
  "heading_source \<Rightarrow> bool \<Rightarrow> bool \<Rightarrow> bool \<Rightarrow> bool \<Rightarrow> bool \<Rightarrow> bool \<Rightarrow> bool" where
  "heading_rule src pb nb short deep sentence heavy =
     (case src of
        Numeric \<Rightarrow> pb \<and> (if deep then nb \<and> short \<and> \<not> sentence \<and> \<not> heavy
                            else if nb then \<not> (sentence \<and> heavy) else \<not> sentence \<and> \<not> heavy)
      | Fixed_title \<Rightarrow> (if deep then \<not> heavy \<and> (pb \<and> nb \<or> pb \<and> short \<or> nb \<and> short)
                        else heavy \<longrightarrow> pb \<or> nb)
      | Appendix \<Rightarrow> (if deep then pb \<and> nb \<and> short \<and> \<not> heavy
                     else if heavy then pb \<and> nb else pb \<or> nb \<or> short))"

text \<open>The score as a function of what it looks at.\<close>

definition flag_score ::
  "heading_source \<Rightarrow> bool \<Rightarrow> bool \<Rightarrow> bool \<Rightarrow> bool \<Rightarrow> bool \<Rightarrow> bool \<Rightarrow> double" where
  "flag_score src pb nb short deep sentence heavy =
     (let rule = (\<lambda>c op d x. if c then op x d else x) in
      rule (src = Numeric \<and> \<not> pb) dsub d_0_35
      (rule heavy dsub d_0_2
      (rule (sentence \<and> src = Numeric) dsub d_0_25
      (rule deep dsub d_0_4
      (rule short dadd d_0_1
      (rule nb dadd d_0_2
      (rule pb dadd d_0_2
      (rule (src = Fixed_title) dadd d_0_75
      (rule (src = Numeric \<or> src = Appendix) dadd d_0_55 0)))))))))"

definition deep_indent :: "string \<Rightarrow> bool" where
  "deep_indent raw_line \<longleftrightarrow> 8 \<le> length raw_line - length (dropWhile (\<lambda>c. c = CHR '' '') raw_line)"

definition sentence_end :: "string \<Rightarrow> bool" where
  "sentence_end s \<longleftrightarrow> s \<noteq> [] \<and> last s \<in> set ''.;,''"

lemma score_flags:
  "fst (score_heading_candidate src raw pb nb) =
     flag_score src pb nb (length (py_strip raw) \<le> 90) (deep_indent raw)
       (sentence_end (py_strip raw)) (2 \<le> count_in '',;:'' (py_strip raw))"
  unfolding score_heading_candidate_def flag_score_def deep_indent_def sentence_end_def Let_def
    prod.case if_distrib[of fst] 
  by (simp only: split_beta if_distrib[of fst] fst_conv snd_conv conj_assoc)

lemma flag_tables:
  "\<forall>a b s d e h. d_0_65 \<le> flag_score Numeric a b s d e h \<longleftrightarrow> heading_rule Numeric a b s d e h"
  "\<forall>a b s d e h. d_0_65 \<le> flag_score Fixed_title a b s d e h \<longleftrightarrow> heading_rule Fixed_title a b s d e h"
  "\<forall>a b s d e h. d_0_65 \<le> flag_score Appendix a b s d e h \<longleftrightarrow> heading_rule Appendix a b s d e h"
  by code_simp+

lemma heading_score_rule:
  "d_0_65 \<le> fst (score_heading_candidate src raw pb nb) \<longleftrightarrow>
     heading_rule src pb nb (length (py_strip raw) \<le> 90) (deep_indent raw)
       (sentence_end (py_strip raw)) (2 \<le> count_in '',;:'' (py_strip raw))"
  using flag_tables by (cases src) (simp_all only: score_flags)

text \<open>
  C34. A line is kept as a heading exactly if it reads as one and the rule holds, although the code
  decides by a sum of floats.
\<close>

theorem scan_line_rule:
  "scan_line ls off k line =
     (let raw = rstrip_line_end line; t = py_strip raw; pb = is_blank_line ls (int k - 1);
          nb = is_blank_line ls (int k + 1)
      in if t = [] then None
         else case parse_heading_line t raw off k of
           None \<Rightarrow> None
         | Some h \<Rightarrow>
             if heading_rule (h_source h) pb nb (length t \<le> 90) (deep_indent raw) (sentence_end t)
                  (2 \<le> count_in '',;:'' t)
             then let (score, reasons) = score_heading_candidate (h_source h) raw pb nb
                  in Some (heading.extend h \<lparr>h_score = score, h_reasons = reasons\<rparr>)
             else None)"
  unfolding scan_line_def Let_def heading_score_rule[symmetric]
  by (auto split: option.splits prod.splits)

section \<open>Candidates point at their text\<close>

definition placed :: "string \<Rightarrow> candidate \<Rightarrow> bool" where
  "placed doc c \<longleftrightarrow>
     h_raw c \<noteq> [] \<and> h_offset c + length (h_raw c) \<le> length doc \<and>
     take (length (h_raw c)) (drop (h_offset c) doc) = h_raw c"

lemma parse_heading_fields:
  assumes "parse_heading_line t raw off k = Some h"
  shows "h_raw h = t" "h_offset h = off + index_c (hd t) raw" "h_line_no h = k" "0 < h_level h"
  using assms by (auto simp: parse_heading_line_def Let_def split: option.splits prod.splits if_splits)

lemma index_stripped:
  assumes "py_strip s \<noteq> []"
  shows "\<exists>q. s = take (index_c (hd (py_strip s)) s) s @ py_strip s @ q"
proof -
  obtain p q where s: "s = p @ py_strip s @ q" and p: "list_all is_space_c p"
    using py_strip_decomp by blast
  obtain c cs where c: "py_strip s = c # cs" using assms by (cases "py_strip s") auto
  have "takeWhile (\<lambda>d. d \<noteq> c) (p @ (c # cs) @ q) = p"
    using p py_strip_hd[OF c] by (subst takeWhile_append2) (auto simp: list_all_iff)
  with s c have "index_c c s = length p" by (metis index_c_def)
  with s c show ?thesis by (metis append_eq_conv_conj list.sel(1))
qed

lemma rstrip_line_end_prefix: "\<exists>q. line = rstrip_line_end line @ q"
  unfolding rstrip_line_end_def by (metis rev_append rev_rev_ident takeWhile_dropWhile_id)

lemma scan_line_SomeD:
  assumes "scan_line ls off k line = Some c"
  shows "h_raw c = py_strip (rstrip_line_end line)" "h_raw c \<noteq> []" "0 < h_level c"
    "h_offset c = off + index_c (hd (h_raw c)) (rstrip_line_end line)" "h_line_no c = k"
    "d_0_65 \<le> h_score c"
  using assms
  by (auto simp: scan_line_def Let_def heading.defs parse_heading_fields
      split: if_splits option.splits prod.splits)

lemma scan_line_placed:
  assumes "scan_line ls (length p) k line = Some c"
  shows "placed (p @ line @ r) c" "length p \<le> h_offset c"
    "h_offset c + length (h_raw c) \<le> length p + length line"
proof -
  let ?raw = "rstrip_line_end line"
  note d = scan_line_SomeD[OF assms]
  let ?i = "index_c (hd (h_raw c)) ?raw"
  obtain q where q: "line = ?raw @ q" using rstrip_line_end_prefix by blast
  obtain q' where q': "?raw = take ?i ?raw @ h_raw c @ q'" using index_stripped d(1, 2) by metis
  have len: "length (take ?i ?raw) = ?i" by (simp add: index_c_def length_takeWhile_le)
  have line: "line = take ?i ?raw @ h_raw c @ q' @ q" using q q' by (metis append.assoc)
  show "length p \<le> h_offset c" using d(4) by simp
  have "length line = ?i + length (h_raw c) + length (q' @ q)" using line len
    by (metis add.assoc length_append)
  then show "h_offset c + length (h_raw c) \<le> length p + length line" using d(4) by simp
  have "drop (h_offset c) (p @ line @ r) = h_raw c @ q' @ q @ r"
    using d(4) len by (subst line) simp
  then have "take (length (h_raw c)) (drop (h_offset c) (p @ line @ r)) = h_raw c"
    by (metis append_eq_conv_conj)
  then show "placed (p @ line @ r) c"
    using d(2) \<open>h_offset c + length (h_raw c) \<le> length p + length line\<close>
    by (simp add: placed_def del: drop_append)
qed

text \<open>Headings end before the next one starts.\<close>

definition apart :: "candidate list \<Rightarrow> bool" where
  "apart cs \<longleftrightarrow> sorted_wrt (\<lambda>a b. h_offset a + length (h_raw a) \<le> h_offset b) cs"

lemma scan_from_placed:
  assumes "doc = p @ concat rest" "off = length p"
  shows "list_all (placed doc) (scan_from ls off k rest) \<and> apart (scan_from ls off k rest) \<and>
         (\<forall>c \<in> set (scan_from ls off k rest). off \<le> h_offset c \<and> 0 < h_level c \<and> d_0_65 \<le> h_score c)"
  using assms
proof (induction rest arbitrary: p off k)
  case (Cons line rest)
  then have "doc = (p @ line) @ concat rest" "off + length line = length (p @ line)" by simp_all
  note IH = Cons.IH[OF this, of "Suc k"]
  show ?case
  proof (cases "scan_line ls off k line")
    case (Some c)
    note d = scan_line_placed(1)[OF Some[unfolded Cons.prems(2)], of "concat rest"]
      scan_line_placed(2-)[OF Some[unfolded Cons.prems(2)]] scan_line_SomeD[OF Some]
    show ?thesis using IH Some d Cons.prems
      by (fastforce simp: apart_def)
  qed (use IH in auto)
qed (simp add: apart_def)

theorem candidates_placed:
  "list_all (placed doc) (scan_heading_candidates doc)"
  "apart (scan_heading_candidates doc)"
  using scan_from_placed[of doc "[]" "py_splitlines_keep doc" 0]
  by (auto simp: scan_heading_candidates_def Let_def)

lemma candidates_levels: "c \<in> set (scan_heading_candidates doc) \<Longrightarrow> 0 < h_level c"
  using scan_from_placed[of doc "[]" "py_splitlines_keep doc" 0]
  by (auto simp: scan_heading_candidates_def Let_def)

end
