(* ===== verification/Section_Tree.thy ===== *)
theory Section_Tree imports Section_Scan begin

text \<open>
  The tree of a specification's sections (\<open>voltron/rfcparser/setciontree.py\<close>: \<open>SectionNode\<close> and
  \<open>SectionTree\<close>).  Nodes are shared and mutable in the code, so they live in a store, the list
  \<open>st_nodes\<close>, and a node is its index there; the root of a finished tree is node 0.  An exception of
  the constructor leaves no tree behind, so the builders return \<open>exc + state\<close>.
\<close>

record sec_node =
  n_name :: string
  n_subsection :: "nat list"
  n_start :: nat
  n_end :: nat
  n_level :: nat
  n_is_leaf :: bool
  n_upper :: "nat option"
  n_content_type :: string
  n_request_types :: "string list"
  n_response_types :: "string list"

record section_tree =
  st_nodes :: "sec_node list"
  st_tree :: "nat list list"
  st_leafs :: "nat list"
  st_height :: nat
  st_doc_toc :: string
  st_doc_apx :: string
  st_name :: string
  st_doc_content :: string

definition section_node :: "nat \<Rightarrow> nat \<Rightarrow> nat \<Rightarrow> string \<Rightarrow> sec_node" where
  "section_node level start en name =
     \<lparr>n_name = name, n_subsection = [], n_start = start, n_end = en, n_level = level,
      n_is_leaf = False, n_upper = None, n_content_type = ''none'', n_request_types = [],
      n_response_types = []\<rparr>"

abbreviation node_at :: "section_tree \<Rightarrow> nat \<Rightarrow> sec_node" where
  "node_at st i \<equiv> st_nodes st ! i"

definition alloc :: "sec_node \<Rightarrow> section_tree \<Rightarrow> nat \<times> section_tree" where
  "alloc n st = (length (st_nodes st), st\<lparr>st_nodes := st_nodes st @ [n]\<rparr>)"

definition update_node :: "nat \<Rightarrow> (sec_node \<Rightarrow> sec_node) \<Rightarrow> section_tree \<Rightarrow> section_tree" where
  "update_node i f st = st\<lparr>st_nodes := (st_nodes st)[i := f (st_nodes st ! i)]\<rparr>"

section \<open>Adding nodes\<close>

definition append_child :: "nat \<Rightarrow> nat \<Rightarrow> section_tree \<Rightarrow> section_tree" where
  "append_child i c = update_node i (n_subsection_update (\<lambda>cs. cs @ [c]))"

definition padding_node :: "sec_node \<Rightarrow> sec_node \<Rightarrow> nat \<Rightarrow> sec_node" where
  "padding_node self node i =
     (section_node (n_level node) (n_start self) (n_start node)
        (CHR 0x09 # n_name self @ ''[PADDING]''))\<lparr>n_upper := Some i\<rparr>"

definition add_subsection :: "nat \<Rightarrow> nat \<Rightarrow> section_tree \<Rightarrow> section_tree" where
  "add_subsection i node st =
     (let self = node_at st i; n = node_at st node;
          st = (if n_subsection self = [] \<and> n_start self + length (n_name self) + 5 < n_start n
                then let (ov, st) = alloc (padding_node self n i) st in append_child i ov st
                else st)
      in append_child i node st)"

definition add_section :: "nat \<Rightarrow> section_tree \<Rightarrow> section_tree result" where
  "add_section node st =
     (let level = n_level (node_at st node);
          st = (if st_height st < level
                then st\<lparr>st_height := st_height st + 1, st_tree := st_tree st @ [[]]\<rparr> else st)
      in if level < length (st_tree st)
         then Inr (st\<lparr>st_tree := (st_tree st)[level := st_tree st ! level @ [node]]\<rparr>)
         else Inl IndexError)"

section \<open>The tree of the scored headings\<close>

text \<open>One heading: the stack (top first), the nodes so far and the tree; the root is node 0.\<close>

definition build_step ::
  "nat list \<times> nat list \<times> section_tree \<Rightarrow> candidate \<Rightarrow> (nat list \<times> nat list \<times> section_tree) result" where
  "build_step s heading =
     (case s of (stack, nodes, st) \<Rightarrow>
        let (node, st) = alloc (section_node (h_level heading) (h_offset heading)
                                  (length (st_doc_content st)) (h_raw heading)) st
        in rbind (add_section node st) (\<lambda>st.
           let stack = dropWhile (\<lambda>i. n_level (node_at st node) \<le> n_level (node_at st i)) stack;
               parent = (case stack of [] \<Rightarrow> 0 | p # _ \<Rightarrow> p);
               st = update_node node (n_upper_update (\<lambda>_. Some parent)) (add_subsection parent node st)
           in Inr (node # stack, nodes @ [node], st)))"

text \<open>The second loop: a heading ends where the next one starts, the last one with the text.\<close>

fun set_ends :: "nat list \<Rightarrow> section_tree \<Rightarrow> section_tree" where
  "set_ends [] st = st"
| "set_ends (i # rest) st =
     set_ends rest
       (update_node i
          (n_end_update (\<lambda>_. case rest of [] \<Rightarrow> length (st_doc_content st)
                                     | j # _ \<Rightarrow> n_start (node_at st j))) st)"

definition root_node :: "section_tree \<Rightarrow> sec_node" where
  "root_node st = section_node 0 0 (length (st_doc_content st)) ''0.''"

definition construct_tree_from_headings :: "section_tree \<Rightarrow> (bool \<times> section_tree) result" where
  "construct_tree_from_headings st =
     (let headings = filter_heading_candidates (scan_heading_candidates (st_doc_content st))
      in if length headings < 2 then Inr (False, st)
         else let st = st\<lparr>st_nodes := [root_node st], st_tree := [[0]], st_height := 0\<rparr>
              in rbind (rfold build_step ([0], [], st) headings) (\<lambda>(stack, nodes, st).
                 let st = set_ends nodes st
                 in Inr (True, update_node 0 (n_end_update (\<lambda>_. length (st_doc_content st))) st)))"

section \<open>Looking nodes up\<close>

definition number_pattern :: "nat \<Rightarrow> regex" where
  "number_pattern n =
     re_seq (concat (replicate n [One is_digit_c, Run is_digit_c, One (\<lambda>c. c = CHR ''.'')]))"

definition count_dots :: "string \<Rightarrow> nat" where
  "count_dots s = length (filter (\<lambda>c. c = CHR ''.'') s)"

definition matches_number :: "string \<Rightarrow> string \<Rightarrow> bool" where
  "matches_number ident name \<longleftrightarrow> re_ends (number_pattern (count_dots ident)) name 0 \<noteq> []"

definition find_node :: "section_tree \<Rightarrow> (string \<Rightarrow> bool) \<Rightarrow> nat list \<Rightarrow> nat option" where
  "find_node st p ns = find (\<lambda>i. p (n_name (node_at st i))) ns"

text \<open>A level of \<open>None\<close> is the default \<open>-1\<close>.\<close>

definition fetch_node :: "nat option \<Rightarrow> string \<Rightarrow> bool \<Rightarrow> section_tree \<Rightarrow> nat option result" where
  "fetch_node level ident mode st =
     (case level of
        Some l \<Rightarrow>
          rbind (py_index (st_tree st) l) (\<lambda>ns.
            Inr (find_node st (if mode then matches_number ident else (\<lambda>n. n = ident)) ns))
      | None \<Rightarrow>
          Inr (find_node st (if ident \<noteq> [] then matches_number ident else (\<lambda>n. n = ident)) (concat (st_tree st))))"

definition fetch_layer :: "nat \<Rightarrow> section_tree \<Rightarrow> nat list result" where
  "fetch_layer level st = py_index (st_tree st) level"

definition fetch_node_content :: "sec_node \<Rightarrow> section_tree \<Rightarrow> string" where
  "fetch_node_content n st = py_slice (st_doc_content st) (n_start n) (n_end n)"

text \<open>\<open>level\<close> is a local of the first branch: without an ident the second one finds it unbound.\<close>

definition fetch_id_content :: "string \<Rightarrow> string \<Rightarrow> section_tree \<Rightarrow> string option result" where
  "fetch_id_content ident name st =
     (let by_name = (if name = [] then Inr None
                     else if ident = [] then Inl NameError
                     else rbind (py_index (st_tree st) (count_dots ident)) (\<lambda>ns.
                       Inr (map_option (\<lambda>i. fetch_node_content (node_at st i) st)
                              (find_node st (\<lambda>n. n = name) ns))))
      in if ident = [] then by_name
         else rbind (py_index (st_tree st) (count_dots ident)) (\<lambda>ns.
           case find_node st (matches_number ident) ns of
             Some i \<Rightarrow> Inr (Some (fetch_node_content (node_at st i) st))
           | None \<Rightarrow> by_name))"

section \<open>The tree of the patterns\<close>

definition blank_after :: regex where
  "blank_after =
     Ahead (re_seq [Opt (One (\<lambda>c. code_of c = 13)), One is_newline_c, Bol, Run is_space_c, Eol])"

text \<open>The pattern of a heading with \<open>level\<close> numbers, between blank lines.\<close>

definition section_pattern :: "nat \<Rightarrow> regex" where
  "section_pattern level =
     re_seq ([Bol, Run is_space_c, Eol, Opt (One (\<lambda>c. code_of c = 13)), One is_newline_c,
              Bol, Run (\<lambda>c. c = CHR '' '')]
             @ concat (replicate level [One is_digit_c, Run is_digit_c, One (\<lambda>c. c = CHR ''.'')])
             @ [Run (\<lambda>c. c = CHR '' ''), Run (\<lambda>c. c \<noteq> CHR '','' \<and> c \<noteq> CHR ''.'' \<and> \<not> is_newline_c c),
                Eol, blank_after])"

definition leading_space :: "string \<Rightarrow> nat" where
  "leading_space s = length (takeWhile is_space_c s)"

definition check_section :: "string \<Rightarrow> string \<Rightarrow> bool" where
  "check_section pre cur =
     (if CHR ''.'' \<in> set (py_strip cur) then True else leading_space pre < leading_space cur)"

definition heading_name :: "string \<Rightarrow> nat \<times> nat \<Rightarrow> string" where
  "heading_name text m = filter (\<lambda>c. \<not> is_newline_c c) (py_slice text (fst m) (snd m))"

text \<open>
  The sections that one call finds: each runs from its match to the next valid one, the last to the
  end of the scope.
\<close>

fun segments :: "string \<Rightarrow> nat \<Rightarrow> nat \<Rightarrow> nat \<Rightarrow> string \<Rightarrow> (nat \<times> nat) list \<Rightarrow> (nat \<times> nat \<times> string) list" where
  "segments text start en pre_start pre_name [] = [(pre_start, en, pre_name)]"
| "segments text start en pre_start pre_name (m # ms) =
     (let cur_name = heading_name text m
      in if check_section pre_name cur_name
         then (pre_start, fst m + start, pre_name) # segments text start en (fst m + start) cur_name ms
         else segments text start en pre_start pre_name ms)"

definition sections_in :: "nat \<Rightarrow> nat \<Rightarrow> nat \<Rightarrow> string \<Rightarrow> (nat \<times> nat \<times> string) list" where
  "sections_in level start en doc =
     (let text = py_slice doc start en
      in case re_finditer (section_pattern level) text 0 of
           [] \<Rightarrow> []
         | m # ms \<Rightarrow> segments text start en (fst m + start) (heading_name text m) ms)"

text \<open>One section: its node, and its place below the section named \<open>upper\<close>.\<close>

definition add_found :: "nat \<Rightarrow> string \<Rightarrow> nat \<times> nat \<times> string \<Rightarrow> section_tree \<Rightarrow> section_tree result" where
  "add_found level upper seg st =
     (case seg of (start, en, name) \<Rightarrow>
        let (node, st) = alloc (section_node level start en name) st
        in rbind (add_section node st) (\<lambda>st.
           if upper = [] then Inr st
           else rbind (fetch_node (Some (level - 1)) upper False st) (\<lambda>u.
             case u of
               None \<Rightarrow> Inr st
             | Some p \<Rightarrow> Inr (update_node node (n_upper_update (\<lambda>_. Some p)) (add_subsection p node st)))))"

lemma rfold_cong [fundef_cong]:
  assumes "xs = ys" "s = t" "\<And>u x. x \<in> set ys \<Longrightarrow> f u x = g u x"
  shows "rfold f s xs = rfold g t ys"
  using assms(3) unfolding assms(1, 2)
  by (induction ys arbitrary: t) (auto intro: rbind_cong)

lemma section_width: "2 * level < re_width (section_pattern level)"
proof -
  have "sum_list (map re_width (concat (replicate n [One is_digit_c, Run is_digit_c, One (\<lambda>c. c = CHR ''.'')]))) = 2 * n"
    for n by (induction n) auto
  then show ?thesis by (simp add: section_pattern_def)
qed

lemma sections_level: "sections_in level start en doc \<noteq> [] \<Longrightarrow> level < length doc"
proof -
  let ?text = "py_slice doc start en"
  assume "sections_in level start en doc \<noteq> []"
  then obtain i j ms where "re_finditer (section_pattern level) ?text 0 = (i, j) # ms"
    by (auto simp: sections_in_def Let_def split: list.splits)
  from re_finditer_ordered[of i j, OF list.set_intros(1)[of "(i, j)" ms, folded this]]
  have "re_width (section_pattern level) \<le> length ?text" by simp
  moreover have "length ?text \<le> length doc" by (simp add: py_slice_def)
  ultimately show ?thesis using section_width[of level] by linarith
qed

text \<open>A call that finds nothing returns; deeper patterns need longer texts, so the recursion ends.\<close>

function section_helper ::
  "string \<Rightarrow> nat \<Rightarrow> nat \<Rightarrow> nat \<Rightarrow> string \<Rightarrow> section_tree \<Rightarrow> section_tree result" where
  "section_helper doc level start en upper st =
     (let segs = sections_in level start en doc
      in if segs = [] then Inr st
         else rfold (\<lambda>st seg.
           rbind (add_found level upper seg st) (\<lambda>st.
             section_helper doc (level + 1) (fst seg) (fst (snd seg)) (snd (snd seg)) st)) st segs)"
  by auto
termination
  by (relation "measure (\<lambda>(doc, level, _). length doc - level)")
     (auto dest: sections_level intro: diff_less_mono2)

declare section_helper.simps [simp del]

definition construct_tree :: "section_tree \<Rightarrow> section_tree result" where
  "construct_tree st =
     rbind (construct_tree_from_headings st) (\<lambda>(built, st).
       if built then Inr st
       else section_helper (st_doc_content st) 1 0 (length (st_doc_content st)) ''0.'' st)"

section \<open>Leaves and the table of contents\<close>

text \<open>Walks of the tree, with fuel for the depth: \<open>None\<close> is a walk that did not come to its end.\<close>

fun ofold :: "('b \<Rightarrow> 'a \<Rightarrow> 'b option) \<Rightarrow> 'b \<Rightarrow> 'a list \<Rightarrow> 'b option" where
  "ofold f s [] = Some s"
| "ofold f s (x # xs) = (case f s x of None \<Rightarrow> None | Some s' \<Rightarrow> ofold f s' xs)"

primrec identify_leaf :: "nat \<Rightarrow> section_tree \<Rightarrow> nat \<Rightarrow> section_tree option" where
  "identify_leaf 0 st i = None"
| "identify_leaf (Suc k) st i =
     (if n_subsection (node_at st i) = []
      then let st = update_node i (n_is_leaf_update (\<lambda>_. True)) st
           in Some (st\<lparr>st_leafs := st_leafs st @ [i]\<rparr>)
      else ofold (identify_leaf k) st (n_subsection (node_at st i)))"

primrec construct_toc :: "nat \<Rightarrow> section_tree \<Rightarrow> nat \<Rightarrow> section_tree option" where
  "construct_toc 0 st i = None"
| "construct_toc (Suc k) st i =
     (let st = st\<lparr>st_doc_toc := st_doc_toc st @ CHR 0x0A # n_name (node_at st i)\<rparr>
      in if n_subsection (node_at st i) = [] then Some st
         else ofold (construct_toc k) st (n_subsection (node_at st i)))"

definition fetch_toc :: "section_tree \<Rightarrow> (string \<times> section_tree) option" where
  "fetch_toc st =
     (if st_doc_toc st \<noteq> [] then Some (st_doc_toc st, st)
      else map_option (\<lambda>st. (st_doc_toc st, st))
             (construct_toc (Suc (length (st_nodes st))) st (hd (st_tree st ! 0))))"

section \<open>The constructor\<close>

text \<open>
  The table of contents and the text without it: up to its title, and from five characters before
  the second \<open>INTRODUCTION\<close>.
\<close>

definition toc_extract :: "string \<Rightarrow> (string \<times> string) option" where
  "toc_extract doc =
     (case re_search (re_word ''Table of Contents'') doc 0 of
        None \<Rightarrow> None
      | Some (toc_start, _) \<Rightarrow>
          let content_start = (case re_finditer (re_word ''INTRODUCTION'') doc 0 of
                                 _ # m # _ \<Rightarrow> fst m - 5 | _ \<Rightarrow> 0)
          in Some (py_slice doc toc_start content_start, take toc_start doc @ drop content_start doc))"

definition appendix_pattern :: regex where
  "appendix_pattern =
     re_seq [Eol, blank_after, Bol, Run is_space_c, re_word ''appendix'',
             Run (\<lambda>c. c \<noteq> CHR '','' \<and> \<not> is_newline_c c), Eol, blank_after]"

definition apx_extract :: "string \<Rightarrow> (string \<times> string) option" where
  "apx_extract doc =
     (case re_search appendix_pattern doc 0 of
        None \<Rightarrow> None
      | Some (apx_start, _) \<Rightarrow> Some (drop apx_start doc, take apx_start doc))"

definition document_body :: "string \<Rightarrow> string \<times> string" where
  "document_body content =
     (let body = (case toc_extract content of None \<Rightarrow> content | Some (_, rest) \<Rightarrow> rest)
      in case apx_extract body of None \<Rightarrow> ([], body) | Some (apx, rest) \<Rightarrow> (apx, rest))"

text \<open>The tree before \<open>construct_tree\<close>.\<close>

definition empty_tree :: "string \<Rightarrow> string \<Rightarrow> section_tree" where
  "empty_tree name content =
     (let (apx, body) = document_body content
      in \<lparr>st_nodes = [section_node 0 0 (length body) ''0.''], st_tree = [[0]], st_leafs = [],
          st_height = 0, st_doc_toc = [], st_doc_apx = apx, st_name = name, st_doc_content = body\<rparr>)"

text \<open>\<open>None\<close> would be a constructor that does not return.\<close>

definition section_tree_init :: "string \<Rightarrow> string \<Rightarrow> section_tree option result" where
  "section_tree_init name content =
     rbind (construct_tree (empty_tree name content)) (\<lambda>st.
       Inr (identify_leaf (Suc (length (st_nodes st))) st (hd (st_tree st ! 0))))"

end
