(* ===== verification/Section_Facts.thy ===== *)
theory Section_Facts imports Section_Tree begin

text \<open>
  Facts of the section tree.  The nodes of the store that are reachable from the root form an
  \<open>outline\<close>, the tree as a value; adding a heading to the store attaches it to the last branch of
  the outline.  From this follow when the builders raise, that the walks end, and that the leaves
  cover the document.
\<close>

section \<open>Outlines\<close>

datatype outline = Outline (top: nat) (parts: "outline list")

lemma size_last_part [termination_simp]:
  "ts \<noteq> [] \<Longrightarrow> size (last ts) < Suc (size_list size ts)"
  by (induction ts) auto

fun outline_ids :: "outline \<Rightarrow> nat list" where
  "outline_ids (Outline i ts) = i # concat (map outline_ids ts)"

fun outline_leaves :: "outline \<Rightarrow> nat list" where
  "outline_leaves (Outline i ts) = (if ts = [] then [i] else concat (map outline_leaves ts))"

fun spine :: "outline \<Rightarrow> nat list" where
  "spine (Outline i ts) = i # (if ts = [] then [] else spine (last ts))"

fun attach :: "nat \<Rightarrow> outline list \<Rightarrow> outline \<Rightarrow> outline" where
  "attach p cs (Outline i ts) =
     (if i = p then Outline i (ts @ cs)
      else if ts = [] then Outline i []
      else Outline i (butlast ts @ [attach p cs (last ts)]))"

text \<open>The store holds the outline.\<close>

fun repr :: "sec_node list \<Rightarrow> outline \<Rightarrow> bool" where
  "repr ns (Outline i ts) \<longleftrightarrow>
     i < length ns \<and> n_subsection (ns ! i) = map top ts \<and> (\<forall>t \<in> set ts. repr ns t)"

lemma outline_leaves_nonempty [simp]: "outline_leaves t \<noteq> []"
proof (induction t rule: outline_leaves.induct)
  case (1 i ts)
  then show ?case by (cases ts) auto
qed

lemma spine_nonempty [simp]: "spine t \<noteq> []"
  by (cases t) auto

lemma hd_spine [simp]: "hd (spine t) = top t"
  by (cases t) auto

lemma last_concat_map: "ts \<noteq> [] \<Longrightarrow> f (last ts) \<noteq> [] \<Longrightarrow> last (concat (map f ts)) = last (f (last ts))"
  by (induction ts rule: rev_induct) auto

lemma last_spine: "last (spine t) = last (outline_leaves t)"
  by (induction t rule: spine.induct) (auto simp: last_concat_map)

lemma spine_ids: "set (spine t) \<subseteq> set (outline_ids t)"
  by (induction t rule: spine.induct) (auto, meson last_in_set subsetD)

lemma concat_map_butlast_last:
  "ts \<noteq> [] \<Longrightarrow> concat (map f ts) = concat (map f (butlast ts)) @ f (last ts)"
  by (induction ts rule: rev_induct) auto

lemma last_spine_part: "p \<in> set (spine t) \<Longrightarrow> distinct (outline_ids t) \<Longrightarrow> parts t \<noteq> [] \<Longrightarrow> top t \<noteq> last (spine t)"
proof (cases t)
  case (Outline i ts)
  assume "distinct (outline_ids t)" "parts t \<noteq> []"
  with Outline have ts: "ts \<noteq> []" "i \<notin> set (outline_ids (last ts))" by auto
  then have "i \<notin> set (spine (last ts))" using spine_ids by blast
  with ts Outline show ?thesis by (auto dest: last_in_set[OF spine_nonempty, of "last ts", elim_format])
qed

text \<open>What attaching does to the ids, the leaves and the last branch.\<close>

lemma attach_ids:
  "p \<in> set (spine t) \<Longrightarrow> outline_ids (attach p cs t) = outline_ids t @ concat (map outline_ids cs)"
  by (induction p cs t rule: attach.induct)
     (auto simp: concat_map_butlast_last split: if_splits)

lemma top_attach [simp]: "top (attach p cs t) = top t"
  by (cases t) auto

lemma attach_leaves:
  assumes "p \<in> set (spine t)" "distinct (outline_ids t)" "cs \<noteq> []"
  shows "outline_leaves (attach p cs t) =
           (if p = last (spine t) then butlast (outline_leaves t) else outline_leaves t)
           @ concat (map outline_leaves cs)"
  using assms
proof (induction p cs t rule: attach.induct)
  case (1 p cs i ts)
  show ?case
  proof (cases "i = p")
    case True
    then show ?thesis using 1 last_spine_part[of p "Outline i ts"] by auto
  next
    case False
    then have ts: "ts \<noteq> []" "p \<in> set (spine (last ts))" using 1(2) by (auto split: if_splits)
    moreover from ts 1(3) have "distinct (outline_ids (last ts))"
      by (simp add: concat_map_butlast_last)
    ultimately show ?thesis using 1(1)[OF False] 1(4) False
      by (auto simp: concat_map_butlast_last butlast_append)
  qed
qed

lemma attach_spine:
  assumes "p \<in> set (spine t)" "distinct (outline_ids t)"
  shows "spine (attach p (cs @ [Outline n []]) t) = takeWhile (\<lambda>i. i \<noteq> p) (spine t) @ [p, n]"
  using assms
proof (induction p "cs @ [Outline n []]" t rule: attach.induct)
  case (1 p i ts)
  show ?case
  proof (cases "i = p")
    case False
    then have ts: "ts \<noteq> []" "p \<in> set (spine (last ts))" using 1(2) by (auto split: if_splits)
    moreover from ts 1(3) have "distinct (outline_ids (last ts))"
      by (simp add: concat_map_butlast_last)
    ultimately show ?thesis using 1(1)[OF False] False by auto
  qed simp
qed

lemma repr_frame:
  assumes "repr ns t" "length ns \<le> length ns'"
    "\<And>i. i \<in> set (outline_ids t) \<Longrightarrow> i < length ns \<Longrightarrow> n_subsection (ns' ! i) = n_subsection (ns ! i)"
  shows "repr ns' t"
  using assms by (induction ns t rule: repr.induct) fastforce

lemma repr_attach:
  assumes "repr ns t" "p \<in> set (spine t)" "distinct (outline_ids t)" "length ns \<le> length ns'"
    and "\<And>i. i < length ns \<Longrightarrow> i \<noteq> p \<Longrightarrow> n_subsection (ns' ! i) = n_subsection (ns ! i)"
    and "n_subsection (ns' ! p) = n_subsection (ns ! p) @ new"
    and "\<And>j. j \<in> set new \<Longrightarrow> j < length ns' \<and> n_subsection (ns' ! j) = []"
  shows "repr ns' (attach p (map (\<lambda>j. Outline j []) new) t)"
  using assms
proof (induction p "map (\<lambda>j. Outline j []) new" t rule: attach.induct)
  case (1 p i ts)
  note frame = repr_frame[OF _ 1(5)]
  show ?case
  proof (cases "i = p")
    case True
    then have "p \<notin> set (outline_ids t)" if "t \<in> set ts" for t using 1(4) that by auto
    then have "repr ns' t" if "t \<in> set ts" for t
      using that 1(2) by (intro frame) (auto intro!: 1(6))
    then show ?thesis using True 1(2, 5-8) by (auto simp: comp_def)
  next
    case False
    then have ts: "ts \<noteq> []" "p \<in> set (spine (last ts))" using 1(3) by (auto split: if_splits)
    then have d: "distinct (outline_ids (last ts))" "p \<in> set (outline_ids (last ts))"
      using 1(4) spine_ids by (auto simp: concat_map_butlast_last)
    have "p \<notin> set (outline_ids t)" if "t \<in> set (butlast ts)" for t
      using 1(4) ts that d(2) by (auto simp: concat_map_butlast_last)
    then have b: "repr ns' t" if "t \<in> set (butlast ts)" for t
      using that 1(2) by (intro frame) (auto dest: in_set_butlastD intro!: 1(6))
    have l: "repr ns' (attach p (map (\<lambda>j. Outline j []) new) (last ts))"
      using 1(1)[OF False ts(1) _ ts(2) d(1) 1(5-8)] 1(2) ts(1) by simp
    have "map top ts = map top (butlast ts) @ [top (last ts)]" using ts(1)
      by (metis append_butlast_last_id list.simps(8) list.simps(9) map_append)
    then show ?thesis using False ts(1) b l 1(2, 5, 6) by (auto simp del: map_butlast)
  qed
qed

section \<open>Walking the tree\<close>

text \<open>Children come after their parents in the store, whichever builder made the tree.\<close>

definition children_later :: "sec_node list \<Rightarrow> bool" where
  "children_later ns \<longleftrightarrow>
     (\<forall>i < length ns. \<forall>c \<in> set (n_subsection (ns ! i)). i < c \<and> c < length ns)"

definition skeleton :: "section_tree \<Rightarrow> nat list list" where
  "skeleton st = map n_subsection (st_nodes st)"

lemma skeleton_at: "skeleton st = skeleton st' \<Longrightarrow> i < length (st_nodes st) \<Longrightarrow>
    n_subsection (node_at st i) = n_subsection (node_at st' i)"
  unfolding skeleton_def by (metis length_map nth_map)

lemma skeleton_length: "skeleton st = skeleton st' \<Longrightarrow> length (st_nodes st) = length (st_nodes st')"
  unfolding skeleton_def by (metis length_map)

lemma skeleton_later: "skeleton st = skeleton st' \<Longrightarrow> children_later (st_nodes st) \<Longrightarrow> children_later (st_nodes st')"
  unfolding children_later_def using skeleton_at skeleton_length by metis

text \<open>A walk that visits the children of a node in the store ends, with fuel for what lies after it.\<close>

lemma ofold_total:
  assumes "P s" "\<And>s x. x \<in> set xs \<Longrightarrow> P s \<Longrightarrow> \<exists>s'. f s x = Some s' \<and> P s'"
  shows "\<exists>s'. ofold f s xs = Some s' \<and> P s'"
  using assms
proof (induction xs arbitrary: s)
  case (Cons x xs)
  obtain s' where "f s x = Some s'" "P s'" using Cons.prems by (meson list.set_intros(1))
  with Cons.IH[of s'] Cons.prems(2) show ?case by simp
qed simp

lemma map_update_same: "f (g (ns ! i)) = f (ns ! i) \<Longrightarrow> map f (ns[i := g (ns ! i)]) = map f ns"
  by (cases "i < length ns") (simp_all add: list_eq_iff_nth_eq nth_list_update)

lemma skeleton_mark [simp]:
  "skeleton (update_node i (n_is_leaf_update f) st) = skeleton st"
  "skeleton (update_node i (n_end_update g) st) = skeleton st"
  "skeleton (update_node i (n_upper_update h) st) = skeleton st"
  "skeleton (st\<lparr>st_leafs := l\<rparr>) = skeleton st"
  "skeleton (st\<lparr>st_doc_toc := t\<rparr>) = skeleton st"
  by (simp_all add: skeleton_def update_node_def map_update_same)

text \<open>What a walk of the later nodes may use of a state with the same edges.\<close>

lemma skeleton_child:
  assumes "skeleton s = skeleton st" "children_later (st_nodes st)" "i < length (st_nodes st)"
    "x \<in> set (n_subsection (node_at st i))" "length (st_nodes st) - i \<le> Suc k"
  shows "children_later (st_nodes s)" "x < length (st_nodes s)" "length (st_nodes s) - x \<le> k"
proof -
  have "i < x" "x < length (st_nodes st)" using assms(2-4) unfolding children_later_def by blast+
  then show "x < length (st_nodes s)" "length (st_nodes s) - x \<le> k"
    unfolding skeleton_length[OF assms(1)] using assms(5) by linarith+
  show "children_later (st_nodes s)" by (rule skeleton_later[OF assms(1)[symmetric] assms(2)])
qed

lemma identify_leaf_total:
  assumes "children_later (st_nodes st)" "i < length (st_nodes st)" "length (st_nodes st) - i \<le> k"
  shows "\<exists>st'. identify_leaf k st i = Some st' \<and> skeleton st' = skeleton st"
  using assms
proof (induction k arbitrary: i st)
  case (Suc k)
  show ?case
  proof (cases "n_subsection (node_at st i) = []")
    case False
    have "\<exists>s'. ofold (identify_leaf k) st (n_subsection (node_at st i)) = Some s' \<and> skeleton s' = skeleton st"
    proof (rule ofold_total)
      fix s x assume x: "x \<in> set (n_subsection (node_at st i))" "skeleton s = skeleton st"
      from Suc.IH[OF skeleton_child[OF x(2) Suc.prems(1,2) x(1) Suc.prems(3)]]
      show "\<exists>s'. identify_leaf k s x = Some s' \<and> skeleton s' = skeleton st" unfolding x(2) .
    qed simp
    with False show ?thesis by simp
  qed (simp add: Let_def)
qed simp

lemma construct_toc_total:
  assumes "children_later (st_nodes st)" "i < length (st_nodes st)" "length (st_nodes st) - i \<le> k"
  shows "\<exists>st'. construct_toc k st i = Some st' \<and> skeleton st' = skeleton st"
  using assms
proof (induction k arbitrary: i st)
  case (Suc k)
  let ?st = "st\<lparr>st_doc_toc := st_doc_toc st @ CHR 0x0A # n_name (node_at st i)\<rparr>"
  have "\<exists>s'. ofold (construct_toc k) ?st (n_subsection (node_at st i)) = Some s' \<and> skeleton s' = skeleton st"
  proof (rule ofold_total)
    fix s x assume x: "x \<in> set (n_subsection (node_at st i))" "skeleton s = skeleton st"
    from Suc.IH[OF skeleton_child[OF x(2) Suc.prems(1,2) x(1) Suc.prems(3)]]
    show "\<exists>s'. construct_toc k s x = Some s' \<and> skeleton s' = skeleton st" unfolding x(2) .
  qed simp
  then show ?case by (simp add: Let_def)
qed simp

text \<open>On an outline the walk lists its leaves, in order.\<close>

lemma ofold_leaves:
  assumes "ofold f st (map top ts) = Some st'" "\<forall>t \<in> set ts. repr (st_nodes st) t"
    and "\<And>t s s'. t \<in> set ts \<Longrightarrow> repr (st_nodes s) t \<Longrightarrow> f s (top t) = Some s' \<Longrightarrow>
           st_leafs s' = st_leafs s @ outline_leaves t \<and> (\<forall>u. repr (st_nodes s) u \<longrightarrow> repr (st_nodes s') u)"
  shows "st_leafs st' = st_leafs st @ concat (map outline_leaves ts) \<and>
         (\<forall>u. repr (st_nodes st) u \<longrightarrow> repr (st_nodes st') u)"
  using assms
proof (induction ts arbitrary: st)
  case (Cons t ts)
  then obtain s where s: "f st (top t) = Some s" "ofold f s (map top ts) = Some st'"
    by (auto split: option.splits)
  note h = Cons.prems(3)[OF list.set_intros(1) _ s(1)]
  have r: "st_leafs s = st_leafs st @ outline_leaves t" "\<forall>u. repr (st_nodes st) u \<longrightarrow> repr (st_nodes s) u"
    using h Cons.prems(2) by auto
  have "\<forall>t \<in> set ts. repr (st_nodes s) t" using Cons.prems(2) r(2) by simp
  then have "st_leafs st' = st_leafs s @ concat (map outline_leaves ts) \<and>
      (\<forall>u. repr (st_nodes s) u \<longrightarrow> repr (st_nodes st') u)"
    by (rule Cons.IH[OF s(2)]) (rule Cons.prems(3)[OF list.set_intros(2)])
  then show ?case unfolding r(1) using r(2) by (intro conjI) (simp, blast)
qed simp

lemma repr_skeleton: "skeleton st = skeleton st' \<Longrightarrow> repr (st_nodes st) t \<Longrightarrow> repr (st_nodes st') t"
  by (erule repr_frame) (blast intro: eq_refl skeleton_length, metis skeleton_at)

lemma identify_leaf_outline:
  assumes "identify_leaf k st (top t) = Some st'" "repr (st_nodes st) t"
  shows "st_leafs st' = st_leafs st @ outline_leaves t \<and>
         (\<forall>u. repr (st_nodes st) u \<longrightarrow> repr (st_nodes st') u)"
  using assms
proof (induction k arbitrary: st st' t)
  case (Suc k)
  obtain i ts where t: "t = Outline i ts" by (cases t)
  show ?case
  proof (cases "ts = []")
    case True
    then have st': "st' = (update_node i (n_is_leaf_update (\<lambda>_. True)) st)\<lparr>st_leafs := st_leafs st @ [i]\<rparr>"
      using Suc.prems t by (simp add: Let_def update_node_def)
    have "skeleton st' = skeleton st" unfolding st' by (simp only: skeleton_mark)
    moreover have "st_leafs st' = st_leafs st @ [i]" unfolding st' by simp
    ultimately show ?thesis using True t repr_skeleton by (metis outline_leaves.simps)
  next
    case False
    with Suc.prems t have "ofold (identify_leaf k) st (map top ts) = Some st'"
      "\<forall>t \<in> set ts. repr (st_nodes st) t" by auto
    from ofold_leaves[OF this] Suc.IH False t show ?thesis by simp
  qed
qed simp

section \<open>Which levels the tree takes\<close>

lemma update_node_fields [simp]:
  "st_tree (update_node i f st) = st_tree st" "st_height (update_node i f st) = st_height st"
  "st_doc_content (update_node i f st) = st_doc_content st" "st_leafs (update_node i f st) = st_leafs st"
  "length (st_nodes (update_node i f st)) = length (st_nodes st)"
  "st_doc_toc (update_node i f st) = st_doc_toc st"
  "st_nodes (update_node i f st) = [] \<longleftrightarrow> st_nodes st = []"
  by (simp_all add: update_node_def)

lemma append_child_fields [simp]:
  "st_tree (append_child i c st) = st_tree st" "st_height (append_child i c st) = st_height st"
  "st_doc_content (append_child i c st) = st_doc_content st" "st_leafs (append_child i c st) = st_leafs st"
  "length (st_nodes (append_child i c st)) = length (st_nodes st)"
  by (simp_all add: append_child_def)

lemma add_subsection_fields [simp]:
  "st_tree (add_subsection p n st) = st_tree st" "st_height (add_subsection p n st) = st_height st"
  "st_doc_content (add_subsection p n st) = st_doc_content st" "st_leafs (add_subsection p n st) = st_leafs st"
  by (simp_all add: add_subsection_def alloc_def Let_def)

lemma add_section_InrD:
  assumes "add_section n st = Inr st'"
  shows "st_nodes st' = st_nodes st" "st_doc_content st' = st_doc_content st" "st_leafs st' = st_leafs st"
    "st_height st' = max (st_height st) (min (n_level (node_at st n)) (Suc (st_height st)))"
  using assms by (auto simp: add_section_def Let_def split: if_splits)

text \<open>The height is that of the level lists; a level is taken if it is at most one deeper.\<close>

definition tree_height_ok :: "section_tree \<Rightarrow> bool" where
  "tree_height_ok st \<longleftrightarrow> length (st_tree st) = Suc (st_height st)"

lemma add_section_cases:
  assumes "tree_height_ok st"
  shows "if n_level (node_at st n) \<le> Suc (st_height st)
         then \<exists>st'. add_section n st = Inr st' \<and> tree_height_ok st' \<and>
                    st_height st' = max (st_height st) (n_level (node_at st n))
         else add_section n st = Inl IndexError"
  using assms by (auto simp: add_section_def Let_def tree_height_ok_def)

fun levels_ok :: "nat \<Rightarrow> nat list \<Rightarrow> bool" where
  "levels_ok h [] \<longleftrightarrow> True"
| "levels_ok h (l # ls) \<longleftrightarrow> l \<le> Suc h \<and> levels_ok (max h l) ls"

lemma build_step_height:
  assumes "tree_height_ok st"
  shows "if h_level c \<le> Suc (st_height st)
         then \<exists>stack' nodes' st'. build_step (stack, nodes, st) c = Inr (stack', nodes', st') \<and>
                tree_height_ok st' \<and> st_height st' = max (st_height st) (h_level c)
         else build_step (stack, nodes, st) c = Inl IndexError"
proof -
  let ?a = "alloc (section_node (h_level c) (h_offset c) (length (st_doc_content st)) (h_raw c)) st"
  have "tree_height_ok (snd ?a)" "st_height (snd ?a) = st_height st"
    "n_level (node_at (snd ?a) (fst ?a)) = h_level c"
    using assms by (simp_all add: alloc_def tree_height_ok_def section_node_def)
  with add_section_cases[of "snd ?a" "fst ?a"] show ?thesis
    by (auto simp: build_step_def Let_def split_beta tree_height_ok_def split: if_splits)
qed

lemma build_levels:
  assumes "tree_height_ok st"
  shows "if levels_ok (st_height st) (map h_level cs)
         then \<exists>s'. rfold build_step (stack, nodes, st) cs = Inr s'
         else rfold build_step (stack, nodes, st) cs = Inl IndexError"
  using assms
proof (induction cs arbitrary: stack nodes st)
  case (Cons c cs)
  show ?case
  proof (cases "h_level c \<le> Suc (st_height st)")
    case True
    then obtain stack' nodes' st' where s: "build_step (stack, nodes, st) c = Inr (stack', nodes', st')"
      "tree_height_ok st'" "st_height st' = max (st_height st) (h_level c)"
      using build_step_height[OF Cons.prems] by meson
    from Cons.IH[OF s(2)] s True show ?thesis by auto
  next
    case False
    then have "build_step (stack, nodes, st) c = Inl IndexError"
      using build_step_height[OF Cons.prems] by meson
    with False show ?thesis by simp
  qed
qed simp

definition headings_of :: "string \<Rightarrow> candidate list" where
  "headings_of doc = filter_heading_candidates (scan_heading_candidates doc)"

lemma construct_headings_raises:
  "construct_tree_from_headings st = Inl e \<longleftrightarrow>
     e = IndexError \<and> 2 \<le> length (headings_of (st_doc_content st)) \<and>
     \<not> levels_ok 0 (map h_level (headings_of (st_doc_content st)))"
proof -
  let ?st = "st\<lparr>st_nodes := [root_node st], st_tree := [[0]], st_height := 0\<rparr>"
  have "tree_height_ok ?st" by (simp add: tree_height_ok_def)
  from build_levels[OF this, of "headings_of (st_doc_content st)" "[0]" "[]"] show ?thesis
    by (auto simp: construct_tree_from_headings_def Let_def headings_of_def split: if_splits)
qed

section \<open>The patterns never raise\<close>

lemma add_found_height:
  assumes "tree_height_ok st" "0 < level" "level \<le> Suc (st_height st)"
  shows "\<exists>st'. add_found level upper seg st = Inr st' \<and> tree_height_ok st' \<and>
               level \<le> st_height st' \<and> st_height st \<le> st_height st'"
proof -
  obtain start en name where seg: "seg = (start, en, name)" by (cases seg)
  let ?a = "alloc (section_node level start en name) st"
  have "tree_height_ok (snd ?a)" "st_height (snd ?a) = st_height st"
    "n_level (node_at (snd ?a) (fst ?a)) = level"
    using assms by (simp_all add: alloc_def tree_height_ok_def section_node_def)
  with add_section_cases[of "snd ?a" "fst ?a"] assms(3) obtain st1 where st1:
    "add_section (fst ?a) (snd ?a) = Inr st1" "tree_height_ok st1" "st_height st1 = max (st_height st) level"
    by auto
  have "level - 1 < length (st_tree st1)"
    using st1(2) unfolding tree_height_ok_def st1(3) by linarith
  then obtain ns where ns: "py_index (st_tree st1) (level - 1) = Inr ns" by (simp add: py_index_def)
  show ?thesis
  proof (cases "upper = [] \<or> find_node st1 (\<lambda>n. n = upper) ns = None")
    case True
    with st1 ns have "add_found level upper seg st = Inr st1"
      by (auto simp: add_found_def seg Let_def split_beta fetch_node_def)
    with st1 show ?thesis by simp
  next
    case False
    then obtain p where "upper \<noteq> []" "find_node st1 (\<lambda>n. n = upper) ns = Some p" by auto
    with st1(1) ns have "add_found level upper seg st =
        Inr (update_node (fst ?a) (n_upper_update (\<lambda>_. Some p)) (add_subsection p (fst ?a) st1))"
      by (simp add: add_found_def seg Let_def split_beta fetch_node_def)
    with st1(2,3) show ?thesis by (simp add: tree_height_ok_def)
  qed
qed

lemma rfold_total:
  assumes "P s" "\<And>x t. x \<in> set xs \<Longrightarrow> P t \<Longrightarrow> \<exists>t'. f t x = Inr t' \<and> P t'"
  shows "\<exists>s'. rfold f s xs = Inr s' \<and> P s'"
  using assms
proof (induction xs arbitrary: s)
  case (Cons x xs)
  obtain t where "f s x = Inr t" "P t" using Cons.prems by (meson list.set_intros(1))
  with Cons.IH[of t] Cons.prems(2) show ?case by simp
qed simp

lemma section_helper_total:
  assumes "tree_height_ok st" "0 < level" "level \<le> Suc (st_height st)"
  shows "\<exists>st'. section_helper doc level start en upper st = Inr st' \<and> tree_height_ok st' \<and>
               st_height st \<le> st_height st'"
  using assms
proof (induction doc level start en upper st rule: section_helper.induct)
  case (1 doc level start en upper st)
  let ?segs = "sections_in level start en doc"
  show ?case
  proof (cases "?segs = []")
    case False
    have "\<exists>s'. rfold (\<lambda>st seg. rbind (add_found level upper seg st) (\<lambda>st.
                 section_helper doc (level + 1) (fst seg) (fst (snd seg)) (snd (snd seg)) st)) st ?segs = Inr s' \<and>
               (tree_height_ok s' \<and> st_height st \<le> st_height s')"
    proof (rule rfold_total)
      fix seg t assume t: "seg \<in> set ?segs" "tree_height_ok t \<and> st_height st \<le> st_height t"
      with 1(3,4) have "level \<le> Suc (st_height t)" by simp
      from add_found_height[OF _ 1(3) this] t obtain u where u: "add_found level upper seg t = Inr u"
        "tree_height_ok u" "level \<le> st_height u" "st_height t \<le> st_height u" by blast
      from 1(1)[OF refl False t(1) u(1,2)] u t show "\<exists>t'. rbind (add_found level upper seg t) (\<lambda>st.
          section_helper doc (level + 1) (fst seg) (fst (snd seg)) (snd (snd seg)) st) = Inr t' \<and>
          tree_height_ok t' \<and> st_height st \<le> st_height t'" by fastforce
    qed (use 1 in simp)
    with False show ?thesis by (subst section_helper.simps) (simp add: Let_def)
  qed (use 1 in \<open>subst section_helper.simps, simp\<close>)
qed

section \<open>The store of both builders\<close>

definition pads :: "nat \<Rightarrow> nat \<Rightarrow> section_tree \<Rightarrow> bool" where
  "pads p n st \<longleftrightarrow> n_subsection (node_at st p) = [] \<and>
     n_start (node_at st p) + length (n_name (node_at st p)) + 5 < n_start (node_at st n)"

definition new_children :: "nat \<Rightarrow> nat \<Rightarrow> section_tree \<Rightarrow> nat list" where
  "new_children p n st = (if pads p n st then [length (st_nodes st), n] else [n])"

lemma add_subsection_nodes:
  assumes "p < length (st_nodes st)"
  shows "st_nodes (add_subsection p n st) =
           (st_nodes st @ (if pads p n st then [padding_node (node_at st p) (node_at st n) p] else []))
           [p := n_subsection_update (\<lambda>cs. cs @ new_children p n st) (node_at st p)]"
  using assms
  by (simp add: add_subsection_def pads_def new_children_def Let_def alloc_def append_child_def
      update_node_def list_update_append nth_append comp_def)

lemma padding_subsection [simp]: "n_subsection (padding_node a b i) = []"
  by (simp add: padding_node_def section_node_def)

lemma add_subsection_at:
  assumes "p < length (st_nodes st)" "i < length (st_nodes st)"
  shows "node_at (add_subsection p n st) i =
           (if i = p then n_subsection_update (\<lambda>cs. cs @ new_children p n st) (node_at st p) else node_at st i)"
  using assms by (simp add: add_subsection_nodes nth_list_update nth_append)

lemma add_subsection_pad:
  assumes "p < length (st_nodes st)" "pads p n st"
  shows "node_at (add_subsection p n st) (length (st_nodes st)) = padding_node (node_at st p) (node_at st n) p"
  using assms by (simp add: add_subsection_nodes nth_list_update nth_append)

lemma add_subsection_length:
  assumes "p < length (st_nodes st)"
  shows "length (st_nodes (add_subsection p n st)) = length (st_nodes st) + (if pads p n st then 1 else 0)"
  using assms by (simp add: add_subsection_nodes)

definition store_ok :: "section_tree \<Rightarrow> bool" where
  "store_ok st \<longleftrightarrow> children_later (st_nodes st) \<and> st_nodes st \<noteq> [] \<and> st_tree st \<noteq> [] \<and> st_tree st ! 0 = [0] \<and>
     (\<forall>ns \<in> set (st_tree st). \<forall>i \<in> set ns. i < length (st_nodes st))"

lemma children_later_subsection:
  assumes "children_later (st_nodes st)" "p < n" "n < length (st_nodes st)"
  shows "children_later (st_nodes (add_subsection p n st))"
proof -
  have p: "p < length (st_nodes st)" using assms by simp
  let ?st = "add_subsection p n st"
  have "i < c \<and> c < length (st_nodes ?st)"
    if i: "i < length (st_nodes ?st)" and c: "c \<in> set (n_subsection (node_at ?st i))" for i c
  proof (cases "i < length (st_nodes st)")
    case True
    have old: "i < d \<and> d < length (st_nodes st)" if "d \<in> set (n_subsection (node_at st i))" for d
      using assms(1) True that unfolding children_later_def by blast
    have "c \<in> set (n_subsection (node_at st i)) \<or> i = p \<and> c \<in> set (new_children p n st)"
      using c add_subsection_at[OF p True, of n] by (auto split: if_splits)
    then show ?thesis using old[of c] assms p add_subsection_length[OF p, of n]
      by (auto simp: new_children_def split: if_splits)
  next
    case False
    with i add_subsection_length[OF p, of n] have "i = length (st_nodes st)" "pads p n st"
      by (auto split: if_splits)
    with add_subsection_pad[OF p] c show ?thesis by simp
  qed
  then show ?thesis unfolding children_later_def by blast
qed

lemma store_ok_subsection:
  assumes "store_ok st" "p < n" "n < length (st_nodes st)"
  shows "store_ok (add_subsection p n st)"
proof -
  have p: "p < length (st_nodes st)" using assms by simp
  show ?thesis
    using assms(1) children_later_subsection[OF _ assms(2,3)] add_subsection_length[OF p, of n]
    by (auto simp: store_ok_def less_SucI split: if_splits)
qed

lemma store_ok_upper: "store_ok st \<Longrightarrow> store_ok (update_node i (n_upper_update f) st)"
  using skeleton_later[OF skeleton_mark(3)[symmetric], of st i f] by (auto simp: store_ok_def)

lemma alloc_simps:
  "fst (alloc n st) = length (st_nodes st)" "st_nodes (snd (alloc n st)) = st_nodes st @ [n]"
  "st_tree (snd (alloc n st)) = st_tree st" "st_height (snd (alloc n st)) = st_height st"
  "st_doc_content (snd (alloc n st)) = st_doc_content st" "st_leafs (snd (alloc n st)) = st_leafs st"
  by (simp_all add: alloc_def)

lemma children_later_snoc:
  assumes "children_later ns" "n_subsection n = []"
  shows "children_later (ns @ [n])"
  unfolding children_later_def
proof (intro allI impI ballI)
  fix i c assume i: "i < length (ns @ [n])" and c: "c \<in> set (n_subsection ((ns @ [n]) ! i))"
  with assms(2) have "i < length ns" "c \<in> set (n_subsection (ns ! i))"
    by (auto simp: nth_append less_Suc_eq split: if_splits)
  with assms(1) have "i < c \<and> c < length ns" unfolding children_later_def by blast
  then show "i < c \<and> c < length (ns @ [n])" by simp
qed

lemma store_ok_alloc:
  assumes "store_ok st" "n_subsection n = []"
  shows "store_ok (snd (alloc n st))"
  using assms children_later_snoc by (auto simp: store_ok_def alloc_simps less_SucI)

text \<open>Only the list of its level gains the node.\<close>

lemma add_section_tree:
  assumes "add_section n st = Inr st'"
  shows "l < length (st_tree st') \<Longrightarrow> st_tree st' ! l =
           (if l < length (st_tree st) then st_tree st ! l else []) @ (if l = n_level (node_at st n) then [n] else [])"
    "length (st_tree st) \<le> length (st_tree st')" "length (st_tree st') \<le> Suc (length (st_tree st))"
  using assms by (auto simp: add_section_def Let_def nth_append nth_list_update split: if_splits)

lemma store_ok_add_section:
  assumes "store_ok st" "add_section n st = Inr st'" "0 < n_level (node_at st n)" "n < length (st_nodes st)"
  shows "store_ok st'"
proof -
  note t = add_section_tree[OF assms(2)] and d = add_section_InrD[OF assms(2)]
  have "i < length (st_nodes st')" if "l < length (st_tree st')" "i \<in> set (st_tree st' ! l)" for l i
    using t(1)[OF that(1)] that(2) assms(1,4) by (auto simp: store_ok_def d split: if_splits)
  then have "\<forall>ns \<in> set (st_tree st'). \<forall>i \<in> set ns. i < length (st_nodes st')"
    by (metis in_set_conv_nth)
  moreover have "st_tree st' \<noteq> [] \<and> st_tree st' ! 0 = [0]"
    using t(1)[of 0] t(2) assms(1,3) by (cases "st_tree st'") (auto simp: store_ok_def)
  ultimately show ?thesis using assms(1) by (simp add: store_ok_def d)
qed

lemma add_found_store:
  assumes "store_ok st" "add_found level upper seg st = Inr st'" "0 < level"
  shows "store_ok st'"
proof -
  obtain start en name where seg: "seg = (start, en, name)" by (cases seg)
  let ?a = "alloc (section_node level start en name) st"
  have lv: "n_level (node_at (snd ?a) (fst ?a)) = level"
    by (simp add: alloc_simps section_node_def)
  have ok: "store_ok (snd ?a)" by (rule store_ok_alloc[OF assms(1)]) (simp add: section_node_def)
  from assms(2) obtain st1 where st1: "add_section (fst ?a) (snd ?a) = Inr st1"
    by (auto simp: add_found_def seg Let_def split_beta)
  have ok1: "store_ok st1"
    by (rule store_ok_add_section[OF ok st1]) (use assms(3) lv in \<open>simp_all add: alloc_simps\<close>)
  have len: "length (st_nodes st1) = Suc (length (st_nodes st))"
    using add_section_InrD(1)[OF st1] by (simp add: alloc_simps)
  show ?thesis
  proof (cases "st' = st1")
    case False
    with assms(2) st1 obtain p ns where p: "py_index (st_tree st1) (level - 1) = Inr ns"
      "find_node st1 (\<lambda>n. n = upper) ns = Some p" "upper \<noteq> []"
      by (auto simp: add_found_def seg Let_def split_beta fetch_node_def split: if_splits option.splits)
    then have "level - 1 < length (st_tree st1)" "ns = st_tree st1 ! (level - 1)"
      by (auto simp: py_index_def split: if_splits)
    moreover have "level - Suc 0 \<noteq> level" using assms(3) by simp
    moreover have "p \<in> set ns" using p(2) by (auto simp: find_node_def find_Some_iff)
    ultimately have "p \<in> set (if level - 1 < length (st_tree st) then st_tree st ! (level - 1) else [])"
      using add_section_tree(1)[OF st1, of "level - 1"] lv assms(3) by (simp add: alloc_simps)
    then have "p < length (st_nodes st)" using assms(1) by (auto simp: store_ok_def split: if_splits)
    with len have "store_ok (add_subsection p (fst ?a) st1)"
      by (intro store_ok_subsection[OF ok1]) (simp_all add: alloc_simps)
    moreover have "st' = update_node (fst ?a) (n_upper_update (\<lambda>_. Some p)) (add_subsection p (fst ?a) st1)"
      using assms(2) st1 p by (simp add: add_found_def seg Let_def split_beta fetch_node_def)
    ultimately show ?thesis using store_ok_upper by simp
  qed (use ok1 in simp)
qed

lemma section_helper_store:
  assumes "section_helper doc level start en upper st = Inr st'" "store_ok st" "0 < level"
  shows "store_ok st'"
  using assms
proof (induction doc level start en upper st arbitrary: st' rule: section_helper.induct)
  case (1 doc level start en upper st)
  let ?segs = "sections_in level start en doc"
  show ?case
  proof (cases "?segs = []")
    case False
    with 1(2) have "rfold (\<lambda>st seg. rbind (add_found level upper seg st) (\<lambda>st.
        section_helper doc (level + 1) (fst seg) (fst (snd seg)) (snd (snd seg)) st)) st ?segs = Inr st'"
      by (subst (asm) section_helper.simps) (simp add: Let_def)
    then show ?thesis
    proof (rule rfold_invariant[where I = store_ok])
      fix t seg t' assume t: "seg \<in> set ?segs" "store_ok t"
        "rbind (add_found level upper seg t) (\<lambda>st.
           section_helper doc (level + 1) (fst seg) (fst (snd seg)) (snd (snd seg)) st) = Inr t'"
      then obtain u where u: "add_found level upper seg t = Inr u"
        "section_helper doc (level + 1) (fst seg) (fst (snd seg)) (snd (snd seg)) u = Inr t'" by auto
      show "store_ok t'"
        by (rule 1(1)[OF refl False t(1) u(1,2) add_found_store[OF t(2) u(1) 1(4)]]) simp
    qed (use 1 in simp)
  qed (use 1 in \<open>subst (asm) (2) section_helper.simps, simp\<close>)
qed

section \<open>The loop over the headings builds an outline\<close>

lemma distinct_spine: "distinct (outline_ids t) \<Longrightarrow> distinct (spine t)"
proof (induction t rule: spine.induct)
  case (1 i ts)
  show ?case
  proof (cases "ts = []")
    case False
    with 1(2) have "distinct (outline_ids (last ts))" "i \<notin> set (outline_ids (last ts))"
      by (auto simp: concat_map_butlast_last)
    with 1(1)[OF False] False spine_ids show ?thesis by auto
  qed simp
qed

lemma repr_ids: "repr ns t \<Longrightarrow> i \<in> set (outline_ids t) \<Longrightarrow> i < length ns"
  by (induction ns t rule: repr.induct) auto

lemma repr_spine_last: "repr ns t \<Longrightarrow> n_subsection (ns ! last (spine t)) = []"
proof (induction t rule: spine.induct)
  case (1 i ts)
  then show ?case by (cases "ts = []") auto
qed

lemma repr_spine_inner:
  "repr ns t \<Longrightarrow> p \<in> set (spine t) \<Longrightarrow> p \<noteq> last (spine t) \<Longrightarrow> n_subsection (ns ! p) \<noteq> []"
proof (induction t rule: spine.induct)
  case (1 i ts)
  then show ?case by (cases "ts = []") auto
qed

text \<open>
  What the span of one heading, up to the next one, became: a leaf of its own, a padding leaf, or
  nothing if only the heading's own text, and at most five characters, would be in it.
\<close>

definition row_ok :: "sec_node list \<Rightarrow> nat list \<Rightarrow> nat \<Rightarrow> nat option \<Rightarrow> bool" where
  "row_ok ns hs k r \<longleftrightarrow>
     (case r of
        None \<Rightarrow> n_subsection (ns ! (hs ! k)) \<noteq> [] \<and>
                n_start (ns ! (hs ! Suc k)) \<le> n_start (ns ! (hs ! k)) + length (n_name (ns ! (hs ! k))) + 5
      | Some i \<Rightarrow> i = hs ! k \<and> 0 < k \<or>
                  i < length ns \<and> i \<notin> set hs \<and> n_start (ns ! i) = n_start (ns ! (hs ! k)) \<and>
                  n_end (ns ! i) = n_start (ns ! (hs ! Suc k)))"

definition rows_ok :: "sec_node list \<Rightarrow> nat list \<Rightarrow> nat option list \<Rightarrow> bool" where
  "rows_ok ns hs rows \<longleftrightarrow> length hs = Suc (length rows) \<and> (\<forall>k < length rows. row_ok ns hs k (rows ! k))"

definition row_leaves :: "nat option list \<Rightarrow> nat list" where
  "row_leaves rows = concat (map (\<lambda>r. case r of None \<Rightarrow> [] | Some i \<Rightarrow> [i]) rows)"

lemma row_leaves_simps [simp]:
  "row_leaves [] = []" "row_leaves (rows @ [None]) = row_leaves rows"
  "row_leaves (rows @ [Some i]) = row_leaves rows @ [i]"
  by (simp_all add: row_leaves_def)

text \<open>Later steps keep the spans of the nodes there are.\<close>

definition spans_kept :: "sec_node list \<Rightarrow> sec_node list \<Rightarrow> bool" where
  "spans_kept ns ns' \<longleftrightarrow> length ns \<le> length ns' \<and>
     (\<forall>i < length ns. n_start (ns' ! i) = n_start (ns ! i) \<and> n_end (ns' ! i) = n_end (ns ! i) \<and>
        n_name (ns' ! i) = n_name (ns ! i) \<and> n_level (ns' ! i) = n_level (ns ! i) \<and>
        (n_subsection (ns ! i) \<noteq> [] \<longrightarrow> n_subsection (ns' ! i) \<noteq> []))"

lemma rows_ok_snoc:
  assumes "rows_ok ns hs rows" "spans_kept ns ns'" "\<forall>h \<in> set hs. h < length ns" "length ns \<le> n"
    "row_ok ns' (hs @ [n]) (length rows) r"
  shows "rows_ok ns' (hs @ [n]) (rows @ [r])"
proof -
  have len: "length hs = Suc (length rows)" using assms(1) by (simp add: rows_ok_def)
  have "row_ok ns' (hs @ [n]) k (rows ! k)" if k: "k < length rows" for k
  proof -
    have h: "hs ! k < length ns" "hs ! Suc k < length ns" using assms(3) len k by auto
    have a: "(hs @ [n]) ! k = hs ! k" "(hs @ [n]) ! Suc k = hs ! Suc k" using len k by (auto simp: nth_append)
    have "row_ok ns hs k (rows ! k)" using assms(1) k by (simp add: rows_ok_def)
    then show ?thesis using h assms(2,4) unfolding row_ok_def a spans_kept_def
      by (auto split: option.splits)
  qed
  then show ?thesis using len assms(5) by (auto simp: rows_ok_def nth_append less_Suc_eq)
qed

definition built :: "outline \<Rightarrow> nat option list \<Rightarrow> nat list \<times> nat list \<times> section_tree \<Rightarrow> bool" where
  "built t rows s \<longleftrightarrow> (case s of (stack, nodes, st) \<Rightarrow>
     store_ok st \<and> repr (st_nodes st) t \<and> top t = 0 \<and> distinct (outline_ids t) \<and>
     stack = rev (spine t) \<and> n_level (node_at st 0) = 0 \<and> last (0 # nodes) = hd stack \<and>
     outline_leaves t = row_leaves rows @ [hd stack] \<and> rows_ok (st_nodes st) (0 # nodes) rows \<and>
     (\<forall>h \<in> set nodes. h < length (st_nodes st) \<and> h \<noteq> 0) \<and> distinct nodes)"

text \<open>What one heading does to the store.\<close>

lemma build_step_store:
  assumes st: "store_ok st" "\<forall>i \<in> set stack. i < length (st_nodes st)" "0 \<in> set stack" "n_level (node_at st 0) = 0"
    and step: "build_step (stack, nodes, st) c = Inr (stack', nodes', st')" and lv: "0 < h_level c"
  defines "N \<equiv> length (st_nodes st)"
  obtains p rest pad where
    "dropWhile (\<lambda>i. h_level c \<le> n_level (node_at st i)) stack = p # rest"
    "stack' = N # p # rest" "nodes' = nodes @ [N]" "store_ok st'" "p < N"
    "st_doc_content st' = st_doc_content st" "st_leafs st' = st_leafs st"
    "pad \<longleftrightarrow> n_subsection (node_at st p) = [] \<and>
       n_start (node_at st p) + length (n_name (node_at st p)) + 5 < h_offset c"
    "length (st_nodes st') = Suc N + (if pad then 1 else 0)"
    "\<forall>i < N. i \<noteq> p \<longrightarrow> node_at st' i = node_at st i"
    "node_at st' p = n_subsection_update (\<lambda>cs. cs @ (if pad then [Suc N, N] else [N])) (node_at st p)"
    "node_at st' N = (section_node (h_level c) (h_offset c) (length (st_doc_content st)) (h_raw c))\<lparr>n_upper := Some p\<rparr>"
    "pad \<longrightarrow> n_start (node_at st' (Suc N)) = n_start (node_at st p) \<and>
       n_end (node_at st' (Suc N)) = h_offset c \<and> n_subsection (node_at st' (Suc N)) = []"
proof -
  let ?new = "section_node (h_level c) (h_offset c) (length (st_doc_content st)) (h_raw c)"
  let ?a = "alloc ?new st"
  have N: "fst ?a = N" by (simp add: alloc_simps N_def)
  obtain st1 where st1: "add_section N (snd ?a) = Inr st1"
    using step N by (auto simp: build_step_def Let_def split_beta)
  note d = add_section_InrD[OF st1, unfolded alloc_simps]
  have at: "node_at st1 i = node_at st i" if "i < N" for i
    using that by (simp add: d(1) nth_append N_def)
  have new: "node_at st1 N = ?new" by (simp add: d(1) N_def)
  have new_level: "n_level (node_at st1 N) = h_level c" by (simp add: new section_node_def)
  let ?low = "\<lambda>i. h_level c \<le> n_level (node_at st i)"
  have low: "dropWhile (\<lambda>i. n_level (node_at st1 N) \<le> n_level (node_at st1 i)) stack = dropWhile ?low stack"
    using st(2) at by (intro dropWhile_cong) (simp_all add: new_level[unfolded N_def] N_def)
  have "dropWhile ?low stack \<noteq> []" using st(3,4) lv by (auto simp: dropWhile_eq_Nil_conv intro!: bexI[of _ 0])
  then obtain p rest where pr: "dropWhile ?low stack = p # rest" by (cases "dropWhile ?low stack") auto
  then have "p \<in> set stack" by (metis list.set_intros(1) set_dropWhileD)
  then have p: "p < N" using st(2) N_def by simp
  then have p1: "p < length (st_nodes st1)" by (simp add: d(1) N_def)
  have N1: "N < length (st_nodes st1)" "length (st_nodes st1) = Suc N" by (simp_all add: d(1) N_def)
  let ?st2 = "add_subsection p N st1"
  have eq: "stack' = N # p # rest" "nodes' = nodes @ [N]" "st' = update_node N (n_upper_update (\<lambda>_. Some p)) ?st2"
    using step st1 low pr by (auto simp: build_step_def Let_def split_beta N)
  have ok: "store_ok st'" unfolding eq(3)
  proof (intro store_ok_upper store_ok_subsection p N1(1))
    show "store_ok st1"
      by (rule store_ok_add_section[OF store_ok_alloc[OF st(1)] st1])
        (use lv in \<open>simp_all add: alloc_simps N_def section_node_def\<close>)
  qed
  have pad: "pads p N st1 \<longleftrightarrow> n_subsection (node_at st p) = [] \<and>
       n_start (node_at st p) + length (n_name (node_at st p)) + 5 < h_offset c"
    using at[OF p] new by (simp add: pads_def section_node_def)
  have len: "length (st_nodes st') = Suc N + (if pads p N st1 then 1 else 0)"
    using add_subsection_length[OF p1] N1(2) by (simp add: eq(3))
  have at': "node_at st' i = (if i = N then n_upper_update (\<lambda>_. Some p) (node_at ?st2 N) else node_at ?st2 i)"
    if "i < length (st_nodes st')" for i
    using that by (auto simp: eq(3) update_node_def nth_list_update)
  show thesis
  proof (rule that[OF pr eq(1,2) ok p _ _ pad len])
    show "st_doc_content st' = st_doc_content st" "st_leafs st' = st_leafs st"
      by (simp_all add: eq(3) d(2,3))
    show "\<forall>i < N. i \<noteq> p \<longrightarrow> node_at st' i = node_at st i"
    proof (intro allI impI)
      fix i assume "i < N" "i \<noteq> p"
      then show "node_at st' i = node_at st i"
        using at[of i] at'[of i] len add_subsection_at[OF p1, of i N] N1 by simp
    qed
    show "node_at st' p = n_subsection_update (\<lambda>cs. cs @ (if pads p N st1 then [Suc N, N] else [N])) (node_at st p)"
      using at[OF p] at'[of p] len add_subsection_at[OF p1 p1, of N] N1 p by (simp add: new_children_def)
    show "node_at st' N = ?new\<lparr>n_upper := Some p\<rparr>"
      using new at'[of N] len add_subsection_at[OF p1 N1(1), of N] p by simp
    show "pads p N st1 \<longrightarrow> n_start (node_at st' (Suc N)) = n_start (node_at st p) \<and>
       n_end (node_at st' (Suc N)) = h_offset c \<and> n_subsection (node_at st' (Suc N)) = []"
    proof
      assume "pads p N st1"
      with at'[of "Suc N"] len add_subsection_pad[OF p1] N1(2) at[OF p] new
      show "n_start (node_at st' (Suc N)) = n_start (node_at st p) \<and>
         n_end (node_at st' (Suc N)) = h_offset c \<and> n_subsection (node_at st' (Suc N)) = []"
        by (simp add: padding_node_def section_node_def)
    qed
  qed
qed

lemma takeWhile_before:
  assumes "distinct xs" "rev xs = ys @ p # zs"
  shows "takeWhile (\<lambda>i. i \<noteq> p) xs = rev zs" "p \<in> set xs"
proof -
  have xs: "xs = rev zs @ p # rev ys" using assms(2) by (metis append.assoc append_Cons append_Nil rev.simps(2) rev_append rev_rev_ident)
  with assms(1) have "p \<notin> set zs" by auto
  then have "takeWhile (\<lambda>i. i \<noteq> p) (rev zs @ p # rev ys) = rev zs"
    by (subst takeWhile_append2) auto
  with xs show "takeWhile (\<lambda>i. i \<noteq> p) xs = rev zs" "p \<in> set xs" by simp_all
qed

lemma row_leaf_snoc:
  "row_leaves (rows @ [if pad then Some i else None]) = row_leaves rows @ (if pad then [i] else [])"
  by simp

lemma built_step:
  assumes b: "built t rows (stack, nodes, st)"
    and step: "build_step (stack, nodes, st) c = Inr (stack', nodes', st')" and lv: "0 < h_level c"
  defines "N \<equiv> length (st_nodes st)"
  shows "\<exists>t' rows'. built t' rows' (stack', nodes', st')"
    and "nodes' = nodes @ [N]" "N < length (st_nodes st')" "spans_kept (st_nodes st) (st_nodes st')"
    and "n_start (node_at st' N) = h_offset c" "n_name (node_at st' N) = h_raw c"
    and "st_doc_content st' = st_doc_content st" "st_leafs st' = st_leafs st"
proof -
  have ok: "store_ok st" and rp: "repr (st_nodes st) t" and t0: "top t = 0"
    and dist: "distinct (outline_ids t)" and stack: "stack = rev (spine t)"
    and l0: "n_level (node_at st 0) = 0" and lasth: "last (0 # nodes) = hd stack"
    and leaves: "outline_leaves t = row_leaves rows @ [hd stack]"
    and rows: "rows_ok (st_nodes st) (0 # nodes) rows"
    and nod: "\<forall>h \<in> set nodes. h < N \<and> h \<noteq> 0" "distinct nodes"
    using b by (auto simp: built_def N_def)
  have hd_stack: "hd stack = last (spine t)" by (simp add: stack hd_rev)
  have in_stack: "\<forall>i \<in> set stack. i < N" using repr_ids[OF rp] spine_ids stack N_def by auto
  have z: "0 \<in> set stack" using t0 stack by (metis hd_in_set hd_spine set_rev spine_nonempty)
  obtain p rest pad where s:
    "dropWhile (\<lambda>i. h_level c \<le> n_level (node_at st i)) stack = p # rest"
    "stack' = N # p # rest" "nodes' = nodes @ [N]" "store_ok st'" "p < N"
    "st_doc_content st' = st_doc_content st" "st_leafs st' = st_leafs st"
    "pad \<longleftrightarrow> n_subsection (node_at st p) = [] \<and>
       n_start (node_at st p) + length (n_name (node_at st p)) + 5 < h_offset c"
    "length (st_nodes st') = Suc N + (if pad then 1 else 0)"
    "\<forall>i < N. i \<noteq> p \<longrightarrow> node_at st' i = node_at st i"
    "node_at st' p = n_subsection_update (\<lambda>cs. cs @ (if pad then [Suc N, N] else [N])) (node_at st p)"
    "node_at st' N = (section_node (h_level c) (h_offset c) (length (st_doc_content st)) (h_raw c))\<lparr>n_upper := Some p\<rparr>"
    "pad \<longrightarrow> n_start (node_at st' (Suc N)) = n_start (node_at st p) \<and>
       n_end (node_at st' (Suc N)) = h_offset c \<and> n_subsection (node_at st' (Suc N)) = []"
    by (rule build_step_store[OF ok in_stack[unfolded N_def] z l0 step lv, folded N_def]) (rule that)
  let ?cs = "map (\<lambda>j. Outline j []) (if pad then [Suc N, N] else [N])"
  let ?t = "attach p ?cs t"
  show "nodes' = nodes @ [N]" "N < length (st_nodes st')" "st_doc_content st' = st_doc_content st"
    "st_leafs st' = st_leafs st" using s(3,6,7,9) by simp_all
  show start: "n_start (node_at st' N) = h_offset c" and name: "n_name (node_at st' N) = h_raw c"
    by (simp_all add: s(12) section_node_def)
  have kept: "spans_kept (st_nodes st) (st_nodes st')"
    unfolding spans_kept_def
  proof (intro conjI allI impI)
    fix i assume i: "i < length (st_nodes st)"
    then have at: "node_at st' i = node_at st i \<or>
        node_at st' i = n_subsection_update (\<lambda>cs. cs @ (if pad then [Suc N, N] else [N])) (node_at st i)"
      using s(10)[rule_format, of i] s(11) N_def by (cases "i = p") simp_all
    then show "n_start (node_at st' i) = n_start (node_at st i)" "n_end (node_at st' i) = n_end (node_at st i)"
      "n_name (node_at st' i) = n_name (node_at st i)" "n_level (node_at st' i) = n_level (node_at st i)"
      by auto
    show "n_subsection (node_at st' i) \<noteq> []" if "n_subsection (node_at st i) \<noteq> []"
      using at that by auto
  qed (simp add: s(9) N_def)
  then show "spans_kept (st_nodes st) (st_nodes st')" .
  obtain dropped where "rev (spine t) = dropped @ p # rest"
    using s(1) stack by (metis takeWhile_dropWhile_id)
  note sp = takeWhile_before[OF distinct_spine[OF dist] this]
  have cs: "?cs = map (\<lambda>j. Outline j []) (if pad then [Suc N] else []) @ [Outline N []]" by simp
  have spine': "spine ?t = rev rest @ [p, N]"
    unfolding cs using attach_spine[OF sp(2) dist] sp(1) by simp
  have ids': "outline_ids ?t = outline_ids t @ (if pad then [Suc N, N] else [N])"
    using attach_ids[OF sp(2)] by simp
  have leaves': "outline_leaves ?t = (if p = hd stack then row_leaves rows else outline_leaves t) @ (if pad then [Suc N, N] else [N])"
    using attach_leaves[OF sp(2) dist, of ?cs] leaves hd_stack by simp
  have rp': "repr (st_nodes st') ?t"
    by (rule repr_attach[OF rp sp(2) dist]) (use s(9-13) in \<open>auto simp: N_def section_node_def\<close>)
  define r where "r = (if p = hd stack then (if pad then Some (Suc N) else None) else Some (hd stack))"
  have leaves'': "outline_leaves ?t = row_leaves (rows @ [r]) @ [N]"
  proof (cases "p = hd stack")
    case False
    then have "\<not> pad" using repr_spine_inner[OF rp sp(2)] hd_stack s(8) by simp
    with False show ?thesis unfolding leaves' by (simp add: r_def leaves)
  qed (unfold leaves', simp add: r_def)
  have lenr: "length (0 # nodes) = Suc (length rows)" using rows by (simp add: rows_ok_def)
  then have at_last: "(0 # nodes) ! length rows = hd stack"
    using lasth by (metis diff_Suc_1 last_conv_nth list.distinct(1))
  have at_last': "((0 # nodes) @ [N]) ! length rows = hd stack" "((0 # nodes) @ [N]) ! Suc (length rows) = N"
    using nth_append[of "0 # nodes" "[N]" "length rows"] nth_append[of "0 # nodes" "[N]" "Suc (length rows)"]
      at_last lenr by simp_all
  have row: "row_ok (st_nodes st') ((0 # nodes) @ [N]) (length rows) r"
  proof (cases "p = hd stack")
    case True
    note kp = kept[unfolded spans_kept_def, THEN conjunct2, rule_format, of p]
    have "n_subsection (node_at st p) = []" using repr_spine_last[OF rp] True hd_stack by simp
    then have "pad \<or> h_offset c \<le> n_start (node_at st p) + length (n_name (node_at st p)) + 5" using s(8) by auto
    moreover have "Suc N \<notin> set ((0 # nodes) @ [N])" using nod by auto
    ultimately show ?thesis
      using True s(5,9,11,13) start kp N_def unfolding row_ok_def at_last' by (auto simp: r_def)
  next
    case False
    have "length rows \<noteq> 0"
    proof
      assume "length rows = 0"
      with at_last have "hd stack = 0" by simp
      with z l0 lv s(1) have "p = hd stack" by (cases stack) auto
      with False show False ..
    qed
    then show ?thesis using False unfolding row_ok_def at_last' r_def by simp
  qed
  have "built ?t (rows @ [r]) (stack', nodes', st')"
    unfolding built_def prod.case
  proof (intro conjI)
    have "\<forall>h \<in> set (0 # nodes). h < length (st_nodes st)" using nod s(5) N_def by auto
    from rows_ok_snoc[OF rows kept this _ row] s(3) N_def
    show "rows_ok (st_nodes st') (0 # nodes') (rows @ [r])" by simp
    show "distinct (outline_ids ?t)" using dist repr_ids[OF rp, of N] repr_ids[OF rp, of "Suc N"] by (auto simp: ids' N_def)
    show "n_level (node_at st' 0) = 0" 
      using kept[unfolded spans_kept_def, THEN conjunct2, rule_format, of 0] l0 s(5) N_def by force
    show "\<forall>h \<in> set nodes'. h < length (st_nodes st') \<and> h \<noteq> 0" using nod s(3,5,9) by auto
    show "distinct nodes'" using nod s(3) by auto
  qed (use s(2,3,4) rp' t0 spine' leaves'' in simp_all)
  then show "\<exists>t' rows'. built t' rows' (stack', nodes', st')" by blast
qed

definition heading_list :: "(sec_node \<Rightarrow> 'a) \<Rightarrow> nat list \<Rightarrow> section_tree \<Rightarrow> 'a list" where
  "heading_list f nodes st = map (\<lambda>i. f (node_at st i)) nodes"

lemma heading_list_kept:
  assumes "spans_kept (st_nodes st) (st_nodes st')" "\<forall>h \<in> set nodes. h < length (st_nodes st)"
  shows "heading_list n_start nodes st' = heading_list n_start nodes st"
    "heading_list n_name nodes st' = heading_list n_name nodes st"
  using assms by (auto simp: heading_list_def spans_kept_def)

lemma built_fold:
  assumes "rfold build_step (stack, nodes, st) cs = Inr (stack', nodes', st')"
    and "built t rows (stack, nodes, st)" "\<forall>c \<in> set cs. 0 < h_level c"
  shows "(\<exists>t' rows'. built t' rows' (stack', nodes', st')) \<and>
         heading_list n_start nodes' st' = heading_list n_start nodes st @ map h_offset cs \<and>
         heading_list n_name nodes' st' = heading_list n_name nodes st @ map h_raw cs \<and>
         st_doc_content st' = st_doc_content st \<and> st_leafs st' = st_leafs st \<and>
         n_start (node_at st' 0) = n_start (node_at st 0)"
  using assms
proof (induction cs arbitrary: stack nodes st t rows)
  case (Cons c cs)
  obtain stack1 nodes1 st1 where s: "build_step (stack, nodes, st) c = Inr (stack1, nodes1, st1)"
    "rfold build_step (stack1, nodes1, st1) cs = Inr (stack', nodes', st')"
    using Cons.prems(1) by auto
  note st = built_step[OF Cons.prems(2) s(1)]
  have lv: "0 < h_level c" using Cons.prems(3) by simp
  obtain t1 rows1 where b1: "built t1 rows1 (stack1, nodes1, st1)" using st(1)[OF lv] by blast
  have nod: "\<forall>h \<in> set nodes. h < length (st_nodes st)" "st_nodes st \<noteq> []"
    using Cons.prems(2) by (auto simp: built_def store_ok_def)
  note k = heading_list_kept[OF st(4)[OF lv] nod(1)]
  have "n_start (node_at st1 0) = n_start (node_at st 0)"
    using st(4)[OF lv] nod(2) by (auto simp: spans_kept_def)
  moreover have "heading_list n_start nodes1 st1 = heading_list n_start nodes st @ [h_offset c]"
    "heading_list n_name nodes1 st1 = heading_list n_name nodes st @ [h_raw c]"
    using k st(2,5,6)[OF lv] by (simp_all add: heading_list_def)
  ultimately show ?case using Cons.IH[OF s(2) b1] Cons.prems(3) st(7,8)[OF lv] by simp
next
  case Nil
  then show ?case by auto
qed

lemma built_start:
  assumes "st = st0\<lparr>st_nodes := [root_node st0], st_tree := [[0]], st_height := 0\<rparr>"
  shows "built (Outline 0 []) [] ([0], [], st)"
  using assms
  by (simp add: built_def store_ok_def children_later_def root_node_def section_node_def rows_ok_def)

section \<open>Where headings end\<close>

lemma set_ends_node:
  assumes "distinct hs" "\<forall>h \<in> set hs. h < length (st_nodes st)" "i < length (st_nodes st)"
  shows "node_at (set_ends hs st) i =
           (if i \<in> set hs
            then (node_at st i)\<lparr>n_end := (case tl (dropWhile (\<lambda>h. h \<noteq> i) hs) of
                    [] \<Rightarrow> length (st_doc_content st) | j # _ \<Rightarrow> n_start (node_at st j))\<rparr>
            else node_at st i) \<and>
         length (st_nodes (set_ends hs st)) = length (st_nodes st)"
  using assms
proof (induction hs arbitrary: st)
  case (Cons h hs)
  let ?st = "update_node h (n_end_update (\<lambda>_. case hs of [] \<Rightarrow> length (st_doc_content st)
                                     | j # _ \<Rightarrow> n_start (node_at st j))) st"
  have at: "n_start (node_at ?st j) = n_start (node_at st j)" for j
    by (cases "h = j"; cases "j < length (st_nodes st)") (simp_all add: update_node_def not_less list_update_beyond)
  have "node_at ?st i = (if i = h then (node_at st i)\<lparr>n_end := (case hs of [] \<Rightarrow> length (st_doc_content st)
                                     | j # _ \<Rightarrow> n_start (node_at st j))\<rparr> else node_at st i)"
    using Cons.prems(3) by (simp add: update_node_def nth_list_update)
  with Cons.IH[of ?st] Cons.prems show ?case by (auto simp: at cong: list.case_cong)
qed simp

lemma set_ends_fields [simp]:
  "skeleton (set_ends hs st) = skeleton st" "st_doc_content (set_ends hs st) = st_doc_content st"
  "st_leafs (set_ends hs st) = st_leafs st" "st_tree (set_ends hs st) = st_tree st"
  by (induction hs st rule: set_ends.induct) auto

lemma next_of_nth:
  assumes "distinct hs" "k < length hs"
  shows "tl (dropWhile (\<lambda>h. h \<noteq> hs ! k) hs) = drop (Suc k) hs"
proof -
  have "takeWhile (\<lambda>h. h \<noteq> hs ! k) hs = take k hs"
    using assms by (intro takeWhile_eq_take_P_nth) (auto simp: nth_eq_iff_index_eq)
  then have "dropWhile (\<lambda>h. h \<noteq> hs ! k) hs = drop k hs"
    using assms(2) by (metis append_eq_conv_conj length_take min.absorb4 takeWhile_dropWhile_id)
  then show ?thesis by (simp add: tl_drop drop_Suc)
qed

section \<open>The leaves cover the document\<close>

text \<open>Rows as consecutive spans of the starts \<open>s\<close>.\<close>

lemma spans_sorted:
  assumes "\<forall>k < length rows. \<forall>i. rows ! k = Some i \<longrightarrow> a i = s k \<and> e i = s (Suc k)"
    and "\<forall>k < length rows. s k \<le> (s (Suc k) :: nat)"
  shows "sorted_wrt (\<lambda>i j. e i \<le> a j) (row_leaves rows) \<and> (\<forall>i \<in> set (row_leaves rows). e i \<le> s (length rows))"
  using assms
proof (induction rows rule: rev_induct)
  case (snoc r rows)
  have "sorted_wrt (\<lambda>i j. e i \<le> a j) (row_leaves rows)" "\<forall>i \<in> set (row_leaves rows). e i \<le> s (length rows)"
    using snoc.IH snoc.prems by (auto simp: nth_append less_SucI)
  moreover have "s (length rows) \<le> s (Suc (length rows))"
    "\<And>i. r = Some i \<Longrightarrow> a i = s (length rows) \<and> e i = s (Suc (length rows))"
    using snoc.prems(1)[rule_format, of "length rows"] snoc.prems(2) by auto
  ultimately show ?case by (cases r) (auto simp: sorted_wrt_append intro: le_trans)
qed simp

lemma spans_cover:
  assumes "\<forall>k < length rows. case rows ! k of Some i \<Rightarrow> a i = s k \<and> e i = s (Suc k)
                                          | None \<Rightarrow> s (Suc k) \<le> s k + g k"
    and "s 0 \<le> x" "x < (s (length rows) :: nat)"
  shows "(\<exists>i \<in> set (row_leaves rows). a i \<le> x \<and> x < e i) \<or>
         (\<exists>k < length rows. rows ! k = None \<and> s k \<le> x \<and> x < s k + g k)"
  using assms
proof (induction rows rule: rev_induct)
  case (snoc r rows)
  have last: "case r of Some i \<Rightarrow> a i = s (length rows) \<and> e i = s (Suc (length rows))
                      | None \<Rightarrow> s (Suc (length rows)) \<le> s (length rows) + g (length rows)"
    using snoc.prems(1)[rule_format, of "length rows"] by simp
  show ?case
  proof (cases "x < s (length rows)")
    case True
    have "\<forall>k < length rows. case rows ! k of Some i \<Rightarrow> a i = s k \<and> e i = s (Suc k)
                                          | None \<Rightarrow> s (Suc k) \<le> s k + g k"
      using snoc.prems(1) by (auto simp: nth_append dest: spec[of _ _] less_SucI)
    from snoc.IH[OF this snoc.prems(2) True] show ?thesis
    proof (elim disjE bexE exE conjE)
      fix i assume "i \<in> set (row_leaves rows)" "a i \<le> x" "x < e i"
      then show ?thesis by (cases r) auto
    next
      fix k assume "k < length rows" "rows ! k = None" "s k \<le> x" "x < s k + g k"
      then show ?thesis by (intro disjI2 exI[of _ k]) (simp add: nth_append)
    qed
  next
    case False
    with snoc.prems(3) last show ?thesis
      by (cases r) (auto intro!: exI[of _ "length rows"])
  qed
qed simp

text \<open>Marking leaves changes nothing else.\<close>

definition unmarked :: "section_tree \<Rightarrow> sec_node list" where
  "unmarked st = map (n_is_leaf_update (\<lambda>_. False)) (st_nodes st)"

lemma ofold_keeps:
  assumes "ofold f s xs = Some s'" "\<And>s x s'. f s x = Some s' \<Longrightarrow> P s' = P s"
  shows "P s' = P s"
  using assms(1) by (induction xs arbitrary: s) (auto simp: assms(2) split: option.splits)

lemma identify_leaf_unmarked:
  "identify_leaf k st i = Some st' \<Longrightarrow> (unmarked st', st_doc_content st') = (unmarked st, st_doc_content st)"
proof (induction k arbitrary: st i st')
  case (Suc k)
  show ?case
  proof (cases "n_subsection (node_at st i) = []")
    case True
    with Suc.prems show ?thesis
      by (auto simp: Let_def unmarked_def update_node_def map_update_same)
  next
    case False
    with Suc.prems have "ofold (identify_leaf k) st (n_subsection (node_at st i)) = Some st'" by simp
    from ofold_keeps[where P = "\<lambda>st. (unmarked st, st_doc_content st)", OF this Suc.IH] show ?thesis .
  qed
qed simp

lemma unmarked_at:
  assumes "unmarked st' = unmarked st"
  shows "length (st_nodes st') = length (st_nodes st)"
    "i < length (st_nodes st) \<Longrightarrow> n_start (node_at st' i) = n_start (node_at st i) \<and>
       n_end (node_at st' i) = n_end (node_at st i) \<and> n_name (node_at st' i) = n_name (node_at st i) \<and>
       n_subsection (node_at st' i) = n_subsection (node_at st i)"
proof -
  show l: "length (st_nodes st') = length (st_nodes st)" using assms unfolding unmarked_def by (metis length_map)
  assume "i < length (st_nodes st)"
  then have "(node_at st' i)\<lparr>n_is_leaf := False\<rparr> = (node_at st i)\<lparr>n_is_leaf := False\<rparr>"
    using assms l unfolding unmarked_def by (metis nth_map)
  then show "n_start (node_at st' i) = n_start (node_at st i) \<and>
       n_end (node_at st' i) = n_end (node_at st i) \<and> n_name (node_at st' i) = n_name (node_at st i) \<and>
       n_subsection (node_at st' i) = n_subsection (node_at st i)"
    by (cases "node_at st' i"; cases "node_at st i") simp
qed

text \<open>The leaves of a document with at least two headings.\<close>

definition leaf_spans_ok :: "section_tree \<Rightarrow> bool" where
  "leaf_spans_ok st \<longleftrightarrow>
     sorted_wrt (\<lambda>i j. n_end (node_at st i) \<le> n_start (node_at st j)) (st_leafs st) \<and>
     (\<forall>x < length (st_doc_content st).
        (\<exists>i \<in> set (st_leafs st). n_start (node_at st i) \<le> x \<and> x < n_end (node_at st i)) \<or>
        (\<exists>i < length (st_nodes st). n_subsection (node_at st i) \<noteq> [] \<and> n_start (node_at st i) \<le> x \<and>
           x < n_start (node_at st i) + length (n_name (node_at st i)) + 5))"

lemma filter_from_Cons:
  obtains "filter_from seen (c # cs) = filter_from seen cs"
  | c' seen' where "filter_from seen (c # cs) = c' # filter_from seen' cs"
      "h_offset c' = h_offset c" "h_raw c' = h_raw c" "h_level c' = h_level c"
proof -
  have "filter_from seen (c # cs) = filter_from seen cs \<or>
    (\<exists>c' seen'. filter_from seen (c # cs) = c' # filter_from seen' cs \<and>
       h_offset c' = h_offset c \<and> h_raw c' = h_raw c \<and> h_level c' = h_level c)"
    by (simp add: Let_def) blast
  with that show thesis by blast
qed

lemma filter_from_source:
  "c' \<in> set (filter_from seen cs) \<Longrightarrow>
     \<exists>c \<in> set cs. h_offset c' = h_offset c \<and> h_raw c' = h_raw c \<and> h_level c' = h_level c"
proof (induction cs arbitrary: seen)
  case (Cons c cs)
  show ?case
  proof (cases rule: filter_from_Cons[of seen c cs])
    case 1
    with Cons show ?thesis by (metis list.set_intros(2))
  next
    case (2 d seen')
    with Cons show ?thesis by (metis list.set_intros set_ConsD)
  qed
qed simp

lemma filter_from_apart: "apart cs \<Longrightarrow> apart (filter_from seen cs)"
proof (induction cs arbitrary: seen)
  case (Cons c cs)
  have a: "apart cs" "\<forall>d \<in> set cs. h_offset c + length (h_raw c) \<le> h_offset d"
    using Cons.prems by (simp_all add: apart_def)
  show ?case
  proof (cases rule: filter_from_Cons[of seen c cs])
    case 1
    with Cons.IH[OF a(1)] show ?thesis by simp
  next
    case (2 c' seen')
    have "h_offset c' + length (h_raw c') \<le> h_offset d" if "d \<in> set (filter_from seen' cs)" for d
      using filter_from_source[OF that] a(2) 2 by auto
    with Cons.IH[OF a(1), of seen'] 2(1) show ?thesis by (simp add: apart_def)
  qed
qed (simp add: apart_def)

lemma headings_ok:
  "\<forall>c \<in> set (headings_of doc). 0 < h_level c \<and> placed doc c" "apart (headings_of doc)"
proof -
  show "apart (headings_of doc)"
    using filter_from_apart candidates_placed(2) by (simp add: headings_of_def filter_heading_candidates_def)
  show "\<forall>c \<in> set (headings_of doc). 0 < h_level c \<and> placed doc c"
  proof
    fix c assume "c \<in> set (headings_of doc)"
    then obtain d where "d \<in> set (scan_heading_candidates doc)"
      "h_offset c = h_offset d" "h_raw c = h_raw d" "h_level c = h_level d"
      using filter_from_source by (fastforce simp: headings_of_def filter_heading_candidates_def)
    then show "0 < h_level c \<and> placed doc c"
      using candidates_levels[of d doc] candidates_placed(1)[of doc] by (simp add: placed_def list_all_iff)
  qed
qed

text \<open>The finished tree of the headings, before its leaves are marked.\<close>

definition finished :: "outline \<Rightarrow> nat option list \<Rightarrow> nat list \<Rightarrow> section_tree \<Rightarrow> section_tree \<Rightarrow> bool" where
  "finished t rows nodes st0 st \<longleftrightarrow>
     store_ok st \<and> repr (st_nodes st) t \<and> top t = 0 \<and> outline_leaves t = row_leaves rows @ [last nodes] \<and>
     st_doc_content st = st_doc_content st0 \<and> st_leafs st = st_leafs st0 \<and>
     length nodes = length rows \<and> n_start (node_at st 0) = 0 \<and>
     heading_list n_start nodes st = map h_offset (headings_of (st_doc_content st0)) \<and>
     heading_list n_name nodes st = map h_raw (headings_of (st_doc_content st0)) \<and>
     (\<forall>h \<in> set nodes. h < length (st_nodes st) \<and> h \<noteq> 0) \<and>
     (\<forall>k < length nodes. n_end (node_at st (nodes ! k)) =
        (if Suc k < length nodes then n_start (node_at st (nodes ! Suc k)) else length (st_doc_content st))) \<and>
     rows_ok (st_nodes st) (0 # nodes) rows"

lemma headings_finished:
  assumes "construct_tree_from_headings st0 = Inr (True, st)"
  shows "\<exists>t rows nodes. finished t rows nodes st0 st"
proof -
  let ?hs = "headings_of (st_doc_content st0)"
  define sti where "sti = st0\<lparr>st_nodes := [root_node st0], st_tree := [[0]], st_height := 0\<rparr>"
  obtain stack nodes st1 where
    fold: "rfold build_step ([0], [], sti) ?hs = Inr (stack, nodes, st1)" and
    st: "st = update_node 0 (n_end_update (\<lambda>_. length (st_doc_content st1))) (set_ends nodes st1)"
    using assms
    by (auto simp: construct_tree_from_headings_def headings_of_def sti_def Let_def split_beta split: if_splits)
  have root: "n_start (node_at sti 0) = 0" "st_doc_content sti = st_doc_content st0" "st_leafs sti = st_leafs st0"
    by (simp_all add: sti_def root_node_def section_node_def)
  have lv: "\<forall>c \<in> set ?hs. 0 < h_level c" using headings_ok by blast
  obtain t rows where b: "built t rows (stack, nodes, st1)"
    and starts: "heading_list n_start nodes st1 = map h_offset ?hs"
    and names: "heading_list n_name nodes st1 = map h_raw ?hs"
    and same: "st_doc_content st1 = st_doc_content st0" "st_leafs st1 = st_leafs st0" "n_start (node_at st1 0) = 0"
    using built_fold[OF fold built_start[OF sti_def] lv] root by (auto simp: heading_list_def)
  have nod: "\<forall>h \<in> set nodes. h < length (st_nodes st1) \<and> h \<noteq> 0" "distinct nodes"
    and lenr: "length nodes = length rows" and hd: "last (0 # nodes) = hd stack"
    and rows: "rows_ok (st_nodes st1) (0 # nodes) rows" and ok: "store_ok st1"
    using b by (auto simp: built_def rows_ok_def)
  have sk: "skeleton st = skeleton st1" by (simp add: st)
  have len: "length (st_nodes st) = length (st_nodes st1)" using skeleton_length[OF sk] .
  have at: "node_at st i = (if i = 0 then (node_at st1 0)\<lparr>n_end := length (st_doc_content st1)\<rparr>
      else if i \<in> set nodes then (node_at st1 i)\<lparr>n_end := (case tl (dropWhile (\<lambda>h. h \<noteq> i) nodes) of
          [] \<Rightarrow> length (st_doc_content st1) | j # _ \<Rightarrow> n_start (node_at st1 j))\<rparr>
      else node_at st1 i)" if "i < length (st_nodes st1)" for i
    using set_ends_node[OF nod(2) _ that] nod(1) that
    by (auto simp: st update_node_def nth_list_update)
  have keep: "n_start (node_at st i) = n_start (node_at st1 i)" "n_name (node_at st i) = n_name (node_at st1 i)"
    "n_subsection (node_at st i) = n_subsection (node_at st1 i)" if "i < length (st_nodes st1)" for i
    using at[OF that] by simp_all
  have ends: "n_end (node_at st (nodes ! k)) =
      (if Suc k < length nodes then n_start (node_at st (nodes ! Suc k)) else length (st_doc_content st))"
    if k: "k < length nodes" for k
  proof -
    have "nodes ! k \<in> set nodes" using k by simp
    with nod(1) have "nodes ! k < length (st_nodes st1)" "nodes ! k \<noteq> 0" by blast+
    with at[of "nodes ! k"] k have e: "n_end (node_at st (nodes ! k)) =
        (case drop (Suc k) nodes of [] \<Rightarrow> length (st_doc_content st1) | j # _ \<Rightarrow> n_start (node_at st1 j))"
      by (simp add: next_of_nth[OF nod(2) k])
    show ?thesis
    proof (cases "Suc k < length nodes")
      case True
      then have "drop (Suc k) nodes = nodes ! Suc k # drop (Suc (Suc k)) nodes" by (rule Cons_nth_drop_Suc[symmetric])
      moreover have "nodes ! Suc k < length (st_nodes st1)" using nod(1) True by simp
      ultimately show ?thesis using e True keep(1) by simp
    next
      case False
      with e show ?thesis by (simp add: st)
    qed
  qed
  have z: "st_nodes st1 \<noteq> []" using ok by (simp add: store_ok_def)
  have "row_ok (st_nodes st) (0 # nodes) k (rows ! k)" if k: "k < length rows" for k
  proof -
    have h: "(0 # nodes) ! k < length (st_nodes st1)" "(0 # nodes) ! Suc k < length (st_nodes st1)"
      using nod(1) z k lenr by (auto simp: nth_Cons split: nat.splits)
    have "row_ok (st_nodes st1) (0 # nodes) k (rows ! k)" using rows k by (simp add: rows_ok_def)
    then show ?thesis using h keep at len unfolding row_ok_def by (auto split: option.splits)
  qed
  then have "rows_ok (st_nodes st) (0 # nodes) rows" using lenr by (simp add: rows_ok_def)
  moreover have "nodes \<noteq> [] \<Longrightarrow> last nodes = hd stack" using hd by simp
  moreover have "nodes \<noteq> []"
    using assms starts by (auto simp: heading_list_def headings_of_def construct_tree_from_headings_def Let_def split: if_splits)
  moreover have "store_ok st" using ok skeleton_later[OF sk[symmetric]] len by (auto simp: store_ok_def st)
  moreover have "repr (st_nodes st) t" using b repr_skeleton[OF sk[symmetric]] by (simp add: built_def)
  moreover have "heading_list n_start nodes st = heading_list n_start nodes st1"
    "heading_list n_name nodes st = heading_list n_name nodes st1"
    using nod(1) keep by (auto simp: heading_list_def)
  ultimately have "finished t rows nodes st0 st"
    using b starts names same nod lenr ends keep(1)[of 0] z len
    by (simp add: finished_def built_def st)
  then show ?thesis by blast
qed

lemma finished_spans:
  assumes f: "finished t rows nodes st0 st" and leafs: "st_leafs st0 = []" "st_doc_content st0 = doc"
    and two: "2 \<le> length (headings_of doc)"
    and leaf: "identify_leaf k st 0 = Some st'"
  shows "leaf_spans_ok st'"
proof -
  let ?hs = "headings_of doc" and ?H = "0 # nodes" and ?m = "length rows"
  let ?rows = "rows @ [Some (last nodes)]"
  define s where "s k = (if k \<le> ?m then n_start (node_at st (?H ! k)) else length doc)" for k
  have fin: "repr (st_nodes st) t" "top t = 0" "outline_leaves t = row_leaves rows @ [last nodes]"
    "st_doc_content st = doc" "st_leafs st = []" "length nodes = ?m" "n_start (node_at st 0) = 0"
    "map (\<lambda>i. n_start (node_at st i)) nodes = map h_offset ?hs"
    "\<forall>h \<in> set nodes. h < length (st_nodes st) \<and> h \<noteq> 0" "rows_ok (st_nodes st) ?H rows" "st_nodes st \<noteq> []"
    using f leafs by (auto simp: finished_def heading_list_def store_ok_def)
  have ends: "n_end (node_at st (nodes ! k)) = s (Suc (Suc k))" if "k < ?m" for k
    using f that fin(4,6) by (auto simp: finished_def s_def)
  have len: "length ?hs = ?m" using fin(6,8) by (metis length_map)
  have start: "s (Suc k) = h_offset (?hs ! k)" if "k < ?m" for k
    using that fin(6,8) len by (simp add: s_def) (metis nth_map)
  have mono: "s k \<le> s (Suc k)" if k: "k < Suc ?m" for k
  proof (cases k)
    case 0
    then show ?thesis by (simp add: s_def fin(7))
  next
    case (Suc j)
    with k have j: "j < ?m" by simp
    then have "placed doc (?hs ! j)" using headings_ok(1)[of doc] len by (metis nth_mem)
    then have in_doc: "h_offset (?hs ! j) \<le> length doc" by (simp add: placed_def)
    show ?thesis
    proof (cases "Suc j < ?m")
      case True
      then have "h_offset (?hs ! j) + length (h_raw (?hs ! j)) \<le> h_offset (?hs ! Suc j)"
        using headings_ok(2)[of doc] len by (simp add: apart_def sorted_wrt_iff_nth_less)
      with Suc start True j show ?thesis by simp
    qed (use Suc j in_doc start[OF j] in \<open>auto simp: s_def\<close>)
  qed
  have row: "case ?rows ! j of Some i \<Rightarrow> n_start (node_at st i) = s j \<and> n_end (node_at st i) = s (Suc j)
      | None \<Rightarrow> s (Suc j) \<le> s j + (length (n_name (node_at st (?H ! j))) + 5)" if "j < length ?rows" for j
  proof (cases "j < ?m")
    case True
    then have "row_ok (st_nodes st) ?H j (rows ! j)" using fin(10) by (simp add: rows_ok_def)
    moreover have "n_end (node_at st (?H ! j)) = s (Suc j)" if "0 < j"
      using ends[of "j - 1"] True that by (cases j) simp_all
    moreover have "s j = n_start (node_at st (?H ! j))" "s (Suc j) = n_start (node_at st (?H ! Suc j))"
      using True by (simp_all add: s_def)
    ultimately show ?thesis using True by (auto simp: row_ok_def nth_append split: option.splits)
  next
    case False
    with that have j: "j = ?m" by simp
    have "0 < ?m" using two len by linarith
    then have "nodes \<noteq> []" using fin(6) by auto
    then have l: "last nodes = nodes ! (?m - 1)" "?H ! ?m = last nodes"
      using fin(6) last_conv_nth[of nodes] by (cases ?m; simp)+
    show ?thesis using ends[of "?m - 1"] \<open>0 < ?m\<close> l by (simp add: j s_def)
  qed
  have ordered: "sorted_wrt (\<lambda>i j. n_end (node_at st i) \<le> n_start (node_at st j)) (row_leaves ?rows)"
  proof (rule spans_sorted[where s = s, THEN conjunct1])
    show "\<forall>j < length ?rows. \<forall>i. ?rows ! j = Some i \<longrightarrow> n_start (node_at st i) = s j \<and> n_end (node_at st i) = s (Suc j)"
    proof (intro allI impI)
      fix j i assume "j < length ?rows" and r: "?rows ! j = Some i"
      from row[OF this(1), unfolded r] show "n_start (node_at st i) = s j \<and> n_end (node_at st i) = s (Suc j)"
        by (simp only: option.case)
    qed
  qed (use mono in simp)
  have cover: "(\<exists>i \<in> set (row_leaves ?rows). n_start (node_at st i) \<le> x \<and> x < n_end (node_at st i)) \<or>
      (\<exists>i < length (st_nodes st). n_subsection (node_at st i) \<noteq> [] \<and> n_start (node_at st i) \<le> x \<and>
           x < n_start (node_at st i) + length (n_name (node_at st i)) + 5)" if x: "x < length doc" for x
  proof -
    have "s 0 \<le> x" "x < s (length ?rows)" using x by (simp_all add: s_def fin(7))
    from spans_cover[where s = s and a = "\<lambda>i. n_start (node_at st i)" and e = "\<lambda>i. n_end (node_at st i)"
        and g = "\<lambda>j. length (n_name (node_at st (?H ! j))) + 5", OF _ this] row
    have "(\<exists>i \<in> set (row_leaves ?rows). n_start (node_at st i) \<le> x \<and> x < n_end (node_at st i)) \<or>
      (\<exists>j < length ?rows. ?rows ! j = None \<and> s j \<le> x \<and> x < s j + (length (n_name (node_at st (?H ! j))) + 5))"
      by blast
    then show ?thesis
    proof (elim disjE exE conjE)
      fix j assume j: "j < length ?rows" "?rows ! j = None" "s j \<le> x"
        "x < s j + (length (n_name (node_at st (?H ! j))) + 5)"
      then have jm: "j < ?m" by (auto simp: nth_append less_Suc_eq split: if_splits)
      then have "row_ok (st_nodes st) ?H j None" using fin(10) j(2) by (auto simp: rows_ok_def nth_append)
      then have "n_subsection (node_at st (?H ! j)) \<noteq> []" by (simp add: row_ok_def)
      moreover have "?H ! j < length (st_nodes st)" using fin(6,9,11) jm by (auto simp: nth_Cons split: nat.splits)
      ultimately show ?thesis using j(3,4) jm by (intro disjI2 exI[of _ "?H ! j"]) (simp add: s_def)
    qed auto
  qed
  have leaves': "st_leafs st' = row_leaves ?rows"
    using identify_leaf_outline[of k st t st'] leaf fin by simp
  have bound: "i < length (st_nodes st)" if "i \<in> set (row_leaves ?rows)" for i
  proof -
    have "i \<in> set (outline_leaves t)" using that fin(3) by simp
    then have "i \<in> set (outline_ids t)" by (induction t rule: outline_leaves.induct) (auto split: if_splits)
    with repr_ids[OF fin(1)] show ?thesis by blast
  qed
  from identify_leaf_unmarked[OF leaf] have un: "unmarked st' = unmarked st" "st_doc_content st' = doc"
    using fin(4) by simp_all
  note at = unmarked_at[OF un(1)]
  show ?thesis
    unfolding leaf_spans_ok_def leaves' un(2)
  proof (intro conjI allI impI)
    show "sorted_wrt (\<lambda>i j. n_end (node_at st' i) \<le> n_start (node_at st' j)) (row_leaves ?rows)"
      by (rule sorted_wrt_mono_rel[OF _ ordered]) (simp only: at(2) bound)
    fix x assume "x < length doc"
    from cover[OF this] show "(\<exists>i \<in> set (row_leaves ?rows). n_start (node_at st' i) \<le> x \<and> x < n_end (node_at st' i)) \<or>
        (\<exists>i < length (st_nodes st'). n_subsection (node_at st' i) \<noteq> [] \<and> n_start (node_at st' i) \<le> x \<and>
           x < n_start (node_at st' i) + length (n_name (node_at st' i)) + 5)"
    proof (elim disjE)
      assume "\<exists>i \<in> set (row_leaves ?rows). n_start (node_at st i) \<le> x \<and> x < n_end (node_at st i)"
      then show ?thesis using at(2) bound by metis
    next
      assume "\<exists>i < length (st_nodes st). n_subsection (node_at st i) \<noteq> [] \<and> n_start (node_at st i) \<le> x \<and>
           x < n_start (node_at st i) + length (n_name (node_at st i)) + 5"
      then show ?thesis using at by metis
    qed
  qed
qed

section \<open>The constructor\<close>

lemma empty_tree_ok:
  "store_ok (empty_tree name content)" "tree_height_ok (empty_tree name content)"
  "st_height (empty_tree name content) = 0"
  "st_doc_content (empty_tree name content) = snd (document_body content)"
  "st_leafs (empty_tree name content) = []"
  by (simp_all add: empty_tree_def split_beta store_ok_def tree_height_ok_def children_later_def section_node_def)

lemma construct_tree_cases:
  assumes "construct_tree st0 = Inr st"
  shows "construct_tree_from_headings st0 = Inr (True, st) \<or>
         construct_tree_from_headings st0 = Inr (False, st0) \<and>
         section_helper (st_doc_content st0) 1 0 (length (st_doc_content st0)) ''0.'' st0 = Inr st"
proof -
  obtain b st1 where c: "construct_tree_from_headings st0 = Inr (b, st1)"
    using assms by (auto simp: construct_tree_def)
  show ?thesis
  proof (cases b)
    case False
    with c have "st1 = st0"
      by (auto simp: construct_tree_from_headings_def Let_def split: if_splits)
    with c False assms show ?thesis by (simp add: construct_tree_def)
  qed (use c assms in \<open>simp add: construct_tree_def\<close>)
qed

lemma construct_tree_store:
  assumes "construct_tree st0 = Inr st" "store_ok st0"
  shows "store_ok st"
  using construct_tree_cases[OF assms(1)] headings_finished[of st0 st] assms(2) section_helper_store
  by (auto simp: finished_def)

lemma construct_tree_raises:
  assumes "tree_height_ok st0"
  shows "if 2 \<le> length (headings_of (st_doc_content st0)) \<and> \<not> levels_ok 0 (map h_level (headings_of (st_doc_content st0)))
         then construct_tree st0 = Inl IndexError else \<exists>st. construct_tree st0 = Inr st"
proof (cases "construct_tree_from_headings st0")
  case (Inl e)
  with construct_headings_raises[of st0 e] show ?thesis by (simp add: construct_tree_def)
next
  case (Inr r)
  obtain b st1 where r: "r = (b, st1)" by (cases r)
  have "\<exists>st. construct_tree st0 = Inr st"
  proof (cases b)
    case False
    with Inr r have "st1 = st0"
      by (auto simp: construct_tree_from_headings_def Let_def split: if_splits)
    with False Inr r section_helper_total[OF assms, of 1] show ?thesis
      by (fastforce simp: construct_tree_def)
  qed (simp add: construct_tree_def Inr r)
  then show ?thesis using construct_headings_raises[of st0 IndexError] Inr by auto
qed

text \<open>
  C19. Building the section tree of a document either raises \<open>IndexError\<close> or returns a tree with
  its leaves identified.  It raises exactly if at least two lines are accepted as headings and one
  of them is more than one level deeper than every heading before it.
\<close>

theorem section_tree_outcome:
  "let hs = headings_of (snd (document_body content))
   in if 2 \<le> length hs \<and> \<not> levels_ok 0 (map h_level hs)
      then section_tree_init name content = Inl IndexError
      else \<exists>st. section_tree_init name content = Inr (Some st)"
proof -
  let ?e = "empty_tree name content"
  note e = empty_tree_ok[of name content]
  have "\<exists>st. section_tree_init name content = Inr (Some st)" if st: "construct_tree ?e = Inr st" for st
  proof -
    have ok: "store_ok st" by (rule construct_tree_store[OF st e(1)])
    then have "children_later (st_nodes st)" "hd (st_tree st ! 0) = 0" "0 < length (st_nodes st)"
      by (auto simp: store_ok_def)
    with identify_leaf_total[of st 0 "Suc (length (st_nodes st))"]
    have "\<exists>st'. identify_leaf (Suc (length (st_nodes st))) st (hd (st_tree st ! 0)) = Some st'" by auto
    then show ?thesis by (auto simp only: section_tree_init_def st rbind_simps)
  qed
  moreover have "section_tree_init name content = Inl IndexError" if "construct_tree ?e = Inl IndexError"
    using that by (simp add: section_tree_init_def)
  ultimately show ?thesis
    using construct_tree_raises[OF e(2)] unfolding e(4) Let_def by meson
qed

text \<open>
  C18. The leaves of a section tree that was built from headings lie in the document one after the
  other without overlap, and every character of the document is in one of them, or in the first
  \<open>length (name) + 5\<close> characters of a section that has subsections.
\<close>

theorem section_leaves_cover:
  assumes "section_tree_init name content = Inr (Some st)"
    and "2 \<le> length (headings_of (snd (document_body content)))"
  shows "leaf_spans_ok st"
proof -
  let ?e = "empty_tree name content"
  note e = empty_tree_ok[of name content]
  obtain st1 where st1: "construct_tree ?e = Inr st1"
    "identify_leaf (Suc (length (st_nodes st1))) st1 (hd (st_tree st1 ! 0)) = Some st"
    using assms(1) by (auto simp: section_tree_init_def)
  have h: "hd (st_tree st1 ! 0) = 0" using construct_tree_store[OF st1(1) e(1)] by (simp add: store_ok_def)
  have "construct_tree_from_headings ?e = Inr (True, st1)"
    using construct_tree_cases[OF st1(1)] assms(2)
    by (auto simp: construct_tree_from_headings_def headings_of_def e(4) Let_def split: if_splits)
  from headings_finished[OF this] obtain t rows nodes where "finished t rows nodes ?e st1" by blast
  from finished_spans[OF this e(5,4) assms(2) st1(2)[unfolded h]] show ?thesis .
qed

section \<open>Documents\<close>

definition sample_document :: string where
  "sample_document =
     CHR 0x0A # ''1 Introduction'' @ [CHR 0x0A, CHR 0x0A] @ ''Introductory text.'' @ [CHR 0x0A, CHR 0x0A]
     @ ''1.1 Scope'' @ [CHR 0x0A, CHR 0x0A] @ ''1. A list item.'' @ [CHR 0x0A]"

lemma sample_headings: "map h_raw (headings_of (snd (document_body sample_document))) = [''1 Introduction'', ''1.1 Scope'']"
  by code_simp

lemma sample_leaves:
  "case section_tree_init ''rfc'' sample_document of
     Inr (Some st) \<Rightarrow> map (\<lambda>i. n_name (node_at st i)) (st_leafs st) = [CHR 0x09 # ''1 Introduction[PADDING]'', ''1.1 Scope'']
   | _ \<Rightarrow> False"
  by code_simp

theorem section_leaves_cover_witness:
  "\<exists>st. section_tree_init ''rfc'' sample_document = Inr (Some st) \<and> leaf_spans_ok st \<and> length (st_leafs st) = 2"
proof -
  obtain st where st: "section_tree_init ''rfc'' sample_document = Inr (Some st)"
    "map (\<lambda>i. n_name (node_at st i)) (st_leafs st) = [CHR 0x09 # ''1 Introduction[PADDING]'', ''1.1 Scope'']"
    using sample_leaves by (auto split: sum.splits option.splits)
  have "2 \<le> length (headings_of (snd (document_body sample_document)))"
    using arg_cong[OF sample_headings, of length] by simp
  from section_leaves_cover[OF st(1) this] st show ?thesis by (metis length_map length_Cons list.size(3) numeral_2_eq_2)
qed

text \<open>A heading below a level that does not occur ends the constructor.\<close>

lemma skipped_level_raises:
  "section_tree_init ''rfc''
     (''1 Introduction'' @ [CHR 0x0A, CHR 0x0A] @ ''1.1.1 Deep'' @ [CHR 0x0A]) = Inl IndexError"
  by code_simp

text \<open>
  A document that names its table of contents but has fewer than two \<open>INTRODUCTION\<close> keeps the whole
  text, with what came before the table twice.
\<close>

lemma toc_prefix_twice:
  assumes "re_search (re_word ''Table of Contents'') doc 0 = Some (n, m)"
    and "length (re_finditer (re_word ''INTRODUCTION'') doc 0) < 2"
  shows "toc_extract doc = Some ([], take n doc @ doc)"
proof -
  have "(case re_finditer (re_word ''INTRODUCTION'') doc 0 of _ # m # _ \<Rightarrow> fst m - 5 | _ \<Rightarrow> 0) = (0::nat)"
    using assms(2) by (auto split: list.splits)
  with assms(1) show ?thesis by (simp add: toc_extract_def py_slice_def)
qed

text \<open>Looking a section up by its number finds any section with as many numbers.\<close>

lemma number_not_compared: "matches_number ''2.'' ''1. Introduction''"
  by code_simp

text \<open>The check of a name found by a pattern never fails: the name has a dot.\<close>

lemma check_section_dot: "CHR ''.'' \<in> set cur \<Longrightarrow> check_section pre cur"
proof -
  assume dot: "CHR ''.'' \<in> set cur"
  obtain p q where "cur = p @ py_strip cur @ q" "list_all is_space_c p" "list_all is_space_c q"
    using py_strip_decomp by blast
  moreover have "\<not> is_space_c (CHR ''.'')" by code_simp
  ultimately have "CHR ''.'' \<in> set (py_strip cur)"
    using dot unfolding list_all_iff by (metis UnE set_append)
  then show ?thesis by (simp add: check_section_def)
qed

text \<open>Headings that a float sum keeps out although their exact score is 0.65.\<close>

lemma rounded_out:
  "flag_score Numeric True False True False False True < d_0_65"
  "dsub (flag_score Numeric True False True False False False) d_0_2 < d_0_65"
  by code_simp+

end
