(* ===== verification/Response_Validation.thy ===== *)
theory Response_Validation imports Python_Text begin

text \<open>
  The checks of what the language model answers (\<open>voltron/llm/response_validation.py\<close>).  The parsers of
  Python's library for JSON, Python sources and XML are parameters, the record \<open>parsers\<close>: of the exceptions
  they raise the code handles one class each (\<open>Parse_error\<close>), the others leave the function
  (\<open>Parse_raises\<close>).  The detail text of an error, which is for the log, is left out.
\<close>

section \<open>Values\<close>

datatype json_float = Finite rat | Infinite bool | Not_a_number

text \<open>Keys of an object are distinct, as \<open>json.loads\<close> makes them.\<close>

datatype json =
    J_null
  | J_bool bool
  | J_int int
  | J_float json_float
  | J_str string
  | J_list "json list"
  | J_dict "(string \<times> json) list"

datatype xml = Xml (xml_tag: string) (xml_attrib: "(string \<times> string) list") (xml_children: "xml list")

datatype 'a parse = Parsed 'a | Parse_error | Parse_raises string

text \<open>\<open>ast.parse\<close> is seen through the names of the functions of the module.\<close>

record parsers =
  json_loads :: "string \<Rightarrow> json parse"
  ast_functions :: "string \<Rightarrow> string list parse"
  xml_fromstring :: "string \<Rightarrow> xml parse"

text \<open>\<open>Invalid\<close> is an \<open>LLMResponseValidationError\<close> with its reason, \<open>Escapes\<close> any other exception.\<close>

datatype llm_error = Invalid string | Escapes string

section \<open>Contracts\<close>

datatype response_kind =
  K_text | K_text_enum | K_json | K_python | K_xml | K_source_delta | K_ir_delta

record contract =
  c_kind :: response_kind
  c_schema :: string
  c_required_function :: string
  c_allowed_values :: "string list"
  c_allowed_xml_roots :: "string list"
  c_expected_message :: string
  c_allow_markdown_fence :: bool
  c_max_chars :: nat

definition base_contract :: contract where
  "base_contract =
     \<lparr>c_kind = K_text, c_schema = [], c_required_function = [], c_allowed_values = [],
      c_allowed_xml_roots = [], c_expected_message = [], c_allow_markdown_fence = True, c_max_chars = 100000\<rparr>"

definition contract_of :: "response_kind \<Rightarrow> contract" where
  "contract_of k = base_contract\<lparr>c_kind := k\<rparr>"

definition json_contract :: "string \<Rightarrow> contract" where
  "json_contract schema = (contract_of K_json)\<lparr>c_schema := schema\<rparr>"

definition python_contract :: "string \<Rightarrow> contract" where
  "python_contract name = (contract_of K_python)\<lparr>c_required_function := name\<rparr>"

definition CONTRACTS :: "(string \<times> contract) list" where
  "CONTRACTS =
     [(''doc_parse'', (contract_of K_text_enum)\<lparr>c_allowed_values := [''request'', ''response'', ''all'', ''none''],
                                              c_allow_markdown_fence := False\<rparr>),
      (''ir_generation'', (contract_of K_xml)\<lparr>c_allowed_xml_roots := [''message'']\<rparr>),
      (''ir_repair'', (contract_of K_xml)\<lparr>c_allowed_xml_roots := [''message'']\<rparr>),
      (''ir_evolve'', contract_of K_ir_delta),
      (''generator_gen'', python_contract ''generate''),
      (''code_repair'', contract_of K_python),
      (''generator_evolve'', contract_of K_source_delta),
      (''parser_evolve'', contract_of K_source_delta),
      (''mutator_evolve'', (python_contract ''mutate'')\<lparr>c_allow_markdown_fence := False\<rparr>),
      (''parser_gen'', python_contract ''packet_parser''),
      (''checker_gen'', python_contract ''packet_checker''),
      (''observer_gen'', python_contract ''packet_observer''),
      (''observer_evolve'', contract_of K_source_delta),
      (''checker_evolve'', contract_of K_source_delta),
      (''observer_semantic_compare'', json_contract ''observer_semantic_compare''),
      (''req_query'', json_contract ''field_query''),
      (''res_query'', json_contract ''field_query''),
      (''req_type_rules'', json_contract ''request_type_rules''),
      (''res_type_rules'', json_contract ''response_type_rules''),
      (''section_type_annotation'', json_contract ''section_type_annotation''),
      (''possible_res'', json_contract ''possible_response''),
      (''infer_dependency'', json_contract ''dependency''),
      (''checker_non_compliance_review'', json_contract ''compliance'')]"

text \<open>\<open>llm_response_max_chars\<close> is the configured limit, if there is one.\<close>

definition response_contract_for_usage :: "int option \<Rightarrow> string \<Rightarrow> contract" where
  "response_contract_for_usage llm_response_max_chars usage =
     (let c = (case map_of CONTRACTS (py_strip usage) of None \<Rightarrow> base_contract | Some c \<Rightarrow> c);
          configured = (case llm_response_max_chars of None \<Rightarrow> int (c_max_chars c) | Some n \<Rightarrow> n)
      in c\<lparr>c_max_chars := nat (max 1 configured)\<rparr>)"

section \<open>Markdown fences\<close>

definition backticks :: string where
  "backticks = ''```''"

definition is_label_c :: "char \<Rightarrow> bool" where
  "is_label_c c \<longleftrightarrow> is_word_c c \<or> c = CHR ''+'' \<or> c = CHR ''-''"

text \<open>\<open>\r?\n\<close> at the start of a text, and what is left.\<close>

definition line_end :: "string \<Rightarrow> string option" where
  "line_end s =
     (let t = (case s of [] \<Rightarrow> [] | c # cs \<Rightarrow> if code_of c = 13 then cs else s)
      in case t of [] \<Rightarrow> None | c # cs \<Rightarrow> if code_of c = 10 then Some cs else None)"

text \<open>\<open>\r?\n```\s*\<close> up to the end.\<close>

definition closes :: "string \<Rightarrow> bool" where
  "closes s \<longleftrightarrow>
     (case line_end s of
        None \<Rightarrow> False
      | Some r \<Rightarrow> take 3 r = backticks \<and> list_all is_space_c (drop 3 r))"

text \<open>
  The full match of a fenced text: its label and its body.  The body is lazy, so it ends at the first
  place where the rest closes the fence.
\<close>

definition fence_match :: "string \<Rightarrow> (string \<times> string) option" where
  "fence_match text =
     (let s = dropWhile is_space_c text; r = drop 3 s; label = takeWhile is_label_c r;
          after = dropWhile (\<lambda>c. c = CHR '' '' \<or> code_of c = 9) (dropWhile is_label_c r)
      in if take 3 s \<noteq> backticks then None
         else case line_end after of
           None \<Rightarrow> None
         | Some rest \<Rightarrow>
             (case find (\<lambda>k. closes (drop k rest)) [0..<Suc (length rest)] of
                None \<Rightarrow> None
              | Some k \<Rightarrow> Some (label, take k rest)))"

fun contains_text :: "string \<Rightarrow> string \<Rightarrow> bool" where
  "contains_text w [] \<longleftrightarrow> w = []"
| "contains_text w (c # cs) \<longleftrightarrow> take (length w) (c # cs) = w \<or> contains_text w cs"

fun allowed_labels :: "response_kind \<Rightarrow> string list" where
  "allowed_labels K_json = ['''', ''json'']"
| "allowed_labels K_source_delta = ['''', ''json'']"
| "allowed_labels K_ir_delta = ['''', ''json'']"
| "allowed_labels K_python = ['''', ''py'', ''python'']"
| "allowed_labels K_xml = ['''', ''xml'']"
| "allowed_labels K_text = ['''', ''text'']"
| "allowed_labels K_text_enum = ['''', ''text'']"

definition strip_complete_fence :: "contract \<Rightarrow> string \<Rightarrow> llm_error + string" where
  "strip_complete_fence c text =
     (case fence_match text of
        None \<Rightarrow>
          if contains_text backticks text then Inl (Invalid ''artifact_with_prose'')
          else if c_kind c = K_python then Inr text else Inr (py_strip text)
      | Some (label, body) \<Rightarrow>
          if \<not> c_allow_markdown_fence c then Inl (Invalid ''unexpected_markdown_fence'')
          else if py_lower label \<notin> set (allowed_labels (c_kind c))
          then Inl (Invalid ''wrong_artifact_fence'') else Inr (py_strip body))"

section \<open>Schemas\<close>

type_synonym check = "llm_error + unit"

definition require :: "bool \<Rightarrow> check" where
  "require b = (if b then Inr () else Inl (Invalid ''schema_failure''))"

definition check_then :: "check \<Rightarrow> check \<Rightarrow> check" where
  "check_then a b = rbind a (\<lambda>_. b)"

definition checks :: "check list \<Rightarrow> check" where
  "checks cs = foldr check_then cs (Inr ())"

text \<open>\<open>value[key]\<close> of a key that was required.\<close>

definition member :: "(string \<times> json) list \<Rightarrow> string \<Rightarrow> json" where
  "member d k = (case map_of d k of None \<Rightarrow> J_null | Some v \<Rightarrow> v)"

definition require_keys :: "(string \<times> json) list \<Rightarrow> string list \<Rightarrow> check" where
  "require_keys d keys = require (set keys \<subseteq> fst ` set d)"

fun is_str :: "json \<Rightarrow> bool" where
  "is_str (J_str _) = True"
| "is_str _ = False"

fun is_list :: "json \<Rightarrow> bool" where
  "is_list (J_list _) = True"
| "is_list _ = False"

fun is_dict :: "json \<Rightarrow> bool" where
  "is_dict (J_dict _) = True"
| "is_dict _ = False"

fun is_bool :: "json \<Rightarrow> bool" where
  "is_bool (J_bool _) = True"
| "is_bool _ = False"

fun items_of :: "json \<Rightarrow> json list" where
  "items_of (J_list vs) = vs"
| "items_of _ = []"

fun entries_of :: "json \<Rightarrow> (string \<times> json) list" where
  "entries_of (J_dict d) = d"
| "entries_of _ = []"

definition string_list :: "json \<Rightarrow> check" where
  "string_list v = require (is_list v \<and> list_all is_str (items_of v))"

text \<open>\<open>v in {...}\<close> for a set of texts hashes \<open>v\<close>, which raises for a list or an object.\<close>

fun in_texts :: "json \<Rightarrow> string list \<Rightarrow> llm_error + bool" where
  "in_texts (J_list _) ts = Inl (Escapes ''TypeError'')"
| "in_texts (J_dict _) ts = Inl (Escapes ''TypeError'')"
| "in_texts (J_str s) ts = Inr (s \<in> set ts)"
| "in_texts v ts = Inr False"

definition require_in :: "json \<Rightarrow> string list \<Rightarrow> check" where
  "require_in v ts = rbind (in_texts v ts) require"

text \<open>\<open>0 <= v <= 1\<close> of a number that is not a boolean.\<close>

fun in_unit :: "json \<Rightarrow> bool" where
  "in_unit (J_int n) \<longleftrightarrow> 0 \<le> n \<and> n \<le> 1"
| "in_unit (J_float (Finite q)) \<longleftrightarrow> 0 \<le> q \<and> q \<le> 1"
| "in_unit v \<longleftrightarrow> False"

text \<open>\<open>str(v).strip()\<close> is empty for a blank text only.\<close>

fun prints_blank :: "json \<Rightarrow> bool" where
  "prints_blank (J_str s) \<longleftrightarrow> py_strip s = []"
| "prints_blank v \<longleftrightarrow> False"

definition field_item :: "json \<Rightarrow> check" where
  "field_item v = checks
     [require (is_dict v \<and> fst ` set (entries_of v) = set [''field_name'', ''position'', ''explanation'', ''value'']),
      require (list_all (\<lambda>k. is_str (member (entries_of v) k)) [''field_name'', ''position'', ''explanation'']),
      require (is_list (member (entries_of v) ''value''))]"

definition field_query :: "json \<Rightarrow> check" where
  "field_query v = check_then (require (is_list v \<and> items_of v \<noteq> [])) (checks (map field_item (items_of v)))"

definition type_rule_item :: "json \<Rightarrow> check" where
  "type_rule_item v =
     (let d = entries_of v in checks
       [require (is_dict v), require_keys d [''type_name'', ''field_values'', ''explanation''],
        require (is_str (member d ''type_name'') \<and> \<not> prints_blank (member d ''type_name'')),
        require (is_dict (member d ''field_values'') \<and> entries_of (member d ''field_values'') \<noteq> []),
        require (list_all (\<lambda>e. \<not> prints_blank (snd e)) (entries_of (member d ''field_values''))),
        require (is_str (member d ''explanation''))])"

definition type_rules :: "string \<Rightarrow> (string \<times> json) list \<Rightarrow> check" where
  "type_rules direction d = checks
     ([require_keys d [''message_direction'', ''primary_fields'', ''types''],
       require (member d ''message_direction'' = J_str direction),
       string_list (member d ''primary_fields''),
       require (is_list (member d ''types''))]
      @ map type_rule_item (items_of (member d ''types'')))"

definition object_item :: "string list \<Rightarrow> json \<Rightarrow> check" where
  "object_item keys v = checks
     [require (is_dict v), require_keys (entries_of v) keys,
      require (list_all (\<lambda>k. is_str (member (entries_of v) k)) keys)]"

definition compliance :: "(string \<times> json) list \<Rightarrow> check" where
  "compliance d = checks
     ([require_keys d [''verdict'', ''confidence'', ''summary'', ''violations'', ''evidence''],
       require_in (member d ''verdict'') [''compliant'', ''non_compliant'', ''uncertain''],
       require (in_unit (member d ''confidence'')),
       require (is_str (member d ''summary'')),
       require (is_list (member d ''violations'') \<and> is_list (member d ''evidence''))]
      @ map (object_item [''rfc'', ''section'', ''requirement'', ''observation'']) (items_of (member d ''violations''))
      @ map (object_item [''rfc'', ''section'', ''relevance'']) (items_of (member d ''evidence'')))"

definition semantic_compare :: "(string \<times> json) list \<Rightarrow> check" where
  "semantic_compare d = checks
     [require_keys d [''semantic_equivalent'', ''confidence'', ''reason'', ''dynamic_differences'', ''behavioral_differences''],
      require (is_bool (member d ''semantic_equivalent'')),
      require (in_unit (member d ''confidence'')),
      require (is_str (member d ''reason'')),
      string_list (member d ''dynamic_differences''),
      string_list (member d ''behavioral_differences'')]"

definition validate_json_schema :: "json \<Rightarrow> string \<Rightarrow> check" where
  "validate_json_schema v schema =
     (if schema = [] then Inr ()
      else if schema = ''field_query'' then field_query v
      else check_then (require (is_dict v))
        (let d = entries_of v in
         if schema = ''request_type_rules'' then type_rules ''request'' d
         else if schema = ''response_type_rules'' then type_rules ''response'' d
         else if schema = ''section_type_annotation''
         then checks [require_keys d [''request_types'', ''response_types''],
                      string_list (member d ''request_types''), string_list (member d ''response_types'')]
         else if schema = ''possible_response''
         then checks [require_keys d [''possible_response''], string_list (member d ''possible_response'')]
         else if schema = ''dependency''
         then checks [require_keys d [''request_dependency'', ''next_response''],
                      require_in (member d ''request_dependency'') [''dependent'', ''independent''],
                      string_list (member d ''next_response'')]
         else if schema = ''observer_semantic_compare'' then semantic_compare d
         else if schema = ''compliance'' then compliance d
         else Inl (Invalid ''unknown_schema'')))"

section \<open>Deltas\<close>

definition is_lower_hex :: "char \<Rightarrow> bool" where
  "is_lower_hex c \<longleftrightarrow> is_digit_c c \<or> (97 \<le> code_of c \<and> code_of c \<le> 102)"

fun is_sha256 :: "json \<Rightarrow> bool" where
  "is_sha256 (J_str s) \<longleftrightarrow> length s = 64 \<and> list_all is_lower_hex s"
| "is_sha256 v \<longleftrightarrow> False"

fun as_int :: "json \<Rightarrow> int option" where
  "as_int (J_int n) = Some n"
| "as_int v = None"

definition edit_item :: "json \<Rightarrow> check" where
  "edit_item v =
     (let d = entries_of v in checks
       [require (is_dict v), require_keys d [''start_line'', ''end_line'', ''replacement''],
        require (case (as_int (member d ''start_line''), as_int (member d ''end_line'')) of
                   (Some a, Some b) \<Rightarrow> 1 \<le> a \<and> a \<le> b \<and> is_str (member d ''replacement'')
                 | _ \<Rightarrow> False)])"

definition NO_CHANGE_REASONS :: "string list" where
  "NO_CHANGE_REASONS = [''already_satisfies_goal'', ''insufficient_evidence'', ''no_safe_change'']"

text \<open>\<open>delta.get("action", "patch")\<close>\<close>

definition delta_action :: "(string \<times> json) list \<Rightarrow> json" where
  "delta_action d = (case map_of d ''action'' of None \<Rightarrow> J_str ''patch'' | Some v \<Rightarrow> v)"

definition validate_source_delta :: "json \<Rightarrow> check" where
  "validate_source_delta v =
     (let d = entries_of v; edits = member d ''edits'' in checks
       ([require (is_dict v), require_keys d [''base_sha256'', ''edits''],
         require (is_sha256 (member d ''base_sha256'')),
         require_in (delta_action d) [''patch'', ''no_change''],
         require (is_list edits \<and> length (items_of edits) \<le> 64),
         require (delta_action d = J_str ''patch'' \<longrightarrow> items_of edits \<noteq> []),
         (if delta_action d = J_str ''no_change''
          then check_then (require (items_of edits = [])) (require_in (member d ''reason'') NO_CHANGE_REASONS)
          else Inr ())]
        @ map edit_item (items_of edits)))"

definition validate_ir_delta :: "json \<Rightarrow> check" where
  "validate_ir_delta v =
     (let d = entries_of v; ops = member d ''ops'' in checks
       [require (is_dict v), require_keys d [''base_sha256'', ''ops''],
        require (is_sha256 (member d ''base_sha256'')),
        require (is_list ops \<and> length (items_of ops) \<le> 128),
        require (list_all is_dict (items_of ops))])"

section \<open>A response\<close>

datatype content = No_content | Not_text | Content string

datatype artifact = A_none | A_text string | A_json json | A_functions "string list" | A_xml xml

record validated =
  v_normalized :: string
  v_parsed :: artifact

definition from_parse :: "string \<Rightarrow> 'a parse \<Rightarrow> llm_error + 'a" where
  "from_parse reason p =
     (case p of Parsed x \<Rightarrow> Inr x | Parse_error \<Rightarrow> Inl (Invalid reason) | Parse_raises e \<Rightarrow> Inl (Escapes e))"

definition validate_python :: "parsers \<Rightarrow> string \<Rightarrow> string \<Rightarrow> llm_error + string list" where
  "validate_python ps source required_function =
     rbind (from_parse ''invalid_python'' (ast_functions ps source)) (\<lambda>names.
       if required_function \<noteq> [] \<and> required_function \<notin> set names
       then Inl (Invalid ''missing_function'') else Inr names)"

text \<open>\<open>root.findall('.//message')\<close>: the elements below the root.\<close>

fun xml_below :: "xml \<Rightarrow> xml list" where
  "xml_below (Xml t a cs) = concat (map (\<lambda>c. c # xml_below c) cs)"

definition validate_xml :: "parsers \<Rightarrow> contract \<Rightarrow> string \<Rightarrow> llm_error + xml" where
  "validate_xml ps c source =
     rbind (from_parse ''invalid_xml'' (xml_fromstring ps source)) (\<lambda>root.
       if c_allowed_xml_roots c \<noteq> [] \<and> xml_tag root \<notin> set (c_allowed_xml_roots c)
       then Inl (Invalid ''invalid_xml_root'')
       else let messages = (if xml_tag root = ''message'' then [root]
                            else filter (\<lambda>m. xml_tag m = ''message'') (xml_below root))
            in if c_expected_message c \<noteq> [] \<and>
                  \<not> list_ex (\<lambda>m. map_of (xml_attrib m) ''name'' = Some (c_expected_message c)) messages
               then Inl (Invalid ''missing_message'') else Inr root)"

definition validate_artifact :: "parsers \<Rightarrow> contract \<Rightarrow> string \<Rightarrow> llm_error + validated" where
  "validate_artifact ps c normalized =
     (case c_kind c of
        K_text \<Rightarrow> Inr \<lparr>v_normalized = normalized, v_parsed = A_none\<rparr>
      | K_text_enum \<Rightarrow>
          let low = py_lower normalized
          in if low \<notin> set (c_allowed_values c) then Inl (Invalid ''invalid_enum'')
             else Inr \<lparr>v_normalized = low, v_parsed = A_text low\<rparr>
      | K_python \<Rightarrow>
          rbind (validate_python ps normalized (c_required_function c)) (\<lambda>names.
            Inr \<lparr>v_normalized = normalized, v_parsed = A_functions names\<rparr>)
      | K_xml \<Rightarrow>
          rbind (validate_xml ps c normalized) (\<lambda>root.
            Inr \<lparr>v_normalized = normalized, v_parsed = A_xml root\<rparr>)
      | k \<Rightarrow>
          rbind (from_parse ''invalid_json'' (json_loads ps normalized)) (\<lambda>parsed.
            rbind (if k = K_json then validate_json_schema parsed (c_schema c)
                   else if k = K_source_delta then validate_source_delta parsed
                   else validate_ir_delta parsed) (\<lambda>_.
              Inr \<lparr>v_normalized = normalized, v_parsed = A_json parsed\<rparr>)))"

definition validate_response :: "parsers \<Rightarrow> content \<Rightarrow> contract \<Rightarrow> llm_error + validated" where
  "validate_response ps response c =
     (case response of
        No_content \<Rightarrow> Inl (Invalid ''empty_response'')
      | Not_text \<Rightarrow> Inl (Invalid ''invalid_content_type'')
      | Content text \<Rightarrow>
          if py_strip text = [] then Inl (Invalid ''empty_response'')
          else if c_max_chars c < length text then Inl (Invalid ''response_too_large'')
          else rbind (strip_complete_fence c text) (\<lambda>normalized.
            if normalized = [] then Inl (Invalid ''empty_response'')
            else validate_artifact ps c normalized))"

section \<open>Validating twice\<close>

lemma contains_text_take: "s \<noteq> [] \<Longrightarrow> take (length w) s = w \<Longrightarrow> contains_text w s"
  by (cases s) auto

lemma contains_text_dropWhile: "contains_text w (dropWhile p s) \<Longrightarrow> w \<noteq> [] \<Longrightarrow> contains_text w s"
  by (induction s) (auto split: if_splits)

lemma no_fence:
  assumes "\<not> contains_text backticks text"
  shows "fence_match text = None"
proof -
  have "take 3 (dropWhile is_space_c text) \<noteq> backticks"
  proof
    assume "take 3 (dropWhile is_space_c text) = backticks"
    moreover from this have "dropWhile is_space_c text \<noteq> []"
      by (metis backticks_def list.distinct(1) take_Nil)
    ultimately have "contains_text backticks (dropWhile is_space_c text)"
      by (intro contains_text_take) (simp_all add: backticks_def numeral_3_eq_3)
    with assms show False by (auto dest: contains_text_dropWhile simp: backticks_def)
  qed
  then show ?thesis by (simp add: fence_match_def Let_def)
qed

lemma dropWhile_hd: "xs \<noteq> [] \<Longrightarrow> \<not> P (hd xs) \<Longrightarrow> dropWhile P xs = xs"
  by (cases xs) auto

lemma py_strip_idem [simp]: "py_strip (py_strip s) = py_strip s"
proof (cases "py_strip s = []")
  case False
  then have "\<not> is_space_c (hd (py_strip s))" "\<not> is_space_c (last (py_strip s))"
    using py_strip_hd py_strip_last by (auto simp: neq_Nil_conv)
  with False have "dropWhile is_space_c (py_strip s) = py_strip s"
    "dropWhile is_space_c (rev (py_strip s)) = rev (py_strip s)"
    by (simp_all add: dropWhile_hd hd_rev)
  then show ?thesis by (subst py_strip_def) simp
next
  case True
  then show ?thesis by (simp only: True) (simp add: py_strip_def)
qed

lemma length_py_strip: "length (py_strip s) \<le> length s"
proof -
  obtain p q where "s = p @ py_strip s @ q" using py_strip_decomp by blast
  then have "length s = length p + (length (py_strip s) + length q)" by (metis length_append)
  then show ?thesis by simp
qed

lemma lower_c_idem [simp]: "lower_c (lower_c c) = lower_c c"
  by (auto simp: lower_c_def code_of_def)

lemma code_lower: "code_of (lower_c c) = (if 65 \<le> code_of c \<and> code_of c \<le> 90 then code_of c + 32 else code_of c)"
  by (simp add: lower_c_def code_of_def)

lemma space_lower [simp]: "is_space_c (lower_c c) = is_space_c c"
  by (auto simp: is_space_c_def Let_def code_lower)

lemma dropWhile_lower: "dropWhile is_space_c (map lower_c s) = map lower_c (dropWhile is_space_c s)"
  by (induction s) (simp_all only: list.map dropWhile.simps space_lower if_True if_False split: if_splits, auto)

lemma py_strip_lower: "py_strip (py_lower s) = py_lower (py_strip s)"
  by (simp add: py_strip_def py_lower_def rev_map dropWhile_lower)

lemma py_lower_idem [simp]: "py_lower (py_lower s) = py_lower s"
  by (simp add: py_lower_def)

lemma length_fence_body: "fence_match text = Some (label, body) \<Longrightarrow> length body \<le> length text"
proof -
  assume f: "fence_match text = Some (label, body)"
  let ?s = "dropWhile is_space_c text"
  let ?after = "dropWhile (\<lambda>c. c = CHR '' '' \<or> code_of c = 9) (dropWhile is_label_c (drop 3 ?s))"
  from f obtain rest k where r: "line_end ?after = Some rest" "body = take k rest"
    by (auto simp: fence_match_def Let_def split: if_splits option.splits)
  have "length rest \<le> length ?after" using r(1) by (auto simp: line_end_def Let_def split: list.splits if_splits)
  also have "\<dots> \<le> length (drop 3 ?s)" by (meson length_dropWhile_le order_trans)
  also have "\<dots> \<le> length ?s" by simp
  also have "\<dots> \<le> length text" by (rule length_dropWhile_le)
  finally show ?thesis using r(2) by simp
qed

lemma length_normalized: "strip_complete_fence c text = Inr n \<Longrightarrow> length n \<le> length text"
  using length_fence_body order_trans[OF length_py_strip]
  by (auto simp: strip_complete_fence_def length_py_strip split: option.splits if_splits)

lemma strip_again:
  assumes "strip_complete_fence c text = Inr n" "\<not> contains_text backticks n"
  shows "strip_complete_fence c n = Inr n"
  using assms no_fence[OF assms(2)]
  by (auto simp: strip_complete_fence_def split: option.splits if_splits)

lemma limit_sel:
  "c_kind (c\<lparr>c_max_chars := m\<rparr>) = c_kind c"
  "c_schema (c\<lparr>c_max_chars := m\<rparr>) = c_schema c"
  "c_required_function (c\<lparr>c_max_chars := m\<rparr>) = c_required_function c"
  "c_allowed_values (c\<lparr>c_max_chars := m\<rparr>) = c_allowed_values c"
  "c_allowed_xml_roots (c\<lparr>c_max_chars := m\<rparr>) = c_allowed_xml_roots c"
  "c_expected_message (c\<lparr>c_max_chars := m\<rparr>) = c_expected_message c"
  "c_allow_markdown_fence (c\<lparr>c_max_chars := m\<rparr>) = c_allow_markdown_fence c"
  by simp_all

lemma limit_only [simp]:
  "validate_artifact ps (c\<lparr>c_max_chars := m\<rparr>) t = validate_artifact ps c t"
  "strip_complete_fence (c\<lparr>c_max_chars := m\<rparr>) t = strip_complete_fence c t"
  unfolding validate_artifact_def validate_xml_def strip_complete_fence_def limit_sel by (rule refl)+

lemma validated_again:
  assumes "validate_response ps (Content text) c = Inr v" "\<not> contains_text backticks (v_normalized v)"
    and "length (v_normalized v) \<le> m"
  shows "validate_response ps (Content (v_normalized v)) (c\<lparr>c_max_chars := m\<rparr>) = Inr v"
proof -
  from assms(1) obtain n where n: "strip_complete_fence c text = Inr n" "n \<noteq> []" "validate_artifact ps c n = Inr v"
    "py_strip text \<noteq> []"
    by (auto simp: validate_response_def split: if_splits)
  have len: "length n \<le> m"
  proof -
    have "v_normalized v = n \<or> v_normalized v = py_lower n"
      using n(3) by (auto simp: validate_artifact_def Let_def split: response_kind.splits if_splits)
    with assms(3) show ?thesis by (auto simp: py_lower_def)
  qed
  have strip: "py_strip n \<noteq> []"
    using n(1,2,4) by (auto simp: strip_complete_fence_def split: option.splits if_splits)
  show ?thesis
  proof (cases "c_kind c = K_text_enum")
    case True
    with n(3) have v: "v = \<lparr>v_normalized = py_lower n, v_parsed = A_text (py_lower n)\<rparr>" "py_lower n \<in> set (c_allowed_values c)"
      by (auto simp: validate_artifact_def Let_def split: if_splits)
    from n(1) True have "py_strip n = n" by (auto simp: strip_complete_fence_def split: option.splits if_splits)
    moreover have "fence_match (py_lower n) = None" using assms(2) v by (simp add: no_fence)
    ultimately have "strip_complete_fence c (py_lower n) = Inr (py_lower n)"
      using assms(2) v True by (simp add: strip_complete_fence_def py_strip_lower)
    with v True n(2) len strip show ?thesis
      by (simp add: validate_response_def validate_artifact_def Let_def py_strip_lower) (simp add: py_lower_def)
  next
    case False
    with n(3) have vn: "v_normalized v = n"
      by (auto simp: validate_artifact_def split: response_kind.splits if_splits)
    with assms(2) strip_again[OF n(1)] n(2,3) len strip show ?thesis
      by (simp add: validate_response_def)
  qed
qed


lemma validated_length:
  assumes "validate_response ps (Content text) c = Inr v"
  shows "length (v_normalized v) \<le> c_max_chars c"
proof -
  from assms obtain n where n: "strip_complete_fence c text = Inr n" "validate_artifact ps c n = Inr v"
    "length text \<le> c_max_chars c"
    by (auto simp: validate_response_def split: if_splits)
  have "v_normalized v = n \<or> v_normalized v = py_lower n"
    using n(2) by (auto simp: validate_artifact_def Let_def split: response_kind.splits if_splits)
  then show ?thesis using length_normalized[OF n(1)] n(3) by (auto simp: py_lower_def)
qed

text \<open>
  A response that was accepted and normalized is accepted again under the same contract, with the
  same value, if the normalized text has no backtick fence in it.
\<close>

theorem revalidation_stable:
  assumes "validate_response ps (Content text) c = Inr v" "\<not> contains_text backticks (v_normalized v)"
  shows "validate_response ps (Content (v_normalized v)) c = Inr v"
  using validated_again[OF assms validated_length[OF assms(1)]] by simp

theorem revalidation_stable_witness:
  "\<exists>v. validate_response \<lparr>json_loads = \<lambda>_. Parse_error, ast_functions = \<lambda>_. Parse_error, xml_fromstring = \<lambda>_. Parse_error\<rparr>
         (Content '' Request '') (response_contract_for_usage None ''doc_parse'') = Inr v \<and>
       v_normalized v = ''request'' \<and>
       validate_response \<lparr>json_loads = \<lambda>_. Parse_error, ast_functions = \<lambda>_. Parse_error, xml_fromstring = \<lambda>_. Parse_error\<rparr>
         (Content (v_normalized v)) (response_contract_for_usage None ''doc_parse'') = Inr v"
proof -
  let ?ps = "\<lparr>json_loads = \<lambda>_. Parse_error, ast_functions = \<lambda>_. Parse_error, xml_fromstring = \<lambda>_. Parse_error\<rparr>"
  let ?v = "\<lparr>v_normalized = ''request'', v_parsed = A_text ''request''\<rparr>"
  have c: "c_kind (response_contract_for_usage None ''doc_parse'') = K_text_enum"
    "c_allowed_values (response_contract_for_usage None ''doc_parse'') = [''request'', ''response'', ''all'', ''none'']"
    "c_max_chars (response_contract_for_usage None ''doc_parse'') = nat (max 1 (int 100000))"
    by (simp_all add: response_contract_for_usage_def CONTRACTS_def contract_of_def base_contract_def Let_def
        py_strip_def is_space_c_def code_of_def)
  have strip: "py_strip '' Request '' = ''Request''" "fence_match '' Request '' = None" "py_lower ''Request'' = ''request''"
    by code_simp+
  have plain: "\<not> contains_text backticks '' Request ''" "\<not> contains_text backticks ''request''"
    by (simp_all add: backticks_def)
  have run: "validate_response ?ps (Content '' Request '') (response_contract_for_usage None ''doc_parse'') = Inr ?v"
    by (simp add: validate_response_def strip_complete_fence_def validate_artifact_def Let_def c strip plain del: contains_text.simps)
  from revalidation_stable[OF run] run plain(2) show ?thesis by (intro exI[of _ ?v]) simp
qed

text \<open>
  A fenced object with a fence inside a text is accepted, but its normalized text is refused by the
  second validation that every caller of the chat does.
\<close>

definition fenced_value :: string where
  "fenced_value = ''{.possible_response.: [.'' @ backticks @ ''.]}''"

lemma fence_in_value_refused_again:
  assumes "json_loads ps fenced_value = Parsed (J_dict [(''possible_response'', J_list [J_str backticks])])"
  shows "validate_response ps (Content (backticks @ ''json'' @ CHR 0x0A # fenced_value @ CHR 0x0A # backticks))
           (json_contract ''possible_response'') =
             Inr \<lparr>v_normalized = fenced_value,
                  v_parsed = A_json (J_dict [(''possible_response'', J_list [J_str backticks])])\<rparr>"
    "validate_response ps (Content fenced_value) (json_contract ''possible_response'') = Inl (Invalid ''artifact_with_prose'')"
proof -
  let ?text = "backticks @ ''json'' @ CHR 0x0A # fenced_value @ CHR 0x0A # backticks"
  have c: "c_kind (json_contract s) = K_json" "c_schema (json_contract s) = s"
    "c_allow_markdown_fence (json_contract s)" "c_max_chars (json_contract s) = 100000" for s
    by (simp_all add: json_contract_def contract_of_def base_contract_def)
  have f: "fence_match ?text = Some (''json'', fenced_value)" "fence_match fenced_value = None"
    "contains_text backticks fenced_value" "py_lower ''json'' = ''json''" "py_strip fenced_value = fenced_value"
    "py_strip ?text \<noteq> []" "fenced_value \<noteq> []" "length ?text < 100" "length fenced_value < 100"
    by code_simp+
  have v: "validate_json_schema (J_dict [(''possible_response'', J_list [J_str backticks])]) ''possible_response'' = Inr ()"
    by code_simp
  have short: "\<not> 100000 < length ?text" "\<not> 100000 < length fenced_value" using f(8,9) by linarith+
  have "strip_complete_fence (json_contract ''possible_response'') ?text = Inr fenced_value"
    unfolding strip_complete_fence_def f(1) by (simp add: c f(4,5))
  then show "validate_response ps (Content ?text) (json_contract ''possible_response'') =
      Inr \<lparr>v_normalized = fenced_value, v_parsed = A_json (J_dict [(''possible_response'', J_list [J_str backticks])])\<rparr>"
    unfolding validate_response_def content.case c(4) using short(1) f(6,7)
    by (simp only: if_False rbind_simps) (simp add: validate_artifact_def c assms from_parse_def v)
  have "strip_complete_fence (json_contract ''possible_response'') fenced_value = Inl (Invalid ''artifact_with_prose'')"
    unfolding strip_complete_fence_def f(2) by (simp add: f(3))
  then show "validate_response ps (Content fenced_value) (json_contract ''possible_response'') = Inl (Invalid ''artifact_with_prose'')"
    unfolding validate_response_def content.case c(4) using short(2) f(5,7) by simp
qed

end
