(* ===== verification/Source_Delta.thy ===== *)
theory Source_Delta imports Response_Validation begin

text \<open>
  Line edits of a source that the model proposes (\<open>voltron/llm/incremental.py\<close>: \<open>apply_source_delta\<close>).
  SHA-256 is a parameter.
\<close>

section \<open>Applying a delta\<close>

text \<open>\<open>Delta\<close> is an \<open>IncrementalOutputError\<close> with the constant part of its text.\<close>

datatype delta_error = Delta string | Delta_escapes string

record delta_result =
  dr_source :: string
  dr_changed :: bool
  dr_reason :: "string option"

type_synonym edit = "nat \<times> nat \<times> string"

definition ends_line :: "string \<Rightarrow> bool" where
  "ends_line s \<longleftrightarrow> s \<noteq> [] \<and> (code_of (last s) = 10 \<or> code_of (last s) = 13)"

definition py_get :: "(string \<times> json) list \<Rightarrow> string \<Rightarrow> json" where
  "py_get d k = (case map_of d k of None \<Rightarrow> J_null | Some v \<Rightarrow> v)"

text \<open>One edit of the list against the number of lines.\<close>

definition normalize_edit :: "nat \<Rightarrow> json \<Rightarrow> delta_error + edit" where
  "normalize_edit n item =
     (case item of
        J_dict d \<Rightarrow>
          (case (as_int (py_get d ''start_line''), as_int (py_get d ''end_line''), py_get d ''replacement'') of
             (Some a, Some b, J_str r) \<Rightarrow>
               if a < 1 \<or> b < a \<or> int n < b then Inl (Delta ''source edit range is outside'')
               else Inr (nat a, nat b, r)
           | _ \<Rightarrow> Inl (Delta ''source edit requires integer start_line/end_line and string replacement''))
      | _ \<Rightarrow> Inl (Delta ''each source edit must be an object''))"

fun ranges_apart :: "nat \<Rightarrow> edit list \<Rightarrow> bool" where
  "ranges_apart previous_end [] \<longleftrightarrow> True"
| "ranges_apart previous_end ((a, b, r) # es) \<longleftrightarrow> previous_end < a \<and> ranges_apart b es"

definition py_newline :: "string \<Rightarrow> string" where
  "py_newline source = (if contains_text [CHR 0x0D, CHR 0x0A] source then [CHR 0x0D, CHR 0x0A] else [CHR 0x0A])"

text \<open>One round of the last loop, \<open>lines[start - 1:end] = ...\<close>, on the lines as they are then.\<close>

definition edit_lines :: "string \<Rightarrow> bool \<Rightarrow> edit \<Rightarrow> string list \<Rightarrow> string list" where
  "edit_lines newline final e ls =
     (case e of (a, b, r) \<Rightarrow>
        let must_end = (b < length ls \<or> (b = length ls \<and> final));
            r' = (if r \<noteq> [] \<and> must_end \<and> \<not> ends_line r then r @ newline else r)
        in take (a - 1) ls @ (if r' = [] then [] else [r']) @ drop b ls)"

definition apply_edits :: "string \<Rightarrow> bool \<Rightarrow> edit list \<Rightarrow> string list \<Rightarrow> string list" where
  "apply_edits newline final es ls = fold (edit_lines newline final) (rev es) ls"

definition apply_source_delta ::
  "(string \<Rightarrow> string) \<Rightarrow> string \<Rightarrow> (string \<times> json) list \<Rightarrow> delta_error + delta_result" where
  "apply_source_delta sha source d =
     (let edits = py_get d ''edits''; action = delta_action d; reason = py_get d ''reason'' in
      if py_get d ''base_sha256'' \<noteq> J_str (sha source) then Inl (Delta ''source delta base_sha256 mismatch'')
      else if action = J_str ''no_change'' then
        (if edits \<noteq> J_list [] then Inl (Delta ''source delta no_change requires empty edits'')
         else case in_texts reason NO_CHANGE_REASONS of
           Inl e \<Rightarrow> Inl (Delta_escapes ''TypeError'')
         | Inr False \<Rightarrow> Inl (Delta ''source delta no_change has an invalid reason'')
         | Inr True \<Rightarrow> Inr \<lparr>dr_source = source, dr_changed = False,
                         dr_reason = (case reason of J_str r \<Rightarrow> Some r | _ \<Rightarrow> None)\<rparr>)
      else if action \<noteq> J_str ''patch'' then Inl (Delta ''source delta action must be patch or no_change'')
      else if \<not> is_list edits \<or> items_of edits = []
        then Inl (Delta ''source delta patch requires a non-empty edits list'')
      else
        (let ls = py_splitlines_keep source in
         if ls = [] then Inl (Delta ''cannot patch empty source'')
         else rbind (rmap (normalize_edit (length ls)) (items_of edits)) (\<lambda>normalized.
           let es = sort_key fst normalized in
           if \<not> ranges_apart 0 es then Inl (Delta ''source edit ranges overlap'')
           else let evolved = concat (apply_edits (py_newline source) (ends_line source) es ls) in
             if evolved = source then Inl (Delta ''source delta made no change'')
             else Inr \<lparr>dr_source = evolved, dr_changed = True, dr_reason = None\<rparr>)))"

section \<open>All edits at once\<close>

text \<open>
  What the delta means: the lines between the ranges stay, each range gives way to its replacement,
  which ends its line if anything follows it or the source ended its last line.
\<close>

definition piece :: "string \<Rightarrow> bool \<Rightarrow> string \<Rightarrow> string list \<Rightarrow> string list" where
  "piece newline final r rest =
     (if r = [] then []
      else if (rest \<noteq> [] \<or> final) \<and> \<not> ends_line r then [r @ newline] else [r])"

fun weave :: "string \<Rightarrow> bool \<Rightarrow> string list \<Rightarrow> nat \<Rightarrow> edit list \<Rightarrow> string list" where
  "weave newline final ls k [] = drop k ls"
| "weave newline final ls k ((a, b, r) # es) =
     (let rest = weave newline final ls b es
      in drop k (take (a - 1) ls) @ piece newline final r rest @ rest)"

definition in_ranges :: "nat \<Rightarrow> edit list \<Rightarrow> bool" where
  "in_ranges n es \<longleftrightarrow> (\<forall>(a, b, r) \<in> set es. 0 < a \<and> a \<le> b \<and> b \<le> n)"

lemma fold_edits_weave:
  assumes "ranges_apart k es" "in_ranges (length ls) es" "k \<le> length ls"
  shows "fold (edit_lines newline final) (rev es) ls = take k ls @ weave newline final ls k es"
  using assms
proof (induction es arbitrary: k)
  case (Cons e es)
  obtain a b r where e: "e = (a, b, r)" by (cases e)
  from Cons.prems e have ab: "k < a" "a \<le> b" "b \<le> length ls" and es: "ranges_apart b es" "in_ranges (length ls) es"
    by (auto simp: in_ranges_def)
  let ?w = "weave newline final ls b es"
  have IH: "fold (edit_lines newline final) (rev es) ls = take b ls @ ?w"
    by (rule Cons.IH[OF es ab(3)])
  have l: "length (take b ls @ ?w) = b + length ?w" using ab by simp
  have t: "take (a - 1) (take b ls @ ?w) = take k ls @ drop k (take (a - 1) ls)"
  proof -
    have "take (a - 1) (take b ls @ ?w) = take (a - 1) ls" using ab by (simp add: min_absorb1)
    also have "\<dots> = take k (take (a - 1) ls) @ drop k (take (a - 1) ls)"
      by (rule append_take_drop_id[symmetric])
    also have "take k (take (a - 1) ls) = take k ls" using ab by (simp add: min_absorb1)
    finally show ?thesis .
  qed
  have d: "drop b (take b ls @ ?w) = ?w" using ab by simp
  have m: "(b < length (take b ls @ ?w) \<or> b = length (take b ls @ ?w) \<and> final) = (?w \<noteq> [] \<or> final)"
    unfolding l by auto
  have "edit_lines newline final (a, b, r) (take b ls @ ?w) =
      take (a - 1) (take b ls @ ?w) @ piece newline final r ?w @ drop b (take b ls @ ?w)"
    unfolding edit_lines_def prod.case Let_def m piece_def by (cases final; cases "r = []") auto
  also have "\<dots> = take k ls @ weave newline final ls k (e # es)"
    unfolding t d e weave.simps Let_def by simp
  finally show ?case by (simp only: e rev.simps fold_append fold_simps comp_apply id_apply IH)
qed simp

lemma apply_edits_weave:
  "ranges_apart 0 es \<Longrightarrow> in_ranges (length ls) es \<Longrightarrow>
     apply_edits newline final es ls = weave newline final ls 0 es"
  using fold_edits_weave[of 0 es ls newline final] by (simp add: apply_edits_def)

text \<open>The lines outside all ranges stay, in their order.\<close>

definition untouched :: "edit list \<Rightarrow> nat \<Rightarrow> bool" where
  "untouched es i \<longleftrightarrow> (\<forall>(a, b, r) \<in> set es. Suc i < a \<or> b \<le> i)"

lemma ranges_apart_after: "ranges_apart k es \<Longrightarrow> in_ranges n es \<Longrightarrow> (a, b, r) \<in> set es \<Longrightarrow> k < a"
proof (induction es arbitrary: k)
  case (Cons e es)
  obtain a' b' r' where e: "e = (a', b', r')" by (cases e)
  with Cons.prems have "k < a'" "a' \<le> b'" "ranges_apart b' es" "in_ranges n es"
    by (auto simp: in_ranges_def)
  with Cons.IH[of b'] Cons.prems(3) e show ?case by auto
qed simp

lemma upt_split: "i \<le> j \<Longrightarrow> j \<le> n \<Longrightarrow> [i..<n] = [i..<j] @ [j..<n]"
  by (metis le_add_diff_inverse upt_add_eq_append)

lemma weave_keeps:
  assumes "ranges_apart k es" "in_ranges (length ls) es" "k \<le> length ls"
  shows "subseq (map ((!) ls) (filter (untouched es) [k..<length ls])) (weave newline final ls k es)"
  using assms
proof (induction es arbitrary: k)
  case Nil
  have "map ((!) ls) [k..<length ls] = drop k ls" by (metis drop_map drop_upt map_nth add_0)
  then show ?case by (simp add: untouched_def)
next
  case (Cons e es)
  obtain a b r where e: "e = (a, b, r)" by (cases e)
  from Cons.prems e have ab: "k < a" "a \<le> b" "b \<le> length ls" and es: "ranges_apart b es" "in_ranges (length ls) es"
    by (auto simp: in_ranges_def)
  have split: "[k..<length ls] = [k..<a - 1] @ [a - 1..<b] @ [b..<length ls]"
    using ab upt_split[of k "a - 1" "length ls"] upt_split[of "a - 1" b "length ls"] by simp
  have later: "b < a'" if "(a', b', r') \<in> set es" for a' b' r' using ranges_apart_after[OF es that] .
  have "untouched (e # es) i" if "i < a - 1" for i
  proof -
    have "Suc i < a'" if "(a', b', r') \<in> set (e # es)" for a' b' r'
    proof (cases "(a', b', r') = e")
      case False
      with that have "b < a'" using later by auto
      with ab \<open>i < a - 1\<close> show ?thesis by linarith
    qed (use \<open>i < a - 1\<close> e in simp)
    then show ?thesis unfolding untouched_def by blast
  qed
  then have "filter (untouched (e # es)) [k..<a - 1] = [k..<a - 1]" by (simp add: filter_id_conv)
  moreover have "filter (untouched (e # es)) [a - 1..<b] = []"
    by (auto simp: untouched_def e filter_empty_conv)
  moreover have "filter (untouched (e # es)) [b..<length ls] = filter (untouched es) [b..<length ls]"
    by (auto simp: untouched_def e intro!: filter_cong)
  moreover have "map ((!) ls) [k..<a - 1] = drop k (take (a - 1) ls)"
    using ab by (intro nth_equalityI) auto
  ultimately have "map ((!) ls) (filter (untouched (e # es)) [k..<length ls]) =
      drop k (take (a - 1) ls) @ map ((!) ls) (filter (untouched es) [b..<length ls])"
    unfolding split by simp
  then show ?case using Cons.IH[OF es ab(3)]
    by (simp add: e Let_def list_emb_append_mono subseq_append_le_same_iff list_emb_append2)
qed

lemma normalize_edit_range: "normalize_edit n item = Inr (a, b, r) \<Longrightarrow> 0 < a \<and> a \<le> b \<and> b \<le> n"
  by (auto simp: normalize_edit_def nat_le_iff split: json.splits option.splits if_splits)

lemma normalized_in_ranges:
  assumes "rmap (normalize_edit n) items = Inr es"
  shows "in_ranges n es" "in_ranges n (sort_key fst es)"
proof -
  have "0 < a \<and> a \<le> b \<and> b \<le> n" if e: "(a, b, r) \<in> set es" for a b r
  proof -
    obtain i where "i < length es" "es ! i = (a, b, r)" using e by (metis in_set_conv_nth)
    with rmap_InrD[OF assms] have "normalize_edit n (items ! i) = Inr (a, b, r)" by metis
    then show ?thesis by (rule normalize_edit_range)
  qed
  then show "in_ranges n es" "in_ranges n (sort_key fst es)" by (auto simp: in_ranges_def)
qed

lemma apply_source_delta_cases:
  assumes "apply_source_delta sha source d = Inr res"
  shows "if dr_changed res then dr_source res \<noteq> source else dr_source res = source"
  using assms by (auto simp: apply_source_delta_def Let_def split: if_splits sum.splits bool.splits)

text \<open>
  C22. A source delta that is applied either leaves the source as it is, on its own request, or
  replaces all its line ranges at once: although the code edits the list of lines in place, from the
  last range to the first, the result is the one that reads every range in the original source.  All
  lines outside the ranges are kept in order, and the source is really changed.
\<close>

theorem source_delta_applied:
  assumes "apply_source_delta sha source d = Inr res"
  shows "if dr_changed res
         then \<exists>es. rmap (normalize_edit (length (py_splitlines_keep source))) (items_of (py_get d ''edits'')) = Inr es \<and>
                ranges_apart 0 (sort_key fst es) \<and>
                (let ls = py_splitlines_keep source;
                     evolved = weave (py_newline source) (ends_line source) ls 0 (sort_key fst es)
                 in dr_source res = concat evolved \<and>
                    subseq (map ((!) ls) (filter (untouched es) [0..<length ls])) evolved) \<and>
                dr_source res \<noteq> source
         else dr_source res = source \<and> delta_action d = J_str ''no_change''"
proof (cases "delta_action d = J_str ''no_change''")
  case True
  with assms show ?thesis
    by (auto simp: apply_source_delta_def Let_def split: if_splits sum.splits bool.splits)
next
  case False
  let ?ls = "py_splitlines_keep source"
  from assms False obtain es where es: "rmap (normalize_edit (length ?ls)) (items_of (py_get d ''edits'')) = Inr es"
    "ranges_apart 0 (sort_key fst es)"
    "dr_source res = concat (apply_edits (py_newline source) (ends_line source) (sort_key fst es) ?ls)"
    "dr_source res \<noteq> source" "dr_changed res"
    by (auto simp: apply_source_delta_def Let_def split: if_splits)
  note r = normalized_in_ranges(2)[OF es(1)]
  have "untouched (sort_key fst es) = untouched es" by (simp add: untouched_def fun_eq_iff)
  with weave_keeps[OF es(2) r le0, of "py_newline source" "ends_line source"] es
  show ?thesis by (auto simp: Let_def apply_edits_weave[OF es(2) r])
qed

text \<open>Two edits of a three-line source whose last line has no end.\<close>

theorem source_delta_applied_witness:
  "\<exists>res. apply_source_delta (\<lambda>_. ''0'') (''a'' @ CHR 0x0A # ''b'' @ CHR 0x0A # ''c'')
     [(''base_sha256'', J_str ''0''),
      (''edits'', J_list [J_dict [(''start_line'', J_int 3), (''end_line'', J_int 3), (''replacement'', J_str ''d'')],
                          J_dict [(''start_line'', J_int 1), (''end_line'', J_int 2), (''replacement'', J_str ''x'')]])] = Inr res \<and>
     dr_changed res \<and> dr_source res = ''x'' @ CHR 0x0A # ''d'' \<and>
     (\<exists>es. ranges_apart 0 (sort_key fst es) \<and> dr_source res =
        concat (weave [CHR 0x0A] False [''a'' @ [CHR 0x0A], ''b'' @ [CHR 0x0A], ''c''] 0 (sort_key fst es)))"
proof -
  let ?source = "''a'' @ CHR 0x0A # ''b'' @ CHR 0x0A # ''c''"
  let ?d = "[(''base_sha256'', J_str ''0''),
      (''edits'', J_list [J_dict [(''start_line'', J_int 3), (''end_line'', J_int 3), (''replacement'', J_str ''d'')],
                          J_dict [(''start_line'', J_int 1), (''end_line'', J_int 2), (''replacement'', J_str ''x'')]])]"
  let ?res = "\<lparr>dr_source = ''x'' @ CHR 0x0A # ''d'', dr_changed = True, dr_reason = None\<rparr>"
  have run: "apply_source_delta (\<lambda>_. ''0'') ?source ?d = Inr ?res" by code_simp
  have ls: "py_splitlines_keep ?source = [''a'' @ [CHR 0x0A], ''b'' @ [CHR 0x0A], ''c'']"
    "py_newline ?source = [CHR 0x0A]" "ends_line ?source = False" by code_simp+
  from source_delta_applied[OF run] have
    "\<exists>es. ranges_apart 0 (sort_key fst es) \<and> dr_source ?res =
        concat (weave [CHR 0x0A] False [''a'' @ [CHR 0x0A], ''b'' @ [CHR 0x0A], ''c''] 0 (sort_key fst es))"
    unfolding ls Let_def by auto
  with run show ?thesis by (intro exI[of _ ?res]) simp
qed

section \<open>A validated delta\<close>

lemma checks_simps [simp]:
  "checks [] = Inr ()" "checks (c # cs) = Inr () \<longleftrightarrow> c = Inr () \<and> checks cs = Inr ()"
  by (auto simp: checks_def check_then_def)

lemma checks_append [simp]: "checks (cs @ ds) = Inr () \<longleftrightarrow> checks cs = Inr () \<and> checks ds = Inr ()"
  by (induction cs) auto

lemma checks_map [simp]: "checks (map f xs) = Inr () \<longleftrightarrow> (\<forall>x \<in> set xs. f x = Inr ())"
  by (induction xs) auto

lemma require_Inr [simp]: "require b = Inr () \<longleftrightarrow> b"
  by (simp add: require_def)

lemma check_then_Inr [simp]: "check_then a b = Inr () \<longleftrightarrow> a = Inr () \<and> b = Inr ()"
  by (auto simp: check_then_def)

lemma require_in_Inr [simp]: "require_in v ts = Inr () \<longleftrightarrow> (\<exists>s. v = J_str s \<and> s \<in> set ts)"
  by (cases v) (auto simp: require_in_def)

lemma member_get: "member d k = py_get d k"
  by (simp add: member_def py_get_def)

lemma edit_item_normalize:
  assumes "edit_item v = Inr ()"
  shows "normalize_edit n v = Inl (Delta ''source edit range is outside'') \<or> (\<exists>e. normalize_edit n v = Inr e)"
proof -
  from assms obtain d where v: "v = J_dict d"
    by (cases v) (auto simp: edit_item_def Let_def)
  from assms obtain a b where ab: "as_int (py_get d ''start_line'') = Some a" "as_int (py_get d ''end_line'') = Some b"
    "is_str (py_get d ''replacement'')"
    by (auto simp: edit_item_def v member_get Let_def split: option.splits)
  then obtain r where "py_get d ''replacement'' = J_str r" by (cases "py_get d ''replacement''") auto
  with ab v show ?thesis by (simp add: normalize_edit_def)
qed

lemma rmap_Inl: "rmap f xs = Inl e \<Longrightarrow> \<exists>x \<in> set xs. f x = Inl e"
  by (induction xs) auto

text \<open>
  A delta that passed the validation of the response is applied, or refused for one of five
  reasons; it never fails for its shape and no other exception leaves the function.
\<close>

theorem validated_delta_outcome:
  assumes "validate_source_delta v = Inr ()"
  shows "case apply_source_delta sha source (entries_of v) of
           Inr res \<Rightarrow> dr_changed res \<longleftrightarrow> dr_source res \<noteq> source
         | Inl e \<Rightarrow> e \<in> set (map Delta [''source delta base_sha256 mismatch'', ''source edit range is outside'',
             ''cannot patch empty source'', ''source edit ranges overlap'', ''source delta made no change''])"
proof -
  let ?d = "entries_of v" and ?n = "length (py_splitlines_keep source)"
  let ?edits = "py_get ?d ''edits''"
  from assms have v: "is_list ?edits" "\<forall>x \<in> set (items_of ?edits). edit_item x = Inr ()"
    "\<exists>s. delta_action ?d = J_str s \<and> (s = ''patch'' \<or> s = ''no_change'')"
    "delta_action ?d = J_str ''patch'' \<Longrightarrow> items_of ?edits \<noteq> []"
    "delta_action ?d = J_str ''no_change'' \<Longrightarrow> items_of ?edits = [] \<and> (\<exists>s. py_get ?d ''reason'' = J_str s \<and> s \<in> set NO_CHANGE_REASONS)"
    by (auto simp: validate_source_delta_def Let_def member_get split: if_splits)
  show ?thesis
  proof (cases "delta_action ?d = J_str ''no_change''")
    case True
    moreover have "?edits = J_list []" using v(1,5) True by (cases ?edits) auto
    ultimately show ?thesis using v(5) by (auto simp: apply_source_delta_def Let_def)
  next
    case False
    then have p: "delta_action ?d = J_str ''patch''" using v(3) by auto
    show ?thesis
    proof (cases "rmap (normalize_edit ?n) (items_of ?edits)")
      case (Inl e)
      obtain x where "x \<in> set (items_of ?edits)" "normalize_edit ?n x = Inl e" using rmap_Inl[OF Inl] by blast
      with v(2) edit_item_normalize[of x ?n] have "e = Delta ''source edit range is outside''" by auto
      with Inl p v(1,4) show ?thesis by (auto simp: apply_source_delta_def Let_def)
    next
      case (Inr es)
      with p v(1,4) show ?thesis by (auto simp: apply_source_delta_def Let_def)
    qed
  qed
qed

theorem validated_delta_outcome_witness:
  "let v = J_dict [(''base_sha256'', J_str (replicate 64 (CHR ''0''))), (''action'', J_str ''patch''),
      (''edits'', J_list [J_dict [(''start_line'', J_int 1), (''end_line'', J_int 1), (''replacement'', J_str ''x'')]])]
   in validate_source_delta v = Inr () \<and>
      (case apply_source_delta (\<lambda>_. replicate 64 (CHR ''0'')) ''a'' (entries_of v) of
         Inr res \<Rightarrow> dr_changed res \<longleftrightarrow> dr_source res \<noteq> ''a'' | Inl e \<Rightarrow> False)"
proof -
  let ?v = "J_dict [(''base_sha256'', J_str (replicate 64 (CHR ''0''))), (''action'', J_str ''patch''),
      (''edits'', J_list [J_dict [(''start_line'', J_int 1), (''end_line'', J_int 1), (''replacement'', J_str ''x'')]])]"
  have v: "validate_source_delta ?v = Inr ()" by code_simp
  have "\<not> isl (apply_source_delta (\<lambda>_. replicate 64 (CHR ''0'')) ''a'' (entries_of ?v))" by code_simp
  with validated_delta_outcome[OF v, where sha = "\<lambda>_. replicate 64 (CHR ''0'')" and source = "''a''"] v show ?thesis
    unfolding Let_def by (cases "apply_source_delta (\<lambda>_. replicate 64 (CHR ''0'')) ''a'' (entries_of ?v)") simp_all
qed

text \<open>A set membership test on an array raises \<open>TypeError\<close>, which is not the error of the validation.\<close>

lemma unhashable_action_escapes:
  "validate_source_delta (J_dict [(''base_sha256'', J_str (replicate 64 (CHR ''0''))), (''edits'', J_list []),
     (''action'', J_list [])]) = Inl (Escapes ''TypeError'')"
  by code_simp

lemma unhashable_verdict_escapes:
  "validate_json_schema (J_dict [(''verdict'', J_dict []), (''confidence'', J_int 1), (''summary'', J_str ''''),
     (''violations'', J_list []), (''evidence'', J_list [])]) ''compliance'' = Inl (Escapes ''TypeError'')"
  by code_simp

end
