(* ===== verification/Llm_Chat.thy ===== *)
theory Llm_Chat imports Source_Delta Metrics begin

text \<open>
  Asking the language model (\<open>voltron/llm/chatter.py\<close>: \<open>chat_llm\<close>, \<open>_apply_python_delta\<close>, the \<open>*_extract\<close>
  methods and what the \<open>llm_*\<close> methods do with an answer).  The service, the remaining fuzzing time and
  the effects of stopping and sleeping belong to an environment; the prompts, which are filled templates, are
  arguments.  The state keeps, besides the analyzer's counters, the list of what was done.
\<close>

section \<open>The service\<close>

record completion =
  cp_usage :: "(int option \<times> int option \<times> int option) option"
  cp_choices :: "(string option \<times> content) list option"

text \<open>\<open>Other_exception\<close> is any exception that neither handler names.\<close>

datatype reply =
    Completion "completion option"
  | Timed_out
  | Api_error string
  | Other_exception string

datatype chat_event =
    Requested "rat option"
  | Stop_requested
  | Slept rat
  | Used llm_call

record 'w chat_env =
  ce_remaining :: "'w \<Rightarrow> rat option \<times> 'w"
  ce_create :: "string \<Rightarrow> rat option \<Rightarrow> 'w \<Rightarrow> (reply \<times> int) \<times> 'w"
  ce_stop :: "'w \<Rightarrow> 'w"
  ce_sleep :: "rat \<Rightarrow> 'w \<Rightarrow> 'w"
  ce_now :: "'w \<Rightarrow> int"
  ce_writes :: "'w \<Rightarrow> bool"
  ce_model :: string
  ce_max_chars :: "int option"

record 'w chat =
  ch_world :: 'w
  ch_analyzer :: analyzer
  ch_time :: int
  ch_token :: int
  ch_events :: "chat_event list"

datatype chat_error =
    Deadline
  | Invalid_response string string
  | Api string
  | Other string

definition new_chat :: "'w \<Rightarrow> 'w chat" where
  "new_chat w = \<lparr>ch_world = w, ch_analyzer = new_analyzer, ch_time = 0, ch_token = 0, ch_events = []\<rparr>"

definition log_event :: "chat_event \<Rightarrow> 'w chat \<Rightarrow> 'w chat" where
  "log_event e s = s\<lparr>ch_events := ch_events s @ [e]\<rparr>"

definition stop_for_deadline :: "'w chat_env \<Rightarrow> 'w chat \<Rightarrow> 'w chat" where
  "stop_for_deadline env s = log_event Stop_requested (s\<lparr>ch_world := ce_stop env (ch_world s)\<rparr>)"

definition remaining_time :: "'w chat_env \<Rightarrow> 'w chat \<Rightarrow> rat option \<times> 'w chat" where
  "remaining_time env s = (let (r, w) = ce_remaining env (ch_world s) in (r, s\<lparr>ch_world := w\<rparr>))"

definition out_of_time :: "rat option \<Rightarrow> bool" where
  "out_of_time r \<longleftrightarrow> (case r of None \<Rightarrow> False | Some t \<Rightarrow> t \<le> 0)"

section \<open>One completion\<close>

text \<open>The content that was read before an error, and the validation.\<close>

definition check_completion :: "parsers \<Rightarrow> contract \<Rightarrow> completion option \<Rightarrow> content \<times> (llm_error + validated)" where
  "check_completion ps c completion =
     (case completion of
        None \<Rightarrow> (No_content, Inl (Invalid ''missing_completion''))
      | Some cp \<Rightarrow>
          (case cp_choices cp of
             Some ((finish, content) # _) \<Rightarrow>
               if finish = Some ''length'' \<or> finish = Some ''max_tokens''
               then (content, Inl (Invalid ''truncated_response''))
               else (content, validate_response ps content c)
           | _ \<Rightarrow> (No_content, Inl (Invalid ''missing_choice''))))"

definition response_text :: "content \<Rightarrow> string" where
  "response_text c = (case c of Content t \<Rightarrow> t | _ \<Rightarrow> [])"

definition usage_of :: "completion option \<Rightarrow> (int option \<times> int option \<times> int option) option" where
  "usage_of completion = (case completion of None \<Rightarrow> None | Some cp \<Rightarrow> cp_usage cp)"

definition token_count :: "int option \<Rightarrow> int" where
  "token_count v = (case v of None \<Rightarrow> 0 | Some n \<Rightarrow> n)"

definition llm_call_of :: "'w chat_env \<Rightarrow> string \<Rightarrow> int \<Rightarrow> completion option \<Rightarrow> string option \<Rightarrow> llm_call" where
  "llm_call_of env usage duration completion reason =
     (let (p, c, t) = (case usage_of completion of None \<Rightarrow> (None, None, None) | Some u \<Rightarrow> u)
      in \<lparr>lc_duration = duration, lc_prompt_tokens = token_count p, lc_completion_tokens = token_count c,
          lc_total_tokens = token_count t, lc_usage = usage, lc_model = ce_model env,
          lc_tokens_reported = (usage_of completion \<noteq> None), lc_response_valid = Some (reason = None),
          lc_validation_reason = (case reason of None \<Rightarrow> [] | Some r \<Rightarrow> r)\<rparr>)"

definition record_call :: "'w chat_env \<Rightarrow> llm_call \<Rightarrow> 'w chat \<Rightarrow> 'w chat" where
  "record_call env c s =
     log_event (Used c)
       (s\<lparr>ch_time := ch_time s + lc_duration c,
          ch_token := ch_token s + (if lc_tokens_reported c then lc_total_tokens c else 0),
          ch_analyzer := record_llm_usage (ce_writes env (ch_world s)) (ce_now env (ch_world s)) c (ch_analyzer s)\<rparr>)"

text \<open>
  An exception of the validation that is not an \<open>LLMResponseValidationError\<close> leaves before the usage
  is recorded.
\<close>

definition finish_completion ::
  "'w chat_env \<Rightarrow> parsers \<Rightarrow> string \<Rightarrow> completion option \<Rightarrow> int \<Rightarrow> 'w chat \<Rightarrow> (chat_error + string) \<times> 'w chat" where
  "finish_completion env ps usage completion duration s =
     (let (response, r) = check_completion ps (response_contract_for_usage (ce_max_chars env) usage) completion
      in case r of
        Inl (Escapes e) \<Rightarrow> (Inl (Other e), s)
      | Inl (Invalid reason) \<Rightarrow>
          (Inl (Invalid_response reason (response_text response)),
           record_call env (llm_call_of env usage duration completion (Some reason)) s)
      | Inr v \<Rightarrow> (Inr (v_normalized v), record_call env (llm_call_of env usage duration completion None) s))"

section \<open>The retries\<close>

datatype attempt = Ended "chat_error + string" | Retry string

definition chat_attempt ::
  "'w chat_env \<Rightarrow> parsers \<Rightarrow> string \<Rightarrow> string \<Rightarrow> 'w chat \<Rightarrow> attempt \<times> 'w chat" where
  "chat_attempt env ps prompt usage s =
     (let (remaining, s) = remaining_time env s in
      if out_of_time remaining then (Ended (Inl Deadline), stop_for_deadline env s)
      else
        let ((reply, duration), w) = ce_create env prompt remaining (ch_world s);
            s = log_event (Requested remaining) (s\<lparr>ch_world := w\<rparr>)
        in case reply of
          Completion completion \<Rightarrow>
            (let (r, s) = finish_completion env ps usage completion duration s in (Ended r, s))
        | Timed_out \<Rightarrow> (Ended (Inl Deadline), stop_for_deadline env s)
        | Other_exception e \<Rightarrow> (Ended (Inl (Other e)), s)
        | Api_error e \<Rightarrow>
            (let (remaining, s) = remaining_time env s in
             if out_of_time remaining then (Ended (Inl Deadline), stop_for_deadline env s)
             else let d = (case remaining of None \<Rightarrow> 1/2 | Some t \<Rightarrow> min (1/2) t)
                  in (Retry e, log_event (Slept d) (s\<lparr>ch_world := ce_sleep env d (ch_world s)\<rparr>))))"

primrec chat_tries ::
  "nat \<Rightarrow> 'w chat_env \<Rightarrow> parsers \<Rightarrow> string \<Rightarrow> string \<Rightarrow> string option \<Rightarrow> 'w chat \<Rightarrow> (chat_error + string) \<times> 'w chat" where
  "chat_tries 0 env ps prompt usage last_error s =
     (Inl (case last_error of Some e \<Rightarrow> Api e | None \<Rightarrow> Invalid_response ''missing_completion'' []), s)"
| "chat_tries (Suc k) env ps prompt usage last_error s =
     (case chat_attempt env ps prompt usage s of
        (Ended r, s) \<Rightarrow> (r, s)
      | (Retry e, s) \<Rightarrow> chat_tries k env ps prompt usage (Some e) s)"

definition chat_llm ::
  "'w chat_env \<Rightarrow> parsers \<Rightarrow> string \<Rightarrow> string \<Rightarrow> 'w chat \<Rightarrow> (chat_error + string) \<times> 'w chat" where
  "chat_llm env ps prompt usage s = chat_tries 50 env ps prompt usage None s"

section \<open>What a chat leaves behind\<close>

definition is_request :: "chat_event \<Rightarrow> bool" where
  "is_request e \<longleftrightarrow> (case e of Requested _ \<Rightarrow> True | _ \<Rightarrow> False)"

definition requests_in :: "chat_event list \<Rightarrow> nat" where
  "requests_in es = length (filter is_request es)"

definition slept_in :: "chat_event list \<Rightarrow> rat" where
  "slept_in es = sum_list (map (\<lambda>e. case e of Slept d \<Rightarrow> d | _ \<Rightarrow> 0) es)"

definition calls_in :: "chat_event list \<Rightarrow> llm_call list" where
  "calls_in es = concat (map (\<lambda>e. case e of Used c \<Rightarrow> [c] | _ \<Rightarrow> []) es)"

lemma events_in_simps [simp]:
  "requests_in [] = 0" "requests_in (xs @ ys) = requests_in xs + requests_in ys"
  "requests_in (e # es) = (if is_request e then 1 else 0) + requests_in es"
  "slept_in [] = 0" "slept_in (xs @ ys) = slept_in xs + slept_in ys"
  "slept_in (e # es) = (case e of Slept d \<Rightarrow> d | _ \<Rightarrow> 0) + slept_in es"
  "calls_in [] = []" "calls_in (xs @ ys) = calls_in xs @ calls_in ys"
  "calls_in (e # es) = (case e of Used c \<Rightarrow> [c] | _ \<Rightarrow> []) @ calls_in es"
  by (simp_all add: requests_in_def slept_in_def calls_in_def)

text \<open>How a chat under the contract \<open>c\<close> ends, after the events \<open>es\<close>.\<close>

definition chat_end :: "parsers \<Rightarrow> contract \<Rightarrow> chat_event list \<Rightarrow> chat_error + string \<Rightarrow> bool" where
  "chat_end ps c es r \<longleftrightarrow>
     (case r of
        Inr text \<Rightarrow> (\<exists>pre call content v. es = pre @ [Used call] \<and> calls_in pre = [] \<and> lc_response_valid call = Some True \<and>
                       validate_response ps content c = Inr v \<and> text = v_normalized v)
      | Inl Deadline \<Rightarrow> (\<exists>pre. es = pre @ [Stop_requested] \<and> calls_in pre = [])
      | Inl (Invalid_response reason _) \<Rightarrow>
          (\<exists>pre call. es = pre @ [Used call] \<and> calls_in pre = [] \<and> lc_response_valid call = Some False \<and>
             lc_validation_reason call = reason)
      | Inl (Api _) \<Rightarrow> calls_in es = []
      | Inl (Other _) \<Rightarrow> calls_in es = [])"

lemma chat_end_prefix: "calls_in pre = [] \<Longrightarrow> chat_end ps c es r \<Longrightarrow> chat_end ps c (pre @ es) r"
proof -
  assume pre: "calls_in pre = []" and es: "chat_end ps c es r"
  have "\<And>p. calls_in p = [] \<Longrightarrow> calls_in (pre @ p) = []" using pre by simp
  with es show ?thesis unfolding chat_end_def
    by (auto split: sum.splits chat_error.splits simp del: append_assoc simp: append_assoc[symmetric] pre) metis+
qed

text \<open>The counters agree with the calls that were recorded.\<close>

definition counted :: "llm_call list \<Rightarrow> 'w chat \<Rightarrow> bool" where
  "counted cs s \<longleftrightarrow> usage_ok cs (ch_analyzer s) \<and> ch_time s = sum_list (map lc_duration cs) \<and>
     ch_token s = sum_list (map lc_total_tokens (filter lc_tokens_reported cs))"

lemma counted_call: "counted cs s \<Longrightarrow> counted (cs @ [c]) (record_call env c s)"
  by (auto simp: counted_def record_call_def log_event_def usage_ok_step)

lemma counted_same:
  "ch_analyzer s' = ch_analyzer s \<Longrightarrow> ch_time s' = ch_time s \<Longrightarrow> ch_token s' = ch_token s \<Longrightarrow> counted cs s' = counted cs s"
  by (simp add: counted_def)

lemma llm_call_valid [simp]:
  "lc_response_valid (llm_call_of env usage d cp reason) = Some (reason = None)"
  "lc_validation_reason (llm_call_of env usage d cp (Some m)) = m"
  by (simp_all add: llm_call_of_def split_beta)

lemma chat_end_valid:
  "validate_response ps content c = Inr v \<Longrightarrow> lc_response_valid call = Some True \<Longrightarrow> calls_in pre = [] \<Longrightarrow>
     chat_end ps c (pre @ [Used call]) (Inr (v_normalized v))"
  unfolding chat_end_def by auto

lemma chat_end_invalid:
  "lc_response_valid call = Some False \<Longrightarrow> lc_validation_reason call = reason \<Longrightarrow> calls_in pre = [] \<Longrightarrow>
     chat_end ps c (pre @ [Used call]) (Inl (Invalid_response reason t))"
  unfolding chat_end_def by auto

lemma chat_end_deadline: "calls_in pre = [] \<Longrightarrow> chat_end ps c (pre @ [Stop_requested]) (Inl Deadline)"
  unfolding chat_end_def by auto

lemma check_completion_valid:
  "check_completion ps c cp = (content, Inr v) \<Longrightarrow> validate_response ps content c = Inr v"
  by (auto simp: check_completion_def split: option.splits list.splits if_splits)

lemma finish_outcome:
  assumes "finish_completion env ps usage cp d s = (r, s')" and pre: "calls_in pre = []"
  shows "\<exists>new. ch_events s' = ch_events s @ new \<and> requests_in new = 0 \<and> slept_in new = 0 \<and>
           chat_end ps (response_contract_for_usage (ce_max_chars env) usage) (pre @ new) r \<and> (\<forall>e. r \<noteq> Inl (Api e)) \<and>
           (\<forall>cs. counted cs s \<longrightarrow> counted (cs @ calls_in new) s')"
proof -
  let ?c = "response_contract_for_usage (ce_max_chars env) usage"
  obtain content x where check: "check_completion ps ?c cp = (content, x)" by (cases "check_completion ps ?c cp")
  have ev: "ch_events (record_call env c s) = ch_events s @ [Used c]" for c by (simp add: record_call_def log_event_def)
  show ?thesis
  proof (cases x)
    case (Inl e)
    show ?thesis
    proof (cases e)
      case (Invalid m)
      with assms(1) check Inl have "r = Inl (Invalid_response m (response_text content))"
        "s' = record_call env (llm_call_of env usage d cp (Some m)) s"
        by (auto simp: finish_completion_def)
      with chat_end_invalid[OF _ _ pre, of "llm_call_of env usage d cp (Some m)" m] ev show ?thesis
        by (intro exI[of _ "[Used (llm_call_of env usage d cp (Some m))]"]) (simp add: is_request_def counted_call)
    next
      case (Escapes m)
      with assms(1) check Inl have "r = Inl (Other m)" "s' = s" by (auto simp: finish_completion_def)
      with pre show ?thesis by (intro exI[of _ "[]"]) (simp add: chat_end_def)
    qed
  next
    case (Inr v)
    with assms(1) check have "r = Inr (v_normalized v)" "s' = record_call env (llm_call_of env usage d cp None) s"
      by (auto simp: finish_completion_def)
    with chat_end_valid[OF check_completion_valid[OF check[unfolded Inr]] _ pre, of "llm_call_of env usage d cp None"]
      ev show ?thesis
      by (intro exI[of _ "[Used (llm_call_of env usage d cp None)]"]) (simp add: is_request_def counted_call)
  qed
qed

lemma attempt_outcome:
  assumes "chat_attempt env ps prompt usage s = (a, s')"
  shows "\<exists>new. ch_events s' = ch_events s @ new \<and> requests_in new \<le> 1 \<and> 0 \<le> slept_in new \<and> slept_in new \<le> 1/2 \<and>
           (case a of
              Retry e \<Rightarrow> calls_in new = [] \<and> requests_in new = 1
            | Ended r \<Rightarrow> chat_end ps (response_contract_for_usage (ce_max_chars env) usage) new r \<and>
                         (\<forall>e. r \<noteq> Inl (Api e))) \<and>
           (\<forall>cs. counted cs s \<longrightarrow> counted (cs @ calls_in new) s')"
proof -
  obtain rem w where rem: "ce_remaining env (ch_world s) = (rem, w)" by (cases "ce_remaining env (ch_world s)")
  obtain reply duration w' where create: "ce_create env prompt rem w = ((reply, duration), w')"
    by (cases "ce_create env prompt rem w") auto
  let ?c = "response_contract_for_usage (ce_max_chars env) usage"
  let ?s = "log_event (Requested rem) (s\<lparr>ch_world := w'\<rparr>)"
  have stop: "counted cs (stop_for_deadline env t) = counted cs t" "ch_events (stop_for_deadline env t) = ch_events t @ [Stop_requested]"
    for cs and t :: "'a chat" by (simp_all add: stop_for_deadline_def log_event_def counted_def)
  have req: "counted cs ?s = counted cs s" "ch_events ?s = ch_events s @ [Requested rem]" for cs
    by (simp_all add: log_event_def counted_def)
  have world: "counted cs (t\<lparr>ch_world := v\<rparr>) = counted cs t" for cs v and t :: "'a chat" by (simp add: counted_def)
  show ?thesis
  proof (cases "out_of_time rem")
    case True
    with assms rem have "a = Ended (Inl Deadline)" "s' = stop_for_deadline env (s\<lparr>ch_world := w\<rparr>)"
      by (auto simp: chat_attempt_def remaining_time_def)
    with chat_end_deadline[of "[]"] show ?thesis
      by (intro exI[of _ "[Stop_requested]"]) (simp add: stop world is_request_def)
  next
    case time: False
    have go: "chat_attempt env ps prompt usage s =
        (case reply of
          Completion completion \<Rightarrow> (let (r, s) = finish_completion env ps usage completion duration ?s in (Ended r, s))
        | Timed_out \<Rightarrow> (Ended (Inl Deadline), stop_for_deadline env ?s)
        | Other_exception e \<Rightarrow> (Ended (Inl (Other e)), ?s)
        | Api_error e \<Rightarrow>
            (let (remaining, s) = remaining_time env ?s in
             if out_of_time remaining then (Ended (Inl Deadline), stop_for_deadline env s)
             else let d = (case remaining of None \<Rightarrow> 1/2 | Some t \<Rightarrow> min (1/2) t)
                  in (Retry e, log_event (Slept d) (s\<lparr>ch_world := ce_sleep env d (ch_world s)\<rparr>))))"
      by (cases reply) (simp_all add: chat_attempt_def remaining_time_def rem create time log_event_def Let_def split_beta)
    show ?thesis
    proof (cases reply)
      case (Completion cp)
      obtain r t where fin: "finish_completion env ps usage cp duration ?s = (r, t)"
        by (cases "finish_completion env ps usage cp duration ?s")
      have "chat_attempt env ps prompt usage s = (Ended r, t)"
        unfolding go Completion reply.case fin Let_def prod.case ..
      then have f: "finish_completion env ps usage cp duration ?s = (r, s')" "a = Ended r"
        using assms fin by auto
      obtain new where new: "ch_events s' = ch_events ?s @ new" "requests_in new = 0" "slept_in new = 0"
        "chat_end ps ?c ([Requested rem] @ new) r" "\<forall>e. r \<noteq> Inl (Api e)"
        "\<forall>cs. counted cs ?s \<longrightarrow> counted (cs @ calls_in new) s'"
        using finish_outcome[OF f(1), of "[Requested rem]"] by auto
      then show ?thesis using f(2) req by (intro exI[of _ "Requested rem # new"]) (simp add: is_request_def)
    next
      case Timed_out
      with assms go have "a = Ended (Inl Deadline)" "s' = stop_for_deadline env ?s" by auto
      with chat_end_deadline[of "[Requested rem]"] show ?thesis
        by (intro exI[of _ "[Requested rem, Stop_requested]"]) (simp add: stop req is_request_def)
    next
      case (Other_exception e)
      with assms go have "a = Ended (Inl (Other e))" "s' = ?s" by auto
      then show ?thesis
        by (intro exI[of _ "[Requested rem]"]) (simp add: req is_request_def chat_end_def)
    next
      case (Api_error e)
      obtain rem2 w2 where rem2: "ce_remaining env w' = (rem2, w2)" by (cases "ce_remaining env w'")
      let ?d = "case rem2 of None \<Rightarrow> 1/2 | Some t \<Rightarrow> min (1/2) t"
      have rt: "remaining_time env ?s = (rem2, ?s\<lparr>ch_world := w2\<rparr>)"
        by (simp add: remaining_time_def rem2 log_event_def)
      show ?thesis
      proof (cases "out_of_time rem2")
        case True
        with assms go Api_error rt have "a = Ended (Inl Deadline)" "s' = stop_for_deadline env (?s\<lparr>ch_world := w2\<rparr>)" by auto
        with chat_end_deadline[of "[Requested rem]"] req show ?thesis
          by (intro exI[of _ "[Requested rem, Stop_requested]"]) (simp add: stop world is_request_def)
      next
        case False
        with assms go Api_error rt have "a = Retry e"
          "s' = log_event (Slept ?d) ((?s\<lparr>ch_world := w2\<rparr>)\<lparr>ch_world := ce_sleep env ?d w2\<rparr>)" by (auto simp: Let_def)
        moreover have "0 \<le> ?d \<and> ?d \<le> 1/2"
          using False by (auto simp: out_of_time_def split: option.splits)
        ultimately show ?thesis
          by (intro exI[of _ "[Requested rem, Slept ?d]"]) (simp add: log_event_def counted_def is_request_def)
      qed
    qed
  qed
qed

lemma tries_outcome:
  assumes "chat_tries k env ps prompt usage le s = (r, s')" and "0 < k \<or> le \<noteq> None"
  shows "\<exists>new. ch_events s' = ch_events s @ new \<and> requests_in new \<le> k \<and> 0 \<le> slept_in new \<and> slept_in new \<le> of_nat k / 2 \<and>
           chat_end ps (response_contract_for_usage (ce_max_chars env) usage) new r \<and>
           (\<forall>e. r = Inl (Api e) \<longrightarrow> requests_in new = k) \<and>
           (\<forall>cs. counted cs s \<longrightarrow> counted (cs @ calls_in new) s')"
  using assms
proof (induction k arbitrary: le s)
  case 0
  then show ?case by (intro exI[of _ "[]"]) (auto simp: chat_end_def)
next
  case (Suc k)
  let ?c = "response_contract_for_usage (ce_max_chars env) usage"
  obtain a t where a: "chat_attempt env ps prompt usage s = (a, t)" by (cases "chat_attempt env ps prompt usage s")
  obtain new where new: "ch_events t = ch_events s @ new" "requests_in new \<le> 1" "0 \<le> slept_in new" "slept_in new \<le> 1/2"
    "case a of Retry e \<Rightarrow> calls_in new = [] \<and> requests_in new = 1
       | Ended r \<Rightarrow> chat_end ps ?c new r \<and> (\<forall>e. r \<noteq> Inl (Api e))"
    "\<forall>cs. counted cs s \<longrightarrow> counted (cs @ calls_in new) t"
    using attempt_outcome[OF a] by blast
  show ?case
  proof (cases a)
    case (Ended r')
    with Suc.prems a have "r = r'" "s' = t" by auto
    with new Ended show ?thesis by (intro exI[of _ new]) (auto simp: field_simps)
  next
    case (Retry e)
    with Suc.prems a have "chat_tries k env ps prompt usage (Some e) t = (r, s')" by simp
    from Suc.IH[OF this] obtain more where more: "ch_events s' = ch_events t @ more" "requests_in more \<le> k"
      "0 \<le> slept_in more" "slept_in more \<le> of_nat k / 2" "chat_end ps ?c more r"
      "\<forall>e. r = Inl (Api e) \<longrightarrow> requests_in more = k" "\<forall>cs. counted cs t \<longrightarrow> counted (cs @ calls_in more) s'"
      by blast
    show ?thesis
    proof (intro exI[of _ "new @ more"] conjI)
      show "chat_end ps ?c (new @ more) r" using new(5) Retry more(5) by (simp add: chat_end_prefix)
      show "slept_in (new @ more) \<le> of_nat (Suc k) / 2" using new(4) more(4) by (simp add: field_simps)
    qed (use new more Retry in auto)
  qed
qed

text \<open>
  C21. Asking the language model always ends: after at most 50 requests and 25 seconds of waiting in total.
  A text is returned only if the contract of its usage accepted the content of the last completion; an API error is
  raised only after all 50 requests; a passed deadline asks the run to stop and does nothing more; exactly
  the answers and the refused answers are recorded, once each, as the last thing done.
\<close>

theorem chat_llm_outcome:
  "case chat_llm env ps prompt usage s of (r, s') \<Rightarrow>
     \<exists>new. ch_events s' = ch_events s @ new \<and> requests_in new \<le> 50 \<and> slept_in new \<le> 25 \<and>
       chat_end ps (response_contract_for_usage (ce_max_chars env) usage) new r \<and>
       (\<forall>e. r \<noteq> Inl (Api e) \<or> requests_in new = 50)"
proof -
  obtain r s' where run: "chat_llm env ps prompt usage s = (r, s')" by (cases "chat_llm env ps prompt usage s")
  from tries_outcome[OF run[unfolded chat_llm_def]] show ?thesis by (fastforce simp: run)
qed

text \<open>An instance of the last case: a service that answers every request with an error.\<close>

definition failing_env :: "unit chat_env" where
  "failing_env = \<lparr>ce_remaining = \<lambda>w. (None, w), ce_create = \<lambda>_ _ w. ((Api_error ''503'', 0), w),
     ce_stop = \<lambda>w. w, ce_sleep = \<lambda>_ w. w, ce_now = \<lambda>_. 0, ce_writes = \<lambda>_. False, ce_model = [], ce_max_chars = None\<rparr>"

lemma failing_attempt: "\<exists>s'. chat_attempt failing_env ps prompt usage s = (Retry ''503'', s')"
  by (simp add: chat_attempt_def remaining_time_def failing_env_def out_of_time_def Let_def log_event_def)

lemma failing_tries: "\<exists>s'. chat_tries k failing_env ps prompt usage (Some ''503'') s = (Inl (Api ''503''), s')"
proof (induction k arbitrary: s)
  case (Suc k)
  obtain t where "chat_attempt failing_env ps prompt usage s = (Retry ''503'', t)" using failing_attempt by blast
  with Suc.IH[of t] show ?case by simp
qed simp

theorem chat_llm_outcome_witness:
  "\<exists>s'. chat_llm failing_env \<lparr>json_loads = \<lambda>_. Parse_error, ast_functions = \<lambda>_. Parse_error, xml_fromstring = \<lambda>_. Parse_error\<rparr>
          [] ''doc_parse'' (new_chat ()) = (Inl (Api ''503''), s') \<and> requests_in (ch_events s') = 50 \<and> slept_in (ch_events s') \<le> 25"
proof -
  let ?ps = "\<lparr>json_loads = \<lambda>_. Parse_error, ast_functions = \<lambda>_. Parse_error, xml_fromstring = \<lambda>_. Parse_error\<rparr>"
  obtain t where first: "chat_attempt failing_env ?ps [] ''doc_parse'' (new_chat ()) = (Retry ''503'', t)"
    using failing_attempt by blast
  have fifty: "(50 :: nat) = Suc 49" by simp
  obtain s' where run: "chat_llm failing_env ?ps [] ''doc_parse'' (new_chat ()) = (Inl (Api ''503''), s')"
    using failing_tries[of 49 ?ps "[]" "''doc_parse''" t] unfolding chat_llm_def fifty chat_tries.simps(2) first by auto
  have "ch_events (new_chat ()) = []" by (simp add: new_chat_def)
  with chat_llm_outcome[where env = failing_env and ps = ?ps and prompt = "[]" and usage = "''doc_parse''" and s = "new_chat ()"] run show ?thesis by auto
qed

text \<open>A run of chats, and which results were recorded.\<close>

primrec chat_run ::
  "'w chat_env \<Rightarrow> parsers \<Rightarrow> (string \<times> string) list \<Rightarrow> 'w chat \<Rightarrow> (chat_error + string) list \<times> 'w chat" where
  "chat_run env ps [] s = ([], s)"
| "chat_run env ps (q # qs) s =
     (let (r, s) = chat_llm env ps (fst q) (snd q) s; (rs, s) = chat_run env ps qs s in (r # rs, s))"

definition completed :: "chat_error + string \<Rightarrow> bool" where
  "completed r \<longleftrightarrow> (case r of Inr _ \<Rightarrow> True | Inl (Invalid_response _ _) \<Rightarrow> True | _ \<Rightarrow> False)"

lemma chat_end_calls: "chat_end ps c es r \<Longrightarrow> length (calls_in es) = (if completed r then 1 else 0)"
  by (auto simp: chat_end_def completed_def split: sum.splits chat_error.splits)

lemma chat_run_counts:
  assumes "chat_run env ps qs s = (rs, s')"
  shows "length rs = length qs \<and> (\<exists>new. ch_events s' = ch_events s @ new \<and> requests_in new \<le> 50 * length qs \<and>
           length (calls_in new) = length (filter completed rs) \<and>
           (\<forall>cs. counted cs s \<longrightarrow> counted (cs @ calls_in new) s'))"
  using assms
proof (induction qs arbitrary: s rs)
  case Nil
  then show ?case by (auto intro: exI[of _ "[]"])
next
  case (Cons q qs)
  obtain r t where chat: "chat_llm env ps (fst q) (snd q) s = (r, t)" by (cases "chat_llm env ps (fst q) (snd q) s")
  obtain rs' u where run: "chat_run env ps qs t = (rs', u)" by (cases "chat_run env ps qs t")
  have r: "rs = r # rs'" "s' = u" using Cons.prems chat run by auto
  obtain new where new: "ch_events t = ch_events s @ new" "requests_in new \<le> 50"
    "length (calls_in new) = (if completed r then 1 else 0)" "\<forall>cs. counted cs s \<longrightarrow> counted (cs @ calls_in new) t"
    using tries_outcome[OF chat[unfolded chat_llm_def]] chat_end_calls by (metis zero_less_numeral)
  obtain more where more: "length rs' = length qs" "ch_events s' = ch_events t @ more" "requests_in more \<le> 50 * length qs"
    "length (calls_in more) = length (filter completed rs')" "\<forall>cs. counted cs t \<longrightarrow> counted (cs @ calls_in more) s'"
    using Cons.IH[OF run[folded r(2)]] by blast
  from new more r show ?case by (intro conjI exI[of _ "new @ more"]) auto
qed

text \<open>
  C36. Over any run of chats the analyzer's counters are those of the calls that were recorded (none lost, none
  counted twice), and there is one recorded call for each chat that ended with an answer or a refused answer.
\<close>

theorem llm_usage_counted:
  "case chat_run env ps qs (new_chat w) of (rs, s) \<Rightarrow>
     length rs = length qs \<and> requests_in (ch_events s) \<le> 50 * length qs \<and>
     length (calls_in (ch_events s)) = length (filter completed rs) \<and> counted (calls_in (ch_events s)) s"
proof -
  obtain rs s where run: "chat_run env ps qs (new_chat w) = (rs, s)" by (cases "chat_run env ps qs (new_chat w)")
  have "counted [] (new_chat w)" by (simp add: counted_def new_chat_def usage_ok_def new_analyzer_def calls_of_def)
  moreover have "ch_events (new_chat w) = []" by (simp add: new_chat_def)
  ultimately show ?thesis using chat_run_counts[OF run] by (fastforce simp: run)
qed

end
