(* ===== verification/Ir_Delta.thy ===== *)
theory Ir_Delta imports Source_Delta begin

text \<open>
  Semantic edits of protoIR (\<open>voltron/llm/incremental.py\<close>: \<open>apply_ir_delta\<close> and its helpers).  An element of the
  lxml package is a node of a tree, its identity the path to it; reading and writing XML and the package's own
  checks of names, values and comments are the record \<open>lxml\<close>.  Abstractly a message is its leading notes and
  a list of blocks, one per field with the field's notes, and the edits are edits of that list.
\<close>

section \<open>Trees\<close>

text \<open>Every node carries the text that follows it, as \<open>remove\<close> and \<open>insert\<close> take it along.\<close>

datatype node =
    Element string "(string \<times> string) list" string "node list" string
  | Comment string string
  | Instruction string string

record lxml =
  lx_parse :: "string \<Rightarrow> node parse"
  lx_tostring :: "node \<Rightarrow> string"
  lx_pop_raises :: "string \<Rightarrow> string option"
  lx_set_raises :: "string \<Rightarrow> string \<Rightarrow> string option"
  lx_element_raises :: "(string \<times> string) list \<Rightarrow> string option"
  lx_comment_raises :: "string \<Rightarrow> string option"
  lx_text_raises :: "string \<Rightarrow> string option"

text \<open>What an operation of the package raises, if anything, leaves \<open>apply_ir_delta\<close>.\<close>

definition lx_call :: "string option \<Rightarrow> 'a \<Rightarrow> delta_error + 'a" where
  "lx_call e x = (case e of None \<Rightarrow> Inr x | Some m \<Rightarrow> Inl (Delta_escapes m))"

fun has_tag :: "string \<Rightarrow> node \<Rightarrow> bool" where
  "has_tag t (Element tag _ _ _ _) \<longleftrightarrow> tag = t"
| "has_tag t _ \<longleftrightarrow> False"

fun is_comment :: "node \<Rightarrow> bool" where
  "is_comment (Comment _ _) \<longleftrightarrow> True"
| "is_comment _ \<longleftrightarrow> False"

fun comment_text :: "node \<Rightarrow> string" where
  "comment_text (Comment t _) = t"
| "comment_text _ = []"

fun attribs :: "node \<Rightarrow> (string \<times> string) list" where
  "attribs (Element _ a _ _ _) = a"
| "attribs _ = []"

fun node_children :: "node \<Rightarrow> node list" where
  "node_children (Element _ _ _ cs _) = cs"
| "node_children _ = []"

fun with_children :: "node list \<Rightarrow> node \<Rightarrow> node" where
  "with_children cs (Element t a x _ y) = Element t a x cs y"
| "with_children cs n = n"

fun with_attribs :: "(string \<times> string) list \<Rightarrow> node \<Rightarrow> node" where
  "with_attribs a (Element t _ x cs y) = Element t a x cs y"
| "with_attribs a n = n"

definition attr :: "string \<Rightarrow> node \<Rightarrow> string option" where
  "attr k n = map_of (attribs n) k"

text \<open>The places of the children with a tag, and every path below a node, in the order of the document.\<close>

definition places :: "string \<Rightarrow> node list \<Rightarrow> nat list" where
  "places t cs = filter (\<lambda>i. has_tag t (cs ! i)) [0..<length cs]"

fun below_paths :: "node \<Rightarrow> nat list list" and below_list :: "nat \<Rightarrow> node list \<Rightarrow> nat list list" where
  "below_paths (Element _ _ _ cs _) = below_list 0 cs"
| "below_paths _ = []"
| "below_list i [] = []"
| "below_list i (c # cs) = [i] # map ((#) i) (below_paths c) @ below_list (Suc i) cs"

primrec node_at :: "nat list \<Rightarrow> node \<Rightarrow> node" where
  "node_at [] n = n"
| "node_at (i # p) n = node_at p (node_children n ! i)"

primrec update_at :: "nat list \<Rightarrow> (node \<Rightarrow> delta_error + node) \<Rightarrow> node \<Rightarrow> delta_error + node" where
  "update_at [] f n = f n"
| "update_at (i # p) f n =
     rbind (update_at p f (node_children n ! i)) (\<lambda>c. Inr (with_children ((node_children n)[i := c]) n))"

section \<open>Finding\<close>

definition ir_messages :: "node \<Rightarrow> delta_error + nat list list" where
  "ir_messages ir =
     (if has_tag ''message'' ir then Inr [[]]
      else if has_tag ''ir'' ir then Inr (filter (\<lambda>p. has_tag ''message'' (node_at p ir)) (below_paths ir))
      else Inl (Delta ''unsupported protoIR root''))"

definition find_message :: "node \<Rightarrow> json \<Rightarrow> delta_error + nat list" where
  "find_message ir name =
     (case name of
        J_str s \<Rightarrow>
          if s = [] then Inl (Delta ''IR operation requires message'')
          else rbind (ir_messages ir) (\<lambda>ps.
            case filter (\<lambda>p. attr ''name'' (node_at p ir) = Some s) ps of
              [p] \<Rightarrow> Inr p
            | _ \<Rightarrow> Inl (Delta ''IR message matched other than one element''))
      | _ \<Rightarrow> Inl (Delta ''IR operation requires message''))"

definition find_field :: "node list \<Rightarrow> json \<Rightarrow> delta_error + nat" where
  "find_field cs name =
     (case name of
        J_str s \<Rightarrow>
          if s = [] then Inl (Delta ''IR field operation requires field'')
          else (case filter (\<lambda>i. attr ''name'' (cs ! i) = Some s) (places ''field'' cs) of
            [i] \<Rightarrow> Inr i
          | _ \<Rightarrow> Inl (Delta ''IR field matched other than one element''))
      | _ \<Rightarrow> Inl (Delta ''IR field operation requires field''))"

section \<open>Attributes and notes\<close>

definition get_default :: "json \<Rightarrow> (string \<times> json) list \<Rightarrow> string \<Rightarrow> json" where
  "get_default v d k = (case map_of d k of None \<Rightarrow> v | Some w \<Rightarrow> w)"

fun the_str :: "json \<Rightarrow> string" where
  "the_str (J_str s) = s"
| "the_str _ = []"

definition string_entries :: "json \<Rightarrow> (string \<times> string) list option" where
  "string_entries v =
     (if is_dict v \<and> list_all (\<lambda>e. is_str (snd e)) (entries_of v)
      then Some (map (\<lambda>(k, w). (k, the_str w)) (entries_of v)) else None)"

definition pop_attr :: "lxml \<Rightarrow> (string \<times> string) list \<Rightarrow> string \<Rightarrow> delta_error + (string \<times> string) list" where
  "pop_attr lx a k = lx_call (lx_pop_raises lx k) (filter (\<lambda>e. fst e \<noteq> k) a)"

fun put_attr :: "string \<Rightarrow> string \<Rightarrow> (string \<times> string) list \<Rightarrow> (string \<times> string) list" where
  "put_attr k v [] = [(k, v)]"
| "put_attr k v (e # a) = (if fst e = k then (k, v) # a else e # put_attr k v a)"

definition set_attr :: "lxml \<Rightarrow> (string \<times> string) list \<Rightarrow> string \<times> string \<Rightarrow> delta_error + (string \<times> string) list" where
  "set_attr lx a e = lx_call (lx_set_raises lx (fst e) (snd e)) (put_attr (fst e) (snd e) a)"

definition attribute_changes :: "lxml \<Rightarrow> (string \<times> json) list \<Rightarrow> node \<Rightarrow> delta_error + node" where
  "attribute_changes lx operation element =
     (let removals = get_default (J_list []) operation ''remove'' in
      case string_entries (get_default (J_dict []) operation ''set'') of
        None \<Rightarrow> Inl (Delta ''IR set must be a string-to-string object'')
      | Some changes \<Rightarrow>
          if \<not> is_list removals \<or> \<not> list_all is_str (items_of removals)
          then Inl (Delta ''IR remove must be a string array'')
          else rbind (rfold (pop_attr lx) (attribs element) (map the_str (items_of removals))) (\<lambda>a.
            rbind (rfold (set_attr lx) a changes) (\<lambda>a. Inr (with_attribs a element))))"

text \<open>The number of comments right after place \<open>i\<close>.\<close>

definition comments_after :: "node list \<Rightarrow> nat \<Rightarrow> nat" where
  "comments_after cs i = length (takeWhile is_comment (drop (Suc i) cs))"

fun set_comment_text :: "string \<Rightarrow> node \<Rightarrow> node" where
  "set_comment_text t (Comment _ y) = Comment t y"
| "set_comment_text t n = n"

text \<open>\<open>run\<close> comments from place \<open>i\<close> on become the note.\<close>

definition replace_comments :: "lxml \<Rightarrow> node list \<Rightarrow> nat \<Rightarrow> nat \<Rightarrow> string \<Rightarrow> delta_error + node list" where
  "replace_comments lx cs i run t =
     (if t = [] then Inr (take i cs @ drop (i + run) cs)
      else if 0 < run
        then lx_call (lx_text_raises lx t) (take i cs @ set_comment_text t (cs ! i) # drop (i + run) cs)
      else lx_call (lx_comment_raises lx t) (take i cs @ Comment t [] # drop i cs))"

definition set_note :: "lxml \<Rightarrow> node list \<Rightarrow> nat \<Rightarrow> json \<Rightarrow> delta_error + node list" where
  "set_note lx cs i v =
     (case v of J_str t \<Rightarrow> replace_comments lx cs (Suc i) (comments_after cs i) t
      | _ \<Rightarrow> Inl (Delta ''IR note must be a string''))"

definition set_message_note :: "lxml \<Rightarrow> node list \<Rightarrow> json \<Rightarrow> delta_error + node list" where
  "set_message_note lx cs v =
     (case v of J_str t \<Rightarrow> replace_comments lx cs 0 (length (takeWhile is_comment cs)) t
      | _ \<Rightarrow> Inl (Delta ''IR note must be a string''))"

section \<open>Blocks of fields, messages\<close>

definition remove_field_block :: "node list \<Rightarrow> nat \<Rightarrow> node list \<times> node list" where
  "remove_field_block cs i =
     (let n = Suc (comments_after cs i) in (take n (drop i cs), take i cs @ drop (i + n) cs))"

text \<open>Before the \<open>index\<close>-th child with the tag, or at the end.\<close>

definition insert_before :: "string \<Rightarrow> string \<Rightarrow> node list \<Rightarrow> int \<Rightarrow> node list \<Rightarrow> delta_error + node list" where
  "insert_before tag failure cs index new =
     (let ps = places tag cs in
      if index < 0 \<or> int (length ps) < index then Inl (Delta failure)
      else let i = (if index < int (length ps) then ps ! nat index else length cs)
           in Inr (take i cs @ new @ drop i cs))"

definition insert_field_block :: "node list \<Rightarrow> int \<Rightarrow> node list \<Rightarrow> delta_error + node list" where
  "insert_field_block = insert_before ''field'' ''IR field index is outside''"

definition new_element :: "lxml \<Rightarrow> string \<Rightarrow> (string \<times> string) list \<Rightarrow> delta_error + node" where
  "new_element lx tag a = lx_call (lx_element_raises lx a) (Element tag a [] [] [])"

text \<open>An optional note: nothing for \<open>None\<close> and the empty string.\<close>

definition note_nodes :: "lxml \<Rightarrow> string \<Rightarrow> json \<Rightarrow> delta_error + node list" where
  "note_nodes lx failure v =
     (case v of
        J_null \<Rightarrow> Inr []
      | J_str t \<Rightarrow> if t = [] then Inr [] else lx_call (lx_comment_raises lx t) [Comment t []]
      | _ \<Rightarrow> Inl (Delta failure))"

definition build_field :: "lxml \<Rightarrow> string \<Rightarrow> string \<Rightarrow> (string \<times> json) list \<Rightarrow> delta_error + node list" where
  "build_field lx no_attributes no_note d =
     (case string_entries (py_get d ''attributes'') of
        None \<Rightarrow> Inl (Delta no_attributes)
      | Some a \<Rightarrow> rbind (new_element lx ''field'' a) (\<lambda>f.
          rbind (note_nodes lx no_note (py_get d ''note'')) (\<lambda>ns. Inr (f # ns))))"

definition build_field_spec :: "lxml \<Rightarrow> json \<Rightarrow> delta_error + node list" where
  "build_field_spec lx v =
     (case v of
        J_dict d \<Rightarrow> build_field lx ''inserted field requires string attributes object'' ''inserted field note must be a string'' d
      | _ \<Rightarrow> Inl (Delta ''inserted field must be an object''))"

definition build_message :: "lxml \<Rightarrow> json \<Rightarrow> delta_error + node" where
  "build_message lx v =
     (case v of
        J_dict d \<Rightarrow>
          (let fields = get_default (J_list []) d ''fields'' in
           case string_entries (py_get d ''attributes'') of
             None \<Rightarrow> Inl (Delta ''insert_message requires string attributes object'')
           | Some a \<Rightarrow>
               if \<not> is_list fields then Inl (Delta ''insert_message fields must be an array'')
               else rbind (new_element lx ''message'' a) (\<lambda>m.
                 rbind (note_nodes lx ''insert_message note must be a string'' (py_get d ''note'')) (\<lambda>ns.
                 rbind (rmap (build_field_spec lx) (items_of fields)) (\<lambda>bs. Inr (with_children (ns @ concat bs) m)))))
      | _ \<Rightarrow> Inl (Delta ''insert_message requires message object''))"

definition insert_message :: "node \<Rightarrow> int \<Rightarrow> node \<Rightarrow> delta_error + node" where
  "insert_message ir index m =
     (if \<not> has_tag ''ir'' ir then Inl (Delta ''message insertion requires an ir root'')
      else rbind (insert_before ''message'' ''IR message index is outside'' (node_children ir) index [m])
             (\<lambda>cs. Inr (with_children cs ir)))"

section \<open>Applying a delta\<close>

definition find_child :: "node \<Rightarrow> nat list \<Rightarrow> bool" where
  "find_child ir p \<longleftrightarrow> has_tag ''ir'' ir \<and> length p = 1"

text \<open>The children of the message at \<open>p\<close> change.\<close>

definition edit_children :: "(node list \<Rightarrow> delta_error + node list) \<Rightarrow> node \<Rightarrow> delta_error + node" where
  "edit_children f m = rbind (f (node_children m)) (\<lambda>cs. Inr (with_children cs m))"

definition delete_field :: "json \<Rightarrow> node list \<Rightarrow> delta_error + node list" where
  "delete_field name cs = rbind (find_field cs name) (\<lambda>i. Inr (snd (remove_field_block cs i)))"

definition move_field :: "json \<Rightarrow> json \<Rightarrow> node list \<Rightarrow> delta_error + node list" where
  "move_field name index cs =
     rbind (find_field cs name) (\<lambda>i.
       case as_int index of
         None \<Rightarrow> Inl (Delta ''move_field requires integer index'')
       | Some j \<Rightarrow> (let (block, rest) = remove_field_block cs i in insert_field_block rest j block))"

definition insert_field :: "lxml \<Rightarrow> (string \<times> json) list \<Rightarrow> node list \<Rightarrow> delta_error + node list" where
  "insert_field lx operation cs =
     (case as_int (py_get operation ''index'') of
        None \<Rightarrow> Inl (Delta ''insert_field requires integer index'')
      | Some j \<Rightarrow>
          rbind (build_field lx ''insert_field requires string attributes object'' ''insert_field note must be a string'' operation)
            (insert_field_block cs j))"

definition set_field_note :: "lxml \<Rightarrow> json \<Rightarrow> json \<Rightarrow> node list \<Rightarrow> delta_error + node list" where
  "set_field_note lx name v cs = rbind (find_field cs name) (\<lambda>i. set_note lx cs i v)"

definition update_field :: "lxml \<Rightarrow> (string \<times> json) list \<Rightarrow> node list \<Rightarrow> delta_error + node list" where
  "update_field lx operation cs =
     rbind (find_field cs (py_get operation ''field'')) (\<lambda>i.
       rbind (attribute_changes lx operation (cs ! i)) (\<lambda>f. Inr (cs[i := f])))"

definition message_op :: "lxml \<Rightarrow> (string \<times> json) list \<Rightarrow> node \<Rightarrow> nat list \<Rightarrow> delta_error + node" where
  "message_op lx operation ir p =
     (let kind = py_get operation ''op''; cs = node_children ir; i = hd p in
      if kind = J_str ''update_message'' then update_at p (attribute_changes lx operation) ir
      else if kind = J_str ''delete_message'' then
        (if \<not> find_child ir p then Inl (Delta ''delete_message requires a direct message under ir'')
         else Inr (with_children (take i cs @ drop (Suc i) cs) ir))
      else if kind = J_str ''move_message'' then
        (case as_int (py_get operation ''index'') of
           None \<Rightarrow> Inl (Delta ''move_message requires integer index'')
         | Some j \<Rightarrow>
             if \<not> find_child ir p then Inl (Delta ''move_message requires a direct message under ir'')
             else insert_message (with_children (take i cs @ drop (Suc i) cs) ir) j (cs ! i))
      else if kind = J_str ''set_message_note''
        then update_at p (edit_children (\<lambda>cs. set_message_note lx cs (py_get operation ''note''))) ir
      else if kind = J_str ''update_field'' then update_at p (edit_children (update_field lx operation)) ir
      else if kind = J_str ''insert_field'' then update_at p (edit_children (insert_field lx operation)) ir
      else if kind = J_str ''delete_field'' then update_at p (edit_children (delete_field (py_get operation ''field''))) ir
      else if kind = J_str ''move_field''
        then update_at p (edit_children (move_field (py_get operation ''field'') (py_get operation ''index''))) ir
      else if kind = J_str ''set_field_note''
        then update_at p (edit_children (set_field_note lx (py_get operation ''field'') (py_get operation ''note''))) ir
      else Inl (Delta ''unsupported IR operation''))"

definition ir_operation :: "lxml \<Rightarrow> node \<Rightarrow> json \<Rightarrow> delta_error + node" where
  "ir_operation lx ir v =
     (case v of
        J_dict operation \<Rightarrow>
          if py_get operation ''op'' = J_str ''insert_message''
          then (case as_int (py_get operation ''index'') of
            None \<Rightarrow> Inl (Delta ''insert_message requires integer index'')
          | Some j \<Rightarrow> rbind (build_message lx (py_get operation ''value'')) (insert_message ir j))
          else rbind (find_message ir (py_get operation ''message'')) (message_op lx operation ir)
      | _ \<Rightarrow> Inl (Delta ''each IR operation must be an object''))"

definition field_complaint :: "node \<Rightarrow> string option" where
  "field_complaint f =
     (if \<not> list_all (\<lambda>k. attr k f \<noteq> None) [''name'', ''type'', ''length'', ''value'']
      then Some ''protoIR field is missing attributes''
      else if attr ''type'' f \<notin> {Some ''constant'', Some ''variable''} then Some ''invalid protoIR field type''
      else None)"

definition raise_first :: "string option list \<Rightarrow> delta_error + unit" where
  "raise_first cs = (case filter (\<lambda>c. c \<noteq> None) cs of Some m # _ \<Rightarrow> Inl (Delta m) | _ \<Rightarrow> Inr ())"

definition message_complaints :: "node \<Rightarrow> string option list" where
  "message_complaints m =
     (if attr ''name'' m \<in> {None, Some []} then Some ''protoIR message is missing name'' else None)
     # map (\<lambda>i. field_complaint (node_children m ! i)) (places ''field'' (node_children m))"

definition validate_proto_ir :: "node \<Rightarrow> delta_error + unit" where
  "validate_proto_ir ir =
     rbind (ir_messages ir) (\<lambda>ps.
       if ps = [] then Inl (Delta ''protoIR contains no messages'')
       else raise_first (concat (map (\<lambda>p. message_complaints (node_at p ir)) ps)))"

definition apply_ir_delta :: "lxml \<Rightarrow> (string \<Rightarrow> string) \<Rightarrow> string \<Rightarrow> (string \<times> json) list \<Rightarrow> delta_error + string" where
  "apply_ir_delta lx sha source d =
     (let ops = py_get d ''ops'' in
      if py_get d ''base_sha256'' \<noteq> J_str (sha source) then Inl (Delta ''IR delta base_sha256 mismatch'')
      else if \<not> is_list ops \<or> items_of ops = [] then Inl (Delta ''IR delta requires a non-empty ops list'')
      else
        case lx_parse lx source of
          Parse_error \<Rightarrow> Inl (Delta ''baseline IR is invalid XML'')
        | Parse_raises e \<Rightarrow> Inl (Delta_escapes e)
        | Parsed ir \<Rightarrow>
            rbind (rfold (ir_operation lx) ir (items_of ops)) (\<lambda>ir.
              rbind (validate_proto_ir ir) (\<lambda>_.
                let evolved = lx_tostring lx ir in
                if sha evolved = sha source then Inl (Delta ''IR delta made no change'') else Inr evolved)))"

section \<open>What the edits of a message mean\<close>

type_synonym block = "(string \<times> string) list \<times> string list"

fun blocks :: "node list \<Rightarrow> block list" where
  "blocks [] = []"
| "blocks (c # cs) =
     (if has_tag ''field'' c then (attribs c, map comment_text (takeWhile is_comment cs)) # blocks cs else blocks cs)"

definition leading_notes :: "node list \<Rightarrow> string list" where
  "leading_notes cs = map comment_text (takeWhile is_comment cs)"

definition message_of :: "node list \<Rightarrow> string list \<times> block list" where
  "message_of cs = (leading_notes cs, blocks cs)"

definition find_block :: "block list \<Rightarrow> json \<Rightarrow> delta_error + nat" where
  "find_block bs name =
     (case name of
        J_str s \<Rightarrow>
          if s = [] then Inl (Delta ''IR field operation requires field'')
          else (case filter (\<lambda>k. map_of (fst (bs ! k)) ''name'' = Some s) [0..<length bs] of
            [k] \<Rightarrow> Inr k
          | _ \<Rightarrow> Inl (Delta ''IR field matched other than one element''))
      | _ \<Rightarrow> Inl (Delta ''IR field operation requires field''))"

definition without :: "nat \<Rightarrow> 'a list \<Rightarrow> 'a list" where
  "without k xs = take k xs @ drop (Suc k) xs"

definition insert_block :: "block list \<Rightarrow> int \<Rightarrow> block \<Rightarrow> delta_error + block list" where
  "insert_block bs j b =
     (if j < 0 \<or> int (length bs) < j then Inl (Delta ''IR field index is outside'')
      else Inr (take (nat j) bs @ b # drop (nat j) bs))"

definition one_note :: "string \<Rightarrow> string list" where
  "one_note t = (if t = [] then [] else [t])"

text \<open>Whether the package takes the text as a note, over notes that are there or not.\<close>

definition note_call :: "lxml \<Rightarrow> string list \<Rightarrow> string \<Rightarrow> delta_error + string list" where
  "note_call lx old t =
     (if t = [] then Inr [] else lx_call (if old = [] then lx_comment_raises lx t else lx_text_raises lx t) [t])"

definition attrib_changes :: "lxml \<Rightarrow> (string \<times> json) list \<Rightarrow> (string \<times> string) list \<Rightarrow> delta_error + (string \<times> string) list" where
  "attrib_changes lx operation a = rbind (attribute_changes lx operation (Element [] a [] [] [])) (\<lambda>n. Inr (attribs n))"

subsection \<open>Blocks of a list of nodes\<close>

lemma blocks_append: "(ys = [] \<or> \<not> is_comment (hd ys)) \<Longrightarrow> blocks (xs @ ys) = blocks xs @ blocks ys"
  by (induction xs) (auto simp: takeWhile_append takeWhile_eq_Nil_iff[THEN iffD2] takeWhile_eq_all_conv[THEN iffD2])

lemma field_not_comment [simp]: "has_tag t y \<Longrightarrow> \<not> is_comment y"
  by (cases y) auto

lemma comment_no_tag [simp]: "is_comment y \<Longrightarrow> \<not> has_tag t y"
  by (cases y) auto

lemma blocks_comments [simp]: "blocks (dropWhile is_comment cs) = blocks cs"
  by (induction cs) auto

lemma blocks_all_comments: "list_all is_comment cs \<Longrightarrow> blocks (cs @ ds) = blocks ds"
  by (induction cs) auto

lemma places_Cons: "places t (c # cs) = (if has_tag t c then [0] else []) @ map Suc (places t cs)"
proof -
  have "[0..<Suc (length cs)] = 0 # map Suc [0..<length cs]" by (simp add: map_Suc_upt upt_conv_Cons del: upt_Suc)
  then show ?thesis by (simp add: places_def filter_map comp_def)
qed

lemma length_places: "length (places ''field'' cs) = length (blocks cs)"
  by (induction cs) (simp_all add: places_Cons, simp add: places_def)

lemma place_split:
  assumes "k < length (places t cs)"
  shows "\<exists>xs y ys. cs = xs @ y # ys \<and> has_tag t y \<and> length (places t xs) = k \<and> places t cs ! k = length xs"
  using assms
proof (induction cs arbitrary: k)
  case Nil
  then show ?case by (simp add: places_def)
next
  case (Cons c cs)
  show ?case
  proof (cases "has_tag t c \<and> k = 0")
    case True
    then show ?thesis by (intro exI[of _ "[]"]) (simp add: places_Cons, simp add: places_def)
  next
    case False
    let ?k = "if has_tag t c then k - 1 else k"
    have "?k < length (places t cs)" using Cons.prems False by (auto simp: places_Cons split: if_splits)
    from Cons.IH[OF this] obtain xs y ys where s: "cs = xs @ y # ys" "has_tag t y" "length (places t xs) = ?k"
      "places t cs ! ?k = length xs" by blast
    have "places t (c # cs) ! k = length (c # xs)"
      using Cons.prems False s(4) by (cases k) (auto simp: places_Cons split: if_splits)
    moreover have "length (places t (c # xs)) = k" using False s(3) by (auto simp: places_Cons split: if_splits)
    ultimately show ?thesis using s(1,2) by (intro exI[of _ "c # xs"]) auto
  qed
qed

lemma field_split:
  assumes "k < length (blocks cs)"
  shows "\<exists>xs y ys. cs = xs @ y # ys \<and> has_tag ''field'' y \<and> length (blocks xs) = k \<and> places ''field'' cs ! k = length xs \<and>
           blocks cs = blocks xs @ (attribs y, map comment_text (takeWhile is_comment ys)) # blocks ys"
proof -
  from place_split[of k "''field''" cs] assms obtain xs y ys where s: "cs = xs @ y # ys" "has_tag ''field'' y"
    "length (places ''field'' xs) = k" "places ''field'' cs ! k = length xs" by (auto simp: length_places)
  then show ?thesis by (intro exI[of _ xs] exI[of _ y] exI[of _ ys]) (simp add: length_places blocks_append)
qed

lemma find_field_block: "find_field cs name = rbind (find_block (blocks cs) name) (\<lambda>k. Inr (places ''field'' cs ! k))"
proof (cases name)
  case (J_str s)
  let ?ps = "places ''field'' cs" and ?P = "\<lambda>i. attr ''name'' (cs ! i) = Some s"
  let ?Q = "\<lambda>k. map_of (fst (blocks cs ! k)) ''name'' = Some s"
  have "?P (?ps ! k) = ?Q k" if "k < length (blocks cs)" for k
    using field_split[OF that] by (auto simp: nth_append attr_def)
  then have "filter (?P \<circ> (!) ?ps) [0..<length (blocks cs)] = filter ?Q [0..<length (blocks cs)]"
    by (intro filter_cong) auto
  moreover have "filter ?P ?ps = map ((!) ?ps) (filter (?P \<circ> (!) ?ps) [0..<length (blocks cs)])"
    by (simp add: filter_map[symmetric] length_places[symmetric] map_nth)
  ultimately have "filter ?P ?ps = map ((!) ?ps) (filter ?Q [0..<length (blocks cs)])" by simp
  then show ?thesis by (auto simp: find_field_def find_block_def J_str split: list.splits)
qed (simp_all add: find_field_def find_block_def)

lemma find_block_less: "find_block bs name = Inr k \<Longrightarrow> k < length bs"
proof -
  assume a: "find_block bs name = Inr k"
  then obtain s where "filter (\<lambda>k. map_of (fst (bs ! k)) ''name'' = Some s) [0..<length bs] = [k]"
    by (auto simp: find_block_def split: json.splits if_splits list.splits)
  then have "k \<in> set (filter (\<lambda>k. map_of (fst (bs ! k)) ''name'' = Some s) [0..<length bs])" by simp
  then show ?thesis by simp
qed

lemma takeWhile_comments_append: "(ys = [] \<or> \<not> is_comment (hd ys)) \<Longrightarrow> takeWhile is_comment (xs @ ys) = takeWhile is_comment xs"
  by (auto simp: takeWhile_append takeWhile_eq_Nil_iff[THEN iffD2] takeWhile_eq_all_conv[THEN iffD2])

lemma leading_append: "(ys = [] \<or> \<not> is_comment (hd ys)) \<Longrightarrow> leading_notes (xs @ ys) = leading_notes xs"
  by (simp only: leading_notes_def takeWhile_comments_append)

lemma dropWhile_comments: "dropWhile is_comment ys = [] \<or> \<not> is_comment (hd (dropWhile is_comment ys))"
  using hd_dropWhile[of is_comment ys] by blast

lemma takeWhile_all: "list_all is_comment (takeWhile is_comment ys)"
  by (auto simp: list_all_iff dest: set_takeWhileD)

lemma comments_after_split: "comments_after (xs @ y # ys) (length xs) = length (takeWhile is_comment ys)"
  by (simp add: comments_after_def)

lemma drop_takeWhile: "drop (length (takeWhile P xs)) xs = dropWhile P xs"
  by (simp add: dropWhile_eq_drop)

lemma take_takeWhile: "take (length (takeWhile P xs)) xs = takeWhile P xs"
  by (simp add: takeWhile_eq_take[symmetric])

lemma removed_block:
  assumes "k < length (blocks cs)" and "remove_field_block cs (places ''field'' cs ! k) = (b, rest)"
  shows "message_of rest = (leading_notes cs, without k (blocks cs)) \<and>
           (\<exists>f ns. b = f # ns \<and> has_tag ''field'' f \<and> list_all is_comment ns \<and> (attribs f, map comment_text ns) = blocks cs ! k)"
proof -
  from field_split[OF assms(1)] obtain xs y ys where s: "cs = xs @ y # ys" "has_tag ''field'' y" "length (blocks xs) = k"
    "places ''field'' cs ! k = length xs"
    "blocks cs = blocks xs @ (attribs y, map comment_text (takeWhile is_comment ys)) # blocks ys" by blast
  have b: "b = y # takeWhile is_comment ys" "rest = xs @ dropWhile is_comment ys"
    using assms(2) s(1,4) by (auto simp: remove_field_block_def comments_after_split take_takeWhile drop_takeWhile Let_def)
  have "message_of rest = (leading_notes cs, without k (blocks cs))"
    using s(2,3,5) by (simp add: b message_of_def s(1) leading_append[OF dropWhile_comments] leading_append
        blocks_append[OF dropWhile_comments] without_def)
  then show ?thesis using s(2,3,5) b(1) takeWhile_all by (auto simp: nth_append)
qed

lemma inserted_block:
  assumes "has_tag ''field'' f" "list_all is_comment ns"
  shows "rbind (insert_field_block cs j (f # ns)) (\<lambda>cs. Inr (message_of cs)) =
           rbind (insert_block (blocks cs) j (attribs f, map comment_text ns)) (\<lambda>bs. Inr (leading_notes cs, bs))"
proof (cases "j < 0 \<or> int (length (blocks cs)) < j")
  case True
  then show ?thesis by (auto simp: insert_field_block_def insert_before_def insert_block_def length_places Let_def)
next
  case False
  let ?k = "nat j"
  have "\<exists>xs ys. cs = xs @ ys \<and> (ys = [] \<or> \<not> is_comment (hd ys)) \<and> length (blocks xs) = ?k \<and>
          (if j < int (length (blocks cs)) then places ''field'' cs ! ?k else length cs) = length xs"
  proof (cases "j < int (length (blocks cs))")
    case True
    with False have "?k < length (blocks cs)" by linarith
    from field_split[OF this] obtain xs y ys where "cs = xs @ y # ys" "has_tag ''field'' y" "length (blocks xs) = ?k"
      "places ''field'' cs ! ?k = length xs" by blast
    with True show ?thesis by (intro exI[of _ xs] exI[of _ "y # ys"]) simp
  next
    case False2: False
    with False show ?thesis by (intro exI[of _ cs] exI[of _ "[]"]) simp
  qed
  then obtain xs ys where s: "cs = xs @ ys" "ys = [] \<or> \<not> is_comment (hd ys)" "length (blocks xs) = ?k"
    "(if j < int (length (blocks cs)) then places ''field'' cs ! ?k else length cs) = length xs" by blast
  have "insert_field_block cs j (f # ns) = Inr (xs @ f # ns @ ys)"
    using False s(4) unfolding insert_field_block_def insert_before_def length_places Let_def by (simp add: s(1))
  moreover have "takeWhile is_comment (ns @ ys) = ns"
    using assms(2) s(2) by (auto simp: takeWhile_append list_all_iff takeWhile_eq_Nil_iff[THEN iffD2])
  then have "blocks (xs @ f # ns @ ys) = blocks xs @ (attribs f, map comment_text ns) # blocks ys"
    using assms by (simp add: blocks_append blocks_all_comments)
  ultimately show ?thesis
    using False s(2,3) assms(1) by (simp add: message_of_def insert_block_def s(1) leading_append blocks_append)
qed

text \<open>Comments at place \<open>length xs\<close> give way to the note.\<close>

lemma replaced_comments:
  assumes "list_all is_comment ms" and "ys = [] \<or> \<not> is_comment (hd ys)"
  shows "replace_comments lx (xs @ ms @ ys) (length xs) (length ms) t =
           rbind (note_call lx (map comment_text ms) t) (\<lambda>texts.
             Inr (xs @ (if t = [] then [] else [case ms of [] \<Rightarrow> Comment t [] | m # _ \<Rightarrow> set_comment_text t m]) @ ys))"
  by (cases ms) (auto simp: replace_comments_def note_call_def lx_call_def split: option.splits)

lemma new_comment: "list_all is_comment ms \<Longrightarrow>
    is_comment (case ms of [] \<Rightarrow> Comment t [] | m # _ \<Rightarrow> set_comment_text t m) \<and>
    comment_text (case ms of [] \<Rightarrow> Comment t [] | m # _ \<Rightarrow> set_comment_text t m) = t"
  by (cases ms; cases "hd ms") auto

lemma note_call_Inr: "note_call lx old t = Inr texts \<Longrightarrow> texts = one_note t"
  by (auto simp: note_call_def one_note_def lx_call_def split: if_splits option.splits)

lemma new_comment_list:
  assumes "list_all is_comment ms"
  shows "list_all is_comment (if t = [] then [] else [case ms of [] \<Rightarrow> Comment t [] | m # _ \<Rightarrow> set_comment_text t m])"
    "map comment_text (if t = [] then [] else [case ms of [] \<Rightarrow> Comment t [] | m # _ \<Rightarrow> set_comment_text t m]) = one_note t"
  using new_comment[OF assms, of t] by (simp_all add: one_note_def)

lemma comments_then: "list_all is_comment ms \<Longrightarrow> ys = [] \<or> \<not> is_comment (hd ys) \<Longrightarrow> takeWhile is_comment (ms @ ys) = ms"
  by (auto simp: takeWhile_append list_all_iff takeWhile_eq_Nil_iff[THEN iffD2])

lemma noted_block:
  assumes k: "k < length (blocks cs)"
  shows "rbind (set_note lx cs (places ''field'' cs ! k) (J_str t)) (\<lambda>cs. Inr (message_of cs)) =
           rbind (note_call lx (snd (blocks cs ! k)) t)
             (\<lambda>texts. Inr (leading_notes cs, (blocks cs)[k := (fst (blocks cs ! k), texts)]))"
proof -
  from field_split[OF k] obtain xs y ys where s: "cs = xs @ y # ys" "has_tag ''field'' y" "length (blocks xs) = k"
    "places ''field'' cs ! k = length xs"
    "blocks cs = blocks xs @ (attribs y, map comment_text (takeWhile is_comment ys)) # blocks ys" by blast
  let ?ms = "takeWhile is_comment ys" and ?rest = "dropWhile is_comment ys"
  let ?new = "if t = [] then [] else [case ?ms of [] \<Rightarrow> Comment t [] | m # _ \<Rightarrow> set_comment_text t m]"
  have cs: "cs = (xs @ [y]) @ ?ms @ ?rest" by (simp add: s(1))
  have "set_note lx cs (length xs) (J_str t) = replace_comments lx ((xs @ [y]) @ ?ms @ ?rest) (length (xs @ [y])) (length ?ms) t"
    by (simp add: set_note_def s(1) comments_after_split)
  also have "\<dots> = rbind (note_call lx (map comment_text ?ms) t) (\<lambda>texts. Inr ((xs @ [y]) @ ?new @ ?rest))"
    by (rule replaced_comments[OF takeWhile_all dropWhile_comments])
  finally have run: "set_note lx cs (places ''field'' cs ! k) (J_str t) =
      rbind (note_call lx (map comment_text ?ms) t) (\<lambda>texts. Inr ((xs @ [y]) @ ?new @ ?rest))" by (simp only: s(4))
  note new = new_comment_list[OF takeWhile_all, of t ys]
  have "blocks (xs @ y # ?new @ ?rest) = blocks xs @ (attribs y, one_note t) # blocks ys"
    using s(2) new by (simp add: blocks_append comments_then[OF _ dropWhile_comments] blocks_all_comments del: if_split)
  moreover have "leading_notes (xs @ y # ?new @ ?rest) = leading_notes cs"
    using s(2) by (simp add: s(1) leading_append)
  ultimately have "message_of ((xs @ [y]) @ ?new @ ?rest) = (leading_notes cs, blocks xs @ (attribs y, one_note t) # blocks ys)"
    by (simp add: message_of_def)
  then show ?thesis using s(3) unfolding run s(5)
    by (cases "note_call lx (map comment_text ?ms) t") (auto dest: note_call_Inr simp: nth_append)
qed

lemma noted_message:
  "rbind (set_message_note lx cs (J_str t)) (\<lambda>cs. Inr (message_of cs)) =
     rbind (note_call lx (leading_notes cs) t) (\<lambda>texts. Inr (texts, blocks cs))"
proof -
  let ?ms = "takeWhile is_comment cs" and ?rest = "dropWhile is_comment cs"
  let ?new = "if t = [] then [] else [case ?ms of [] \<Rightarrow> Comment t [] | m # _ \<Rightarrow> set_comment_text t m]"
  have "set_message_note lx cs (J_str t) = replace_comments lx ([] @ ?ms @ ?rest) (length ([] :: node list)) (length ?ms) t"
    by (simp add: set_message_note_def)
  also have "\<dots> = rbind (note_call lx (map comment_text ?ms) t) (\<lambda>texts. Inr ([] @ ?new @ ?rest))"
    by (rule replaced_comments[OF takeWhile_all dropWhile_comments])
  finally have run: "set_message_note lx cs (J_str t) =
      rbind (note_call lx (leading_notes cs) t) (\<lambda>texts. Inr (?new @ ?rest))" by (simp add: leading_notes_def)
  note new = new_comment_list[OF takeWhile_all, of t cs]
  have "message_of (?new @ ?rest) = (one_note t, blocks cs)"
    using new by (simp add: message_of_def leading_notes_def comments_then[OF _ dropWhile_comments] blocks_all_comments del: if_split)
  then show ?thesis unfolding run
    by (cases "note_call lx (leading_notes cs) t") (auto dest: note_call_Inr)
qed

lemma attribute_changes_split:
  "attribute_changes lx operation f = rbind (attrib_changes lx operation (attribs f)) (\<lambda>a. Inr (with_attribs a f))"
  by (cases "string_entries (get_default (J_dict []) operation ''set'')")
     (simp_all add: attrib_changes_def attribute_changes_def Let_def rbind_assoc)

lemma with_attribs_simps [simp]:
  "has_tag t (with_attribs a f) = has_tag t f" "is_comment (with_attribs a f) = is_comment f"
  "has_tag t f \<Longrightarrow> attribs (with_attribs a f) = a"
  by (cases f; simp)+

lemma changed_block:
  assumes k: "k < length (blocks cs)"
  shows "message_of (cs[places ''field'' cs ! k := with_attribs a (cs ! (places ''field'' cs ! k))]) =
           (leading_notes cs, (blocks cs)[k := (a, snd (blocks cs ! k))])"
    and "attribs (cs ! (places ''field'' cs ! k)) = fst (blocks cs ! k)"
proof -
  from field_split[OF k] obtain xs y ys where s: "cs = xs @ y # ys" "has_tag ''field'' y" "length (blocks xs) = k"
    "places ''field'' cs ! k = length xs"
    "blocks cs = blocks xs @ (attribs y, map comment_text (takeWhile is_comment ys)) # blocks ys" by blast
  show "message_of (cs[places ''field'' cs ! k := with_attribs a (cs ! (places ''field'' cs ! k))]) =
           (leading_notes cs, (blocks cs)[k := (a, snd (blocks cs ! k))])"
    using s(2,3) unfolding s(4) by (simp add: message_of_def s(1) leading_append blocks_append list_update_append nth_append)
  show "attribs (cs ! (places ''field'' cs ! k)) = fst (blocks cs ! k)"
    using s(3) unfolding s(4) by (simp add: s(5)) (simp add: s(1) nth_append)
qed

lemma inserted_field:
  assumes "b \<noteq> [] \<and> has_tag ''field'' (hd b) \<and> list_all is_comment (tl b)"
  shows "rbind (insert_field_block cs j b) (\<lambda>cs. Inr (message_of cs)) =
           rbind (insert_block (blocks cs) j (attribs (hd b), map comment_text (tl b))) (\<lambda>bs. Inr (leading_notes cs, bs))"
  using inserted_block[of "hd b" "tl b"] assms by simp

lemma build_field_shape:
  assumes "build_field lx e1 e2 d = Inr b"
  shows "b \<noteq> [] \<and> has_tag ''field'' (hd b) \<and> list_all is_comment (tl b)"
  using assms
  by (auto simp: build_field_def new_element_def note_nodes_def lx_call_def split: option.splits json.splits if_splits)

text \<open>
  C23. The edits of a message's fields and notes are edits of its list of blocks: a field moves with its notes, is
  inserted before the field at its index, and a note replaces all notes of its field; what fails there fails
  with the same error here.
\<close>

theorem field_edits_refine:
  "(rbind (delete_field name cs) (\<lambda>cs. Inr (message_of cs)) =
     rbind (find_block (blocks cs) name) (\<lambda>k. Inr (leading_notes cs, without k (blocks cs)))) \<and>
   (rbind (move_field name (J_int j) cs) (\<lambda>cs. Inr (message_of cs)) =
     rbind (find_block (blocks cs) name) (\<lambda>k.
       rbind (insert_block (without k (blocks cs)) j (blocks cs ! k)) (\<lambda>bs. Inr (leading_notes cs, bs)))) \<and>
   (rbind (insert_field lx operation cs) (\<lambda>cs. Inr (message_of cs)) =
     (case as_int (py_get operation ''index'') of
        None \<Rightarrow> Inl (Delta ''insert_field requires integer index'')
      | Some j \<Rightarrow>
          rbind (build_field lx ''insert_field requires string attributes object'' ''insert_field note must be a string'' operation) (\<lambda>b.
            rbind (insert_block (blocks cs) j (attribs (hd b), map comment_text (tl b))) (\<lambda>bs. Inr (leading_notes cs, bs))))) \<and>
   (rbind (set_field_note lx name (J_str t) cs) (\<lambda>cs. Inr (message_of cs)) =
     rbind (find_block (blocks cs) name) (\<lambda>k.
       rbind (note_call lx (snd (blocks cs ! k)) t)
         (\<lambda>texts. Inr (leading_notes cs, (blocks cs)[k := (fst (blocks cs ! k), texts)])))) \<and>
   (rbind (update_field lx operation cs) (\<lambda>cs. Inr (message_of cs)) =
     rbind (find_block (blocks cs) (py_get operation ''field'')) (\<lambda>k.
       rbind (attrib_changes lx operation (fst (blocks cs ! k)))
         (\<lambda>a. Inr (leading_notes cs, (blocks cs)[k := (a, snd (blocks cs ! k))])))) \<and>
   (rbind (set_message_note lx cs (J_str t)) (\<lambda>cs. Inr (message_of cs)) =
     rbind (note_call lx (leading_notes cs) t) (\<lambda>texts. Inr (texts, blocks cs)))"
proof (intro conjI)
  show "rbind (delete_field name cs) (\<lambda>cs. Inr (message_of cs)) =
     rbind (find_block (blocks cs) name) (\<lambda>k. Inr (leading_notes cs, without k (blocks cs)))"
  proof (cases "find_block (blocks cs) name")
    case (Inr k)
    show ?thesis
      using removed_block[OF find_block_less[OF Inr] prod.collapse[symmetric]] by (simp add: delete_field_def find_field_block Inr)
  qed (simp add: delete_field_def find_field_block)
  show "rbind (move_field name (J_int j) cs) (\<lambda>cs. Inr (message_of cs)) =
     rbind (find_block (blocks cs) name) (\<lambda>k.
       rbind (insert_block (without k (blocks cs)) j (blocks cs ! k)) (\<lambda>bs. Inr (leading_notes cs, bs)))"
  proof (cases "find_block (blocks cs) name")
    case (Inr k)
    obtain b rest where rem: "remove_field_block cs (places ''field'' cs ! k) = (b, rest)"
      by (cases "remove_field_block cs (places ''field'' cs ! k)")
    from removed_block[OF find_block_less[OF Inr] rem] obtain f ns where
      "message_of rest = (leading_notes cs, without k (blocks cs))" "b = f # ns" "has_tag ''field'' f"
      "list_all is_comment ns" "(attribs f, map comment_text ns) = blocks cs ! k" by blast
    with inserted_block[of f ns rest j] show ?thesis
      by (simp add: move_field_def find_field_block Inr rem message_of_def)
  qed (simp add: move_field_def find_field_block)
  show "rbind (insert_field lx operation cs) (\<lambda>cs. Inr (message_of cs)) =
     (case as_int (py_get operation ''index'') of
        None \<Rightarrow> Inl (Delta ''insert_field requires integer index'')
      | Some j \<Rightarrow>
          rbind (build_field lx ''insert_field requires string attributes object'' ''insert_field note must be a string'' operation) (\<lambda>b.
            rbind (insert_block (blocks cs) j (attribs (hd b), map comment_text (tl b))) (\<lambda>bs. Inr (leading_notes cs, bs))))"
    by (auto dest!: build_field_shape intro: inserted_field simp: insert_field_def rbind_assoc split: option.splits intro!: rbind_cong)
  show "rbind (set_field_note lx name (J_str t) cs) (\<lambda>cs. Inr (message_of cs)) =
     rbind (find_block (blocks cs) name) (\<lambda>k.
       rbind (note_call lx (snd (blocks cs ! k)) t)
         (\<lambda>texts. Inr (leading_notes cs, (blocks cs)[k := (fst (blocks cs ! k), texts)])))"
    by (cases "find_block (blocks cs) name")
       (simp_all add: set_field_note_def find_field_block noted_block find_block_less)
  show "rbind (update_field lx operation cs) (\<lambda>cs. Inr (message_of cs)) =
     rbind (find_block (blocks cs) (py_get operation ''field'')) (\<lambda>k.
       rbind (attrib_changes lx operation (fst (blocks cs ! k)))
         (\<lambda>a. Inr (leading_notes cs, (blocks cs)[k := (a, snd (blocks cs ! k))])))"
    by (cases "find_block (blocks cs) (py_get operation ''field'')")
       (simp_all add: update_field_def find_field_block attribute_changes_split changed_block find_block_less rbind_assoc)
  show "rbind (set_message_note lx cs (J_str t)) (\<lambda>cs. Inr (message_of cs)) =
     rbind (note_call lx (leading_notes cs) t) (\<lambda>texts. Inr (texts, blocks cs))"
    by (rule noted_message)
qed

section \<open>What a delta may return\<close>

text \<open>A field as the other components read it.\<close>

definition proto_field :: "node \<Rightarrow> bool" where
  "proto_field f \<longleftrightarrow> {''name'', ''type'', ''length'', ''value''} \<subseteq> fst ` set (attribs f) \<and>
     (attr ''type'' f = Some ''constant'' \<or> attr ''type'' f = Some ''variable'')"

definition proto_message :: "node \<Rightarrow> bool" where
  "proto_message m \<longleftrightarrow> (\<exists>n. attr ''name'' m = Some n \<and> n \<noteq> []) \<and>
     (\<forall>f \<in> set (node_children m). has_tag ''field'' f \<longrightarrow> proto_field f)"

lemma raise_first_Inr: "raise_first cs = Inr () \<longleftrightarrow> set cs \<subseteq> {None}"
proof (induction cs)
  case Nil
  then show ?case by (simp add: raise_first_def)
next
  case (Cons c cs)
  then show ?case by (cases c) (simp_all add: raise_first_def)
qed

lemma field_complaint_None: "field_complaint f = None \<longleftrightarrow> proto_field f"
proof -
  have "attr k f \<noteq> None \<longleftrightarrow> k \<in> fst ` set (attribs f)" for k by (simp add: attr_def map_of_eq_None_iff)
  then show ?thesis by (auto simp: field_complaint_def proto_field_def)
qed

lemma in_places: "i \<in> set (places t cs) \<longleftrightarrow> i < length cs \<and> has_tag t (cs ! i)"
  by (auto simp: places_def)

lemma message_complaints_None: "set (message_complaints m) \<subseteq> {None} \<longleftrightarrow> proto_message m"
proof -
  have "(\<forall>i \<in> set (places ''field'' (node_children m)). proto_field (node_children m ! i)) \<longleftrightarrow>
      (\<forall>f \<in> set (node_children m). has_tag ''field'' f \<longrightarrow> proto_field f)"
    unfolding all_set_conv_all_nth[of "node_children m"] by (auto simp only: in_places)
  then show ?thesis
    by (auto simp: message_complaints_def proto_message_def image_subset_iff field_complaint_None split: if_splits)
qed

lemma validate_proto_ir_Inr:
  "validate_proto_ir ir = Inr () \<longleftrightarrow>
     (\<exists>ps. ir_messages ir = Inr ps \<and> ps \<noteq> [] \<and> (\<forall>p \<in> set ps. proto_message (node_at p ir)))"
  by (auto simp: validate_proto_ir_def raise_first_Inr message_complaints_None[symmetric])

text \<open>
  C37. A delta returns only XML that differs from the baseline under SHA-256 and is the text of a protoIR: a
  \<open>message\<close>, or an \<open>ir\<close> with messages, every message named and every field with the four attributes and
  a known type, whatever the operations did on the way.
\<close>

theorem evolved_ir_valid:
  assumes "apply_ir_delta lx sha source d = Inr t"
  shows "\<exists>baseline ir ps. lx_parse lx source = Parsed baseline \<and>
           rfold (ir_operation lx) baseline (items_of (py_get d ''ops'')) = Inr ir \<and> t = lx_tostring lx ir \<and> sha t \<noteq> sha source \<and>
           (has_tag ''message'' ir \<or> has_tag ''ir'' ir) \<and>
           ir_messages ir = Inr ps \<and> ps \<noteq> [] \<and> (\<forall>p \<in> set ps. proto_message (node_at p ir))"
proof -
  from assms obtain baseline ir where r: "lx_parse lx source = Parsed baseline"
    "rfold (ir_operation lx) baseline (items_of (py_get d ''ops'')) = Inr ir" "validate_proto_ir ir = Inr ()"
    "t = lx_tostring lx ir" "sha t \<noteq> sha source"
    by (auto simp: apply_ir_delta_def Let_def split: if_splits parse.splits)
  moreover have "has_tag ''message'' ir \<or> has_tag ''ir'' ir"
    using r(3) by (auto simp: validate_proto_ir_def ir_messages_def split: if_splits)
  ultimately show ?thesis by (auto simp: validate_proto_ir_Inr)
qed

text \<open>
  A note the package refuses, such as one with two hyphens, leaves \<open>apply_ir_delta\<close> as the package's own
  \<open>ValueError\<close>; the caller handles only \<open>IncrementalOutputError\<close> and \<open>LLMResponseValidationError\<close>.
\<close>

lemma refused_note_escapes:
  assumes "lx_comment_raises lx t = Some e" "t \<noteq> []" "find_block (blocks cs) name = Inr k" "snd (blocks cs ! k) = []"
  shows "set_field_note lx name (J_str t) cs = Inl (Delta_escapes e)"
proof -
  have "rbind (set_field_note lx name (J_str t) cs) (\<lambda>cs. Inr (message_of cs)) = Inl (Delta_escapes e)"
    using assms by (simp add: set_field_note_def find_field_block rbind_assoc noted_block[OF find_block_less[OF assms(3)]] note_call_def lx_call_def)
  then show ?thesis by auto
qed

text \<open>An instance: a message is renamed.  XML is written here as the names of its elements.\<close>

definition names_of :: "node \<Rightarrow> string" where
  "names_of ir = concat (map (\<lambda>p. case attr ''name'' (node_at p ir) of None \<Rightarrow> [] | Some s \<Rightarrow> s) (below_paths ir))"

definition sample_lxml :: lxml where
  "sample_lxml = \<lparr>lx_parse = \<lambda>s. Parsed (Element ''ir'' [] []
       [Element ''message'' [(''name'', s)] []
         [Element ''field'' [(''name'', ''x''), (''type'', ''variable''), (''length'', ''1''), (''value'', [])] [] [] []] []] []),
     lx_tostring = names_of, lx_pop_raises = \<lambda>_. None, lx_set_raises = \<lambda>_ _. None, lx_element_raises = \<lambda>_. None,
     lx_comment_raises = \<lambda>_. None, lx_text_raises = \<lambda>_. None\<rparr>"

definition sample_delta :: "(string \<times> json) list" where
  "sample_delta = [(''base_sha256'', J_str ''A''),
     (''ops'', J_list [J_dict [(''op'', J_str ''update_message''), (''message'', J_str ''A''),
                               (''set'', J_dict [(''name'', J_str ''B'')])]])]"

theorem evolved_ir_valid_witness:
  "apply_ir_delta sample_lxml (\<lambda>s. s) ''A'' sample_delta = Inr ''Bx'' \<and>
     (\<exists>ir ps. ''Bx'' = names_of ir \<and> ir_messages ir = Inr ps \<and> ps \<noteq> [] \<and> (\<forall>p \<in> set ps. proto_message (node_at p ir)))"
proof -
  have run: "apply_ir_delta sample_lxml (\<lambda>s. s) ''A'' sample_delta = Inr ''Bx''" by code_simp
  moreover have "lx_tostring sample_lxml = names_of" by (simp add: sample_lxml_def)
  ultimately show ?thesis using evolved_ir_valid[OF run] by auto
qed

end
