(* ===== verification/Prompt_Context.thy ===== *)
theory Prompt_Context imports Python_Text begin

text \<open>
  The parts of a prompt that vary are cut to a budget: \<open>numbered_source_context\<close> of
  \<open>voltron/llm/incremental.py\<close>, which numbers the lines of a source for the edits of a delta, and
  \<open>_compact_context\<close> of \<open>voltron/llm/chatter.py\<close>.
\<close>

section \<open>A source with numbered lines\<close>

definition zero_padded :: "nat \<Rightarrow> nat \<Rightarrow> string" where
  "zero_padded width n = replicate (width - length (show_nat n)) (CHR ''0'') @ show_nat n"

definition line_marker :: string where
  "line_marker = ''[... line truncated ...]''"

text \<open>The middle of a long line gives way to the marker.\<close>

definition render_line :: "nat \<Rightarrow> string \<Rightarrow> string \<Rightarrow> string" where
  "render_line line_limit pfx line =
     (if line_limit < length pfx + length line
      then let retained = max 2 (line_limit - length pfx - length line_marker); hd_n = retained * 2 div 3
           in pfx @ take hd_n line @ line_marker @ last_n (retained - hd_n) line
      else pfx @ line)"

definition rendered_lines :: "nat \<Rightarrow> string list \<Rightarrow> string list" where
  "rendered_lines line_limit ls =
     (let width = max 1 (length (show_nat (max 1 (length ls))))
      in map (\<lambda>(n, l). render_line line_limit (zero_padded width n @ ''|'') l) (zip [1..<Suc (length ls)] ls))"

text \<open>Lines while they fit, but at least one.\<close>

fun take_fitting :: "nat \<Rightarrow> nat \<Rightarrow> string list \<Rightarrow> string list" where
  "take_fitting budget used [] = []"
| "take_fitting budget used (l # ls) =
     (if 0 < used \<and> budget < used + (length l + 1) then []
      else l # take_fitting budget (used + (length l + 1)) ls)"

definition join_lines :: "string list \<Rightarrow> string" where
  "join_lines = py_join [CHR 0x0A]"

lemma join_lines_Nil [simp]: "join_lines [] = []"
  by (simp add: join_lines_def)

definition omitted_marker :: "nat \<Rightarrow> nat \<Rightarrow> string" where
  "omitted_marker a b = ''... omitted source lines '' @ show_nat a @ ''-'' @ show_nat b @ '' ...''"

definition head_lines :: "nat \<Rightarrow> string list \<Rightarrow> string list" where
  "head_lines m rendered = take_fitting ((m - 80) * 2 div 3) 0 rendered"

definition tail_lines :: "nat \<Rightarrow> string list \<Rightarrow> string list" where
  "tail_lines m rendered =
     rev (take_fitting (m - 80 - (m - 80) * 2 div 3) 0 (rev (drop (length (head_lines m rendered)) rendered)))"

definition context_limit :: "int \<Rightarrow> nat" where
  "context_limit max_chars = nat (max 512 max_chars)"

definition context_rendered :: "string \<Rightarrow> int \<Rightarrow> string list" where
  "context_rendered source max_chars =
     rendered_lines (max 64 (min 256 (context_limit max_chars div 3))) (py_splitlines source)"

definition numbered_source_context :: "string \<Rightarrow> int \<Rightarrow> string" where
  "numbered_source_context source max_chars =
     (let m = context_limit max_chars; rendered = context_rendered source max_chars;
          complete = join_lines rendered; hd_ls = head_lines m rendered; tl_ls = tail_lines m rendered
      in if length complete \<le> m then complete
         else join_lines (hd_ls @ omitted_marker (length hd_ls + 1) (length rendered - length tl_ls) # tl_ls))"

section \<open>Free text\<close>

definition context_marker :: string where
  "context_marker = [CHR 0x0A, CHR 0x0A] @ ''[... Voltron context truncated ...]'' @ [CHR 0x0A, CHR 0x0A]"

text \<open>\<open>limit\<close> is the argument, or \<open>prompt_context_max_chars\<close> of the configuration.\<close>

definition compact_context :: "int \<Rightarrow> string option \<Rightarrow> string" where
  "compact_context limit v =
     (let text = (case v of None \<Rightarrow> [] | Some t \<Rightarrow> t); m = context_limit limit in
      if length text \<le> m then text
      else let retained = m - length context_marker; hd_n = max 1 (retained * 2 div 3);
               tl_n = max 1 (retained - hd_n)
           in take hd_n text @ context_marker @ last_n tl_n text)"

section \<open>The budgets hold\<close>

lemma context_limit_ge: "512 \<le> context_limit n"
  by (simp add: context_limit_def)

lemma length_context_marker: "length context_marker = 39"
  by (simp add: context_marker_def)

text \<open>
  Free text in a prompt is kept as it is if it fits the budget, otherwise exactly as long as the
  budget, with its beginning and its end around the marker.
\<close>

theorem compact_context_fits:
  "let text = (case v of None \<Rightarrow> [] | Some t \<Rightarrow> t); m = context_limit limit; c = compact_context limit v
   in if length text \<le> m then c = text
      else length c = m \<and> (\<exists>a b. prefix a text \<and> suffix b text \<and> c = a @ context_marker @ b \<and>
                                length a + length b + 39 = m)"
proof -
  let ?text = "case v of None \<Rightarrow> [] | Some t \<Rightarrow> t" and ?m = "context_limit limit"
  let ?h = "max 1 ((?m - 39) * 2 div 3)"
  let ?t = "max 1 (?m - 39 - ?h)"
  show ?thesis
  proof (cases "length ?text \<le> ?m")
    case False
    have eq: "compact_context limit v = take ?h ?text @ context_marker @ last_n ?t ?text"
      using False by (simp add: compact_context_def Let_def length_context_marker)
    have sum: "?h + ?t + 39 = ?m" using context_limit_ge[of limit] by linarith
    then have le: "?h \<le> length ?text" "?t \<le> length ?text" using False by linarith+
    have "length (take ?h ?text) = ?h" using le(1) by (rule length_take[THEN trans, OF min_absorb2])
    moreover have "length (last_n ?t ?text) = ?t" unfolding length_last_n using le(2) by (rule min_absorb1)
    moreover have "prefix (take ?h ?text) ?text" by (rule take_is_prefix)
    moreover have "suffix (last_n ?t ?text) ?text" unfolding last_n_def by (rule suffix_drop)
    ultimately have "length (compact_context limit v) = ?m \<and> (\<exists>a b. prefix a ?text \<and> suffix b ?text \<and>
        compact_context limit v = a @ context_marker @ b \<and> length a + length b + 39 = ?m)"
      using sum unfolding eq length_append length_context_marker
      by (intro conjI exI[of _ "take ?h ?text"] exI[of _ "last_n ?t ?text"]) (assumption | rule refl | linarith)+
    with False show ?thesis unfolding Let_def by (simp only: if_False)
  qed (simp add: compact_context_def Let_def)
qed

text \<open>How long the printed numbers are.\<close>

lemma length_show_nat: "n < 10 ^ k \<Longrightarrow> 0 < k \<Longrightarrow> length (show_nat n) \<le> k"
proof (induction n arbitrary: k rule: show_nat.induct)
  case (1 n)
  show ?case
  proof (cases "n < 10")
    case True
    with 1(3) show ?thesis by (subst show_nat.simps) simp
  next
    case False
    with 1(2) have "k \<noteq> 1" "k \<noteq> 0" using 1(3) by auto
    then obtain j where k: "k = Suc j" "0 < j" by (cases k) auto
    with 1(2) have "n div 10 < 10 ^ j" by (simp add: less_mult_imp_div_less)
    from 1(1)[OF False this k(2)] False k show ?thesis by (subst show_nat.simps) simp
  qed
qed

lemma show_nat_nonempty: "0 < length (show_nat n)"
  by (subst show_nat.simps) simp

lemma length_show_mono: "m \<le> n \<Longrightarrow> length (show_nat m) \<le> length (show_nat n)"
proof (induction n arbitrary: m rule: show_nat.induct)
  case (1 n)
  show ?case
  proof (cases "n < 10")
    case True
    with 1(2) show ?thesis by (subst (1 2) show_nat.simps) simp
  next
    case False
    show ?thesis
    proof (cases "m < 10")
      case True
      then have "length (show_nat m) = 1" by (subst show_nat.simps) simp
      then show ?thesis using show_nat_nonempty[of n] by linarith
    next
      case m: False
      have "m div 10 \<le> n div 10" using 1(2) by (rule div_le_mono)
      from 1(1)[OF False this] False m show ?thesis by (subst (1 2) show_nat.simps) simp
    qed
  qed
qed

lemma length_line_marker: "length line_marker = 24"
  by (simp add: line_marker_def)

lemma length_render_line:
  assumes "length pfx + 26 \<le> line_limit"
  shows "length (render_line line_limit pfx l) \<le> line_limit"
proof (cases "line_limit < length pfx + length l")
  case True
  let ?r = "max 2 (line_limit - length pfx - 24)"
  have r: "?r + length pfx + 24 = line_limit" using assms by simp
  have "length (render_line line_limit pfx l) = length pfx + length (take (?r * 2 div 3) l) + 24 + length (last_n (?r - ?r * 2 div 3) l)"
    using True by (simp add: render_line_def Let_def length_line_marker)
  moreover have "length (take (?r * 2 div 3) l) \<le> ?r * 2 div 3" by simp
  moreover have "length (last_n (?r - ?r * 2 div 3) l) \<le> ?r - ?r * 2 div 3" by (simp add: length_last_n)
  moreover have "?r * 2 div 3 \<le> ?r" by simp
  ultimately show ?thesis using r by linarith
qed (simp add: render_line_def)

lemma length_zero_padded: "length (zero_padded w n) = max w (length (show_nat n))"
  by (simp add: zero_padded_def)

lemma rendered_short:
  assumes "length ls < 10 ^ 11" "64 \<le> line_limit" "l \<in> set (rendered_lines line_limit ls)"
  shows "length l \<le> line_limit"
proof -
  let ?w = "max 1 (length (show_nat (max 1 (length ls))))"
  from assms(3) obtain n x where n: "(n, x) \<in> set (zip [1..<Suc (length ls)] ls)"
    "l = render_line line_limit (zero_padded ?w n @ ''|'') x"
    unfolding rendered_lines_def Let_def by auto
  then have "n \<le> length ls" by (auto dest!: set_zip_leftD)
  then have "length (show_nat n) \<le> 11" "length (show_nat (max 1 (length ls))) \<le> 11"
    using assms(1) by (auto intro!: length_show_nat)
  then have "length (zero_padded ?w n @ ''|'') \<le> 12" by (simp add: length_zero_padded)
  with assms(2) n(2) show ?thesis by (auto intro: length_render_line)
qed

lemma length_rendered_lines [simp]: "length (rendered_lines line_limit ls) = length ls"
  by (simp add: rendered_lines_def del: upt_Suc)

text \<open>Sizes count the line ends.\<close>

definition size_of :: "string list \<Rightarrow> nat" where
  "size_of ls = sum_list (map (\<lambda>l. length l + 1) ls)"

lemma size_of_simps [simp]:
  "size_of [] = 0" "size_of (l # ls) = length l + 1 + size_of ls" "size_of (xs @ ys) = size_of xs + size_of ys"
  "size_of (rev ls) = size_of ls"
  by (simp_all add: size_of_def rev_map[symmetric])

lemma size_join_lines: "ls \<noteq> [] \<Longrightarrow> length (join_lines ls) + 1 = size_of ls"
  by (induction "[CHR 0x0A]" ls rule: py_join.induct) (auto simp: join_lines_def)

lemma take_fitting_prefix: "\<exists>ys. ls = take_fitting b u ls @ ys"
  by (induction b u ls rule: take_fitting.induct) auto

lemma take_fitting_size:
  "used \<le> budget \<Longrightarrow> 0 < used \<Longrightarrow> used + size_of (take_fitting budget used ls) \<le> budget"
  by (induction budget used ls rule: take_fitting.induct) (auto simp: not_less)

lemma take_fitting_first:
  assumes "\<forall>l \<in> set ls. length l \<le> line_limit"
  shows "size_of (take_fitting budget 0 ls) \<le> max budget (line_limit + 1)"
proof (cases ls)
  case (Cons l ls')
  show ?thesis
  proof (cases "length l + 1 \<le> budget")
    case True
    with take_fitting_size[of "length l + 1" budget ls'] Cons show ?thesis by simp
  next
    case False
    then have "take_fitting budget (length l + 1) ls' = []" by (cases ls') auto
    with Cons assms show ?thesis by (simp add: le_max_iff_disj)
  qed
qed simp

lemma thirds: "3 * (x div 3) \<le> x" "x \<le> 3 * (x div 3) + (2::nat)"
  by linarith+

text \<open>
  The numbered source never exceeds its budget if the source has fewer than \<open>10 ^ 11\<close> lines.  If it
  does not fit as a whole, the lines named as omitted are exactly those that are missing, and there is
  at least one.
\<close>

theorem numbered_context_fits:
  assumes "length (py_splitlines source) < 10 ^ 11"
  shows "length (numbered_source_context source n) \<le> context_limit n \<and>
         (let rendered = context_rendered source n; m = context_limit n;
              a = length (head_lines m rendered) + 1; b = length rendered - length (tail_lines m rendered)
          in m < length (join_lines rendered) \<longrightarrow>
               a \<le> b \<and> rendered = head_lines m rendered @ take (b + 1 - a) (drop (a - 1) rendered) @ tail_lines m rendered)"
proof -
  let ?m = "context_limit n" and ?R = "context_rendered source n"
  let ?limit = "max 64 (min 256 (?m div 3))" and ?H = "head_lines ?m ?R" and ?T = "tail_lines ?m ?R"
  let ?hb = "(?m - 80) * 2 div 3"
  have m: "512 \<le> ?m" by (rule context_limit_ge)
  have R: "?R = rendered_lines ?limit (py_splitlines source)" by (simp add: context_rendered_def)
  have short: "\<forall>l \<in> set ?R. length l \<le> ?limit" using rendered_short[OF assms] R by auto
  have lenR: "length ?R < 10 ^ 11" using assms R by simp
  obtain mid where rest: "drop (length ?H) ?R = mid @ ?T"
  proof -
    obtain ys where "rev (drop (length ?H) ?R) = take_fitting (?m - 80 - ?hb) 0 (rev (drop (length ?H) ?R)) @ ys"
      using take_fitting_prefix by blast
    then have "drop (length ?H) ?R = rev ys @ ?T" unfolding tail_lines_def by (metis rev_append rev_rev_ident)
    with that show thesis by blast
  qed
  have H: "?R = ?H @ drop (length ?H) ?R"
  proof -
    obtain ys where "?R = ?H @ ys" using take_fitting_prefix unfolding head_lines_def by blast
    then show ?thesis by (metis append_eq_conv_conj)
  qed
  have hs: "size_of ?H \<le> max ?hb (?limit + 1)"
    unfolding head_lines_def by (rule take_fitting_first[OF short])
  have ts: "size_of ?T \<le> max (?m - 80 - ?hb) (?limit + 1)"
    unfolding tail_lines_def size_of_simps
    by (rule take_fitting_first) (use short in \<open>auto dest: in_set_dropD\<close>)
  have hb: "3 * ?hb \<le> 2 * ?m - 160" "2 * ?m - 162 \<le> 3 * ?hb"
    using thirds[of "(?m - 80) * 2"] m by linarith+
  have "?limit \<le> ?m div 3" using m by simp
  with thirds[of ?m] have L: "?limit \<le> 256" "3 * ?limit \<le> ?m" by simp_all
  have first: "?limit + 1 \<le> ?hb" using hb(2) L(2) m by linarith
  then have hs': "size_of ?H \<le> ?hb" using hs by simp
  have total: "size_of ?H + size_of ?T + 52 \<le> ?m"
  proof (cases "?limit + 1 \<le> ?m - 80 - ?hb")
    case True
    then have "size_of ?T \<le> ?m - 80 - ?hb" using ts by simp
    then show ?thesis using hs' hb(1) m by linarith
  next
    case False
    then have "size_of ?T \<le> ?limit + 1" using ts by simp
    then show ?thesis using hs' hb(1) L(2) m by linarith
  qed
  have lens: "length ?R = length ?H + length mid + length ?T"
    using arg_cong[OF H, of length] arg_cong[OF rest, of length] by simp
  show ?thesis
  proof (cases "length (join_lines ?R) \<le> ?m")
    case False
    have "?R \<noteq> []" using False by auto
    then have "?m < size_of ?R" using size_join_lines[of ?R] False by linarith
    moreover have "size_of ?R = size_of ?H + size_of mid + size_of ?T"
      using arg_cong[OF H, of size_of] arg_cong[OF rest, of size_of] by simp
    ultimately have mid: "mid \<noteq> []" using total by (cases "mid = []") simp_all
    let ?a = "length ?H + 1" and ?b = "length ?R - length ?T"
    have ab: "?a \<le> ?b" "?b \<le> length ?R" "?b = length ?H + length mid" using mid lens by (auto simp: Suc_le_eq)
    have "length (show_nat ?a) \<le> 11" "length (show_nat ?b) \<le> 11"
      using ab lenR by (auto intro!: length_show_nat)
    then have marker: "length (omitted_marker ?a ?b) \<le> 52" by (simp add: omitted_marker_def)
    have "length (join_lines (?H @ omitted_marker ?a ?b # ?T)) + 1 = size_of (?H @ omitted_marker ?a ?b # ?T)"
      by (rule size_join_lines) simp
    then have "length (join_lines (?H @ omitted_marker ?a ?b # ?T)) = size_of ?H + length (omitted_marker ?a ?b) + size_of ?T"
      by simp
    with total marker have "length (join_lines (?H @ omitted_marker ?a ?b # ?T)) \<le> ?m" by linarith
    moreover have "?R = ?H @ take (?b + 1 - ?a) (drop (?a - 1) ?R) @ ?T"
      using H rest ab(3) by simp
    ultimately show ?thesis using False ab(1) by (simp add: numbered_source_context_def Let_def)
  qed (simp add: numbered_source_context_def Let_def)
qed

theorem numbered_context_fits_witness:
  "length (py_splitlines ''return 1'') = 1 \<and> length (numbered_source_context ''return 1'' 0) \<le> 512"
proof -
  have l: "length (py_splitlines ''return 1'') = 1" by code_simp
  then have "length (py_splitlines ''return 1'') < 10 ^ 11" by simp
  from numbered_context_fits[OF this, of 0] l show ?thesis by (simp add: context_limit_def)
qed

end
