(* ===== verification/Ir_Context.thy ===== *)
theory Ir_Context imports Ir_Delta Prompt_Context "HOL-Library.List_Lexorder" "HOL-Library.Char_ord" begin

text \<open>
  The protoIR part of a prompt (\<open>voltron/llm/chatter.py\<close>: \<open>_xml_ir_to_field_table\<close>, \<open>_fit_ir_table\<close>,
  \<open>_compact_ir_context\<close>).  The XML becomes a JSON table with one row per field, and a table that does not fit
  the budget loses messages and rows from its middle.  \<open>xml.etree\<close>'s parser is a parameter, \<open>None\<close> for
  the exceptions the code handles; \<open>json.loads\<close> of the encoded table gives the table.
\<close>

section \<open>JSON\<close>

datatype cell =
    C_null
  | C_num nat
  | C_text string
  | C_list "cell list"
  | C_dict "(string \<times> cell) list"

definition low_hex :: "nat \<Rightarrow> char" where
  "low_hex n = ''0123456789abcdef'' ! n"

definition json_char :: "char \<Rightarrow> string" where
  "json_char c =
     (let n = code_of c in
      if n = 34 \<or> n = 92 then [CHR 0x5C, c]
      else if n = 10 then CHR 0x5C # ''n'' else if n = 13 then CHR 0x5C # ''r'' else if n = 9 then CHR 0x5C # ''t''
      else if n = 12 then CHR 0x5C # ''f'' else if n = 8 then CHR 0x5C # ''b''
      else if n < 32 then CHR 0x5C # ''u00'' @ [low_hex (n div 16), low_hex (n mod 16)]
      else [c])"

definition json_string :: "string \<Rightarrow> string" where
  "json_string s = CHR 0x22 # concat (map json_char s) @ [CHR 0x22]"

text \<open>\<open>json.dumps(..., ensure_ascii=False, separators=(',', ':'))\<close>\<close>

fun dumps :: "cell \<Rightarrow> string" where
  "dumps C_null = ''null''"
| "dumps (C_num n) = show_nat n"
| "dumps (C_text s) = json_string s"
| "dumps (C_list xs) = ''['' @ py_join '','' (map dumps xs) @ '']''"
| "dumps (C_dict es) = ''{'' @ py_join '','' (map (\<lambda>(k, v). json_string k @ '':'' @ dumps v) es) @ ''}''"

fun put :: "string \<Rightarrow> 'a \<Rightarrow> (string \<times> 'a) list \<Rightarrow> (string \<times> 'a) list" where
  "put k v [] = [(k, v)]"
| "put k v (e # a) = (if fst e = k then (k, v) # a else e # put k v a)"

section \<open>The table\<close>

definition preferred_columns :: "string list" where
  "preferred_columns = [''name'', ''type'', ''length'', ''value'']"

type_synonym row_source = "(string \<times> string) list"

definition words_of :: "string \<Rightarrow> string" where
  "words_of s = py_join '' '' (py_split s)"

definition add_note :: "string \<Rightarrow> row_source \<Rightarrow> row_source" where
  "add_note n field =
     (case map_of field ''note'' of
        Some (c # cs) \<Rightarrow> put ''note'' ((c # cs) @ '' '' @ n) field
      | _ \<Rightarrow> put ''note'' n field)"

text \<open>Notes of the message, its rows so far, and whether there is a note.\<close>

definition read_child :: "string list \<times> row_source list \<times> bool \<Rightarrow> node \<Rightarrow> string list \<times> row_source list \<times> bool" where
  "read_child st child =
     (case st of (message_note, rows, has_notes) \<Rightarrow>
        case child of
          Comment t _ \<Rightarrow>
            (let n = words_of t in
             if n = [] then st
             else if rows = [] then (message_note @ [n], rows, True)
             else (message_note, butlast rows @ [add_note n (last rows)], True))
        | Element tag a _ _ _ \<Rightarrow>
            if tag = ''field'' then (message_note, rows @ [a], has_notes \<or> ''note'' \<in> fst ` set a) else st
        | Instruction _ _ \<Rightarrow> st)"

definition read_message :: "node \<Rightarrow> string list \<times> row_source list \<times> bool" where
  "read_message m = foldl read_child ([], [], False) (node_children m)"

definition chosen_messages :: "node \<Rightarrow> string option \<Rightarrow> node list" where
  "chosen_messages ir name =
     (let ms = (if has_tag ''message'' ir then [ir]
                else if has_tag ''ir'' ir
                  then map (\<lambda>p. node_at p ir) (filter (\<lambda>p. has_tag ''message'' (node_at p ir)) (below_paths ir))
                else []);
          matching = filter (\<lambda>m. attr ''name'' m = name) ms
      in if name \<noteq> None \<and> name \<noteq> Some [] \<and> matching \<noteq> [] then matching else ms)"

definition table_columns :: "node list \<Rightarrow> string list" where
  "table_columns ms =
     (let rows = concat (map (\<lambda>m. filter (has_tag ''field'') (node_children m)) ms);
          extra = filter (\<lambda>k. k \<notin> set preferred_columns \<and> k \<noteq> ''note'') (concat (map (\<lambda>f. map fst (attribs f)) rows));
          noted = list_ex (\<lambda>m. snd (snd (read_message m))) ms
      in preferred_columns @ sort (remdups extra) @ (if noted then [''note''] else []))"

definition row_of :: "string list \<Rightarrow> row_source \<Rightarrow> cell list" where
  "row_of columns field = map (\<lambda>k. case map_of field k of None \<Rightarrow> C_null | Some v \<Rightarrow> C_text v) columns"

definition text_dict :: "(string \<times> string) list \<Rightarrow> cell" where
  "text_dict a = C_dict (map (\<lambda>(k, v). (k, C_text v)) a)"

definition message_entry :: "string list \<Rightarrow> node \<Rightarrow> (string \<times> cell) list" where
  "message_entry columns m =
     (let (notes, rows, _) = read_message m; others = filter (\<lambda>e. fst e \<noteq> ''name'') (attribs m) in
      (''name'', C_text (case attr ''name'' m of None \<Rightarrow> [] | Some n \<Rightarrow> n))
      # (if others = [] then [] else [(''attributes'', text_dict others)])
      @ (if notes = [] then [] else [(''note'', C_text (py_join '' '' notes))])
      @ [(''fields'', C_list (map (\<lambda>f. C_list (row_of columns f)) rows))])"

definition field_table :: "node \<Rightarrow> string option \<Rightarrow> (string \<times> cell) list option" where
  "field_table ir name =
     (let ms = chosen_messages ir name; columns = table_columns ms in
      if ms = [] then None
      else Some ([(''columns'', C_list (map C_text columns)),
                  (''messages'', C_list (map (\<lambda>m. C_dict (message_entry columns m)) ms))]
                 @ (if has_tag ''ir'' ir \<and> attribs ir \<noteq> [] then [(''ir_attributes'', text_dict (attribs ir))] else [])))"

definition parsed_table :: "(string \<Rightarrow> node option) \<Rightarrow> string \<Rightarrow> string option \<Rightarrow> (string \<times> cell) list option" where
  "parsed_table et source name = (case et source of None \<Rightarrow> None | Some ir \<Rightarrow> field_table ir name)"

definition xml_ir_to_field_table :: "(string \<Rightarrow> node option) \<Rightarrow> string \<Rightarrow> string option \<Rightarrow> string" where
  "xml_ir_to_field_table et source name =
     (case parsed_table et source name of None \<Rightarrow> source | Some t \<Rightarrow> dumps (C_dict t))"

section \<open>Fitting a table\<close>

definition cut_marker :: string where
  "cut_marker = ''[... truncated ...]''"

fun shorten :: "nat \<Rightarrow> cell \<Rightarrow> cell" where
  "shorten limit (C_text s) =
     (if limit < length s
      then let retained = max 2 (limit - length cut_marker); h = retained * 2 div 3
           in C_text (take h s @ cut_marker @ last_n (retained - h) s)
      else C_text s)"
| "shorten limit (C_list xs) = C_list (map (shorten limit) xs)"
| "shorten limit (C_dict es) = C_dict (map (\<lambda>(k, v). (k, shorten limit v)) es)"
| "shorten limit c = c"

text \<open>Places from both ends towards the middle; \<open>r\<close> is one past the right end.\<close>

function outside_in :: "nat \<Rightarrow> nat \<Rightarrow> nat list" where
  "outside_in l r =
     (if l < r then l # (if l \<noteq> r - 1 then [r - 1] else []) @ outside_in (Suc l) (r - 1) else [])"
  by pat_completeness auto
termination by (relation "measure (\<lambda>(l, r). r - l)") auto

declare outside_in.simps [simp del]

type_synonym 'a kept = "(nat \<times> 'a) list"

definition keep_at :: "nat \<Rightarrow> 'a \<Rightarrow> 'a kept \<Rightarrow> 'a kept" where
  "keep_at i x kept = insort_key fst (i, x) kept"

definition message_with :: "(string \<times> cell) list \<Rightarrow> nat \<Rightarrow> cell kept \<Rightarrow> cell" where
  "message_with trimmed count kept =
     C_dict (put ''omitted_fields'' (C_num (count - length kept)) (put ''fields'' (C_list (map snd kept)) trimmed))"

definition table_with :: "(string \<times> cell) list \<Rightarrow> nat \<Rightarrow> cell list \<Rightarrow> cell" where
  "table_with base omitted ms = C_dict (put ''omitted_messages'' (C_num omitted) (put ''messages'' (C_list ms) base))"

definition fits :: "nat \<Rightarrow> cell \<Rightarrow> bool" where
  "fits max_chars t \<longleftrightarrow> length (dumps t) \<le> max_chars"

text \<open>The field, or else its short form, if the table of this one message still fits.\<close>

definition fit_field ::
  "nat \<Rightarrow> (string \<times> cell) list \<Rightarrow> nat \<Rightarrow> (string \<times> cell) list \<Rightarrow> cell list \<Rightarrow> cell kept \<Rightarrow> nat \<Rightarrow> cell kept" where
  "fit_field max_chars base count trimmed rows kept i =
     (let ok = (\<lambda>c. fits max_chars (table_with base (count - 1) [message_with trimmed (length rows) c]));
          whole = keep_at i (rows ! i) kept; short = keep_at i (shorten 128 (rows ! i)) kept
      in if ok whole then whole else if ok short then short else kept)"

definition entry :: "(string \<times> cell) list \<Rightarrow> string \<Rightarrow> cell" where
  "entry d k = (case map_of d k of None \<Rightarrow> C_list [] | Some v \<Rightarrow> v)"

definition fit_fields :: "nat \<Rightarrow> (string \<times> cell) list \<Rightarrow> nat \<Rightarrow> (string \<times> cell) list \<Rightarrow> cell" where
  "fit_fields max_chars base count message =
     (case entry message ''fields'' of
        C_list rows \<Rightarrow>
          (let trimmed = filter (\<lambda>e. fst e \<noteq> ''fields'') message
           in message_with trimmed (length rows)
                (foldl (fit_field max_chars base count trimmed rows) [] (outside_in 0 (length rows))))
      | _ \<Rightarrow> C_dict message)"

definition fit_message :: "nat \<Rightarrow> (string \<times> cell) list \<Rightarrow> cell list \<Rightarrow> cell kept \<Rightarrow> nat \<Rightarrow> cell kept" where
  "fit_message max_chars base ms selected i =
     (case ms ! i of
        C_dict message \<Rightarrow>
          (let candidate = keep_at i (fit_fields max_chars base (length ms) message) selected
           in if fits max_chars (table_with base (length ms - length candidate) (map snd candidate)) then candidate else selected)
      | _ \<Rightarrow> selected)"

definition fit_messages :: "nat \<Rightarrow> (string \<times> cell) list \<Rightarrow> cell list \<Rightarrow> cell kept" where
  "fit_messages max_chars base ms = foldl (fit_message max_chars base ms) [] (outside_in 0 (length ms))"

definition shortened :: "(string \<times> cell) list \<Rightarrow> (string \<times> cell) list" where
  "shortened t = map (\<lambda>(k, v). (k, shorten 512 v)) t"

definition table_base :: "(string \<times> cell) list \<Rightarrow> (string \<times> cell) list" where
  "table_base t = filter (\<lambda>e. fst e \<noteq> ''messages'') t"

definition fit_ir_table :: "(string \<times> cell) list \<Rightarrow> nat \<Rightarrow> string" where
  "fit_ir_table t max_chars =
     (let t = shortened t; encoded = dumps (C_dict t) in
      if length encoded \<le> max_chars then encoded
      else case entry t ''messages'' of
        C_list ms \<Rightarrow>
          (let base = table_base t; selected = fit_messages max_chars base ms
           in dumps (table_with base (length ms - length selected) (map snd selected)))
      | _ \<Rightarrow> compact_context (int max_chars) (Some encoded))"

definition compact_ir_context ::
  "(string \<Rightarrow> node option) \<Rightarrow> int \<Rightarrow> string option \<Rightarrow> string option \<Rightarrow> string" where
  "compact_ir_context et limit value name =
     (let source = (case value of None \<Rightarrow> [] | Some s \<Rightarrow> s); compact = xml_ir_to_field_table et source name;
          m = context_limit limit
      in if compact = source then compact_context limit (Some source)
         else if length compact \<le> m then compact
         else case parsed_table et source name of
           Some t \<Rightarrow> fit_ir_table t m
         | None \<Rightarrow> source)"

section \<open>Nothing of a field is lost in the table\<close>

lemma map_of_put: "map_of (put k v a) j = (if j = k then Some v else map_of a j)"
  by (induction a) auto

lemma map_of_add_note: "k \<noteq> ''note'' \<Longrightarrow> map_of (add_note n f) k = map_of f k"
  by (auto simp: add_note_def map_of_put split: option.splits list.splits)

text \<open>Rows agree with attributes except for the notes.\<close>

definition same_but_note :: "row_source \<Rightarrow> row_source \<Rightarrow> bool" where
  "same_but_note f g \<longleftrightarrow> (\<forall>k. k \<noteq> ''note'' \<longrightarrow> map_of f k = map_of g k)"

lemma same_refl [simp]: "same_but_note f f"
  by (simp add: same_but_note_def)

lemma same_trans: "same_but_note f g \<Longrightarrow> same_but_note g h \<Longrightarrow> same_but_note f h"
  by (simp add: same_but_note_def)

lemma all_same_refl [simp]: "list_all2 same_but_note fs fs"
  by (simp add: list_all2_refl)

lemma all_same_trans:
  "list_all2 same_but_note fs gs \<Longrightarrow> list_all2 same_but_note gs hs \<Longrightarrow> list_all2 same_but_note fs hs"
  by (rule list_all2_trans[OF same_trans])

lemma read_child_rows:
  "list_all2 same_but_note (fst (snd (read_child (ns, rows, h) c))) (rows @ map attribs (filter (has_tag ''field'') [c]))"
proof (cases c)
  case (Comment t y)
  have "list_all2 same_but_note (butlast rows @ [add_note n (last rows)]) rows" if "rows \<noteq> []" for n
  proof -
    have "list_all2 same_but_note (butlast rows @ [add_note n (last rows)]) (butlast rows @ [last rows])"
      by (rule list_all2_appendI) (simp_all add: same_but_note_def map_of_add_note)
    with that show ?thesis by simp
  qed
  then show ?thesis by (simp add: read_child_def Comment Let_def)
qed (simp_all add: read_child_def)

lemma read_children_rows:
  "list_all2 same_but_note (fst (snd (foldl read_child (ns, rows, h) cs)))
     (rows @ map attribs (filter (has_tag ''field'') cs))"
proof (induction cs arbitrary: ns rows h)
  case (Cons c cs)
  obtain n1 r1 h1 where step: "read_child (ns, rows, h) c = (n1, r1, h1)" by (cases "read_child (ns, rows, h) c") auto
  have "list_all2 same_but_note (r1 @ map attribs (filter (has_tag ''field'') cs))
      ((rows @ map attribs (filter (has_tag ''field'') [c])) @ map attribs (filter (has_tag ''field'') cs))"
    using read_child_rows[of ns rows h c] by (intro list_all2_appendI) (simp_all add: step)
  from all_same_trans[OF Cons.IH[of n1 r1 h1] this] have "list_all2 same_but_note (fst (snd (foldl read_child (n1, r1, h1) cs)))
      ((rows @ map attribs (filter (has_tag ''field'') [c])) @ map attribs (filter (has_tag ''field'') cs))"
    .
  then show ?case by (simp add: step split: if_splits)
qed simp

lemma read_message_rows:
  "list_all2 same_but_note (fst (snd (read_message m))) (map attribs (filter (has_tag ''field'') (node_children m)))"
  using read_children_rows[of "[]" "[]" False "node_children m"] by (simp add: read_message_def)

lemma row_has: "k \<in> set columns \<Longrightarrow> map_of f k = Some v \<Longrightarrow> map_of (zip columns (row_of columns f)) k = Some (C_text v)"
  by (simp add: row_of_def map_of_zip_map)

lemma column_of:
  assumes "m \<in> set ms" "f \<in> set (node_children m)" "has_tag ''field'' f" "map_of (attribs f) k = Some v" "k \<noteq> ''note''"
  shows "k \<in> set (table_columns ms)"
proof -
  have "k \<in> fst ` set (attribs f)" using assms(4) by (metis map_of_eq_None_iff option.distinct(1))
  with assms show ?thesis by (auto simp: table_columns_def Let_def)
qed

text \<open>The record of the message \<open>m\<close> has every attribute of the message and of its fields.\<close>

definition tells :: "string list \<Rightarrow> node \<Rightarrow> (string \<times> cell) list \<Rightarrow> bool" where
  "tells columns m d \<longleftrightarrow>
     (\<forall>n. attr ''name'' m = Some n \<longrightarrow> map_of d ''name'' = Some (C_text n)) \<and>
     (\<forall>k v. k \<noteq> ''name'' \<longrightarrow> attr k m = Some v \<longrightarrow>
        (\<exists>es. map_of d ''attributes'' = Some (C_dict es) \<and> map_of es k = Some (C_text v))) \<and>
     (\<exists>rows. map_of d ''fields'' = Some (C_list (map C_list rows)) \<and>
        list_all2 (\<lambda>row f. \<forall>k v. k \<noteq> ''note'' \<longrightarrow> attr k f = Some v \<longrightarrow> map_of (zip columns row) k = Some (C_text v))
          rows (filter (has_tag ''field'') (node_children m)))"

lemma map_of_texts: "map_of (map (\<lambda>(k, v). (k, C_text v)) a) k = map_option C_text (map_of a k)"
  by (induction a) auto

lemma map_of_others: "k \<noteq> j \<Longrightarrow> map_of (filter (\<lambda>e. fst e \<noteq> j) a) k = map_of a k"
  by (induction a) auto

lemma message_entry_tells:
  assumes "m \<in> set ms"
  shows "tells (table_columns ms) m (message_entry (table_columns ms) m)"
proof -
  obtain ns rows h where r: "read_message m = (ns, rows, h)" by (cases "read_message m") auto
  let ?d = "message_entry (table_columns ms) m" and ?fs = "filter (has_tag ''field'') (node_children m)"
  let ?rows = "map (row_of (table_columns ms)) rows" and ?others = "filter (\<lambda>e. fst e \<noteq> ''name'') (attribs m)"
  have "map_of ?d ''fields'' = Some (C_list (map C_list ?rows))"
    by (simp add: message_entry_def r comp_def Let_def)
  moreover have "list_all2 (\<lambda>row f. \<forall>k v. k \<noteq> ''note'' \<longrightarrow> attr k f = Some v \<longrightarrow>
      map_of (zip (table_columns ms) row) k = Some (C_text v)) ?rows ?fs"
  proof -
    have len: "length rows = length ?fs" using read_message_rows[of m] by (auto simp: r dest: list_all2_lengthD)
    show ?thesis
    proof (rule list_all2_all_nthI)
      fix i assume i: "i < length ?rows"
      have same: "same_but_note (rows ! i) (attribs (?fs ! i))"
        using read_message_rows[of m] i len by (simp add: r list_all2_conv_all_nth)
      have f: "?fs ! i \<in> set ?fs" using i len by (metis length_map nth_mem)
      show "\<forall>k v. k \<noteq> ''note'' \<longrightarrow> attr k (?fs ! i) = Some v \<longrightarrow>
          map_of (zip (table_columns ms) (?rows ! i)) k = Some (C_text v)"
      proof (intro allI impI)
        fix k v assume k: "k \<noteq> ''note''" "attr k (?fs ! i) = Some v"
        then have "k \<in> set (table_columns ms)" using column_of[OF assms, of "?fs ! i" k v] f by (simp add: attr_def)
        moreover have "map_of (rows ! i) k = Some v" using same k by (simp add: same_but_note_def attr_def)
        ultimately show "map_of (zip (table_columns ms) (?rows ! i)) k = Some (C_text v)" using i row_has by simp
      qed
    qed (simp add: len)
  qed
  moreover have "attr ''name'' m = Some n \<Longrightarrow> map_of ?d ''name'' = Some (C_text n)" for n
    by (simp add: message_entry_def r Let_def)
  moreover have "\<exists>es. map_of ?d ''attributes'' = Some (C_dict es) \<and> map_of es k = Some (C_text v)"
    if "k \<noteq> ''name''" "attr k m = Some v" for k v
  proof -
    have k: "map_of ?others k = Some v" using that by (simp add: map_of_others attr_def)
    then have "?others \<noteq> []" by (metis map_of.simps(1) option.distinct(1))
    then show ?thesis using k by (simp add: message_entry_def r text_dict_def map_of_texts Let_def)
  qed
  ultimately show ?thesis unfolding tells_def by blast
qed


section \<open>What fitting keeps\<close>

lemma set_outside_in: "set (outside_in l r) = {l..<r}"
proof (induction l r rule: outside_in.induct)
  case (1 l r)
  show ?case
  proof (cases "l < r")
    case True
    then have "{l..<r} = insert l ({Suc l..<r - 1} \<union> (if l \<noteq> r - 1 then {r - 1} else {}))" by auto
    with 1 True show ?thesis by (subst outside_in.simps) auto
  qed (subst outside_in.simps, simp)
qed

lemma distinct_outside_in: "distinct (outside_in l r)"
proof (induction l r rule: outside_in.induct)
  case (1 l r)
  then show ?case by (subst outside_in.simps) (auto simp: set_outside_in)
qed

text \<open>Kept items are in the order of their places, each place once, and satisfy \<open>P\<close>.\<close>

definition kept_ok :: "(nat \<Rightarrow> 'a \<Rightarrow> bool) \<Rightarrow> nat \<Rightarrow> 'a kept \<Rightarrow> bool" where
  "kept_ok P n kept \<longleftrightarrow> sorted (map fst kept) \<and> distinct (map fst kept) \<and> (\<forall>(i, x) \<in> set kept. i < n \<and> P i x)"

lemma kept_ok_keep:
  "kept_ok P n kept \<Longrightarrow> i \<notin> fst ` set kept \<Longrightarrow> i < n \<Longrightarrow> P i x \<Longrightarrow> kept_ok P n (keep_at i x kept)"
proof -
  assume a: "kept_ok P n kept" "i \<notin> fst ` set kept" "i < n" "P i x"
  have "sorted (map fst (keep_at i x kept))" using a(1) by (simp add: kept_ok_def keep_at_def sorted_insort_key)
  moreover have "distinct (map fst (keep_at i x kept))"
    using a(1,2) by (simp add: kept_ok_def keep_at_def distinct_insort_key)
  ultimately show ?thesis using a by (auto simp: kept_ok_def keep_at_def set_insort_key)
qed

lemma keep_at_places: "fst ` set (keep_at i x kept) = insert i (fst ` set kept)"
  by (simp add: keep_at_def set_insort_key)

lemma fold_kept:
  assumes step: "\<And>kept i. step kept i = kept \<or> (\<exists>x. P i x \<and> step kept i = keep_at i x kept)"
  shows "kept_ok P n (foldl step [] (outside_in 0 n))"
proof -
  have "kept_ok P n (foldl step kept is)"
    if "distinct is" "set is \<subseteq> {..<n}" "set is \<inter> fst ` set kept = {}" "kept_ok P n kept" for "is" kept
    using that
  proof (induction "is" arbitrary: kept)
    case (Cons i "is")
    from step[of kept i] show ?case
    proof
      assume "step kept i = kept"
      with Cons show ?thesis by simp
    next
      assume "\<exists>x. P i x \<and> step kept i = keep_at i x kept"
      then obtain x where x: "P i x" "step kept i = keep_at i x kept" by blast
      with Cons.prems have "kept_ok P n (keep_at i x kept)" by (intro kept_ok_keep) auto
      with Cons x(2) show ?thesis by (simp add: keep_at_places)
    qed
  qed simp
  moreover have "kept_ok P n []" by (simp add: kept_ok_def)
  ultimately show ?thesis by (simp add: distinct_outside_in set_outside_in atLeast0LessThan)
qed

text \<open>A message with some of its rows, whole or in their short form, and the number of the others.\<close>

definition fitted :: "cell list \<Rightarrow> nat \<Rightarrow> cell \<Rightarrow> bool" where
  "fitted ms i c \<longleftrightarrow>
     (\<exists>message. ms ! i = C_dict message \<and>
        (c = C_dict message \<or>
         (\<exists>rows kept. entry message ''fields'' = C_list rows \<and>
            kept_ok (\<lambda>j x. x = rows ! j \<or> x = shorten 128 (rows ! j)) (length rows) kept \<and>
            c = message_with (filter (\<lambda>e. fst e \<noteq> ''fields'') message) (length rows) kept)))"

lemma fit_fields_fitted: "ms ! i = C_dict message \<Longrightarrow> fitted ms i (fit_fields m base n message)"
proof -
  assume ms: "ms ! i = C_dict message"
  show ?thesis
  proof (cases "\<exists>rows. entry message ''fields'' = C_list rows")
    case True
    then obtain rows where rows: "entry message ''fields'' = C_list rows" by blast
    let ?step = "fit_field m base n (filter (\<lambda>e. fst e \<noteq> ''fields'') message) rows"
    have "kept_ok (\<lambda>j x. x = rows ! j \<or> x = shorten 128 (rows ! j)) (length rows) (foldl ?step [] (outside_in 0 (length rows)))"
      by (rule fold_kept) (auto simp: fit_field_def Let_def)
    then show ?thesis using ms rows by (auto simp: fitted_def fit_fields_def Let_def)
  next
    case False
    then have "fit_fields m base n message = C_dict message"
      by (auto simp: fit_fields_def split: cell.splits)
    then show ?thesis using ms by (simp add: fitted_def)
  qed
qed

lemma fit_messages_ok: "kept_ok (fitted ms) (length ms) (fit_messages m base ms)"
  unfolding fit_messages_def
  by (rule fold_kept) (auto simp: fit_message_def Let_def intro: fit_fields_fitted split: cell.splits)

lemma fit_messages_fit:
  "fit_messages m base ms = [] \<or>
   fits m (table_with base (length ms - length (fit_messages m base ms)) (map snd (fit_messages m base ms)))"
proof -
  let ?ok = "\<lambda>kept. kept = [] \<or> fits m (table_with base (length ms - length kept) (map snd kept))"
  have "?ok (foldl (fit_message m base ms) kept is)" if "?ok kept" for kept "is"
    using that
  proof (induction "is" arbitrary: kept)
    case (Cons i "is")
    have "?ok (fit_message m base ms kept i)"
      using Cons.prems by (auto simp: fit_message_def Let_def split: cell.splits)
    with Cons.IH show ?case by simp
  qed simp
  then show ?thesis by (simp add: fit_messages_def)
qed

text \<open>
  C39. A table over the budget gives way to a table that keeps messages of it in their order, each with rows of its
  own in their order, whole or shortened, and says how many are omitted.  It is within the budget unless no
  message is kept.
\<close>

theorem ir_table_fitted:
  assumes "m < length (dumps (C_dict (shortened t)))" and "entry (shortened t) ''messages'' = C_list ms"
  shows "\<exists>kept. fit_ir_table t m = dumps (table_with (table_base (shortened t)) (length ms - length kept) (map snd kept)) \<and>
           kept_ok (fitted ms) (length ms) kept \<and> (kept = [] \<or> length (fit_ir_table t m) \<le> m)"
proof -
  have run: "fit_ir_table t m =
      (let kept = fit_messages m (table_base (shortened t)) ms
       in dumps (table_with (table_base (shortened t)) (length ms - length kept) (map snd kept)))"
    using assms by (simp add: fit_ir_table_def Let_def not_le)
  from fit_messages_fit[of m "table_base (shortened t)" ms] fit_messages_ok[of ms m "table_base (shortened t)"]
  show ?thesis unfolding run Let_def fits_def by blast
qed


definition long_table :: "(string \<times> cell) list" where
  "long_table = [(''messages'', C_list
     [C_dict [(''fields'', C_list [C_text ''0123456789012345678901234567890123456789''])],
      C_dict [(''fields'', C_list [C_text ''b''])]])]"

theorem ir_table_fitted_witness:
  "fit_ir_table long_table 75 \<noteq> dumps (C_dict long_table) \<and>
     (\<exists>kept :: cell kept. fit_ir_table long_table 75 = dumps (table_with [] (2 - length kept) (map snd kept)) \<and>
             (kept = [] \<or> length (fit_ir_table long_table 75) \<le> 75))"
proof -
  have s: "shortened long_table = long_table" "table_base long_table = []" by code_simp+
  have long: "75 < length (dumps (C_dict (shortened long_table)))" unfolding s by code_simp
  obtain ms where ms: "entry (shortened long_table) ''messages'' = C_list ms" "length ms = 2"
    unfolding s by (simp add: long_table_def entry_def)
  have "fit_ir_table long_table 75 \<noteq> dumps (C_dict long_table)" by code_simp
  then show ?thesis using ir_table_fitted[OF long ms(1)] unfolding s ms(2) by blast
qed

end
