(* ===== verification/Llm_Requests.thy ===== *)
theory Llm_Requests imports Llm_Chat Ir_Context begin

text \<open>
  What the other components ask of the language model (\<open>voltron/llm/chatter.py\<close>: the \<open>llm_*\<close> methods,
  \<open>_source_delta_context\<close>, \<open>_apply_python_delta\<close> and the three \<open>*_extract\<close> methods): a template is filled
  with bounded context, the chat runs under the contract of its usage, and the answer is validated again under the
  contract of the caller or applied to the source it changes.
\<close>

section \<open>Templates\<close>

text \<open>\<open>string.Template.substitute\<close>\<close>

definition is_ident_start :: "char \<Rightarrow> bool" where
  "is_ident_start c \<longleftrightarrow> c = CHR ''_'' \<or> (97 \<le> code_of (lower_c c) \<and> code_of (lower_c c) \<le> 122)"

definition is_ident_c :: "char \<Rightarrow> bool" where
  "is_ident_c c \<longleftrightarrow> is_ident_start c \<or> is_digit_c c"

datatype piece_kind = Verbatim char | Placeholder string | Malformed

text \<open>The piece at the start of a text and how many characters it takes.\<close>

definition template_piece :: "char \<Rightarrow> string \<Rightarrow> piece_kind \<times> nat" where
  "template_piece c cs =
     (if c \<noteq> CHR ''$'' then (Verbatim c, 0)
      else case cs of
        [] \<Rightarrow> (Malformed, 0)
      | d # ds \<Rightarrow>
          if d = CHR ''$'' then (Verbatim d, 1)
          else if is_ident_start d then (Placeholder (takeWhile is_ident_c cs), length (takeWhile is_ident_c cs))
          else if d = CHR ''{'' then
            (let name = takeWhile is_ident_c ds in
             if name \<noteq> [] \<and> is_ident_start (hd name) \<and> drop (length name) ds \<noteq> [] \<and> ds ! length name = CHR ''}''
             then (Placeholder name, length name + 2) else (Malformed, 0))
          else (Malformed, 0))"

function substitute :: "string \<Rightarrow> (string \<times> string) list \<Rightarrow> string + string" where
  "substitute [] values = Inr []"
| "substitute (c # cs) values =
     (let (p, n) = template_piece c cs in
      case p of
        Malformed \<Rightarrow> Inl ''ValueError''
      | Verbatim d \<Rightarrow> rbind (substitute (drop n cs) values) (\<lambda>r. Inr (d # r))
      | Placeholder name \<Rightarrow>
          (case map_of values name of
             None \<Rightarrow> Inl ''KeyError''
           | Some v \<Rightarrow> rbind (substitute (drop n cs) values) (\<lambda>r. Inr (v @ r))))"
  by pat_completeness auto
termination by (relation "measure (\<lambda>(t, _). length t)") auto

declare substitute.simps(2) [simp del]

section \<open>Bytes in a prompt\<close>

definition hex_of_byte :: "byte \<Rightarrow> string" where
  "hex_of_byte b = [low_hex (unat b div 16), low_hex (unat b mod 16)]"

text \<open>\<open>repr\<close> of bytes, and \<open>bytes.hex(' ')\<close>.\<close>

definition repr_byte :: "nat \<Rightarrow> byte \<Rightarrow> string" where
  "repr_byte quote b =
     (let n = unat b in
      if n = quote \<or> n = 92 then [CHR 0x5C, char_of n]
      else if n = 9 then CHR 0x5C # ''t'' else if n = 10 then CHR 0x5C # ''n'' else if n = 13 then CHR 0x5C # ''r''
      else if n < 32 \<or> 127 \<le> n then CHR 0x5C # ''x'' @ hex_of_byte b
      else [char_of n])"

definition bytes_repr :: "bytes \<Rightarrow> string" where
  "bytes_repr bs =
     (let quote = (if (39 :: byte) \<in> set bs \<and> (34 :: byte) \<notin> set bs then 34 else 39) in
      ''b'' @ [char_of quote] @ concat (map (repr_byte quote) bs) @ [char_of quote])"

definition bytes_hex :: "bytes \<Rightarrow> string" where
  "bytes_hex bs = py_join '' '' (map hex_of_byte bs)"

section \<open>Asking\<close>

record 'w chater =
  ct_env :: "'w chat_env"
  ct_parsers :: parsers
  ct_sha :: "string \<Rightarrow> string"
  ct_lxml :: lxml
  ct_et :: "string \<Rightarrow> node option"
  ct_templates :: "string \<Rightarrow> string"
  ct_context_chars :: int

datatype request_error =
    Template_error string
  | Chat_failed chat_error
  | Refused llm_error
  | Delta_refused delta_error
  | Candidate_refused string string

type_synonym ('w, 'a) asked = "'w chat \<Rightarrow> (request_error + 'a) \<times> 'w chat"

text \<open>The prompt and the answer.\<close>

definition ask :: "'w chater \<Rightarrow> string \<Rightarrow> (string \<times> string) list \<Rightarrow> string \<Rightarrow> ('w, string \<times> string) asked" where
  "ask c template values usage s =
     (case substitute (ct_templates c template) values of
        Inl e \<Rightarrow> (Inl (Template_error e), s)
      | Inr prompt \<Rightarrow>
          (case chat_llm (ct_env c) (ct_parsers c) prompt usage s of
             (Inl e, s) \<Rightarrow> (Inl (Chat_failed e), s)
           | (Inr answer, s) \<Rightarrow> (Inr (prompt, answer), s)))"

definition then_do :: "('w, 'a) asked \<Rightarrow> ('a \<Rightarrow> request_error + 'b) \<Rightarrow> ('w, 'b) asked" where
  "then_do m f s = (let (r, s) = m s in (rbind r f, s))"

definition limited :: "'w chater \<Rightarrow> string \<Rightarrow> string" where
  "limited c v = compact_context (ct_context_chars c) (Some v)"

definition limited_ir :: "'w chater \<Rightarrow> string \<Rightarrow> string option \<Rightarrow> string" where
  "limited_ir c v name = compact_ir_context (ct_et c) (ct_context_chars c) (Some v) name"

definition source_delta_context :: "'w chater \<Rightarrow> string \<Rightarrow> string \<times> string" where
  "source_delta_context c source =
     (ct_sha c source, numbered_source_context source (max 512 (ct_context_chars c)))"

section \<open>Using an answer\<close>

definition accepted_as :: "'w chater \<Rightarrow> contract \<Rightarrow> string \<Rightarrow> request_error + validated" where
  "accepted_as c k answer =
     (case validate_response (ct_parsers c) (Content answer) k of Inl e \<Rightarrow> Inl (Refused e) | Inr v \<Rightarrow> Inr v)"

definition normalized_by :: "'w chater \<Rightarrow> contract \<Rightarrow> string \<Rightarrow> request_error + string" where
  "normalized_by c k answer = rbind (accepted_as c k answer) (\<lambda>v. Inr (v_normalized v))"

definition code_extract :: "'w chater \<Rightarrow> string \<Rightarrow> string \<Rightarrow> request_error + string" where
  "code_extract c required = normalized_by c (python_contract required)"

definition json_extract :: "'w chater \<Rightarrow> string \<Rightarrow> string \<Rightarrow> request_error + string" where
  "json_extract c schema = normalized_by c (json_contract schema)"

definition xml_extract :: "'w chater \<Rightarrow> string \<Rightarrow> string \<Rightarrow> request_error + string" where
  "xml_extract c expected =
     normalized_by c ((contract_of K_xml)\<lparr>c_allowed_xml_roots := [''message'', ''ir''], c_expected_message := expected\<rparr>)"

definition unfenced :: "string \<Rightarrow> contract" where
  "unfenced required = (python_contract required)\<lparr>c_allow_markdown_fence := False\<rparr>"

text \<open>A validated delta is an object.\<close>

definition object_of :: "validated \<Rightarrow> (string \<times> json) list" where
  "object_of v = (case v_parsed v of A_json j \<Rightarrow> entries_of j | _ \<Rightarrow> [])"

definition apply_python_delta :: "'w chater \<Rightarrow> string \<Rightarrow> string \<Rightarrow> string \<Rightarrow> request_error + delta_result" where
  "apply_python_delta c source required answer =
     rbind (accepted_as c (contract_of K_source_delta) answer) (\<lambda>v.
       case apply_source_delta (ct_sha c) source (object_of v) of
         Inl e \<Rightarrow> Inl (Delta_refused e)
       | Inr evolved \<Rightarrow>
           if \<not> dr_changed evolved then Inr evolved
           else case validate_response (ct_parsers c) (Content (dr_source evolved)) (unfenced required) of
             Inr _ \<Rightarrow> Inr evolved
           | Inl (Invalid reason) \<Rightarrow> Inl (Candidate_refused reason (dr_source evolved))
           | Inl (Escapes e) \<Rightarrow> Inl (Refused (Escapes e)))"

section \<open>The requests\<close>

definition answer_only :: "string \<times> string \<Rightarrow> request_error + string" where
  "answer_only pa = Inr (snd pa)"

definition on_answer :: "(string \<Rightarrow> request_error + 'a) \<Rightarrow> string \<times> string \<Rightarrow> request_error + 'a" where
  "on_answer f pa = f (snd pa)"

definition with_prompt :: "(string \<Rightarrow> request_error + string) \<Rightarrow> string \<times> string \<Rightarrow> request_error + string \<times> string" where
  "with_prompt f pa = rbind (f (snd pa)) (\<lambda>t. Inr (fst pa, t))"

definition llm_doc_parse :: "'w chater \<Rightarrow> string \<Rightarrow> string \<Rightarrow> string \<Rightarrow> ('w, string) asked" where
  "llm_doc_parse c rfc_num pro_name rfc_doc =
     then_do (ask c ''doc_analyze''
       [(''rfc_num'', rfc_num), (''pro_name'', pro_name), (''rfc_doc'', limited c rfc_doc)] ''doc_parse'') answer_only"

definition llm_ir_generation :: "'w chater \<Rightarrow> string \<Rightarrow> string \<Rightarrow> string \<Rightarrow> string \<Rightarrow> ('w, string) asked" where
  "llm_ir_generation c pro_name message_name message_direction rfc_doc =
     then_do (ask c ''ir_generation''
       [(''pro_name'', pro_name), (''message_name'', message_name), (''message_direction'', message_direction),
        (''rfc_doc'', limited c rfc_doc)] ''ir_generation'')
       (on_answer (xml_extract c message_name))"

definition llm_ir_repair :: "'w chater \<Rightarrow> string \<Rightarrow> string \<Rightarrow> ('w, string) asked" where
  "llm_ir_repair c ir error =
     then_do (ask c ''ir_repair'' [(''ir'', limited_ir c ir None), (''error'', limited c error)] ''ir_repair'')
       (on_answer (xml_extract c []))"

text \<open>
  The empty text for a chat, a validation or a delta refused by its own kind of error; the chat's deadline and
  API errors pass.
\<close>

definition handled_by_ir_evolve :: "request_error \<Rightarrow> bool" where
  "handled_by_ir_evolve e \<longleftrightarrow>
     (case e of
        Chat_failed (Invalid_response _ _) \<Rightarrow> True
      | Refused (Invalid _) \<Rightarrow> True
      | Delta_refused (Delta _) \<Rightarrow> True
      | _ \<Rightarrow> False)"

definition use_ir_delta :: "'w chater \<Rightarrow> string \<Rightarrow> string \<Rightarrow> request_error + string" where
  "use_ir_delta c current_ir answer =
     rbind (accepted_as c (contract_of K_ir_delta) answer) (\<lambda>v.
       case apply_ir_delta (ct_lxml c) (ct_sha c) current_ir (object_of v) of
         Inl e \<Rightarrow> Inl (Delta_refused e)
       | Inr t \<Rightarrow> Inr t)"

definition llm_ir_evolve ::
  "'w chater \<Rightarrow> string \<Rightarrow> string \<Rightarrow> string \<Rightarrow> string \<Rightarrow> string \<Rightarrow> string \<Rightarrow> string \<Rightarrow> ('w, string) asked" where
  "llm_ir_evolve c pro_name direction msg_type current_ir type_rule section_context feedback s =
     (let (r, s) = then_do (ask c ''ir_evolve''
        [(''pro_name'', pro_name), (''direction'', direction), (''msg_type'', msg_type),
         (''base_sha256'', ct_sha c current_ir), (''current_ir'', limited_ir c current_ir (Some msg_type)),
         (''type_rule'', limited c type_rule), (''section_context'', limited c section_context),
         (''feedback'', limited c feedback)] ''ir_evolve'') (on_answer (use_ir_delta c current_ir)) s
      in case r of Inl e \<Rightarrow> (if handled_by_ir_evolve e then Inr [] else Inl e, s) | Inr t \<Rightarrow> (Inr t, s))"

definition llm_generator_gen ::
  "'w chater \<Rightarrow> string \<Rightarrow> string \<Rightarrow> string \<Rightarrow> string \<Rightarrow> string \<Rightarrow> string \<Rightarrow> ('w, string) asked" where
  "llm_generator_gen c pro_name field_name msg_type msg_ir info type_rule =
     then_do (ask c ''gen_generator''
       [(''pro_name'', pro_name), (''field_name'', field_name), (''msg_type'', msg_type),
        (''msg_ir'', limited_ir c msg_ir (Some msg_type)), (''info'', limited c info),
        (''type_rule'', limited c type_rule)] ''generator_gen'')
       (on_answer (code_extract c ''generate''))"

definition llm_code_repair :: "'w chater \<Rightarrow> string \<Rightarrow> string \<Rightarrow> string \<Rightarrow> ('w, string) asked" where
  "llm_code_repair c code error function_name =
     then_do (ask c ''code_repair''
       [(''code'', limited c code), (''error'', limited c error), (''function_name'', function_name)] ''code_repair'')
       (on_answer (code_extract c function_name))"

definition llm_generator_evolve ::
  "'w chater \<Rightarrow> string \<Rightarrow> string \<Rightarrow> string \<Rightarrow> string \<Rightarrow> string \<Rightarrow> string \<Rightarrow> string \<Rightarrow> string \<Rightarrow> ('w, delta_result) asked" where
  "llm_generator_evolve c pro_name field_name msg_type code msg_ir info trace related_code =
     (let (base_sha256, numbered_code) = source_delta_context c code in
      then_do (ask c ''generator_evolve''
        [(''pro_name'', pro_name), (''field_name'', field_name), (''msg_type'', msg_type), (''code'', numbered_code),
         (''base_sha256'', base_sha256), (''msg_ir'', limited_ir c msg_ir (Some msg_type)), (''info'', limited c info),
         (''trace'', limited c trace), (''related_code'', limited c related_code)] ''generator_evolve'')
        (on_answer (apply_python_delta c code ''generate'')))"

text \<open>A message of more than 100 bytes is cut to 99.\<close>

definition llm_parser_evolve :: "'w chater \<Rightarrow> string \<Rightarrow> string \<Rightarrow> string \<Rightarrow> bytes \<Rightarrow> ('w, delta_result) asked" where
  "llm_parser_evolve c pro_name res_info old_code message =
     (let message = (if 100 < length message then take 99 message else message);
          (base_sha256, numbered_code) = source_delta_context c old_code in
      then_do (ask c ''parser_evolve''
        [(''pro_name'', pro_name), (''res_info'', limited c res_info), (''original_code'', numbered_code),
         (''base_sha256'', base_sha256), (''message'', bytes_repr message)] ''parser_evolve'')
        (on_answer (apply_python_delta c old_code ''packet_parser'')))"

text \<open>The named arguments of \<open>llm_mutator_evolve\<close>.\<close>

record mutator_evidence =
  mu_pro_name :: string
  mu_field_name :: string
  mu_msg_type :: string
  mu_code :: string
  mu_msg_ir :: string
  mu_info :: string
  mu_poss_response :: string
  mu_trace :: string
  mu_missing_response :: string

definition llm_mutator_evolve :: "'w chater \<Rightarrow> mutator_evidence \<Rightarrow> ('w, string) asked" where
  "llm_mutator_evolve c m =
     then_do (ask c ''mutator_evolve''
       [(''pro_name'', mu_pro_name m), (''field_name'', mu_field_name m), (''msg_type'', mu_msg_type m),
        (''code'', limited c (mu_code m)), (''msg_ir'', limited_ir c (mu_msg_ir m) (Some (mu_msg_type m))),
        (''info'', limited c (mu_info m)), (''poss_response'', limited c (mu_poss_response m)),
        (''trace'', limited c (mu_trace m)), (''missing_response'', limited c (mu_missing_response m))] ''mutator_evolve'')
       (on_answer (normalized_by c (unfenced ''mutate'')))"

definition llm_parser_gen :: "'w chater \<Rightarrow> string \<Rightarrow> string \<Rightarrow> ('w, string) asked" where
  "llm_parser_gen c pro_name res_info =
     then_do (ask c ''gen_parser'' [(''pro_name'', pro_name), (''res_info'', limited c res_info)] ''parser_gen'')
       (on_answer (code_extract c ''packet_parser''))"

definition llm_checker_gen ::
  "'w chater \<Rightarrow> string \<Rightarrow> string \<Rightarrow> string \<Rightarrow> string \<Rightarrow> string \<Rightarrow> ('w, string) asked" where
  "llm_checker_gen c pro_name msg_ir res_info response_type type_rule =
     then_do (ask c ''gen_checker''
       [(''pro_name'', pro_name), (''msg_ir'', limited_ir c msg_ir (Some response_type)), (''res_info'', limited c res_info),
        (''response_type'', response_type), (''type_rule'', limited c type_rule)] ''checker_gen'')
       (on_answer (code_extract c ''packet_checker''))"

definition llm_observer_gen :: "'w chater \<Rightarrow> string \<Rightarrow> string \<Rightarrow> string \<Rightarrow> string \<Rightarrow> ('w, string) asked" where
  "llm_observer_gen c pro_name msg_ir res_info response_type =
     then_do (ask c ''gen_observer''
       [(''pro_name'', pro_name), (''msg_ir'', limited_ir c msg_ir (Some response_type)), (''res_info'', limited c res_info),
        (''response_type'', response_type)] ''observer_gen'')
       (on_answer (code_extract c ''packet_observer''))"

definition llm_observer_evolve ::
  "'w chater \<Rightarrow> string \<Rightarrow> string \<Rightarrow> string \<Rightarrow> string \<Rightarrow> string \<Rightarrow> ('w, delta_result) asked" where
  "llm_observer_evolve c pro_name response_type msg_ir original_code samples =
     (let (base_sha256, numbered_code) = source_delta_context c original_code in
      then_do (ask c ''observer_evolve''
        [(''pro_name'', pro_name), (''response_type'', response_type),
         (''msg_ir'', limited_ir c msg_ir (Some response_type)), (''original_code'', numbered_code),
         (''base_sha256'', base_sha256), (''samples'', limited c samples)] ''observer_evolve'')
        (on_answer (apply_python_delta c original_code ''packet_observer'')))"

definition llm_observer_semantic_compare ::
  "'w chater \<Rightarrow> string \<Rightarrow> string \<Rightarrow> string \<Rightarrow> bytes \<Rightarrow> bytes \<Rightarrow> ('w, string) asked" where
  "llm_observer_semantic_compare c pro_name response_type msg_ir old_response new_response =
     then_do (ask c ''observer_semantic_compare''
       [(''pro_name'', pro_name), (''response_type'', response_type),
        (''msg_ir'', limited_ir c msg_ir (Some response_type)), (''old_response'', bytes_repr old_response),
        (''new_response'', bytes_repr new_response)] ''observer_semantic_compare'')
       (on_answer (json_extract c ''observer_semantic_compare''))"

definition llm_checker_evolve ::
  "'w chater \<Rightarrow> string \<Rightarrow> string \<Rightarrow> string \<Rightarrow> bytes \<Rightarrow> string \<Rightarrow> ('w, delta_result) asked" where
  "llm_checker_evolve c pro_name response_type original_code response review_summary =
     (let (base_sha256, numbered_code) = source_delta_context c original_code in
      then_do (ask c ''checker_evolve''
        [(''pro_name'', pro_name), (''response_type'', response_type), (''original_code'', numbered_code),
         (''base_sha256'', base_sha256), (''response_repr'', bytes_repr response), (''response_hex'', bytes_hex response),
         (''review_summary'', limited c review_summary)] ''checker_evolve'')
        (on_answer (apply_python_delta c original_code ''packet_checker'')))"

definition llm_request_query :: "'w chater \<Rightarrow> string \<Rightarrow> string \<Rightarrow> string \<Rightarrow> ('w, string \<times> string) asked" where
  "llm_request_query c rfc_num pro_name rfc_doc =
     then_do (ask c ''req_query''
       [(''rfc_num'', rfc_num), (''pro_name'', pro_name), (''rfc_doc'', limited c rfc_doc)] ''req_query'')
       (with_prompt (json_extract c ''field_query''))"

definition llm_response_query :: "'w chater \<Rightarrow> string \<Rightarrow> string \<Rightarrow> string \<Rightarrow> ('w, string \<times> string) asked" where
  "llm_response_query c rfc_num pro_name rfc_doc =
     then_do (ask c ''res_query''
       [(''rfc_num'', rfc_num), (''pro_name'', pro_name), (''rfc_doc'', limited c rfc_doc)] ''res_query'')
       (with_prompt (json_extract c ''field_query''))"

definition llm_request_type_rules ::
  "'w chater \<Rightarrow> string \<Rightarrow> string \<Rightarrow> string \<Rightarrow> string \<Rightarrow> ('w, string \<times> string) asked" where
  "llm_request_type_rules c rfc_num pro_name field_info rfc_doc =
     then_do (ask c ''req_type_rules''
       [(''rfc_num'', rfc_num), (''pro_name'', pro_name), (''field_info'', limited c field_info),
        (''rfc_doc'', limited c rfc_doc)] ''req_type_rules'')
       (with_prompt (json_extract c ''request_type_rules''))"

definition llm_response_type_rules ::
  "'w chater \<Rightarrow> string \<Rightarrow> string \<Rightarrow> string \<Rightarrow> string \<Rightarrow> ('w, string \<times> string) asked" where
  "llm_response_type_rules c rfc_num pro_name field_info rfc_doc =
     then_do (ask c ''res_type_rules''
       [(''rfc_num'', rfc_num), (''pro_name'', pro_name), (''field_info'', limited c field_info),
        (''rfc_doc'', limited c rfc_doc)] ''res_type_rules'')
       (with_prompt (json_extract c ''response_type_rules''))"

text \<open>\<open>json.loads\<close> of the extracted text, which must be an object.\<close>

definition loaded_object :: "'w chater \<Rightarrow> string \<Rightarrow> request_error + (string \<times> json) list" where
  "loaded_object c t =
     (case json_loads (ct_parsers c) t of
        Parsed j \<Rightarrow> if is_dict j then Inr (entries_of j) else Inl (Refused (Escapes ''ValueError''))
      | Parse_error \<Rightarrow> Inl (Refused (Escapes ''JSONDecodeError''))
      | Parse_raises e \<Rightarrow> Inl (Refused (Escapes e)))"

definition llm_no_spec_type_bootstrap :: "'w chater \<Rightarrow> string \<Rightarrow> string \<Rightarrow> ('w, (string \<times> json) list) asked" where
  "llm_no_spec_type_bootstrap c pro_name transport =
     then_do (ask c ''no_spec_bootstrap'' [(''pro_name'', pro_name), (''transport'', transport)] ''no_spec_bootstrap'')
       (on_answer (\<lambda>answer. rbind (json_extract c [] answer) (loaded_object c)))"

definition llm_section_type_annotation ::
  "'w chater \<Rightarrow> string \<Rightarrow> string \<Rightarrow> string \<Rightarrow> string \<Rightarrow> string \<Rightarrow> string \<Rightarrow> string \<Rightarrow> ('w, string \<times> string) asked" where
  "llm_section_type_annotation c rfc_num pro_name request_types response_types content_type section_name section_content =
     then_do (ask c ''section_type_annotation''
       [(''rfc_num'', rfc_num), (''pro_name'', pro_name), (''request_types'', limited c request_types),
        (''response_types'', limited c response_types), (''content_type'', content_type),
        (''section_name'', section_name), (''section_content'', limited c section_content)] ''section_type_annotation'')
       (with_prompt (json_extract c ''section_type_annotation''))"

definition llm_possible_res :: "'w chater \<Rightarrow> string \<Rightarrow> string \<Rightarrow> string \<Rightarrow> string \<Rightarrow> ('w, string) asked" where
  "llm_possible_res c pro_name current_request response_types info =
     then_do (ask c ''possible_response''
       [(''pro_name'', pro_name), (''current_request'', current_request), (''response_types'', limited c response_types),
        (''info'', limited c info)] ''possible_res'')
       (on_answer (json_extract c ''possible_response''))"

definition llm_infer_dependency ::
  "'w chater \<Rightarrow> string \<Rightarrow> string \<Rightarrow> string \<Rightarrow> string \<Rightarrow> string \<Rightarrow> ('w, string) asked" where
  "llm_infer_dependency c pro_name last_request current_request response_types rfc_content =
     then_do (ask c ''infer_dependency''
       [(''pro_name'', pro_name), (''current_request'', current_request), (''last_request'', last_request),
        (''response_types'', limited c response_types), (''rfc_content'', limited c rfc_content)] ''infer_dependency'')
       (on_answer (json_extract c ''dependency''))"

section \<open>What a request may return\<close>

text \<open>A source that parses and defines the required function.\<close>

definition python_ok :: "parsers \<Rightarrow> string \<Rightarrow> string \<Rightarrow> bool" where
  "python_ok ps required source \<longleftrightarrow>
     (\<exists>names. ast_functions ps source = Parsed names \<and> (required \<noteq> [] \<longrightarrow> required \<in> set names)) \<and>
     \<not> contains_text backticks source \<and> length source \<le> 100000"

lemma unfenced_python:
  assumes "validate_response ps (Content source) (unfenced required) = Inr v"
  shows "python_ok ps required source"
proof -
  have k: "c_kind (unfenced required) = K_python" "\<not> c_allow_markdown_fence (unfenced required)"
    "c_required_function (unfenced required) = required" "c_max_chars (unfenced required) = 100000"
    by (simp_all add: unfenced_def python_contract_def contract_of_def base_contract_def)
  from assms have strip: "strip_complete_fence (unfenced required) source = Inr source"
    and art: "validate_artifact ps (unfenced required) source = Inr v" and len: "length source \<le> 100000"
    using k by (auto simp: validate_response_def strip_complete_fence_def split: if_splits option.splits)
  from strip k(2) have "\<not> contains_text backticks source"
    by (auto simp: strip_complete_fence_def split: option.splits if_splits)
  with art len k show ?thesis
    by (auto simp: python_ok_def validate_artifact_def validate_python_def from_parse_def split: parse.splits if_splits)
qed

lemma python_delta_safe:
  assumes "apply_python_delta c source required answer = Inr res"
  shows "if dr_changed res then dr_source res \<noteq> source \<and> python_ok (ct_parsers c) required (dr_source res)
         else dr_source res = source"
proof -
  from assms obtain v where v: "(case apply_source_delta (ct_sha c) source (object_of v) of
         Inl e \<Rightarrow> Inl (Delta_refused e)
       | Inr evolved \<Rightarrow>
           if \<not> dr_changed evolved then Inr evolved
           else case validate_response (ct_parsers c) (Content (dr_source evolved)) (unfenced required) of
             Inr _ \<Rightarrow> Inr evolved
           | Inl (Invalid reason) \<Rightarrow> Inl (Candidate_refused reason (dr_source evolved))
           | Inl (Escapes e) \<Rightarrow> Inl (Refused (Escapes e))) = Inr res" (is "?run = _")
    unfolding apply_python_delta_def rbind_eq_Inr by blast
  then obtain evolved where e: "apply_source_delta (ct_sha c) source (object_of v) = Inr evolved"
    by (cases "apply_source_delta (ct_sha c) source (object_of v)") auto
  have d: "apply_source_delta (ct_sha c) source (object_of v) = Inr res"
    "dr_changed res \<longrightarrow> (\<exists>v. validate_response (ct_parsers c) (Content (dr_source res)) (unfenced required) = Inr v)"
    using v by (auto simp: e split: sum.splits if_splits llm_error.splits)
  from apply_source_delta_cases[OF d(1)] d(2) show ?thesis by (auto dest: unfenced_python)
qed

lemma ask_outcome:
  assumes "ask c template values usage s = (r, s')"
  shows "\<exists>new. ch_events s' = ch_events s @ new \<and> requests_in new \<le> 50 \<and> slept_in new \<le> 25 \<and>
           (case r of
              Inr (prompt, answer) \<Rightarrow>
                substitute (ct_templates c template) values = Inr prompt \<and>
                chat_end (ct_parsers c) (response_contract_for_usage (ce_max_chars (ct_env c)) usage) new (Inr answer)
            | Inl _ \<Rightarrow> True)"
proof (cases "substitute (ct_templates c template) values")
  case (Inl e)
  with assms show ?thesis by (intro exI[of _ "[]"]) (auto simp: ask_def)
next
  case (Inr prompt)
  obtain x t where chat: "chat_llm (ct_env c) (ct_parsers c) prompt usage s = (x, t)"
    by (cases "chat_llm (ct_env c) (ct_parsers c) prompt usage s")
  from tries_outcome[OF chat[unfolded chat_llm_def]] Inr assms chat show ?thesis
    by (fastforce simp: ask_def split: sum.splits)
qed

text \<open>The last thing done was to record an answer that was found valid.\<close>

definition answered :: "'w chat \<Rightarrow> 'w chat \<Rightarrow> bool" where
  "answered s s' \<longleftrightarrow> (\<exists>pre call. ch_events s' = ch_events s @ pre @ [Used call] \<and> calls_in pre = [] \<and>
     lc_response_valid call = Some True \<and> requests_in pre \<le> 50 \<and> slept_in pre \<le> 25)"

lemma ask_answered:
  assumes "ask c template values usage s = (Inr (prompt, answer), s')"
  shows "answered s s' \<and> substitute (ct_templates c template) values = Inr prompt"
  using ask_outcome[OF assms] by (fastforce simp: answered_def chat_end_def)

lemma then_do_Inr:
  "then_do m f s = (Inr x, s') \<longleftrightarrow> (\<exists>a. m s = (Inr a, s') \<and> f a = Inr x)"
  by (cases "m s") (auto simp: then_do_def)

lemma evolve_safe:
  assumes "then_do (ask c template values usage) (on_answer (apply_python_delta c source required)) s = (Inr res, s')"
  shows "answered s s' \<and>
         (if dr_changed res then dr_source res \<noteq> source \<and> python_ok (ct_parsers c) required (dr_source res)
          else dr_source res = source)"
proof -
  from assms obtain prompt answer where "ask c template values usage s = (Inr (prompt, answer), s')"
    "apply_python_delta c source required answer = Inr res" by (auto simp: then_do_Inr on_answer_def)
  with ask_answered python_delta_safe show ?thesis by blast
qed

text \<open>
  C20. Each of the four requests that change a source returns, after one recorded valid answer, either that
  source unchanged or another one without a fence, of at most 100000 characters, which parses
  and defines the function its kind needs.
\<close>

theorem evolved_source_safe:
  assumes "(m, source, required) \<in>
      {(llm_generator_evolve c pro name typ source ir info trace related, source, ''generate''),
       (llm_parser_evolve c pro info source response, source, ''packet_parser''),
       (llm_observer_evolve c pro typ ir source samples, source, ''packet_observer''),
       (llm_checker_evolve c pro typ source response summary, source, ''packet_checker'')}"
    and "m s = (Inr res, s')"
  shows "answered s s' \<and>
         (if dr_changed res then dr_source res \<noteq> source \<and> python_ok (ct_parsers c) required (dr_source res)
          else dr_source res = source)"
  using assms
  by (auto simp: llm_generator_evolve_def llm_parser_evolve_def llm_observer_evolve_def llm_checker_evolve_def
      split_beta Let_def dest: evolve_safe split del: if_split)

text \<open>An instance: the model replaces the only line of a parser.\<close>

definition sample_env :: "unit chat_env" where
  "sample_env = \<lparr>ce_remaining = \<lambda>w. (None, w),
     ce_create = \<lambda>_ _ w. ((Completion (Some \<lparr>cp_usage = None, cp_choices = Some [(None, Content ''{}'')]\<rparr>), 1), w),
     ce_stop = \<lambda>w. w, ce_sleep = \<lambda>_ w. w, ce_now = \<lambda>_. 0, ce_writes = \<lambda>_. False, ce_model = [], ce_max_chars = None\<rparr>"

definition sample_patch :: json where
  "sample_patch = J_dict [(''base_sha256'', J_str (replicate 64 (CHR ''0''))),
     (''edits'', J_list [J_dict [(''start_line'', J_int 1), (''end_line'', J_int 1), (''replacement'', J_str ''b'')]])]"

definition sample_chater :: "unit chater" where
  "sample_chater = \<lparr>ct_env = sample_env,
     ct_parsers = \<lparr>json_loads = \<lambda>_. Parsed sample_patch, ast_functions = \<lambda>_. Parsed [''packet_parser''],
                   xml_fromstring = \<lambda>_. Parse_error\<rparr>,
     ct_sha = \<lambda>_. replicate 64 (CHR ''0''), ct_lxml = sample_lxml, ct_et = \<lambda>_. None, ct_templates = \<lambda>_. [],
     ct_context_chars = 512\<rparr>"

lemma sample_accepted:
  assumes "c_kind k = K_source_delta" "2 \<le> c_max_chars k"
  shows "validate_response (ct_parsers sample_chater) (Content ''{}'') k =
           Inr \<lparr>v_normalized = ''{}'', v_parsed = A_json sample_patch\<rparr>"
proof -
  have "py_strip ''{}'' = ''{}''" "fence_match ''{}'' = None" "contains_text backticks ''{}'' = False"
    "validate_source_delta sample_patch = Inr ()" by code_simp+
  with assms show ?thesis
    by (simp add: validate_response_def strip_complete_fence_def validate_artifact_def sample_chater_def from_parse_def del: contains_text.simps)
qed

lemma sample_chat:
  "\<exists>s'. chat_llm sample_env (ct_parsers sample_chater) [] ''parser_evolve'' (new_chat ()) = (Inr ''{}'', s')"
proof -
  let ?k = "response_contract_for_usage None ''parser_evolve''"
  have "c_kind ?k = K_source_delta" "c_max_chars ?k = 100000"
    by (simp_all add: response_contract_for_usage_def CONTRACTS_def contract_of_def base_contract_def Let_def
        py_strip_def is_space_c_def code_of_def)
  then have "validate_response (ct_parsers sample_chater) (Content ''{}'') ?k =
      Inr \<lparr>v_normalized = ''{}'', v_parsed = A_json sample_patch\<rparr>" by (intro sample_accepted) simp_all
  then have "check_completion (ct_parsers sample_chater) ?k
      (Some \<lparr>cp_usage = None, cp_choices = Some [(None, Content ''{}'')]\<rparr>) =
      (Content ''{}'', Inr \<lparr>v_normalized = ''{}'', v_parsed = A_json sample_patch\<rparr>)"
    by (simp add: check_completion_def)
  then show ?thesis
    by (simp add: chat_llm_def numeral_eq_Suc chat_attempt_def remaining_time_def sample_env_def out_of_time_def
        finish_completion_def new_chat_def log_event_def)
qed

theorem evolved_source_safe_witness:
  "\<exists>s'. llm_parser_evolve sample_chater [] [] ''a'' [] (new_chat ()) =
          (Inr \<lparr>dr_source = ''b'', dr_changed = True, dr_reason = None\<rparr>, s') \<and>
        answered (new_chat ()) s' \<and> python_ok (ct_parsers sample_chater) ''packet_parser'' ''b''"
proof -
  let ?res = "\<lparr>dr_source = ''b'', dr_changed = True, dr_reason = None\<rparr>"
  obtain s' where chat: "chat_llm sample_env (ct_parsers sample_chater) [] ''parser_evolve'' (new_chat ()) = (Inr ''{}'', s')"
    using sample_chat by blast
  have "c_kind (contract_of K_source_delta) = K_source_delta" "2 \<le> c_max_chars (contract_of K_source_delta)"
    by (simp_all add: contract_of_def base_contract_def)
  note delta = sample_accepted[OF this]
  have ok: "validate_response (ct_parsers sample_chater) (Content ''b'') (unfenced ''packet_parser'') =
      Inr \<lparr>v_normalized = ''b'', v_parsed = A_functions [''packet_parser'']\<rparr>"
  proof -
    have "py_strip ''b'' = ''b''" "fence_match ''b'' = None" "contains_text backticks ''b'' = False" by code_simp+
    then show ?thesis
      by (simp add: validate_response_def strip_complete_fence_def validate_artifact_def validate_python_def sample_chater_def
          from_parse_def unfenced_def python_contract_def contract_of_def base_contract_def del: contains_text.simps)
  qed
  have applied: "apply_source_delta (ct_sha sample_chater) ''a'' (entries_of sample_patch) = Inr ?res" by code_simp
  have "apply_python_delta sample_chater ''a'' ''packet_parser'' ''{}'' = Inr ?res"
    by (simp add: apply_python_delta_def accepted_as_def delta object_of_def applied ok)
  moreover have "ct_env sample_chater = sample_env" "ct_templates sample_chater t = []" for t
    by (simp_all add: sample_chater_def)
  ultimately have run: "llm_parser_evolve sample_chater [] [] ''a'' [] (new_chat ()) = (Inr ?res, s')"
    by (simp add: llm_parser_evolve_def split_beta then_do_def ask_def chat on_answer_def)
  have "(llm_parser_evolve sample_chater [] [] ''a'' [], ''a'', ''packet_parser'') \<in>
      {(llm_generator_evolve sample_chater [] [] [] ''a'' [] [] [] [], ''a'', ''generate''),
       (llm_parser_evolve sample_chater [] [] ''a'' [], ''a'', ''packet_parser''),
       (llm_observer_evolve sample_chater [] [] [] ''a'' [], ''a'', ''packet_observer''),
       (llm_checker_evolve sample_chater [] [] ''a'' [] [], ''a'', ''packet_checker'')}" by blast
  from evolved_source_safe[OF this run] show ?thesis using run by auto
qed

section \<open>Extracting what was accepted\<close>

lemma chat_accepted:
  assumes "chat_llm env ps prompt usage s = (Inr t, s')"
  shows "\<exists>content v. validate_response ps content (response_contract_for_usage (ce_max_chars env) usage) = Inr v \<and> t = v_normalized v"
  using tries_outcome[OF assms[unfolded chat_llm_def]] by (auto simp: chat_end_def)

lemma contract_of_usage:
  "map_of CONTRACTS (py_strip usage) = Some k \<Longrightarrow> \<exists>m. response_contract_for_usage n usage = k\<lparr>c_max_chars := m\<rparr>"
  by (auto simp: response_contract_for_usage_def Let_def)

lemma default_limit: "map_of CONTRACTS u = Some k \<Longrightarrow> c_max_chars k = 100000"
  by (auto simp: CONTRACTS_def contract_of_def base_contract_def python_contract_def json_contract_def split: if_splits)


text \<open>A text over the default limit is refused by the second validation, whatever limit is configured.\<close>

lemma configured_limit_ignored:
  assumes "100000 < length t"
  shows "code_extract c required t = Inl (Refused (Invalid ''response_too_large'')) \<or> py_strip t = []"
    "json_extract c schema t = Inl (Refused (Invalid ''response_too_large'')) \<or> py_strip t = []"
  using assms
  by (simp_all add: code_extract_def json_extract_def normalized_by_def accepted_as_def validate_response_def
      python_contract_def json_contract_def contract_of_def base_contract_def)


end
