(* ===== verification/Spec_Types.thy ===== *)
theory Spec_Types imports Ir_Delta begin

text \<open>
  The message types of a protocol (\<open>voltron/rfcparser/rfc_parser.py\<close>): the checks of what the model answers
  about fields and types, the types these rules name, the catalog of SMTP reply codes, and the metadata built
  without a specification, with its file.  Sets of types are lists without repetition here; their order is not
  specified.  \<open>str\<close> of a float, a list or an object is a parameter.
\<close>

section \<open>Checks\<close>

definition FIELD_KEYS :: "string list" where
  "FIELD_KEYS = [''field_name'', ''position'', ''explanation'', ''value'']"

text \<open>One element: its length, then its keys.\<close>

fun field_element :: "json \<Rightarrow> string + bool" where
  "field_element (J_dict d) = Inr (length d = 4 \<and> list_all (\<lambda>e. fst e \<in> set FIELD_KEYS) d)"
| "field_element (J_list xs) = (if length xs \<noteq> 4 then Inr False else Inl ''AttributeError'')"
| "field_element (J_str s) = (if length s \<noteq> 4 then Inr False else Inl ''AttributeError'')"
| "field_element v = Inl ''TypeError''"

fun all_elements :: "json list \<Rightarrow> string + bool" where
  "all_elements [] = Inr True"
| "all_elements (x # xs) = rbind (field_element x) (\<lambda>ok. if ok then all_elements xs else Inr False)"

text \<open>\<open>_req_field_check\<close> and \<open>_res_field_check\<close> are the same code; iteration goes over keys and characters too.\<close>

fun field_check :: "json \<Rightarrow> string + bool" where
  "field_check (J_list xs) = all_elements xs"
| "field_check (J_dict d) = all_elements (map (J_str \<circ> fst) d)"
| "field_check (J_str s) = all_elements (map (\<lambda>c. J_str [c]) s)"
| "field_check v = Inl ''TypeError''"

definition rule_item_check :: "json \<Rightarrow> bool" where
  "rule_item_check v \<longleftrightarrow>
     is_dict v \<and>
     (let d = entries_of v in
        is_str (py_get d ''type_name'') \<and> \<not> prints_blank (py_get d ''type_name'') \<and>
        is_dict (py_get d ''field_values'') \<and> entries_of (py_get d ''field_values'') \<noteq> [] \<and>
        list_all (\<lambda>e. \<not> prints_blank (snd e)) (entries_of (py_get d ''field_values'')) \<and>
        is_str (py_get d ''explanation''))"

definition type_rules_check :: "json \<Rightarrow> string \<Rightarrow> bool" where
  "type_rules_check v direction \<longleftrightarrow>
     is_dict v \<and>
     (let d = entries_of v in
        py_get d ''message_direction'' = J_str direction \<and>
        is_list (py_get d ''primary_fields'') \<and> list_all is_str (items_of (py_get d ''primary_fields'')) \<and>
        is_list (py_get d ''types'') \<and> list_all rule_item_check (items_of (py_get d ''types'')))"

fun text_of :: "json \<Rightarrow> string" where
  "text_of (J_str s) = s"
| "text_of _ = []"

definition section_types_check :: "json \<Rightarrow> string list \<Rightarrow> string list \<Rightarrow> bool" where
  "section_types_check v allowed_request_types allowed_response_types \<longleftrightarrow>
     is_dict v \<and>
     (let req = py_get (entries_of v) ''request_types''; res = py_get (entries_of v) ''response_types'' in
        is_list req \<and> is_list res \<and> list_all is_str (items_of req) \<and> list_all is_str (items_of res) \<and>
        set (map text_of (items_of req)) \<subseteq> set allowed_request_types \<and>
        set (map text_of (items_of res)) \<subseteq> set allowed_response_types)"

section \<open>Types\<close>

definition type_names :: "json list \<Rightarrow> string list" where
  "type_names items =
     map (\<lambda>v. py_strip (text_of (py_get (entries_of v) ''type_name'')))
       (filter (\<lambda>v. is_dict v \<and> is_str (py_get (entries_of v) ''type_name'') \<and>
                     py_strip (text_of (py_get (entries_of v) ''type_name'')) \<noteq> []) items)"

text \<open>\<open>list(v)\<close>\<close>

fun py_list :: "json \<Rightarrow> string + json list" where
  "py_list (J_list xs) = Inr xs"
| "py_list (J_dict d) = Inr (map (J_str \<circ> fst) d)"
| "py_list (J_str s) = Inr (map (\<lambda>c. J_str [c]) s)"
| "py_list v = Inl ''TypeError''"

definition types_from_rules :: "json \<Rightarrow> string + string list" where
  "types_from_rules rules =
     (case rules of
        J_dict d \<Rightarrow> rbind (py_list (get_default (J_list []) d ''types'')) (\<lambda>items. Inr (py_set (type_names items)))
      | _ \<Rightarrow> Inr [])"

definition show_int :: "int \<Rightarrow> string" where
  "show_int n = (if n < 0 then CHR ''-'' # show_nat (nat (- n)) else show_nat (nat n))"

fun py_str :: "(json \<Rightarrow> string) \<Rightarrow> json \<Rightarrow> string" where
  "py_str other J_null = ''None''"
| "py_str other (J_bool b) = (if b then ''True'' else ''False'')"
| "py_str other (J_int n) = show_int n"
| "py_str other (J_str s) = s"
| "py_str other v = other v"

definition types_from_field_values :: "(json \<Rightarrow> string) \<Rightarrow> (string \<times> json) list list \<Rightarrow> string list" where
  "types_from_field_values other fs =
     (case fs of
        [] \<Rightarrow> []
      | f # _ \<Rightarrow>
          (case py_get f ''value'' of
             J_list vs \<Rightarrow> py_set (filter (\<lambda>t. py_strip t \<noteq> []) (map (py_str other) (filter (\<lambda>v. v \<noteq> J_null) vs)))
           | _ \<Rightarrow> []))"

section \<open>SMTP\<close>

definition SMTP_REPLY_CODE_CATALOG :: "(string \<times> string) list" where
  "SMTP_REPLY_CODE_CATALOG =
     [(''211'', ''System status or system help reply (RFC 5321).''),
      (''214'', ''Help message reply (RFC 5321).''),
      (''220'', ''Service ready (RFC 5321).''),
      (''221'', ''Service closing transmission channel (RFC 5321).''),
      (''235'', ''Authentication successful (RFC 4954).''),
      (''250'', ''Requested mail action completed (RFC 5321).''),
      (''251'', ''User not local; will forward (RFC 5321).''),
      (''252'', ''Cannot verify user, but will accept message (RFC 5321).''),
      (''334'', ''Authentication challenge (RFC 4954).''),
      (''354'', ''Start mail input (RFC 5321).''),
      (''421'', ''Service not available (RFC 5321).''),
      (''432'', ''Temporary authentication failure (RFC 4954).''),
      (''450'', ''Mailbox unavailable (RFC 5321).''),
      (''451'', ''Requested action aborted (RFC 5321).''),
      (''452'', ''Insufficient system storage (RFC 5321).''),
      (''454'', ''Temporary authentication or TLS failure (RFC 4954/RFC 3207).''),
      (''455'', ''Server unable to accommodate parameters (RFC 5321).''),
      (''458'', ''Unable to process ETRN command (RFC 1985).''),
      (''459'', ''ETRN parameter not recognized (RFC 1985).''),
      (''500'', ''Syntax error, command unrecognized (RFC 5321).''),
      (''501'', ''Syntax error in parameters (RFC 5321).''),
      (''502'', ''Command not implemented (RFC 5321).''),
      (''503'', ''Bad sequence of commands (RFC 5321).''),
      (''504'', ''Command parameter not implemented (RFC 5321).''),
      (''530'', ''Must issue STARTTLS command first (RFC 3207).''),
      (''534'', ''Authentication mechanism too weak (RFC 4954).''),
      (''535'', ''Authentication credentials invalid (RFC 4954).''),
      (''538'', ''Encryption required for authentication (RFC 4954; deprecated).''),
      (''550'', ''Mailbox unavailable (RFC 5321).''),
      (''551'', ''User not local (RFC 5321).''),
      (''552'', ''Exceeded storage allocation (RFC 5321).''),
      (''553'', ''Mailbox name not allowed (RFC 5321).''),
      (''554'', ''Transaction failed (RFC 5321).''),
      (''555'', ''MAIL FROM or RCPT TO parameters not recognized (RFC 5321).'')]"

text \<open>\<open>dict\<close> update: a key keeps its place.\<close>

fun dset :: "string \<Rightarrow> json \<Rightarrow> (string \<times> json) list \<Rightarrow> (string \<times> json) list" where
  "dset k v [] = [(k, v)]"
| "dset k v (e # d) = (if fst e = k then (k, v) # d else e # dset k v d)"

definition smtp_rule :: "string \<Rightarrow> string \<times> string \<Rightarrow> json" where
  "smtp_rule field_name entry =
     J_dict [(''type_name'', J_str (fst entry)), (''field_values'', J_dict [(field_name, J_str (fst entry))]),
             (''explanation'', J_str (snd entry))]"

definition smtp_rules :: "string \<Rightarrow> json" where
  "smtp_rules field_name =
     J_dict [(''message_direction'', J_str ''response''), (''primary_fields'', J_list [J_str field_name]),
             (''types'', J_list (map (smtp_rule field_name) SMTP_REPLY_CODE_CATALOG))]"

fun replace_first :: "('a \<Rightarrow> bool) \<Rightarrow> ('a \<Rightarrow> 'a) \<Rightarrow> 'a list \<Rightarrow> 'a list" where
  "replace_first p f [] = []"
| "replace_first p f (x # xs) = (if p x then f x # xs else x # replace_first p f xs)"

text \<open>\<open>str(field.get('field_name', ''))\<close> is the empty text for a field without a name.\<close>

definition field_name_of :: "(json \<Rightarrow> string) \<Rightarrow> (string \<times> json) list \<Rightarrow> string" where
  "field_name_of other f = (case map_of f ''field_name'' of None \<Rightarrow> [] | Some v \<Rightarrow> py_str other v)"

definition is_reply_field :: "(json \<Rightarrow> string) \<Rightarrow> (string \<times> json) list \<Rightarrow> bool" where
  "is_reply_field other f \<longleftrightarrow> py_lower (field_name_of other f) = ''smtp reply code''"

definition apply_smtp_response_catalog ::
  "(json \<Rightarrow> string) \<Rightarrow> string \<Rightarrow> (string \<times> json) list list \<Rightarrow> json \<Rightarrow>
     (string \<times> json) list list \<times> json" where
  "apply_smtp_response_catalog other pro_name fs rules =
     (if py_lower pro_name \<noteq> ''smtp'' then (fs, rules)
      else case find (is_reply_field other) fs of
        None \<Rightarrow> (fs, rules)
      | Some reply \<Rightarrow>
          (replace_first (is_reply_field other) (dset ''value'' (J_list (map (J_str \<circ> fst) SMTP_REPLY_CODE_CATALOG))) fs,
           smtp_rules (field_name_of other reply)))"

section \<open>Without a specification\<close>

record spec =
  sp_req_fields :: "json list"
  sp_res_fields :: "json list"
  sp_req_rules :: json
  sp_res_rules :: json
  sp_req_json :: "json list"
  sp_res_json :: "json list"
  sp_req_types :: "string list"
  sp_res_types :: "string list"
  sp_req_dep_map :: "(string \<times> (string \<times> json) list) list"
  sp_poss_res :: "(string \<times> json) list"
  sp_req_ir :: "node option"
  sp_res_ir :: "node option"

fun truthy :: "json \<Rightarrow> bool" where
  "truthy J_null = False"
| "truthy (J_bool b) = b"
| "truthy (J_int n) = (n \<noteq> 0)"
| "truthy (J_float (Finite q)) = (q \<noteq> 0)"
| "truthy (J_float _) = True"
| "truthy (J_str s) = (s \<noteq> [])"
| "truthy (J_list xs) = (xs \<noteq> [])"
| "truthy (J_dict d) = (d \<noteq> [])"

text \<open>\<open>str(v or default)\<close>\<close>

definition str_or :: "(json \<Rightarrow> string) \<Rightarrow> json \<Rightarrow> string \<Rightarrow> string" where
  "str_or other v dflt = (if truthy v then py_str other v else dflt)"

definition bootstrap_rule :: "(json \<Rightarrow> string) \<Rightarrow> string \<Rightarrow> json \<Rightarrow> json list" where
  "bootstrap_rule other field_name item =
     (case item of
        J_dict d \<Rightarrow>
          (let name = py_strip (str_or other (py_get d ''type_name'') []);
               v = py_strip (str_or other (py_get d ''wire_value'') [])
           in if name \<noteq> [] \<and> v \<noteq> []
              then [J_dict [(''type_name'', J_str name), (''field_values'', J_dict [(field_name, J_str v)]),
                            (''explanation'', J_str (str_or other (py_get d ''explanation'') []))]]
              else [])
      | _ \<Rightarrow> [])"

definition normalize :: "(json \<Rightarrow> string) \<Rightarrow> string \<Rightarrow> (string \<times> json) list \<Rightarrow> string + string \<times> json list" where
  "normalize other direction catalog =
     (let field_name = py_strip (str_or other (py_get catalog ''field_name'') (direction @ '' type''));
          raw_types = py_get catalog ''types'';
          types = concat (map (bootstrap_rule other field_name) (items_of raw_types))
      in if field_name = [] \<or> \<not> is_list raw_types then Inl ''RuntimeError''
         else if types = [] then Inl ''RuntimeError''
         else Inr (field_name, types))"

definition rules_of :: "string \<Rightarrow> string \<Rightarrow> json list \<Rightarrow> json" where
  "rules_of direction field_name types =
     J_dict [(''message_direction'', J_str direction), (''primary_fields'', J_list [J_str field_name]),
             (''types'', J_list types)]"

text \<open>\<open>v[k]\<close> for a text \<open>k\<close>.\<close>

definition get_item :: "json \<Rightarrow> string \<Rightarrow> string + json" where
  "get_item v k =
     (case v of
        J_dict d \<Rightarrow> (case map_of d k of None \<Rightarrow> Inl ''KeyError'' | Some x \<Rightarrow> Inr x)
      | _ \<Rightarrow> Inl ''TypeError'')"

fun as_text :: "json \<Rightarrow> string + string" where
  "as_text (J_str s) = Inr s"
| "as_text _ = Inl ''TypeError''"

text \<open>The message of a rule; the package may refuse the attributes.\<close>

definition sub_element :: "lxml \<Rightarrow> (string \<times> string) list \<Rightarrow> 'a \<Rightarrow> string + 'a" where
  "sub_element lx a x = (case lx_element_raises lx a of None \<Rightarrow> Inr x | Some e \<Rightarrow> Inl e)"

definition rule_message :: "lxml \<Rightarrow> string \<Rightarrow> json \<Rightarrow> string + node" where
  "rule_message lx field_name rule =
     rbind (rbind (get_item rule ''type_name'') as_text) (\<lambda>name.
     let ma = [(''name'', name), (''direction'', ''request'')] in
     rbind (sub_element lx ma ()) (\<lambda>_.
     rbind (rbind (rbind (get_item rule ''field_values'') (\<lambda>fv. get_item fv field_name)) as_text) (\<lambda>v.
     let fa = [(''name'', field_name), (''type'', ''constant''), (''length'', ''undefined''), (''value'', v)] in
     sub_element lx fa (Element ''message'' ma [] [Element ''field'' fa [] [] []] []))))"

definition rules_ir :: "lxml \<Rightarrow> string \<Rightarrow> json list \<Rightarrow> string + node" where
  "rules_ir lx field_name rules = rbind (rmap (rule_message lx field_name) rules) (\<lambda>ms. Inr (Element ''ir'' [] [] ms []))"

definition field_info :: "(json \<Rightarrow> string) \<Rightarrow> string \<Rightarrow> string \<Rightarrow> json list \<Rightarrow> json" where
  "field_info other field_name position rules =
     J_dict [(''field_name'', J_str field_name), (''position'', J_str position),
             (''explanation'', J_str ''LLM-only bootstrap; no RFC or IR context used.''),
             (''value'', J_list (map (\<lambda>r. py_get (entries_of (py_get (entries_of r) ''field_values'')) field_name) rules))]"

definition bootstrap_without_specification ::
  "lxml \<Rightarrow> (json \<Rightarrow> string) \<Rightarrow> (string \<times> json) list \<Rightarrow> string + spec" where
  "bootstrap_without_specification lx other payload =
     (case (py_get payload ''request'', py_get payload ''response'') of
        (J_dict request, J_dict response) \<Rightarrow>
          rbind (normalize other ''request'' request) (\<lambda>(req_field, req_rules).
          rbind (normalize other ''response'' response) (\<lambda>(res_field, res_rules).
          let req = rules_of ''request'' req_field req_rules; res = rules_of ''response'' res_field res_rules in
          rbind (types_from_rules req) (\<lambda>req_types.
          rbind (types_from_rules res) (\<lambda>res_types.
          rbind (rules_ir lx req_field req_rules) (\<lambda>ir.
            Inr \<lparr>sp_req_fields = [J_str req_field], sp_res_fields = [J_str res_field],
                 sp_req_rules = req, sp_res_rules = res,
                 sp_req_json = [field_info other req_field ''protocol-defined request discriminator'' req_rules],
                 sp_res_json = [field_info other res_field (str_or other (py_get response ''wire_hint'') ''response discriminator'')
                                  res_rules],
                 sp_req_types = req_types, sp_res_types = res_types,
                 sp_req_dep_map = [], sp_poss_res = [], sp_req_ir = Some ir, sp_res_ir = None\<rparr>)))))
      | _ \<Rightarrow> Inl ''RuntimeError'')"

text \<open>The file holds JSON; reading back what was written gives the same value.\<close>

definition save_no_spec_bootstrap :: "spec \<Rightarrow> json" where
  "save_no_spec_bootstrap sp =
     J_dict [(''format'', J_int 1), (''req_fields'', J_list (sp_req_fields sp)), (''res_fields'', J_list (sp_res_fields sp)),
             (''req_type_rules'', sp_req_rules sp), (''res_type_rules'', sp_res_rules sp),
             (''req_json'', J_list (sp_req_json sp)), (''res_json'', J_list (sp_res_json sp))]"

fun equals_one :: "json \<Rightarrow> bool" where
  "equals_one (J_int n) = (n = 1)"
| "equals_one (J_bool b) = b"
| "equals_one (J_float (Finite q)) = (q = 1)"
| "equals_one v = False"

text \<open>\<open>dict(v)\<close>; the list of pairs that Python would also take is refused here.\<close>

fun py_dict :: "json \<Rightarrow> string + json" where
  "py_dict (J_dict d) = Inr (J_dict d)"
| "py_dict (J_list []) = Inr (J_dict [])"
| "py_dict (J_str []) = Inr (J_dict [])"
| "py_dict v = Inl ''TypeError''"

definition load_no_spec_bootstrap :: "lxml \<Rightarrow> json parse option \<Rightarrow> string + spec" where
  "load_no_spec_bootstrap lx file =
     (case file of
        None \<Rightarrow> Inl ''FileNotFoundError''
      | Some Parse_error \<Rightarrow> Inl ''JSONDecodeError''
      | Some (Parse_raises e) \<Rightarrow> Inl e
      | Some (Parsed payload) \<Rightarrow>
          if \<not> is_dict payload then Inl ''AttributeError''
          else if \<not> equals_one (py_get (entries_of payload) ''format'') then Inl ''RuntimeError''
          else
            rbind (rbind (get_item payload ''req_fields'') py_list) (\<lambda>req_fields.
            rbind (rbind (get_item payload ''res_fields'') py_list) (\<lambda>res_fields.
            rbind (rbind (get_item payload ''req_type_rules'') py_dict) (\<lambda>req_rules.
            rbind (rbind (get_item payload ''res_type_rules'') py_dict) (\<lambda>res_rules.
            rbind (rbind (get_item payload ''req_json'') py_list) (\<lambda>req_json.
            rbind (rbind (get_item payload ''res_json'') py_list) (\<lambda>res_json.
            rbind (types_from_rules req_rules) (\<lambda>req_types.
            rbind (types_from_rules res_rules) (\<lambda>res_types.
            rbind (case req_fields of [] \<Rightarrow> Inl ''IndexError'' | f # _ \<Rightarrow> as_text f) (\<lambda>field_name.
            rbind (rbind (get_item req_rules ''types'') py_list) (\<lambda>rules.
            rbind (rules_ir lx field_name rules) (\<lambda>ir.
              Inr \<lparr>sp_req_fields = req_fields, sp_res_fields = res_fields, sp_req_rules = req_rules, sp_res_rules = res_rules,
                   sp_req_json = req_json, sp_res_json = res_json,
                   sp_req_types = req_types, sp_res_types = res_types,
                   sp_req_dep_map = [], sp_poss_res = [], sp_req_ir = Some ir, sp_res_ir = None\<rparr>))))))))))))"

section \<open>The two sets of checks\<close>

lemma list_all_checks: "(\<forall>x \<in> set xs. f x = Inr ()) \<longleftrightarrow> list_all (\<lambda>x. f x = Inr ()) xs"
  by (simp add: list_all_iff)

lemma key_present: "k \<in> fst ` set d \<longleftrightarrow> map_of d k \<noteq> None"
  by (simp add: map_of_eq_None_iff)

lemma get_present: "py_get d k \<noteq> J_null \<Longrightarrow> k \<in> fst ` set d"
  by (auto simp: py_get_def key_present split: option.splits)

lemma type_rule_item_ok: "type_rule_item v = Inr () \<longleftrightarrow> rule_item_check v"
proof -
  have "is_str x \<Longrightarrow> x \<noteq> J_null" "is_dict x \<Longrightarrow> x \<noteq> J_null" for x by (cases x; simp)+
  then have "rule_item_check v \<Longrightarrow> {''type_name'', ''field_values'', ''explanation''} \<subseteq> fst ` set (entries_of v)"
    by (auto simp: rule_item_check_def Let_def intro!: get_present)
  then show ?thesis
    by (auto simp: type_rule_item_def rule_item_check_def Let_def require_keys_def member_get)
qed

lemma type_rules_ok: "type_rules direction d = Inr () \<longleftrightarrow> type_rules_check (J_dict d) direction"
proof -
  have "is_list x \<Longrightarrow> x \<noteq> J_null" for x by (cases x; simp)
  then have "type_rules_check (J_dict d) direction \<Longrightarrow> {''message_direction'', ''primary_fields'', ''types''} \<subseteq> fst ` set d"
    by (auto simp: type_rules_check_def Let_def intro!: get_present)
  then show ?thesis
    by (auto simp: type_rules_def type_rules_check_def Let_def require_keys_def member_get string_list_def
        type_rule_item_ok list_all_iff)
qed

lemma section_types_ok:
  "section_types_check v allowed_req allowed_res \<longleftrightarrow>
     validate_json_schema v ''section_type_annotation'' = Inr () \<and>
     set (map text_of (items_of (py_get (entries_of v) ''request_types''))) \<subseteq> set allowed_req \<and>
     set (map text_of (items_of (py_get (entries_of v) ''response_types''))) \<subseteq> set allowed_res"
proof -
  have "is_list x \<Longrightarrow> x \<noteq> J_null" for x by (cases x; simp)
  then have "section_types_check v allowed_req allowed_res \<Longrightarrow>
      {''request_types'', ''response_types''} \<subseteq> fst ` set (entries_of v)"
    by (auto simp: section_types_check_def Let_def intro!: get_present)
  then show ?thesis
    by (auto simp: section_types_check_def validate_json_schema_def Let_def require_keys_def member_get string_list_def)
qed

lemma all_elements_dicts: "\<forall>x \<in> set xs. field_element x = Inr True \<Longrightarrow> all_elements xs = Inr True"
  by (induction xs) auto

text \<open>Keys of an object are distinct, as \<open>json.loads\<close> makes them.\<close>

definition distinct_keys :: "json \<Rightarrow> bool" where
  "distinct_keys v \<longleftrightarrow> distinct (map fst (entries_of v))"

lemma field_item_element:
  assumes "field_item v = Inr ()" "distinct_keys v"
  shows "field_element v = Inr True"
proof -
  from assms(1) obtain d where d: "v = J_dict d" "fst ` set d = set FIELD_KEYS"
    by (cases v) (auto simp: field_item_def FIELD_KEYS_def)
  have "length d = card (fst ` set d)"
    using assms(2) d(1) distinct_card[of "map fst d"] by (simp add: distinct_keys_def)
  also have "\<dots> = 4" unfolding d(2) by (simp add: FIELD_KEYS_def)
  finally show ?thesis using d by (auto simp: list_all_iff)
qed

lemma field_check_accepts:
  assumes "validate_json_schema v ''field_query'' = Inr ()" "list_all distinct_keys (items_of v)"
  shows "field_check v = Inr True"
  using assms by (cases v) (auto simp: validate_json_schema_def field_query_def list_all_iff
      intro!: all_elements_dicts field_item_element)

text \<open>
  What the chat accepted as type rules or as the types of a section is what the parser accepts again, no more
  and no less, so a question is never repeated because of the second check of an answer, but for section types
  that are not among the known ones.
\<close>

theorem second_checks_agree:
  "(validate_json_schema v ''request_type_rules'' = Inr () \<longleftrightarrow> type_rules_check v ''request'') \<and>
   (validate_json_schema v ''response_type_rules'' = Inr () \<longleftrightarrow> type_rules_check v ''response'') \<and>
   (section_types_check v allowed_req allowed_res \<longleftrightarrow>
      validate_json_schema v ''section_type_annotation'' = Inr () \<and>
      set (map text_of (items_of (py_get (entries_of v) ''request_types''))) \<subseteq> set allowed_req \<and>
      set (map text_of (items_of (py_get (entries_of v) ''response_types''))) \<subseteq> set allowed_res)"
proof -
  have dict: "is_dict v \<longleftrightarrow> (\<exists>d. v = J_dict d)" by (cases v) simp_all
  have rules: "validate_json_schema v (direction @ ''_type_rules'') = Inr () \<longleftrightarrow> type_rules_check v direction"
    if "direction = ''request'' \<or> direction = ''response''" for direction
  proof (cases "is_dict v")
    case True
    with that show ?thesis by (auto simp: dict validate_json_schema_def type_rules_ok)
  next
    case False
    with that show ?thesis by (auto simp: validate_json_schema_def type_rules_check_def)
  qed
  show ?thesis using rules[of "''request''"] rules[of "''response''"] section_types_ok by auto
qed

section \<open>The catalog\<close>

lemma map_of_dset: "map_of (dset k v d) j = (if j = k then Some v else map_of d j)"
  by (induction d) auto

lemma dset_twice: "dset k v (dset k v d) = dset k v d"
  by (induction d) auto

lemma replace_first_twice:
  assumes "\<And>x. p (f x) = p x" "\<And>x. f (f x) = f x"
  shows "replace_first p f (replace_first p f xs) = replace_first p f xs"
  by (induction xs) (auto simp: assms)

lemma find_replace_first:
  assumes "\<And>x. p (f x) = p x"
  shows "find p (replace_first p f xs) = map_option f (find p xs)"
  by (induction xs) (auto simp: assms)

lemma reply_name_dset: "field_name_of other (dset ''value'' v f) = field_name_of other f"
  by (simp add: field_name_of_def map_of_dset)

lemma find_length: "find p xs = Some x \<Longrightarrow> x \<in> set xs \<and> p x"
  by (auto simp: find_Some_iff)

lemma type_names_smtp:
  "type_names (map (smtp_rule name) entries) = filter (\<lambda>t. t \<noteq> []) (map (py_strip \<circ> fst) entries)"
  by (induction entries) (auto simp: type_names_def smtp_rule_def py_get_def)

lemma catalog_codes: "filter (\<lambda>t. t \<noteq> []) (map (py_strip \<circ> fst) SMTP_REPLY_CODE_CATALOG) = map fst SMTP_REPLY_CODE_CATALOG"
  by code_simp

text \<open>
  Normalizing the SMTP response types twice is normalizing them once, so a later run rewrites no file.  It only
  acts on the protocol with a reply code field; then it changes no other field, keeps the number and the names
  of fields, and the response types are exactly the codes of the catalog, each once.
\<close>

theorem smtp_catalog_normal_form:
  assumes "apply_smtp_response_catalog other pro_name fs rules = (fs', rules')"
  shows "apply_smtp_response_catalog other pro_name fs' rules' = (fs', rules') \<and>
     map (field_name_of other) fs' = map (field_name_of other) fs \<and>
     (\<forall>i < length fs. fs' ! i = fs ! i \<or> is_reply_field other (fs ! i)) \<and>
     (if py_lower pro_name = ''smtp'' \<and> (\<exists>f \<in> set fs. is_reply_field other f)
      then types_from_rules rules' = Inr (map fst SMTP_REPLY_CODE_CATALOG) \<and> distinct (map fst SMTP_REPLY_CODE_CATALOG)
      else fs' = fs \<and> rules' = rules)"
proof (cases "py_lower pro_name = ''smtp'' \<and> (\<exists>f \<in> set fs. is_reply_field other f)")
  case False
  then have "py_lower pro_name \<noteq> ''smtp'' \<or> find (is_reply_field other) fs = None" by (auto simp: find_None_iff)
  with assms False show ?thesis by (auto simp: apply_smtp_response_catalog_def split: option.splits)
next
  case True
  let ?p = "is_reply_field other" and ?f = "dset ''value'' (J_list (map (J_str \<circ> fst) SMTP_REPLY_CODE_CATALOG))"
  from True obtain reply where reply: "find ?p fs = Some reply"
    by (cases "find ?p fs") (auto simp: find_None_iff)
  have r: "fs' = replace_first ?p ?f fs" "rules' = smtp_rules (field_name_of other reply)"
    using assms True reply by (auto simp: apply_smtp_response_catalog_def)
  have keep: "?p (?f x) = ?p x" "?f (?f x) = ?f x" for x
    by (simp_all add: is_reply_field_def reply_name_dset dset_twice)
  have "find ?p fs' = Some (?f reply)" using find_replace_first[of ?p ?f fs] keep(1) reply by (simp add: r(1))
  then have again: "apply_smtp_response_catalog other pro_name fs' rules' = (fs', rules')"
    using True r replace_first_twice[of ?p ?f fs] keep
    by (simp add: apply_smtp_response_catalog_def reply_name_dset)
  have names: "map (field_name_of other) (replace_first ?p ?f xs) = map (field_name_of other) xs" for xs
    by (induction xs) (auto simp: reply_name_dset)
  have others: "replace_first ?p ?f xs ! i = xs ! i \<or> ?p (xs ! i)" if "i < length xs" for xs i
    using that by (induction xs arbitrary: i) (auto simp: nth_Cons split: nat.splits)
  have codes: "distinct (map fst SMTP_REPLY_CODE_CATALOG)" by code_simp
  have "types_from_rules rules' = Inr (py_set (map fst SMTP_REPLY_CODE_CATALOG))"
    by (simp add: r(2) smtp_rules_def types_from_rules_def get_default_def type_names_smtp catalog_codes)
  moreover have "py_set (map fst SMTP_REPLY_CODE_CATALOG) = map fst SMTP_REPLY_CODE_CATALOG" by code_simp
  ultimately show ?thesis using True again names[of fs] others[of _ fs] codes r(1) by simp
qed

section \<open>Saving and loading\<close>

lemma py_list_J_list [simp]: "py_list (J_list xs) = Inr xs"
  by simp

text \<open>
  C40. Loading the file written after a run without a specification gives the metadata of that run, the types, the
  message format and its values included.
\<close>

theorem bootstrap_roundtrip:
  assumes "bootstrap_without_specification lx other payload = Inr sp"
  shows "load_no_spec_bootstrap lx (Some (Parsed (save_no_spec_bootstrap sp))) = Inr sp"
proof -
  from assms obtain req_field req_rules res_field res_rules req_types res_types ir request response where b:
    "types_from_rules (rules_of ''request'' req_field req_rules) = Inr req_types"
    "types_from_rules (rules_of ''response'' res_field res_rules) = Inr res_types"
    "rules_ir lx req_field req_rules = Inr ir"
    "sp = \<lparr>sp_req_fields = [J_str req_field], sp_res_fields = [J_str res_field],
                 sp_req_rules = rules_of ''request'' req_field req_rules, sp_res_rules = rules_of ''response'' res_field res_rules,
                 sp_req_json = [field_info other req_field ''protocol-defined request discriminator'' req_rules],
                 sp_res_json = [field_info other res_field (str_or other (py_get response ''wire_hint'') ''response discriminator'')
                                  res_rules],
                 sp_req_types = req_types, sp_res_types = res_types,
                 sp_req_dep_map = [], sp_poss_res = [], sp_req_ir = Some ir, sp_res_ir = None\<rparr>"
    by (auto simp: bootstrap_without_specification_def Let_def split: json.splits prod.splits)
  have rules: "py_dict (rules_of d f xs) = Inr (rules_of d f xs)" "get_item (rules_of d f xs) ''types'' = Inr (J_list xs)" for d f xs
    by (simp_all add: rules_of_def get_item_def)
  show ?thesis
    by (simp add: load_no_spec_bootstrap_def save_no_spec_bootstrap_def b get_item_def[of "J_dict _"] py_get_def rules)
qed

text \<open>Instances.\<close>

theorem smtp_catalog_normal_form_witness:
  "let fs = [[(''field_name'', J_str ''SMTP Reply Code''), (''value'', J_list [])]];
       (fs', rules') = apply_smtp_response_catalog (\<lambda>_. []) ''SMTP'' fs J_null
   in types_from_rules rules' = Inr (map fst SMTP_REPLY_CODE_CATALOG) \<and>
      apply_smtp_response_catalog (\<lambda>_. []) ''SMTP'' fs' rules' = (fs', rules')"
proof -
  let ?fs = "[[(''field_name'', J_str ''SMTP Reply Code''), (''value'', J_list [])]]"
  obtain fs' rules' where run: "apply_smtp_response_catalog (\<lambda>_. []) ''SMTP'' ?fs J_null = (fs', rules')"
    by (cases "apply_smtp_response_catalog (\<lambda>_. []) ''SMTP'' ?fs J_null")
  have "py_lower ''SMTP'' = ''smtp''" "is_reply_field (\<lambda>_. []) (hd ?fs)" by code_simp+
  with smtp_catalog_normal_form[OF run] show ?thesis by (simp add: run)
qed

theorem bootstrap_roundtrip_witness:
  "\<exists>sp. bootstrap_without_specification sample_lxml (\<lambda>_. [])
     [(''request'', J_dict [(''field_name'', J_str ''verb''),
        (''types'', J_list [J_dict [(''type_name'', J_str ''A''), (''wire_value'', J_str ''a'')], J_int 1])]),
      (''response'', J_dict [(''types'', J_list [J_dict [(''type_name'', J_str ''R''), (''wire_value'', J_int 2)]])])] = Inr sp \<and>
     sp_req_types sp = [''A''] \<and> load_no_spec_bootstrap sample_lxml (Some (Parsed (save_no_spec_bootstrap sp))) = Inr sp"
proof -
  let ?payload = "[(''request'', J_dict [(''field_name'', J_str ''verb''),
        (''types'', J_list [J_dict [(''type_name'', J_str ''A''), (''wire_value'', J_str ''a'')], J_int 1])]),
      (''response'', J_dict [(''types'', J_list [J_dict [(''type_name'', J_str ''R''), (''wire_value'', J_int 2)]])])]"
  have "case bootstrap_without_specification sample_lxml (\<lambda>_. []) ?payload of Inl _ \<Rightarrow> False | Inr sp \<Rightarrow> sp_req_types sp = [''A'']"
    by code_simp
  then obtain sp where run: "bootstrap_without_specification sample_lxml (\<lambda>_. []) ?payload = Inr sp" "sp_req_types sp = [''A'']"
    by (auto split: sum.splits)
  with bootstrap_roundtrip[OF run(1)] show ?thesis by blast
qed

end
