(* ===== verification/Spec2Isabelle.thy ===== *)
theory Spec2Isabelle
  imports Framing Plausibility Recorder Conversation Automata Obs_Table Table_Learning
    Partial_Guidance Seed_Retention Offline_Mutator Run_Control Metrics Scheduler Scheduling Component_Paths Equipment Mapper Mapper_Facts
    Crash_Detection Listeners Receiving Receiving_Facts Pair_Recorder Interaction Interaction_Facts Membership Response_Queue Response_Components Response_Facts
    Section_Facts Llm_Requests Spec_Types
begin

text \<open>
  A model of voltron, a protocol fuzzer that learns a Mealy machine of a network server and fuzzes
  along it.  The source is \<open>src/voltron/\<close>; paths below are relative to it.

  \<^bold>\<open>How the program works.\<close>  A synthesizer keeps message generators, mutators, a response parser and
  response checkers, all of them Python sources written by a language model, as numbered versions.  The
  mapper runs them in a worker process and has a failing version repaired.  The executor starts the
  target, sends a sequence of messages, cuts what comes back into frames, classifies them with the
  parser and returns the conversation.  The learner asks the membership oracle for such conversations
  and fills its observation table; the fuzzing scheduler goes to a state of the learned machine and
  mutates from there.  Analyzer, seed retention, trace recorder and pair recorder watch the
  conversations, and the run controller stops everything at a deadline.

  \<^bold>\<open>Which theory models what.\<close>
    \<^item> \<open>Prelude\<close>: Python values, exceptions as values, state-passing actions \<open>sbind\<close>, \<open>sattempt\<close> and
      \<open>sfor\<close>, the rules \<open>keeping\<close> for what actions keep and \<open>ends\<close> for how they end, dictionaries.
    \<^item> \<open>Framing\<close>, \<open>Plausibility\<close>: \<open>executor/response_framing.py\<close>, \<open>executor/response_plausibility.py\<close>.
      The locale \<open>frame_splitter\<close> states that frames tile a batch; every splitter is an instance.
    \<^item> \<open>Conversation\<close>, \<open>Recorder\<close>, \<open>Pair_Recorder\<close>: \<open>executor/conversation.py\<close> and
      \<open>executor/pair_recorder.py\<close>; \<open>recorder\<close> is the contract of everything that remembers what it has
      seen, with instances here, in \<open>Seed_Retention\<close> and in \<open>Partial_Guidance\<close>.
    \<^item> \<open>Crash_Detection\<close>, \<open>Listeners\<close>, \<open>Receiving\<close>, \<open>Interaction\<close>: \<open>executor/executor.py\<close>.  In this
      order: \<open>_is_crash\<close> with its regular expressions as derivatives; the listener tables and
      \<open>kill_listeners\<close>; sending, receiving, framing and parsing with repair, rollback and fallback; and
      one interaction from \<open>initialize_environment\<close> to \<open>stop_sut_for_interaction\<close>.  The record \<open>receiver\<close>
      holds the attributes that the network side uses, \<open>session\<close> extends it by those of an interaction.
      \<open>Receiving_Facts\<close> and \<open>Interaction_Facts\<close> prove them correct.
    \<^item> \<open>Response_Components\<close>, \<open>Response_Facts\<close>: the checkers and observers of the same file, with their
      own part of the executor's state (\<open>responder\<close>); an interaction takes their verdicts as answers of
      its environment.  \<open>Response_Queue\<close>: their generation on demand in \<open>synthesizer/synthesizer.py\<close>, a
      step relation over requests and the worker thread.
    \<^item> \<open>Mapper\<close>, \<open>Mapper_Facts\<close>: \<open>executor/mapper.py\<close>, the worker protocol, selection, execution with
      repair and quarantine, the message pool and provenance.
    \<^item> \<open>Component_Paths\<close>, \<open>Equipment\<close>: \<open>synthesizer/component_paths.py\<close> and, of
      \<open>synthesizer/synthesizer.py\<close>, the cache filter, publication and runtime repair of versions.
    \<^item> \<open>Automata\<close>, \<open>Obs_Table\<close>, \<open>Table_Learning\<close>: \<open>learner/automata.py\<close>, \<open>learner/equ_oracle.py\<close> and
      \<open>learner/mlstar.py\<close>.  \<open>teacher\<close> and \<open>finite_teacher\<close> state what the learner needs of the oracle.
    \<^item> \<open>Membership\<close>: \<open>learner/mem_oracle.py\<close>, the oracle that joins mapper, executor, seed retention,
      trace recorder and threshold.
    \<^item> \<open>Partial_Guidance\<close>, \<open>Seed_Retention\<close>, \<open>Offline_Mutator\<close>, \<open>Scheduler\<close>, \<open>Scheduling\<close>:
      \<open>learner/partial_guidance.py\<close> and the modules of \<open>scheduler/\<close>.
    \<^item> \<open>Metrics\<close>, \<open>Run_Control\<close>: \<open>analyzer/analyzer.py\<close> and \<open>run_controller.py\<close>, the latter as an
      inductive step relation over timer, components and owner.
    \<^item> \<open>Section_Scan\<close>, \<open>Section_Tree\<close>, \<open>Section_Facts\<close>: \<open>rfcparser/setciontree.py\<close>, the headings of a
      specification with their scores, and the tree of its sections in a store of nodes, which
      \<open>Section_Facts\<close> shows to hold an \<open>outline\<close>.  \<open>Python_Text\<close>: line splitting and the matching of the
      multi-line patterns.
    \<^item> \<open>Response_Validation\<close>, \<open>Source_Delta\<close>, \<open>Ir_Delta\<close>, \<open>Prompt_Context\<close>, \<open>Ir_Context\<close>,
      \<open>Llm_Chat\<close>, \<open>Llm_Requests\<close>: \<open>llm/\<close>.  In this order: \<open>response_validation.py\<close>, the contract of
      every kind of answer; \<open>incremental.py\<close>, line edits of a source and semantic edits of a protoIR tree;
      and of \<open>chatter.py\<close> the budgets of prompt context, the field tables, the retry loop \<open>chat_llm\<close> and
      all \<open>llm_*\<close> requests.  The executor and the mapper above take a request as one step of their environment.
    \<^item> \<open>Spec_Types\<close>: of \<open>rfcparser/rfc_parser.py\<close> the checks of answers about message types, the SMTP
      catalog and the metadata of a run without a specification.

  \<^bold>\<open>State and effects.\<close>  A class is a record of its attributes, a method an action on it, an exception
  the left value of its result, with the state that the code leaves behind.  What the code does not
  compute itself is a function of an environment record that also changes a world of any type: the
  target and its sockets, the language model, the worker process, running a Python source, clocks, file
  writes that may fail, SHA-256.  The theorems hold for every such record, so for every behaviour of
  these; nothing is assumed of them but where a premise says so (a learner's target that answers
  deterministically).  What another thread does to shared flags is a change of the world.

  \<^bold>\<open>What is shown.\<close>
    \<^item> Learning ends and its hypothesis agrees with the target on all words of the table, and on every
      word when single inputs tell the states apart; giving up sets the stop event.  Comparing two
      machines decides equivalence and gives a distinguishing word.
    \<^item> A receive batch is cut into frames without gap or overlap, every byte belongs to one recorded
      frame, and a call of the parser always answers or raises in one case only.
    \<^item> An interaction releases the target however it ends, and the three sequences of a conversation
      stand in a fixed relation; over any run the records of seeds, crashes, pairs, repairs and
      quarantine agree with each other.  These rest on \<open>receiving_frame\<close>, \<open>session_frame\<close> and
      \<open>session_invariant\<close>, which say what an interaction leaves alone, and on their instances.
    \<^item> A query of the learner shows the guidance exactly the conversation that it answers with.
    \<^item> Checks, reviews and repairs of responses keep their records in agreement, an evaluation always
      answers, and the queue of missing components is always drained by one more request.
    \<^item> A version is never overwritten by publication, only validated sources are published, and a
      filtered cache breaks this.
    \<^item> The scheduler's rounds end within a bound, priorities stay in the unit interval, mutation is
      bounded; a deadline is requested once and the watcher is not lost.
    \<^item> A section tree is built or a skipped level raises, and its leaves cover the document; the float
      scores decide by a rule without arithmetic.
    \<^item> A chat with the language model ends, its text fulfils the contract of its usage and its tokens are
      counted once.  A source comes back unchanged or as another one that parses and defines its function;
      line edits mean the replacement of ranges of the original source, tree edits those of a list of
      blocks, and an edited protoIR is well-formed.  Tables and texts in a prompt keep to their budgets.
    \<^item> The specification parser accepts the type rules that the chat accepts, the SMTP catalog is a normal
      form, and metadata without a specification is read back as it was saved.
    \<^item> Counters, checkpoints and token counts of the analyzer are exact.

  \<^bold>\<open>Bounds and fuel.\<close>  \<open>make_close\<close> and \<open>make_consistent\<close> run on fuel; the learning theorems prove an
  amount that suffices, the number of transitions of the target plus seven.  The energy loop of the
  scheduler has fuel with a proved bound.  All other loops are structural: retries count down from
  their limit (100 launches, 3 queries, 50 requests of a chat, the configured retries), a wait sees a finite list of ticks, and
  the walks of the section tree have as much fuel as the store has nodes, and a poll loop without an end is not a behaviour that the environment offers.  Python's integers are
  \<open>int\<close> or \<open>nat\<close>, bytes are 8-bit words, and the scores of headings are rounded as doubles are.

  \<^bold>\<open>Not modelled.\<close>  Launching processes, opening sockets and lifecycle scripts (they are the operating
  system); writing of reports, manifests and CSV text; the text of prompt templates, the model service, and the
  parsers of JSON, Python and XML; the sandbox that runs generated code; the terminal and web display; reading of configuration files; the post-processing
  scripts.  Left out of the code's own logic: the evolution rounds of the synthesizer, the annotation
  of sections and the generation of message formats in the specification parser, and the driver \<open>fuzz.py\<close>.
\<close>

end
